(* ===== verification/Prelude.thy ===== *)
theory Prelude
  imports Complex_Main "HOL-Library.Word" "HOL-Library.AList" "HOL-Library.State_Monad"
    "HOL-Library.Multiset"
begin

text \<open>
  What the components share: the machine types of the Go and C code, Go's \<open>copy\<close> into a
  fixed-size array, run equations of the state monad, and lemmas on association lists (Go
  maps whose iteration the code uses) and on lists of pointers (Go sets of pointers).
\<close>

unbundle bit_operations_syntax

section \<open>Machine types\<close>

type_synonym u8 = "8 word"
type_synonym u16 = "16 word"
type_synonym u32 = "32 word"
type_synonym u64 = "64 word"

text \<open>A handle (\<open>VLSH\<close>, an \<open>int32\<close>) and every C \<open>int\<close> is an \<open>int\<close>; the conversions from
  unsigned words write the reinterpretation out with \<open>sint\<close>.\<close>

type_synonym handle = int

text \<open>The address arrays \<open>[4]byte\<close> and \<open>[16]byte\<close>.\<close>

type_synonym ip4 = "u8 \<times> u8 \<times> u8 \<times> u8"
type_synonym ip16 = "u8 list"

named_theorems balance_simps \<open>effect of an operation on the balance of session handles\<close>
named_theorems quiet_simps \<open>operations that leave a part of the state alone\<close>

text \<open>\<open>copy(dst[:], src)\<close> into a zeroed array of \<open>n\<close> bytes.\<close>

definition copy_into :: "nat \<Rightarrow> u8 list \<Rightarrow> u8 list" where
  "copy_into n src = take n (src @ replicate n 0)"

lemma length_copy_into [simp]: "length (copy_into n src) = n"
  by (simp add: copy_into_def)

lemma copy_into_full [simp]: "length src = n \<Longrightarrow> copy_into n src = src"
  by (simp add: copy_into_def)

lemma take_copy_into: "length src \<le> n \<Longrightarrow> take (length src) (copy_into n src) = src"
  by (simp add: copy_into_def take_map min_absorb1)

section \<open>Run equations\<close>

text \<open>Runs are kept in projection form, so that an operation that is not unfolded stays visible
  as \<open>fst\<close> and \<open>snd\<close> of its run.\<close>

declare State_Monad.run_state_bind [simp del]

lemma run_bind [simp]:
  "run_state (State_Monad.bind m f) s = run_state (f (fst (run_state m s))) (snd (run_state m s))"
  by (simp add: State_Monad.run_state_bind case_prod_beta)

lemma run_state_if [simp]:
  "run_state (if b then x else y) s = (if b then run_state x s else run_state y s)"
  by simp

lemma run_state_case_prod [simp]:
  "run_state (case p of (a, b) \<Rightarrow> f a b) s = run_state (f (fst p) (snd p)) s"
  by (simp add: case_prod_beta)

lemma run_state_case_sum [simp]:
  "run_state (case r of Inl a \<Rightarrow> f a | Inr b \<Rightarrow> g b) s
     = (case r of Inl a \<Rightarrow> run_state (f a) s | Inr b \<Rightarrow> run_state (g b) s)"
  by (simp split: sum.splits)

lemma run_state_case_option [simp]:
  "run_state (case r of None \<Rightarrow> f | Some b \<Rightarrow> g b) s
     = (case r of None \<Rightarrow> run_state f s | Some b \<Rightarrow> run_state (g b) s)"
  by (simp split: option.splits)

lemma run_state_Let [simp]: "run_state (Let x f) s = Let x (\<lambda>y. run_state (f y) s)"
  by simp

section \<open>Association lists\<close>

lemma map_of_delete_Some:
  "map_of (AList.delete k al) j = Some v \<longleftrightarrow> j \<noteq> k \<and> map_of al j = Some v"
  by (auto simp: AList.delete_conv')

lemma map_of_update_Some:
  "map_of (AList.update k v al) j = Some u \<longleftrightarrow> (if j = k then u = v else map_of al j = Some u)"
  by (auto simp: AList.update_conv')

lemmas alist_simps [simp] = AList.update_conv' AList.delete_conv' AList.distinct_update
  AList.distinct_delete

lemma in_set_distinct_map_of:
  "distinct (map fst al) \<Longrightarrow> (k, v) \<in> set al \<longleftrightarrow> map_of al k = Some v"
  by auto

lemma count_list_distinct: "distinct xs \<Longrightarrow> count_list xs x = (if x \<in> set xs then 1 else 0)"
  by (induction xs) auto

section \<open>Sets of pointers as lists\<close>

lemma removeAll_commute: "removeAll x (removeAll y xs) = removeAll y (removeAll x xs)"
  by (induction xs) auto

lemma set_filter_partition: "set (filter P xs) \<union> set (filter (\<lambda>x. \<not> P x) xs) = set xs"
  by auto

end
