(* ===== verification/VlsApi.thy ===== *)
theory VlsApi
  imports Prelude
begin

text \<open>
  The boundary to \<open>libvppcom\<close> (\<open>vls_*\<close> and \<open>vppcom_*\<close>), which is not part of the repository.
  Its behaviour is a parameter: the field \<open>vls\<close> of a \<open>cgo\<close> record answers every call with a
  reply that may depend in any way on the history of earlier calls and replies of the thread
  of control, so nothing about VPP, and nothing about the other goroutines, is fixed: every
  execution gives one such function. The history (\<open>world\<close>, most recent entry first) is the
  state the C bridge of \<open>internal/vclpoll/cgo.go\<close> threads through; theorems about what the
  code asked of VLS are theorems about it.

  Two kinds of Go events are part of the history, because the bridge's discipline is about
  them: the operations on \<open>vlsMu\<close> and \<open>workerRegistry\<close>, and the points where the code looks at
  state other goroutines change (the load of \<open>appLive\<close>, the outcome of a readiness wait), whose
  replies are again arbitrary.
\<close>

section \<open>Calls and replies\<close>

datatype proto = PROTO_TCP | PROTO_UDP | PROTO_TLS

text \<open>\<open>vppcom_endpt_t\<close>: address bytes and port in network order.\<close>

record endpt =
  ep_is_ip4 :: bool
  ep_ip :: "u8 list"
  ep_port :: u16

datatype ctl_op = CTL_ADD | CTL_MOD | CTL_DEL

datatype go_event =
    MuLock
  | MuUnlock
  | MuRLock
  | MuRUnlock
  | RegistryStore nat
  | LoadAppLive
  | PollWait handle u32

datatype vls_call =
    GoEvent go_event
  | VlsAppCreate string
  | VlsAppDestroy
  | VlsRegisterWorker
  | VlsUnregisterWorker
  | VlsWorkerIndex
  | VlsMtWrkSupported
  | VlsSessionWorker handle
  | VlsCreate proto
  | VlsSetReuseport handle
  | VlsSetCkpair handle u32
  | VlsSetV6only handle int
  | VlsBind handle endpt
  | VlsListen handle int
  | VlsConnect handle endpt
  | VlsAccept handle
  | VlsRead handle nat
  | VlsWrite handle "u8 list"
  | VlsSendTo handle "u8 list" endpt
  | VlsRecvFrom handle nat
  | VlsClose handle
  | VlsShutdown handle int
  | VlsGetLclAddr handle
  | VlsGetPeerAddr handle
  | VlsHandleToSh handle
  | VlsSessionGetError int
  | VlsAddCertKeyPair "u8 list" "u8 list"
  | VlsDelCertKeyPair u32
  | VlsEpollCreate
  | VlsEpollCtl handle ctl_op handle "(u32 \<times> u64) option"
  | VlsEpollWait handle nat rat

text \<open>A reply: the return value and whatever the call writes through its pointers.\<close>

record vls_reply =
  rv :: int
  r_data :: "u8 list"
  r_ep :: endpt
  r_events :: "(u32 \<times> u64) list"
  r_idx :: "u32 \<times> u32"

type_synonym entry = "vls_call \<times> vls_reply"
type_synonym world = "entry list"

text \<open>\<open>tid\<close> is \<open>pthread_self()\<close> of the calling OS thread.\<close>

record cgo =
  tid :: nat
  vls :: "world \<Rightarrow> vls_call \<Rightarrow> vls_reply"

definition vcall :: "cgo \<Rightarrow> vls_call \<Rightarrow> (world, vls_reply) state" where
  "vcall V c = State (\<lambda>w. let r = vls V w c in (r, (c, r) # w))"

lemma run_vcall [simp]:
  "run_state (vcall V c) w = (vls V w c, (c, vls V w c) # w)"
  by (simp add: vcall_def Let_def)

definition vcall_rv :: "cgo \<Rightarrow> vls_call \<Rightarrow> (world, int) state" where
  "vcall_rv V c = do { r \<leftarrow> vcall V c; State_Monad.return (rv r) }"

lemma run_vcall_rv [simp]:
  "run_state (vcall_rv V c) w
     = (rv (vls V w c), (c, vls V w c) # w)"
  by (simp add: vcall_rv_def)

text \<open>A reply with nothing but a return value, for concrete instances.\<close>

definition ok_reply :: "int \<Rightarrow> vls_reply" where
  "ok_reply n = \<lparr>rv = n, r_data = [], r_ep = \<lparr>ep_is_ip4 = True, ep_ip = [], ep_port = 0\<rparr>,
     r_events = [], r_idx = (0, 0)\<rparr>"

lemma ok_reply_sel [simp]: "rv (ok_reply n) = n" "r_events (ok_reply n) = []"
  "r_data (ok_reply n) = []" "r_idx (ok_reply n) = (0, 0)"
  by (simp_all add: ok_reply_def)

text \<open>A concrete environment: every call succeeds with 1, an epoll wait times out.\<close>

definition demo_cgo :: cgo where
  "demo_cgo = \<lparr>tid = 7, vls = (\<lambda>w c. case c of VlsEpollWait ep n t \<Rightarrow> ok_reply 0 | _ \<Rightarrow> ok_reply 1)\<rparr>"

lemma demo_cgo_sel [simp]:
  "tid demo_cgo = 7"
  "vls demo_cgo w c = (case c of VlsEpollWait ep n t \<Rightarrow> ok_reply 0 | _ \<Rightarrow> ok_reply 1)"
  by (simp_all add: demo_cgo_def)

section \<open>Accounting of handles\<close>

text \<open>
  \<open>balance h w\<close>: how many more times the handle \<open>h\<close> was obtained from VLS (create, accept,
  epoll create) than it was handed back to \<open>vls_close\<close>. An operation that leaves all
  balances as they were owns nothing new and leaks nothing.
\<close>

fun entry_delta :: "handle \<Rightarrow> vls_call \<Rightarrow> int \<Rightarrow> int" where
  "entry_delta h (VlsCreate p) n = (if n = h \<and> 0 \<le> n then 1 else 0)"
| "entry_delta h (VlsAccept l) n = (if n = h \<and> 0 \<le> n then 1 else 0)"
| "entry_delta h VlsEpollCreate n = (if n = h \<and> 0 \<le> n then 1 else 0)"
| "entry_delta h (VlsClose h') n = (if h' = h then -1 else 0)"
| "entry_delta h _ n = 0"

fun balance :: "handle \<Rightarrow> world \<Rightarrow> int" where
  "balance h [] = 0"
| "balance h ((c, r) # w) = balance h w + entry_delta h c (rv r)"

lemma balance_append: "balance h (w1 @ w2) = balance h w1 + balance h w2"
  by (induction w1) auto

text \<open>The handle a result owns, as a balance: one for the returned handle, nothing else.\<close>

definition owns :: "handle \<Rightarrow> handle \<Rightarrow> int" where
  "owns h0 h = (if h = h0 \<and> 0 \<le> h0 then 1 else 0)"

lemma owns_neg [simp]: "h0 < 0 \<Longrightarrow> owns h0 h = 0"
  by (simp add: owns_def)

lemma owns_self [simp]: "0 \<le> h \<Longrightarrow> owns h h = 1"
  by (simp add: owns_def)

lemma owns_other [simp]: "h \<noteq> h0 \<Longrightarrow> owns h0 h = 0"
  by (simp add: owns_def)

section \<open>Epoll interest\<close>

text \<open>
  What the successful \<open>vls_epoll_ctl\<close> calls of the history registered on the epoll handle
  \<open>ep\<close>: for each session its mask and its 64-bit event key.
\<close>

fun interest :: "handle \<Rightarrow> world \<Rightarrow> handle \<Rightarrow> (u32 \<times> u64) option" where
  "interest ep [] = (\<lambda>_. None)"
| "interest ep ((c, r) # w) =
     (case c of
        VlsEpollCtl ep' op h ev \<Rightarrow>
          if ep' \<noteq> ep then interest ep w
          else (case op of
             CTL_DEL \<Rightarrow> (interest ep w)(h := None)
           | CTL_ADD \<Rightarrow> if rv r < 0 then interest ep w else (interest ep w)(h := ev)
           | CTL_MOD \<Rightarrow> if rv r < 0 then interest ep w else (interest ep w)(h := ev))
      | _ \<Rightarrow> interest ep w)"

end
