(* ===== verification/Codec.thy ===== *)
theory Codec
  imports VlsApi
begin

text \<open>
  The byte-order helpers of \<open>internal/vclpoll/cgo.go\<close> (\<open>ipBE\<close>, \<open>portBE\<close>, the decoding in
  \<open>mode3Accept\<close> and \<open>addrInfoFromC\<close>), the \<open>memcpy\<close> of an address word into bytes on the
  little-endian host, and the 64-bit event key that carries a handle through
  \<open>struct epoll_event\<close>.
\<close>

section \<open>Definitions\<close>

fun ipBE :: "ip4 \<Rightarrow> u32" where
  "ipBE (b0, b1, b2, b3) =
     ucast b0 OR push_bit 8 (ucast b1) OR push_bit 16 (ucast b2) OR push_bit 24 (ucast b3)"

definition portBE :: "u16 \<Rightarrow> u16" where
  "portBE p = drop_bit 8 p OR push_bit 8 (p AND 0xff)"

text \<open>\<open>memcpy(ip, &ip4_be, 4)\<close> on a little-endian host.\<close>

definition memcpy_u32 :: "u32 \<Rightarrow> u8 list" where
  "memcpy_u32 w = [ucast w, ucast (drop_bit 8 w), ucast (drop_bit 16 w), ucast (drop_bit 24 w)]"

text \<open>\<open>memcpy(peer_ip4_be, ip, 4)\<close>: the bytes back into a word.\<close>

definition load_u32 :: "u8 list \<Rightarrow> u32" where
  "load_u32 bs = (let b = (\<lambda>i. if i < length bs then bs ! i else 0) in
     ipBE (b 0, b 1, b 2, b 3))"

text \<open>The decoding of the peer address in \<open>mode3Accept\<close>.\<close>

definition ip4_of_be :: "u32 \<Rightarrow> ip4" where
  "ip4_of_be be = (ucast be, ucast (drop_bit 8 be), ucast (drop_bit 16 be), ucast (drop_bit 24 be))"

record AddrInfo =
  ai_IP :: ip16
  ai_Port :: u16
  ai_IsV4 :: bool

definition AddrInfo_zero :: AddrInfo where
  "AddrInfo_zero = \<lparr>ai_IP = replicate 16 0, ai_Port = 0, ai_IsV4 = False\<rparr>"

definition addrInfoFromC :: "ip16 \<Rightarrow> u16 \<Rightarrow> int \<Rightarrow> AddrInfo" where
  "addrInfoFromC ip port isIP4 =
     \<lparr>ai_IP = copy_into 16 ip,
      ai_Port = drop_bit 8 port OR push_bit 8 (port AND 0xff),
      ai_IsV4 = (isIP4 \<noteq> 0)\<rparr>"

text \<open>\<open>C.uint64_t(vlsh)\<close> and \<open>VLSH(u64)\<close>: a handle as event data and back.\<close>

definition event_key :: "handle \<Rightarrow> u64" where
  "event_key h = word_of_int h"

definition key_handle :: "u64 \<Rightarrow> handle" where
  "key_handle k = sint (ucast k :: u32)"

section \<open>Round trips\<close>

lemma and_ff: "(p :: u16) AND 0xff = take_bit 8 p"
  by (simp add: take_bit_eq_mask mask_eq_exp_minus_1)

lemma portBE_involution: "portBE (portBE p) = p"
  unfolding portBE_def and_ff
  by (rule bit_word_eqI) (auto simp: bit_simps)

lemma portBE_bytes: "unat (portBE p) = unat p div 256 + 256 * (unat p mod 256)"
proof -
  have "portBE p = drop_bit 8 p + push_bit 8 (take_bit 8 p)"
    unfolding portBE_def and_ff
    by (rule disjunctive_add [symmetric]) (auto simp: bit_simps dest!: bit_imp_le_length)
  moreover have "unat (drop_bit 8 p) = unat p div 256"
    using unsigned_less [of p, where ?'a = nat]
    by (simp add: unsigned_drop_bit_eq drop_bit_eq_div [of _ "unat p"] take_bit_nat_eq_self)
  moreover have "unat (push_bit 8 (take_bit 8 p)) = 256 * (unat p mod 256)"
  proof -
    have "unat (take_bit 8 p) = unat p mod 256"
      using unsigned_take_bit_eq [of 8 p, where ?'a = nat] by (simp only: take_bit_eq_mod) simp
    then show ?thesis
      unfolding unsigned_push_bit_eq
      by (simp only: push_bit_eq_mult take_bit_eq_mod) (simp add: mult.commute)
  qed
  ultimately show ?thesis
    using unsigned_less [of p, where ?'a = nat] by (simp add: unat_word_ariths)
qed

lemma ipBE_bytes:
  "ucast (ipBE (b0, b1, b2, b3)) = b0"
  "ucast (drop_bit 8 (ipBE (b0, b1, b2, b3))) = b1"
  "ucast (drop_bit 16 (ipBE (b0, b1, b2, b3))) = b2"
  "ucast (drop_bit 24 (ipBE (b0, b1, b2, b3))) = b3"
  by (rule bit_word_eqI; force simp: bit_simps dest: bit_imp_le_length)+

lemma memcpy_ipBE: "memcpy_u32 (ipBE (b0, b1, b2, b3)) = [b0, b1, b2, b3]"
  by (simp only: memcpy_u32_def ipBE_bytes)

lemma ip4_of_be_ipBE: "ip4_of_be (ipBE a) = a"
  by (cases a rule: ipBE.cases) (simp only: ip4_of_be_def ipBE_bytes)

lemma key_handle_event_key:
  assumes "- (2 ^ 31) \<le> h" and "h < 2 ^ 31"
  shows "key_handle (event_key h) = h"
proof -
  have "key_handle (event_key h) = signed_take_bit 31 h"
    unfolding key_handle_def event_key_def
    by (simp add: sint_uint ucast_eq uint_word_of_int_eq signed_take_bit_take_bit)
  with assms show ?thesis
    by (simp add: signed_take_bit_int_eq_self)
qed

section \<open>Properties\<close>

text \<open>Addresses survive the trip through network order: the port swap is its own inverse and
  really swaps the two bytes, the address word is the four bytes in order in memory, and the
  decoding of \<open>mode3Accept\<close> gives the address back.\<close>

theorem address_codec_roundtrip:
  "portBE (portBE p) = p \<and> unat (portBE p) = unat p div 256 + 256 * (unat p mod 256)
   \<and> ip4_of_be (ipBE a) = a
   \<and> memcpy_u32 (ipBE (b0, b1, b2, b3)) = [b0, b1, b2, b3]
   \<and> ai_Port (addrInfoFromC ip (portBE p) 1) = p"
proof -
  have "ai_Port (addrInfoFromC ip q 1) = portBE q" for q
    by (simp add: addrInfoFromC_def portBE_def)
  then show ?thesis
    by (simp only: portBE_involution portBE_bytes ip4_of_be_ipBE memcpy_ipBE simp_thms)
qed

text \<open>A handle comes back from the 64-bit event data of epoll as it went in, a negative key of
  a sharded listener included.\<close>

theorem event_key_roundtrip:
  assumes "- (2 ^ 31) \<le> h" and "h < 2 ^ 31"
  shows "key_handle (event_key h) = h"
  using assms by (rule key_handle_event_key)

lemma event_key_roundtrip_witness: "key_handle (event_key (- 6)) = - 6"
  by (rule event_key_roundtrip) simp_all

end
