(* ===== verification/PollErrors.thy ===== *)
theory PollErrors
  imports Prelude
begin

text \<open>
  The errors of \<open>internal/vclpoll/cgo.go\<close>: \<open>VCLError\<close> with its \<open>Is\<close>, \<open>Unwrap\<close>, \<open>Timeout\<close> and
  \<open>Temporary\<close> methods, the sentinels \<open>ErrClosed\<close> and \<open>ErrWaitCanceled\<close>, and Go's \<open>errors.Is\<close>
  on them. An \<open>errno\<close> is an \<open>int\<close>; the numbers are those of Linux.
\<close>

type_synonym errno = int

abbreviation "EINTR \<equiv> (4 :: errno)"
abbreviation "EBADF \<equiv> (9 :: errno)"
abbreviation "EAGAIN \<equiv> (11 :: errno)"
abbreviation "EWOULDBLOCK \<equiv> (11 :: errno)"
abbreviation "EINVAL \<equiv> (22 :: errno)"
abbreviation "ECONNRESET \<equiv> (104 :: errno)"
abbreviation "ETIMEDOUT \<equiv> (110 :: errno)"
abbreviation "ECONNREFUSED \<equiv> (111 :: errno)"
abbreviation "EINPROGRESS \<equiv> (115 :: errno)"

text \<open>
  \<open>Errorf\<close> is an error that carries a message only, \<open>Wrapped\<close> one built with \<open>%w\<close>,
  \<open>JoinedErr\<close> the result of \<open>errors.Join\<close>.
\<close>

datatype vclpoll_error =
    VCLError string errno
  | Errno errno
  | PollErrClosed
  | ErrWaitCanceled
  | Errorf string
  | Wrapped string vclpoll_error
  | JoinedErr "vclpoll_error list"

type_synonym 'a poll_result = "vclpoll_error + 'a"

section \<open>The methods of VCLError\<close>

fun VCLError_Unwrap :: "vclpoll_error \<Rightarrow> vclpoll_error option" where
  "VCLError_Unwrap (VCLError op n) = Some (Errno n)"
| "VCLError_Unwrap _ = None"

fun VCLError_Is :: "vclpoll_error \<Rightarrow> vclpoll_error \<Rightarrow> bool" where
  "VCLError_Is (VCLError op n) (Errno t) = (n = t)"
| "VCLError_Is _ _ = False"

fun VCLError_Timeout :: "vclpoll_error \<Rightarrow> bool" where
  "VCLError_Timeout (VCLError op n) = (n = ETIMEDOUT)"
| "VCLError_Timeout _ = False"

fun VCLError_Temporary :: "vclpoll_error \<Rightarrow> bool" where
  "VCLError_Temporary (VCLError op n) = (n = EAGAIN \<or> n = EWOULDBLOCK \<or> n = EINTR)"
| "VCLError_Temporary _ = False"

definition vppErr :: "string \<Rightarrow> int \<Rightarrow> vclpoll_error option" where
  "vppErr op rv = (if rv \<ge> 0 then None else Some (VCLError op (- rv)))"

text \<open>The error value where \<open>rv\<close> is known to be negative.\<close>

definition vpp_error :: "string \<Rightarrow> int \<Rightarrow> vclpoll_error" where
  "vpp_error op rv = VCLError op (- rv)"

lemma vppErr_negative [simp]: "rv < 0 \<Longrightarrow> vppErr op rv = Some (vpp_error op rv)"
  by (simp add: vppErr_def vpp_error_def)

lemma vppErr_None_iff: "vppErr op rv = None \<longleftrightarrow> 0 \<le> rv"
  by (simp add: vppErr_def)

definition isAgain :: "int \<Rightarrow> bool" where
  "isAgain rv \<longleftrightarrow> rv = - EAGAIN \<or> rv = - EWOULDBLOCK"

definition isInProgress :: "int \<Rightarrow> bool" where
  "isInProgress rv \<longleftrightarrow> rv = - EINPROGRESS"

lemma isAgain_neg: "isAgain rv \<Longrightarrow> rv < 0"
  by (auto simp: isAgain_def)

lemma isInProgress_neg: "isInProgress rv \<Longrightarrow> rv < 0"
  by (auto simp: isInProgress_def)

section \<open>errors.Is\<close>

text \<open>
  \<open>errors.Is(err, target)\<close> compares, asks the error's own \<open>Is\<close> method, then follows
  \<open>Unwrap\<close>: one step for \<open>VCLError\<close> and \<open>%w\<close>, all branches for a joined error.
\<close>

fun errors_Is :: "vclpoll_error \<Rightarrow> vclpoll_error \<Rightarrow> bool" where
  "errors_Is (VCLError op n) t =
     (VCLError op n = t \<or> VCLError_Is (VCLError op n) t \<or> Errno n = t)"
| "errors_Is (Wrapped m e) t = (Wrapped m e = t \<or> errors_Is e t)"
| "errors_Is (JoinedErr es) t = (JoinedErr es = t \<or> (\<exists>e \<in> set es. errors_Is e t))"
| "errors_Is e t = (e = t)"

definition isAgainError :: "vclpoll_error \<Rightarrow> bool" where
  "isAgainError e \<longleftrightarrow> errors_Is e (Errno EAGAIN) \<or> errors_Is e (Errno EWOULDBLOCK)"

lemma isAgainError_vpp [simp]: "isAgainError (vpp_error op rv) \<longleftrightarrow> isAgain rv"
  by (auto simp: isAgainError_def isAgain_def vpp_error_def)

lemma isAgainError_sentinels [simp]:
  "\<not> isAgainError PollErrClosed" "\<not> isAgainError ErrWaitCanceled" "\<not> isAgainError (Errorf m)"
  by (simp_all add: isAgainError_def)

lemma errors_Is_VCLError: "errors_Is (VCLError op n) (Errno t) \<longleftrightarrow> n = t"
  by auto

lemma errors_Is_through_wrap: "errors_Is e t \<Longrightarrow> errors_Is (Wrapped m e) t"
  by simp

lemma errors_Is_refl: "errors_Is e e"
  by (cases e) auto

end
