(* ===== verification/CgoBridge.thy ===== *)
theory CgoBridge
  imports Codec PollErrors
begin

text \<open>
  The C half of \<open>internal/vclpoll/cgo.go\<close>: one definition per \<open>static\<close> function, as a program in
  the state monad over the call history. Results written through pointers are returned beside
  the return value. The lemmas account for every session handle: what a function returns is
  what it keeps open, and every error path gives back what it created.
\<close>

section \<open>Application and workers\<close>

definition vclpoll_app_create :: "cgo \<Rightarrow> string \<Rightarrow> (world, int) state" where
  "vclpoll_app_create V name = vcall_rv V (VlsAppCreate name)"

definition vclpoll_app_destroy :: "cgo \<Rightarrow> (world, unit) state" where
  "vclpoll_app_destroy V = do { _ \<leftarrow> vcall V VlsAppDestroy; State_Monad.return () }"

definition vclpoll_register_worker :: "cgo \<Rightarrow> (world, unit) state" where
  "vclpoll_register_worker V = do { _ \<leftarrow> vcall V VlsRegisterWorker; State_Monad.return () }"

definition vclpoll_worker_unregister :: "cgo \<Rightarrow> (world, int) state" where
  "vclpoll_worker_unregister V = vcall_rv V VlsUnregisterWorker"

definition vclpoll_worker_index :: "cgo \<Rightarrow> (world, u32) state" where
  "vclpoll_worker_index V = do { r \<leftarrow> vcall V VlsWorkerIndex; State_Monad.return (fst (r_idx r)) }"

definition vclpoll_mode2_enabled :: "cgo \<Rightarrow> (world, bool) state" where
  "vclpoll_mode2_enabled V = do { n \<leftarrow> vcall_rv V VlsMtWrkSupported; State_Monad.return (n \<noteq> 0) }"

text \<open>Session index and worker index of a handle.\<close>

definition vclpoll_session_worker :: "cgo \<Rightarrow> handle \<Rightarrow> (world, u32 \<times> u32) state" where
  "vclpoll_session_worker V vlsh =
     do { r \<leftarrow> vcall V (VlsSessionWorker vlsh); State_Monad.return (r_idx r) }"

section \<open>Endpoints\<close>

definition endpoint4 :: "u32 \<Rightarrow> u16 \<Rightarrow> endpt" where
  "endpoint4 ip4_be port_be =
     \<lparr>ep_is_ip4 = True, ep_ip = memcpy_u32 ip4_be, ep_port = port_be\<rparr>"

definition endpoint6 :: "ip16 \<Rightarrow> u16 \<Rightarrow> endpt" where
  "endpoint6 ip6 port_be = \<lparr>ep_is_ip4 = False, ep_ip = copy_into 16 ip6, ep_port = port_be\<rparr>"

section \<open>Listeners\<close>

text \<open>The common tail of all listeners: bind, then listen, closing the session on failure.\<close>

definition bind_listen :: "cgo \<Rightarrow> handle \<Rightarrow> endpt \<Rightarrow> int \<Rightarrow> (world, int) state" where
  "bind_listen V vlsh ep backlog = do {
     rv \<leftarrow> vcall_rv V (VlsBind vlsh ep);
     if rv < 0 then do { _ \<leftarrow> vcall V (VlsClose vlsh); State_Monad.return rv }
     else do {
       rv \<leftarrow> vcall_rv V (VlsListen vlsh backlog);
       if rv < 0 then do { _ \<leftarrow> vcall V (VlsClose vlsh); State_Monad.return rv }
       else State_Monad.return vlsh } }"

definition vclpoll_listen_tcp4_nb :: "cgo \<Rightarrow> u32 \<Rightarrow> u16 \<Rightarrow> int \<Rightarrow> (world, int) state" where
  "vclpoll_listen_tcp4_nb V ip4_be port_be backlog = do {
     vlsh \<leftarrow> vcall_rv V (VlsCreate PROTO_TCP);
     if vlsh < 0 then State_Monad.return vlsh
     else do {
       _ \<leftarrow> vcall V (VlsSetReuseport vlsh);
       bind_listen V vlsh (endpoint4 ip4_be port_be) backlog } }"

definition vclpoll_listen_tcp6_nb :: "cgo \<Rightarrow> ip16 \<Rightarrow> u16 \<Rightarrow> int \<Rightarrow> (world, int) state" where
  "vclpoll_listen_tcp6_nb V ip6 port_be backlog = do {
     vlsh \<leftarrow> vcall_rv V (VlsCreate PROTO_TCP);
     if vlsh < 0 then State_Monad.return vlsh
     else do {
       _ \<leftarrow> vcall V (VlsSetReuseport vlsh);
       bind_listen V vlsh (endpoint6 ip6 port_be) backlog } }"

definition vclpoll_listen_tls4_nb ::
    "cgo \<Rightarrow> u32 \<Rightarrow> u16 \<Rightarrow> int \<Rightarrow> u32 \<Rightarrow> (world, int) state" where
  "vclpoll_listen_tls4_nb V ip4_be port_be backlog ckp_index = do {
     vlsh \<leftarrow> vcall_rv V (VlsCreate PROTO_TLS);
     if vlsh < 0 then State_Monad.return vlsh
     else do {
       _ \<leftarrow> vcall V (VlsSetReuseport vlsh);
       rv \<leftarrow> vcall_rv V (VlsSetCkpair vlsh ckp_index);
       if rv < 0 then do { _ \<leftarrow> vcall V (VlsClose vlsh); State_Monad.return rv }
       else bind_listen V vlsh (endpoint4 ip4_be port_be) backlog } }"

definition vclpoll_listen_tls6_nb ::
    "cgo \<Rightarrow> ip16 \<Rightarrow> u16 \<Rightarrow> int \<Rightarrow> u32 \<Rightarrow> (world, int) state" where
  "vclpoll_listen_tls6_nb V ip6 port_be backlog ckp_index = do {
     vlsh \<leftarrow> vcall_rv V (VlsCreate PROTO_TLS);
     if vlsh < 0 then State_Monad.return vlsh
     else do {
       _ \<leftarrow> vcall V (VlsSetReuseport vlsh);
       rv \<leftarrow> vcall_rv V (VlsSetCkpair vlsh ckp_index);
       if rv < 0 then do { _ \<leftarrow> vcall V (VlsClose vlsh); State_Monad.return rv }
       else bind_listen V vlsh (endpoint6 ip6 port_be) backlog } }"

definition vclpoll_bind_udp4_nb :: "cgo \<Rightarrow> u32 \<Rightarrow> u16 \<Rightarrow> (world, int) state" where
  "vclpoll_bind_udp4_nb V ip4_be port_be = do {
     vlsh \<leftarrow> vcall_rv V (VlsCreate PROTO_UDP);
     if vlsh < 0 then State_Monad.return vlsh
     else bind_listen V vlsh (endpoint4 ip4_be port_be) 1 }"

definition vclpoll_bind_udp6_nb :: "cgo \<Rightarrow> ip16 \<Rightarrow> u16 \<Rightarrow> (world, int) state" where
  "vclpoll_bind_udp6_nb V ip6 port_be = do {
     vlsh \<leftarrow> vcall_rv V (VlsCreate PROTO_UDP);
     if vlsh < 0 then State_Monad.return vlsh
     else bind_listen V vlsh (endpoint6 ip6 port_be) 1 }"

section \<open>Connects\<close>

text \<open>The return value and \<open>*out_vlsh\<close>: the handle, or -1 where the session was not created.\<close>

definition connect_nb :: "cgo \<Rightarrow> proto \<Rightarrow> endpt \<Rightarrow> (world, int \<times> handle) state" where
  "connect_nb V p ep = do {
     vlsh \<leftarrow> vcall_rv V (VlsCreate p);
     if vlsh < 0 then State_Monad.return (vlsh, -1)
     else do {
       rv \<leftarrow> vcall_rv V (VlsConnect vlsh ep);
       State_Monad.return (rv, vlsh) } }"

definition vclpoll_connect_tcp4_nb :: "cgo \<Rightarrow> u32 \<Rightarrow> u16 \<Rightarrow> (world, int \<times> handle) state" where
  "vclpoll_connect_tcp4_nb V ip4_be port_be = connect_nb V PROTO_TCP (endpoint4 ip4_be port_be)"

definition vclpoll_connect_tcp6_nb :: "cgo \<Rightarrow> ip16 \<Rightarrow> u16 \<Rightarrow> (world, int \<times> handle) state" where
  "vclpoll_connect_tcp6_nb V ip6 port_be = connect_nb V PROTO_TCP (endpoint6 ip6 port_be)"

definition vclpoll_connect_udp4_nb :: "cgo \<Rightarrow> u32 \<Rightarrow> u16 \<Rightarrow> (world, int \<times> handle) state" where
  "vclpoll_connect_udp4_nb V ip4_be port_be = connect_nb V PROTO_UDP (endpoint4 ip4_be port_be)"

definition vclpoll_connect_udp6_nb :: "cgo \<Rightarrow> ip16 \<Rightarrow> u16 \<Rightarrow> (world, int \<times> handle) state" where
  "vclpoll_connect_udp6_nb V ip6 port_be = connect_nb V PROTO_UDP (endpoint6 ip6 port_be)"

definition vclpoll_connect_tcp4_start :: "cgo \<Rightarrow> u32 \<Rightarrow> u16 \<Rightarrow> (world, int \<times> handle) state" where
  "vclpoll_connect_tcp4_start V ip4_be port_be = connect_nb V PROTO_TCP (endpoint4 ip4_be port_be)"

definition vclpoll_connect_tcp6_start :: "cgo \<Rightarrow> ip16 \<Rightarrow> u16 \<Rightarrow> (world, int \<times> handle) state" where
  "vclpoll_connect_tcp6_start V ip6 port_be = connect_nb V PROTO_TCP (endpoint6 ip6 port_be)"

text \<open>TLS: the cert/key pair is attached before the connect when the caller gave one.\<close>

definition connect_tls_start ::
    "cgo \<Rightarrow> endpt \<Rightarrow> u32 \<Rightarrow> bool \<Rightarrow> (world, int \<times> handle) state" where
  "connect_tls_start V ep ckp_index ckp_index_valid = do {
     vlsh \<leftarrow> vcall_rv V (VlsCreate PROTO_TLS);
     if vlsh < 0 then State_Monad.return (vlsh, -1)
     else do {
       rv \<leftarrow> (if ckp_index_valid then vcall_rv V (VlsSetCkpair vlsh ckp_index)
              else State_Monad.return 0);
       if rv < 0 then State_Monad.return (rv, vlsh)
       else do {
         rv \<leftarrow> vcall_rv V (VlsConnect vlsh ep);
         State_Monad.return (rv, vlsh) } } }"

definition vclpoll_connect_tls4_start ::
    "cgo \<Rightarrow> u32 \<Rightarrow> u16 \<Rightarrow> u32 \<Rightarrow> bool \<Rightarrow> (world, int \<times> handle) state" where
  "vclpoll_connect_tls4_start V ip4_be port_be = connect_tls_start V (endpoint4 ip4_be port_be)"

definition vclpoll_connect_tls6_start ::
    "cgo \<Rightarrow> ip16 \<Rightarrow> u16 \<Rightarrow> u32 \<Rightarrow> bool \<Rightarrow> (world, int \<times> handle) state" where
  "vclpoll_connect_tls6_start V ip6 port_be = connect_tls_start V (endpoint6 ip6 port_be)"

section \<open>Accept, data, addresses\<close>

text \<open>The peer address word stays 0 for an IPv6 peer.\<close>

definition vclpoll_accept_nb :: "cgo \<Rightarrow> handle \<Rightarrow> (world, int \<times> u32 \<times> u16) state" where
  "vclpoll_accept_nb V listener = do {
     r \<leftarrow> vcall V (VlsAccept listener);
     if rv r < 0 then State_Monad.return (rv r, 0, 0)
     else State_Monad.return
       (rv r, if ep_is_ip4 (r_ep r) then load_u32 (copy_into 16 (ep_ip (r_ep r))) else 0,
        ep_port (r_ep r)) }"

text \<open>The 16 address bytes, the port and the IPv4 flag an endpoint reply writes.\<close>

definition ep_out :: "vls_reply \<Rightarrow> ip16 \<times> u16 \<times> int" where
  "ep_out r = (copy_into 16 (ep_ip (r_ep r)), ep_port (r_ep r), if ep_is_ip4 (r_ep r) then 1 else 0)"

definition ep_none :: "ip16 \<times> u16 \<times> int" where
  "ep_none = (replicate 16 0, 0, 0)"

definition vclpoll_accept_nb_full ::
    "cgo \<Rightarrow> handle \<Rightarrow> (world, int \<times> ip16 \<times> u16 \<times> int) state" where
  "vclpoll_accept_nb_full V listener = do {
     r \<leftarrow> vcall V (VlsAccept listener);
     if rv r < 0 then State_Monad.return (rv r, ep_none)
     else State_Monad.return (rv r, ep_out r) }"

definition vclpoll_get_local_addr ::
    "cgo \<Rightarrow> handle \<Rightarrow> (world, int \<times> ip16 \<times> u16 \<times> int) state" where
  "vclpoll_get_local_addr V vlsh = do {
     r \<leftarrow> vcall V (VlsGetLclAddr vlsh);
     if rv r < 0 then State_Monad.return (rv r, ep_none)
     else State_Monad.return (0, ep_out r) }"

definition vclpoll_get_peer_addr ::
    "cgo \<Rightarrow> handle \<Rightarrow> (world, int \<times> ip16 \<times> u16 \<times> int) state" where
  "vclpoll_get_peer_addr V vlsh = do {
     r \<leftarrow> vcall V (VlsGetPeerAddr vlsh);
     if rv r < 0 then State_Monad.return (rv r, ep_none)
     else State_Monad.return (0, ep_out r) }"

definition vclpoll_read :: "cgo \<Rightarrow> handle \<Rightarrow> nat \<Rightarrow> (world, int \<times> u8 list) state" where
  "vclpoll_read V vlsh n = do {
     r \<leftarrow> vcall V (VlsRead vlsh n);
     State_Monad.return (rv r, r_data r) }"

definition vclpoll_write :: "cgo \<Rightarrow> handle \<Rightarrow> u8 list \<Rightarrow> (world, int) state" where
  "vclpoll_write V vlsh buf = vcall_rv V (VlsWrite vlsh buf)"

definition vclpoll_close :: "cgo \<Rightarrow> handle \<Rightarrow> (world, int) state" where
  "vclpoll_close V vlsh = vcall_rv V (VlsClose vlsh)"

definition vclpoll_shutdown :: "cgo \<Rightarrow> handle \<Rightarrow> int \<Rightarrow> (world, int) state" where
  "vclpoll_shutdown V vlsh how = vcall_rv V (VlsShutdown vlsh how)"

definition vclpoll_sendto ::
    "cgo \<Rightarrow> handle \<Rightarrow> u8 list \<Rightarrow> bool \<Rightarrow> ip16 \<Rightarrow> u16 \<Rightarrow> (world, int) state" where
  "vclpoll_sendto V vlsh buf is_ip4 ip port_be =
     vcall_rv V (VlsSendTo vlsh buf \<lparr>ep_is_ip4 = is_ip4, ep_ip = ip, ep_port = port_be\<rparr>)"

definition vclpoll_recvfrom ::
    "cgo \<Rightarrow> handle \<Rightarrow> nat \<Rightarrow> (world, int \<times> u8 list \<times> ip16 \<times> u16 \<times> int) state" where
  "vclpoll_recvfrom V vlsh n = do {
     r \<leftarrow> vcall V (VlsRecvFrom vlsh n);
     if rv r < 0 then State_Monad.return (rv r, [], ep_none)
     else State_Monad.return (rv r, r_data r, ep_out r) }"

definition vclpoll_set_v6only :: "cgo \<Rightarrow> handle \<Rightarrow> int \<Rightarrow> (world, int) state" where
  "vclpoll_set_v6only V vlsh val = vcall_rv V (VlsSetV6only vlsh val)"

definition vclpoll_session_get_connect_error :: "cgo \<Rightarrow> handle \<Rightarrow> (world, int) state" where
  "vclpoll_session_get_connect_error V vlsh = do {
     sh \<leftarrow> vcall_rv V (VlsHandleToSh vlsh);
     if sh = -1 then State_Monad.return (- EBADF)
     else vcall_rv V (VlsSessionGetError sh) }"

section \<open>Certificates\<close>

definition vclpoll_add_cert_key_pair ::
    "cgo \<Rightarrow> u8 list \<Rightarrow> u8 list \<Rightarrow> (world, int \<times> u32) state" where
  "vclpoll_add_cert_key_pair V cert key = do {
     rv \<leftarrow> vcall_rv V (VlsAddCertKeyPair cert key);
     if rv < 0 then State_Monad.return (rv, 0)
     else State_Monad.return (0, word_of_int rv) }"

definition vclpoll_del_cert_key_pair :: "cgo \<Rightarrow> u32 \<Rightarrow> (world, int) state" where
  "vclpoll_del_cert_key_pair V ckp_index = vcall_rv V (VlsDelCertKeyPair ckp_index)"

section \<open>Epoll\<close>

definition vclpoll_epoll_create :: "cgo \<Rightarrow> (world, int) state" where
  "vclpoll_epoll_create V = vcall_rv V VlsEpollCreate"

definition vclpoll_epoll_ctl ::
    "cgo \<Rightarrow> handle \<Rightarrow> ctl_op \<Rightarrow> handle \<Rightarrow> (u32 \<times> u64) option \<Rightarrow> (world, int) state" where
  "vclpoll_epoll_ctl V ep_vlsh op vlsh ev = vcall_rv V (VlsEpollCtl ep_vlsh op vlsh ev)"

definition vclpoll_epoll_wait ::
    "cgo \<Rightarrow> handle \<Rightarrow> nat \<Rightarrow> rat \<Rightarrow> (world, int \<times> (u32 \<times> u64) list) state" where
  "vclpoll_epoll_wait V ep_vlsh maxevents timeout_s = do {
     r \<leftarrow> vcall V (VlsEpollWait ep_vlsh maxevents timeout_s);
     State_Monad.return (rv r, r_events r) }"

text \<open>A one-shot wait: 1 when an event is ready, 0 on timeout, negative on error.\<close>

definition vclpoll_wait_once :: "cgo \<Rightarrow> handle \<Rightarrow> u32 \<Rightarrow> rat \<Rightarrow> (world, int) state" where
  "vclpoll_wait_once V vlsh events timeout_s = do {
     ep \<leftarrow> vcall_rv V VlsEpollCreate;
     if ep < 0 then State_Monad.return ep
     else do {
       rv \<leftarrow> vcall_rv V (VlsEpollCtl ep CTL_ADD vlsh (Some (events, event_key vlsh)));
       if rv < 0 then do { _ \<leftarrow> vcall V (VlsClose ep); State_Monad.return rv }
       else do {
         n \<leftarrow> vcall_rv V (VlsEpollWait ep 1 timeout_s);
         let saved = (if n < 0 then n else if n = 0 then 0 else 1);
         _ \<leftarrow> vcall V (VlsClose ep);
         State_Monad.return saved } } }"

section \<open>Handle accounting\<close>

text \<open>What a run keeps open: the handle it was given (none if negative), no others.\<close>

definition keeps :: "world \<Rightarrow> handle \<Rightarrow> world \<Rightarrow> bool" where
  "keeps w h0 w' \<longleftrightarrow> (\<forall>h. balance h w' = balance h w + owns h0 h)"

abbreviation quiet_run :: "world \<Rightarrow> world \<Rightarrow> bool" where
  "quiet_run w w' \<equiv> keeps w (-1) w'"

lemma keepsI: "(\<And>h. balance h w' = balance h w + owns h0 h) \<Longrightarrow> keeps w h0 w'"
  by (simp add: keeps_def)

lemma keeps_refl [simp]: "quiet_run w w"
  by (simp add: keeps_def)

lemma keeps_trans: "keeps w a w' \<Longrightarrow> keeps w' b w'' \<Longrightarrow> a < 0 \<Longrightarrow> keeps w b w''"
  by (simp add: keeps_def)

lemma keeps_trans2: "keeps w a w' \<Longrightarrow> keeps w' b w'' \<Longrightarrow> b < 0 \<Longrightarrow> keeps w a w''"
  by (simp add: keeps_def)

lemma keeps_negative: "a < 0 \<Longrightarrow> b < 0 \<Longrightarrow> keeps w a w' \<longleftrightarrow> keeps w b w'"
  by (simp add: keeps_def)

lemmas listen_defs = vclpoll_listen_tcp4_nb_def vclpoll_listen_tcp6_nb_def
  vclpoll_listen_tls4_nb_def vclpoll_listen_tls6_nb_def
  vclpoll_bind_udp4_nb_def vclpoll_bind_udp6_nb_def bind_listen_def

lemmas connect_defs = vclpoll_connect_tcp4_nb_def vclpoll_connect_tcp6_nb_def
  vclpoll_connect_udp4_nb_def vclpoll_connect_udp6_nb_def
  vclpoll_connect_tcp4_start_def vclpoll_connect_tcp6_start_def connect_nb_def
  vclpoll_connect_tls4_start_def vclpoll_connect_tls6_start_def connect_tls_start_def

lemmas quiet_defs = vclpoll_app_create_def vclpoll_app_destroy_def vclpoll_register_worker_def
  vclpoll_worker_unregister_def vclpoll_worker_index_def vclpoll_mode2_enabled_def
  vclpoll_session_worker_def vclpoll_get_local_addr_def vclpoll_get_peer_addr_def
  vclpoll_read_def vclpoll_write_def vclpoll_shutdown_def vclpoll_sendto_def
  vclpoll_recvfrom_def vclpoll_set_v6only_def vclpoll_session_get_connect_error_def
  vclpoll_add_cert_key_pair_def vclpoll_del_cert_key_pair_def vclpoll_epoll_ctl_def
  vclpoll_epoll_wait_def vclpoll_wait_once_def

lemma bind_listen_balance [balance_simps]:
  "0 \<le> vlsh \<Longrightarrow> balance h (snd (run_state (bind_listen V vlsh ep backlog) w))
     = balance h w + owns (fst (run_state (bind_listen V vlsh ep backlog) w)) h - owns vlsh h"
  by (simp add: bind_listen_def owns_def)

lemma listen_keeps:
  "keeps w (fst (run_state (vclpoll_listen_tcp4_nb V a4 p b) w))
     (snd (run_state (vclpoll_listen_tcp4_nb V a4 p b) w))"
  "keeps w (fst (run_state (vclpoll_listen_tcp6_nb V a6 p b) w))
     (snd (run_state (vclpoll_listen_tcp6_nb V a6 p b) w))"
  "keeps w (fst (run_state (vclpoll_listen_tls4_nb V a4 p b ckp) w))
     (snd (run_state (vclpoll_listen_tls4_nb V a4 p b ckp) w))"
  "keeps w (fst (run_state (vclpoll_listen_tls6_nb V a6 p b ckp) w))
     (snd (run_state (vclpoll_listen_tls6_nb V a6 p b ckp) w))"
  "keeps w (fst (run_state (vclpoll_bind_udp4_nb V a4 p) w))
     (snd (run_state (vclpoll_bind_udp4_nb V a4 p) w))"
  "keeps w (fst (run_state (vclpoll_bind_udp6_nb V a6 p) w))
     (snd (run_state (vclpoll_bind_udp6_nb V a6 p) w))"
  by (simp_all add: keeps_def listen_defs owns_def)

text \<open>A connect keeps its session whatever the outcome; the caller closes it.\<close>

lemma connect_keeps:
  "keeps w (snd (fst (run_state (vclpoll_connect_tcp4_nb V a4 p) w)))
     (snd (run_state (vclpoll_connect_tcp4_nb V a4 p) w))"
  "keeps w (snd (fst (run_state (vclpoll_connect_tcp6_nb V a6 p) w)))
     (snd (run_state (vclpoll_connect_tcp6_nb V a6 p) w))"
  "keeps w (snd (fst (run_state (vclpoll_connect_udp4_nb V a4 p) w)))
     (snd (run_state (vclpoll_connect_udp4_nb V a4 p) w))"
  "keeps w (snd (fst (run_state (vclpoll_connect_udp6_nb V a6 p) w)))
     (snd (run_state (vclpoll_connect_udp6_nb V a6 p) w))"
  "keeps w (snd (fst (run_state (vclpoll_connect_tcp4_start V a4 p) w)))
     (snd (run_state (vclpoll_connect_tcp4_start V a4 p) w))"
  "keeps w (snd (fst (run_state (vclpoll_connect_tcp6_start V a6 p) w)))
     (snd (run_state (vclpoll_connect_tcp6_start V a6 p) w))"
  "keeps w (snd (fst (run_state (vclpoll_connect_tls4_start V a4 p ckp cv) w)))
     (snd (run_state (vclpoll_connect_tls4_start V a4 p ckp cv) w))"
  "keeps w (snd (fst (run_state (vclpoll_connect_tls6_start V a6 p ckp cv) w)))
     (snd (run_state (vclpoll_connect_tls6_start V a6 p ckp cv) w))"
  by (simp_all add: keeps_def connect_defs owns_def)

lemma accept_keeps:
  "keeps w (fst (fst (run_state (vclpoll_accept_nb V l) w)))
     (snd (run_state (vclpoll_accept_nb V l) w))"
  "keeps w (fst (fst (run_state (vclpoll_accept_nb_full V l) w)))
     (snd (run_state (vclpoll_accept_nb_full V l) w))"
  by (simp_all add: keeps_def vclpoll_accept_nb_def vclpoll_accept_nb_full_def owns_def)

lemma epoll_create_keeps:
  "keeps w (fst (run_state (vclpoll_epoll_create V) w)) (snd (run_state (vclpoll_epoll_create V) w))"
  by (simp add: keeps_def vclpoll_epoll_create_def owns_def)

lemma close_balance [balance_simps]:
  "balance h (snd (run_state (vclpoll_close V h0) w)) = balance h w - (if h = h0 then 1 else 0)"
  by (simp add: vclpoll_close_def)

text \<open>Everything else opens and closes nothing, the one-shot wait included.\<close>

lemma quiet_ops [quiet_simps]:
  "quiet_run w (snd (run_state (vclpoll_app_create V nm) w))"
  "quiet_run w (snd (run_state (vclpoll_app_destroy V) w))"
  "quiet_run w (snd (run_state (vclpoll_register_worker V) w))"
  "quiet_run w (snd (run_state (vclpoll_worker_unregister V) w))"
  "quiet_run w (snd (run_state (vclpoll_worker_index V) w))"
  "quiet_run w (snd (run_state (vclpoll_mode2_enabled V) w))"
  "quiet_run w (snd (run_state (vclpoll_session_worker V s) w))"
  "quiet_run w (snd (run_state (vclpoll_get_local_addr V s) w))"
  "quiet_run w (snd (run_state (vclpoll_get_peer_addr V s) w))"
  "quiet_run w (snd (run_state (vclpoll_read V s n) w))"
  "quiet_run w (snd (run_state (vclpoll_write V s buf) w))"
  "quiet_run w (snd (run_state (vclpoll_shutdown V s how) w))"
  "quiet_run w (snd (run_state (vclpoll_sendto V s buf v4 ip port) w))"
  "quiet_run w (snd (run_state (vclpoll_recvfrom V s n) w))"
  "quiet_run w (snd (run_state (vclpoll_set_v6only V s v) w))"
  "quiet_run w (snd (run_state (vclpoll_session_get_connect_error V s) w))"
  "quiet_run w (snd (run_state (vclpoll_add_cert_key_pair V cert key) w))"
  "quiet_run w (snd (run_state (vclpoll_del_cert_key_pair V ckp) w))"
  "quiet_run w (snd (run_state (vclpoll_epoll_ctl V ep op s ev) w))"
  "quiet_run w (snd (run_state (vclpoll_epoll_wait V ep m tmo) w))"
  "quiet_run w (snd (run_state (vclpoll_wait_once V s events tmo) w))"
  by (simp_all add: keeps_def quiet_defs)

end
