(* ===== verification/RawOps.thy ===== *)
theory RawOps
  imports CgoBridge
begin

text \<open>
  The \<open>raw*\<close> functions of \<open>internal/vclpoll/cgo.go\<close>: the Go side of the bridge, one VLS
  operation on the calling thread each, with return values turned into errors. Mode 2 workers
  call them directly; the Mode 3 functions wrap them (theory \<open>Mode3Ops\<close>).
\<close>

abbreviation invalidVLSH :: handle where
  "invalidVLSH \<equiv> -1"

text \<open>Event masks of \<open><sys/epoll.h>\<close>.\<close>

abbreviation "epollIn \<equiv> (0x001 :: u32)"
abbreviation "epollOut \<equiv> (0x004 :: u32)"
abbreviation "epollErr \<equiv> (0x008 :: u32)"
abbreviation "epollHup \<equiv> (0x010 :: u32)"
abbreviation "epollRDHup \<equiv> (0x2000 :: u32)"

text \<open>A return value as a result: \<open>vppErr\<close> for a negative one.\<close>

definition rv_result :: "string \<Rightarrow> int \<Rightarrow> 'a \<Rightarrow> 'a poll_result" where
  "rv_result op n x = (case vppErr op n of Some e \<Rightarrow> Inl e | None \<Rightarrow> Inr x)"

lemma rv_result_simps [simp]:
  "n < 0 \<Longrightarrow> rv_result op n x = Inl (vpp_error op n)"
  "0 \<le> n \<Longrightarrow> rv_result op n x = Inr x"
  by (simp_all add: rv_result_def vppErr_def vpp_error_def)

lemma rv_result_Inr: "rv_result op n x = Inr y \<longleftrightarrow> 0 \<le> n \<and> y = x"
  by (cases "n < 0") auto

lemma rv_result_Inl: "rv_result op n x = Inl e \<longleftrightarrow> n < 0 \<and> e = vpp_error op n"
  by (cases "n < 0") auto

section \<open>Application and workers\<close>

definition rawAppCreate :: "cgo \<Rightarrow> string \<Rightarrow> (world, unit poll_result) state" where
  "rawAppCreate V appName = do {
     n \<leftarrow> vclpoll_app_create V appName;
     State_Monad.return (if n \<noteq> 0 then Inl (Errorf ''vls_app_create failed'') else Inr ()) }"

definition rawAppDestroy :: "cgo \<Rightarrow> (world, unit) state" where
  "rawAppDestroy V = vclpoll_app_destroy V"

definition rawWorkerIndex :: "cgo \<Rightarrow> (world, u32) state" where
  "rawWorkerIndex V = vclpoll_worker_index V"

definition rawMode2Enabled :: "cgo \<Rightarrow> (world, bool) state" where
  "rawMode2Enabled V = vclpoll_mode2_enabled V"

definition rawRegisterWorker :: "cgo \<Rightarrow> (world, unit poll_result) state" where
  "rawRegisterWorker V = do {
     _ \<leftarrow> vclpoll_register_worker V;
     idx \<leftarrow> rawWorkerIndex V;
     State_Monad.return (if idx = - 1 then Inl (Errorf ''vclpoll: VCL worker registration failed'')
                         else Inr ()) }"

definition rawUnregisterWorker :: "cgo \<Rightarrow> (world, unit poll_result) state" where
  "rawUnregisterWorker V = do {
     n \<leftarrow> vclpoll_worker_unregister V;
     State_Monad.return (if n \<noteq> 0 then Inl (vpp_error ''worker_unregister'' (-1)) else Inr ()) }"

text \<open>The owning VCL worker of a handle, \<open>None\<close> where the lookup fails: \<open>^uint32(0)\<close> is \<open>-1\<close>.\<close>

definition rawSessionWorker :: "cgo \<Rightarrow> handle \<Rightarrow> (world, u32 \<times> bool) state" where
  "rawSessionWorker V vlsh = do {
     si \<leftarrow> vclpoll_session_worker V vlsh;
     State_Monad.return (snd si, snd si \<noteq> - 1 \<and> fst si \<noteq> - 1) }"

section \<open>Data\<close>

definition rawAcceptFull :: "cgo \<Rightarrow> handle \<Rightarrow> (world, (handle \<times> AddrInfo) poll_result) state" where
  "rawAcceptFull V listener = do {
     (n, ip, port, is4) \<leftarrow> vclpoll_accept_nb_full V listener;
     State_Monad.return (rv_result ''accept'' n (n, addrInfoFromC ip port is4)) }"

text \<open>A read returns the bytes it put at the start of the buffer; \<open>n\<close> is the buffer's length.\<close>

definition rawRead :: "cgo \<Rightarrow> handle \<Rightarrow> nat \<Rightarrow> (world, u8 list poll_result) state" where
  "rawRead V vlsh n =
     (if n = 0 then State_Monad.return (Inr [])
      else do {
        (r, bs) \<leftarrow> vclpoll_read V vlsh n;
        State_Monad.return (rv_result ''read'' r (copy_into (nat r) bs)) })"

definition rawWrite :: "cgo \<Rightarrow> handle \<Rightarrow> u8 list \<Rightarrow> (world, nat poll_result) state" where
  "rawWrite V vlsh p =
     (if length p = 0 then State_Monad.return (Inr 0)
      else do {
        r \<leftarrow> vclpoll_write V vlsh p;
        State_Monad.return (rv_result ''write'' r (nat r)) })"

definition rawClose :: "cgo \<Rightarrow> handle \<Rightarrow> (world, unit poll_result) state" where
  "rawClose V vlsh = do {
     r \<leftarrow> vclpoll_close V vlsh;
     State_Monad.return (rv_result ''close'' r ()) }"

definition rawShutdown :: "cgo \<Rightarrow> handle \<Rightarrow> int \<Rightarrow> (world, unit poll_result) state" where
  "rawShutdown V vlsh how = do {
     r \<leftarrow> vclpoll_shutdown V vlsh how;
     State_Monad.return (rv_result ''shutdown'' r ()) }"

definition rawSessionConnectError :: "cgo \<Rightarrow> handle \<Rightarrow> (world, unit poll_result) state" where
  "rawSessionConnectError V vlsh = do {
     r \<leftarrow> vclpoll_session_get_connect_error V vlsh;
     State_Monad.return (rv_result ''connect'' r ()) }"

definition rawSendTo :: "cgo \<Rightarrow> handle \<Rightarrow> u8 list \<Rightarrow> AddrInfo \<Rightarrow> (world, nat poll_result) state" where
  "rawSendTo V vlsh p addr =
     (if length p = 0 then State_Monad.return (Inr 0)
      else do {
        r \<leftarrow> vclpoll_sendto V vlsh p (ai_IsV4 addr) (ai_IP addr) (portBE (ai_Port addr));
        State_Monad.return (rv_result ''sendto'' r (nat r)) })"

definition rawRecvFrom ::
    "cgo \<Rightarrow> handle \<Rightarrow> nat \<Rightarrow> (world, (u8 list \<times> AddrInfo) poll_result) state" where
  "rawRecvFrom V vlsh n =
     (if n = 0 then State_Monad.return (Inr ([], AddrInfo_zero))
      else do {
        (r, bs, ip, port, is4) \<leftarrow> vclpoll_recvfrom V vlsh n;
        State_Monad.return
          (rv_result ''recvfrom'' r (copy_into (nat r) bs, addrInfoFromC ip port is4)) })"

section \<open>Certificates and TLS\<close>

definition rawAddCertKeyPair :: "cgo \<Rightarrow> u8 list \<Rightarrow> u8 list \<Rightarrow> (world, u32 poll_result) state" where
  "rawAddCertKeyPair V cert key =
     (if length cert = 0 \<or> length key = 0 then State_Monad.return (Inl (Errno EINVAL))
      else do {
        (r, idx) \<leftarrow> vclpoll_add_cert_key_pair V cert key;
        State_Monad.return (rv_result ''add_cert_key_pair'' r idx) })"

definition rawDelCertKeyPair :: "cgo \<Rightarrow> u32 \<Rightarrow> (world, unit poll_result) state" where
  "rawDelCertKeyPair V idx = do {
     r \<leftarrow> vclpoll_del_cert_key_pair V idx;
     State_Monad.return (rv_result ''del_cert_key_pair'' r ()) }"

definition rawListenTLS4 ::
    "cgo \<Rightarrow> ip4 \<Rightarrow> u16 \<Rightarrow> int \<Rightarrow> u32 \<Rightarrow> (world, handle poll_result) state" where
  "rawListenTLS4 V ip4 port backlog ckp = do {
     r \<leftarrow> vclpoll_listen_tls4_nb V (ipBE ip4) (portBE port) backlog ckp;
     State_Monad.return (rv_result ''listen_tls4'' r r) }"

definition rawListenTLS6 ::
    "cgo \<Rightarrow> ip16 \<Rightarrow> u16 \<Rightarrow> int \<Rightarrow> u32 \<Rightarrow> (world, handle poll_result) state" where
  "rawListenTLS6 V ip6 port backlog ckp = do {
     r \<leftarrow> vclpoll_listen_tls6_nb V ip6 (portBE port) backlog ckp;
     State_Monad.return (rv_result ''listen_tls6'' r r) }"

text \<open>
  The three-way outcome of a connect start: connected, in progress, or failed, the session
  closed in the last case. (A \<open>create\<close> that itself failed with \<open>EAGAIN\<close> or \<open>EINPROGRESS\<close>
  counts as in progress, with the handle \<open>-1\<close>.)
\<close>

definition parseConnectResult ::
    "cgo \<Rightarrow> int \<Rightarrow> handle \<Rightarrow> string \<Rightarrow> (world, (handle \<times> bool) poll_result) state" where
  "parseConnectResult V r outVLSH op =
     (if r \<ge> 0 then State_Monad.return (Inr (outVLSH, True))
      else if isInProgress r \<or> isAgain r then State_Monad.return (Inr (outVLSH, False))
      else do {
        _ \<leftarrow> (if outVLSH \<ge> 0 then vclpoll_close V outVLSH else State_Monad.return 0);
        State_Monad.return (Inl (vpp_error op r)) })"

definition rawConnectTLS4Start ::
    "cgo \<Rightarrow> ip4 \<Rightarrow> u16 \<Rightarrow> u32 \<Rightarrow> bool \<Rightarrow> (world, (handle \<times> bool) poll_result) state" where
  "rawConnectTLS4Start V ip4 port ckp ckpValid = do {
     (r, out) \<leftarrow> vclpoll_connect_tls4_start V (ipBE ip4) (portBE port) ckp ckpValid;
     parseConnectResult V r out ''connect_tls4_start'' }"

definition rawConnectTLS6Start ::
    "cgo \<Rightarrow> ip16 \<Rightarrow> u16 \<Rightarrow> u32 \<Rightarrow> bool \<Rightarrow> (world, (handle \<times> bool) poll_result) state" where
  "rawConnectTLS6Start V ip6 port ckp ckpValid = do {
     (r, out) \<leftarrow> vclpoll_connect_tls6_start V ip6 (portBE port) ckp ckpValid;
     parseConnectResult V r out ''connect_tls6_start'' }"

section \<open>Epoll\<close>

record pollEvent =
  pe_Vlsh :: handle
  pe_Events :: u32

definition rawEpollCreate :: "cgo \<Rightarrow> (world, handle poll_result) state" where
  "rawEpollCreate V = do {
     r \<leftarrow> vclpoll_epoll_create V;
     State_Monad.return (rv_result ''epoll_create'' r r) }"

definition rawEpollCtl ::
    "cgo \<Rightarrow> handle \<Rightarrow> handle \<Rightarrow> handle \<Rightarrow> u32 \<Rightarrow> ctl_op \<Rightarrow> (world, unit poll_result) state" where
  "rawEpollCtl V epVLSH rawVLSH eventKey events op = do {
     r \<leftarrow> vclpoll_epoll_ctl V epVLSH op rawVLSH (Some (events, event_key eventKey));
     State_Monad.return (rv_result ''epoll_ctl'' r ()) }"

definition rawEpollAdd ::
    "cgo \<Rightarrow> handle \<Rightarrow> handle \<Rightarrow> handle \<Rightarrow> u32 \<Rightarrow> (world, unit poll_result) state" where
  "rawEpollAdd V epVLSH rawVLSH eventKey events = rawEpollCtl V epVLSH rawVLSH eventKey events CTL_ADD"

definition rawEpollMod ::
    "cgo \<Rightarrow> handle \<Rightarrow> handle \<Rightarrow> handle \<Rightarrow> u32 \<Rightarrow> (world, unit poll_result) state" where
  "rawEpollMod V epVLSH rawVLSH eventKey events = rawEpollCtl V epVLSH rawVLSH eventKey events CTL_MOD"

definition rawEpollDel :: "cgo \<Rightarrow> handle \<Rightarrow> handle \<Rightarrow> (world, unit) state" where
  "rawEpollDel V epVLSH rawVLSH = do {
     _ \<leftarrow> vclpoll_epoll_ctl V epVLSH CTL_DEL rawVLSH None;
     State_Monad.return () }"

text \<open>
  The events copied into the Go buffer of \<open>len\<close> entries: at most 64 are asked for; the C array
  is zeroed, and an \<open>n\<close> beyond it (or beyond the buffer) is an index panic, \<open>None\<close>.
\<close>

definition copy_events :: "nat \<Rightarrow> int \<Rightarrow> (u32 \<times> u64) list \<Rightarrow> pollEvent list option" where
  "copy_events len n evs =
     (if n \<le> 0 then Some []
      else if 64 < n \<or> int len < n then None
      else Some (map (\<lambda>(ev, key). \<lparr>pe_Vlsh = key_handle key, pe_Events = ev\<rparr>)
             (take (nat n) (evs @ replicate (nat n) (0, 0)))))"

definition rawEpollWait ::
    "cgo \<Rightarrow> handle \<Rightarrow> nat \<Rightarrow> rat \<Rightarrow> (world, pollEvent list option) state" where
  "rawEpollWait V epVLSH len timeoutSeconds =
     (if len = 0 then State_Monad.return (Some [])
      else do {
        (n, evs) \<leftarrow> vclpoll_epoll_wait V epVLSH (min len 64) timeoutSeconds;
        State_Monad.return (copy_events len n evs) })"

lemma copy_events_within:
  assumes "n \<le> int (min len 64)"
  shows "\<exists>evs'. copy_events len n evs = Some evs' \<and> length evs' = nat n"
  using assms by (auto simp: copy_events_def)

section \<open>Handle accounting\<close>

text \<open>The handle a result owns: that of a success, none for an error.\<close>

fun result_handle :: "handle poll_result \<Rightarrow> handle" where
  "result_handle (Inl e) = -1"
| "result_handle (Inr h) = h"

fun result_handle1 :: "(handle \<times> 'a) poll_result \<Rightarrow> handle" where
  "result_handle1 (Inl e) = -1"
| "result_handle1 (Inr (h, x)) = h"

lemma result_handle_rv [simp]: "keeps w (result_handle (rv_result op n n)) w' \<longleftrightarrow> keeps w n w'"
  by (cases "n < 0") (simp_all add: keeps_def)

lemma result_handle1_rv [simp]:
  "keeps w (result_handle1 (rv_result op n (n, x))) w' \<longleftrightarrow> keeps w n w'"
  by (cases "n < 0") (simp_all add: keeps_def)

lemma rawListenTLS_keeps:
  "keeps w (result_handle (fst (run_state (rawListenTLS4 V a4 p b ckp) w)))
     (snd (run_state (rawListenTLS4 V a4 p b ckp) w))"
  "keeps w (result_handle (fst (run_state (rawListenTLS6 V a6 p b ckp) w)))
     (snd (run_state (rawListenTLS6 V a6 p b ckp) w))"
  by (simp_all add: rawListenTLS4_def rawListenTLS6_def listen_keeps)

lemma rawAcceptFull_keeps:
  "keeps w (result_handle1 (fst (run_state (rawAcceptFull V l) w)))
     (snd (run_state (rawAcceptFull V l) w))"
  by (simp add: rawAcceptFull_def accept_keeps)

lemma rawEpollCreate_keeps:
  "keeps w (result_handle (fst (run_state (rawEpollCreate V) w)))
     (snd (run_state (rawEpollCreate V) w))"
  by (simp add: rawEpollCreate_def epoll_create_keeps)

lemma parseConnectResult_keeps:
  assumes "keeps w0 outVLSH w"
  shows "keeps w0 (result_handle1 (fst (run_state (parseConnectResult V r outVLSH op) w)))
     (snd (run_state (parseConnectResult V r outVLSH op) w))"
  using assms
  by (auto simp: parseConnectResult_def keeps_def balance_simps owns_def)

lemma rawConnectTLS_keeps:
  "keeps w (result_handle1 (fst (run_state (rawConnectTLS4Start V a4 p ckp cv) w)))
     (snd (run_state (rawConnectTLS4Start V a4 p ckp cv) w))"
  "keeps w (result_handle1 (fst (run_state (rawConnectTLS6Start V a6 p ckp cv) w)))
     (snd (run_state (rawConnectTLS6Start V a6 p ckp cv) w))"
  by (simp_all add: rawConnectTLS4Start_def rawConnectTLS6Start_def parseConnectResult_keeps
      connect_keeps)

lemma rawClose_balance [balance_simps]:
  "balance h (snd (run_state (rawClose V h0) w)) = balance h w - (if h = h0 then 1 else 0)"
  by (simp add: rawClose_def balance_simps)

lemma raw_quiet [quiet_simps]:
  "quiet_run w (snd (run_state (rawAppCreate V nm) w))"
  "quiet_run w (snd (run_state (rawAppDestroy V) w))"
  "quiet_run w (snd (run_state (rawWorkerIndex V) w))"
  "quiet_run w (snd (run_state (rawMode2Enabled V) w))"
  "quiet_run w (snd (run_state (rawUnregisterWorker V) w))"
  "quiet_run w (snd (run_state (rawSessionWorker V s) w))"
  "quiet_run w (snd (run_state (rawRead V s n) w))"
  "quiet_run w (snd (run_state (rawWrite V s buf) w))"
  "quiet_run w (snd (run_state (rawShutdown V s how) w))"
  "quiet_run w (snd (run_state (rawSessionConnectError V s) w))"
  "quiet_run w (snd (run_state (rawSendTo V s buf a) w))"
  "quiet_run w (snd (run_state (rawRecvFrom V s n) w))"
  "quiet_run w (snd (run_state (rawAddCertKeyPair V cert key) w))"
  "quiet_run w (snd (run_state (rawDelCertKeyPair V ckp) w))"
  "quiet_run w (snd (run_state (rawEpollAdd V ep s k ev) w))"
  "quiet_run w (snd (run_state (rawEpollMod V ep s k ev) w))"
  "quiet_run w (snd (run_state (rawEpollDel V ep s) w))"
  "quiet_run w (snd (run_state (rawEpollWait V ep len tmo) w))"
  by (simp_all add: quiet_simps rawAppCreate_def rawAppDestroy_def rawWorkerIndex_def
      rawMode2Enabled_def rawUnregisterWorker_def rawSessionWorker_def rawRead_def rawWrite_def
      rawShutdown_def rawSessionConnectError_def rawSendTo_def rawRecvFrom_def
      rawAddCertKeyPair_def rawDelCertKeyPair_def rawEpollAdd_def rawEpollMod_def
      rawEpollCtl_def rawEpollDel_def rawEpollWait_def)

end
