(* ===== verification/Mode3Ops.thy ===== *)
theory Mode3Ops
  imports RawOps
begin

text \<open>
  Mode 3 of \<open>internal/vclpoll/cgo.go\<close>: thread registration and the \<open>vlsMu\<close> discipline
  (\<open>registerThisThread\<close>, \<open>enterVLS\<close>, \<open>exitVLS\<close>, \<open>pin\<close>), the pinned one-shot operations, and the
  retry loops of accept, read, write, sendto and recvfrom. A loop may retry for ever, so it
  takes fuel; the lemmas say how much is enough. The mask helpers of the shared poller are here
  too, since they take \<open>vlsMu\<close> themselves.
\<close>

section \<open>The lock discipline\<close>

text \<open>
  The state of \<open>vlsMu\<close> as the calling thread sees it after a history. Registration and
  application lifecycle calls need the write lock, every other VLS call the read lock, and a
  readiness wait parks with neither; \<open>None\<close> is a violation (which no later event repairs).
\<close>

datatype lock_state = Unlocked | RLocked | WLocked

fun lock_step :: "lock_state \<Rightarrow> vls_call \<Rightarrow> lock_state option" where
  "lock_step s (GoEvent MuLock) = (if s = Unlocked then Some WLocked else None)"
| "lock_step s (GoEvent MuUnlock) = (if s = WLocked then Some Unlocked else None)"
| "lock_step s (GoEvent MuRLock) = (if s = Unlocked then Some RLocked else None)"
| "lock_step s (GoEvent MuRUnlock) = (if s = RLocked then Some Unlocked else None)"
| "lock_step s (GoEvent (RegistryStore t)) = Some s"
| "lock_step s (GoEvent LoadAppLive) = Some s"
| "lock_step s (GoEvent (PollWait h ev)) = (if s = Unlocked then Some s else None)"
| "lock_step s (VlsAppCreate n) = (if s = WLocked then Some s else None)"
| "lock_step s VlsAppDestroy = (if s = WLocked then Some s else None)"
| "lock_step s VlsRegisterWorker = (if s = WLocked then Some s else None)"
| "lock_step s VlsUnregisterWorker = (if s = WLocked then Some s else None)"
| "lock_step s _ = (if s = RLocked then Some s else None)"

fun lock_of :: "world \<Rightarrow> lock_state option" where
  "lock_of [] = Some Unlocked"
| "lock_of ((c, r) # w) = (case lock_of w of None \<Rightarrow> None | Some s \<Rightarrow> lock_step s c)"

text \<open>\<open>workerRegistry\<close>: the threads whose \<open>Store\<close> is in the history.\<close>

definition registered :: "nat \<Rightarrow> world \<Rightarrow> bool" where
  "registered t w \<longleftrightarrow> GoEvent (RegistryStore t) \<in> fst ` set w"

section \<open>Registration and pinning\<close>

definition registerThisThread :: "cgo \<Rightarrow> (world, unit) state" where
  "registerThisThread V = do {
     w \<leftarrow> State_Monad.get;
     if registered (tid V) w then State_Monad.return ()
     else do {
       _ \<leftarrow> vcall V (GoEvent MuLock);
       w \<leftarrow> State_Monad.get;
       _ \<leftarrow> (if registered (tid V) w then State_Monad.return ()
            else do {
              _ \<leftarrow> vclpoll_register_worker V;
              _ \<leftarrow> vcall V (GoEvent (RegistryStore (tid V)));
              State_Monad.return () });
       _ \<leftarrow> vcall V (GoEvent MuUnlock);
       State_Monad.return () } }"

definition markCurrentThreadRegistered :: "cgo \<Rightarrow> (world, unit) state" where
  "markCurrentThreadRegistered V = do {
     _ \<leftarrow> vcall V (GoEvent (RegistryStore (tid V)));
     State_Monad.return () }"

definition enterVLS :: "cgo \<Rightarrow> (world, unit) state" where
  "enterVLS V = do {
     _ \<leftarrow> registerThisThread V;
     _ \<leftarrow> vcall V (GoEvent MuRLock);
     State_Monad.return () }"

definition exitVLS :: "cgo \<Rightarrow> (world, unit) state" where
  "exitVLS V = do { _ \<leftarrow> vcall V (GoEvent MuRUnlock); State_Monad.return () }"

text \<open>\<open>defer pin()()\<close> around a body.\<close>

definition pin :: "cgo \<Rightarrow> (world, 'a) state \<Rightarrow> (world, 'a) state" where
  "pin V body = do {
     _ \<leftarrow> enterVLS V;
     x \<leftarrow> body;
     _ \<leftarrow> exitVLS V;
     State_Monad.return x }"

text \<open>\<open>vlsMu.RLock()\<close> around a call of a thread that is registered already.\<close>

definition with_rlock :: "cgo \<Rightarrow> (world, 'a) state \<Rightarrow> (world, 'a) state" where
  "with_rlock V body = do {
     _ \<leftarrow> vcall V (GoEvent MuRLock);
     x \<leftarrow> body;
     _ \<leftarrow> vcall V (GoEvent MuRUnlock);
     State_Monad.return x }"

section \<open>Application lifecycle\<close>

text \<open>The body of \<open>appOnce.Do\<close>: the error, and whether \<open>appCreated\<close> and \<open>appLive\<close> are set.\<close>

definition mode3AppInit_once :: "cgo \<Rightarrow> string \<Rightarrow> (world, unit poll_result) state" where
  "mode3AppInit_once V appName = do {
     _ \<leftarrow> vcall V (GoEvent MuLock);
     n \<leftarrow> vclpoll_app_create V appName;
     r \<leftarrow> (if n \<noteq> 0 then State_Monad.return (Inl (Errorf ''vls_app_create failed''))
          else do {
            _ \<leftarrow> vcall V (GoEvent (RegistryStore (tid V)));
            State_Monad.return (Inr ()) });
     _ \<leftarrow> vcall V (GoEvent MuUnlock);
     State_Monad.return r }"

text \<open>\<open>created\<close> is \<open>appCreated\<close>, which the compare-and-swap clears.\<close>

definition mode3AppDestroy :: "cgo \<Rightarrow> bool \<Rightarrow> (world, bool) state" where
  "mode3AppDestroy V created =
     (if \<not> created then State_Monad.return created
      else do {
        _ \<leftarrow> registerThisThread V;
        _ \<leftarrow> vcall V (GoEvent MuLock);
        _ \<leftarrow> vclpoll_app_destroy V;
        _ \<leftarrow> vcall V (GoEvent MuUnlock);
        State_Monad.return False })"

section \<open>Poller bridge\<close>

definition pollerEpollCreate :: "cgo \<Rightarrow> (world, handle poll_result) state" where
  "pollerEpollCreate V = do {
     r \<leftarrow> with_rlock V (vclpoll_epoll_create V);
     State_Monad.return (rv_result ''epoll_create'' r r) }"

definition pollerEpollCtlAdd :: "cgo \<Rightarrow> handle \<Rightarrow> handle \<Rightarrow> u32 \<Rightarrow> (world, unit poll_result) state" where
  "pollerEpollCtlAdd V epVLSH vlsh events = do {
     r \<leftarrow> with_rlock V (vclpoll_epoll_ctl V epVLSH CTL_ADD vlsh (Some (events, event_key vlsh)));
     State_Monad.return (rv_result ''epoll_ctl_add'' r ()) }"

definition pollerEpollCtlMod :: "cgo \<Rightarrow> handle \<Rightarrow> handle \<Rightarrow> u32 \<Rightarrow> (world, unit poll_result) state" where
  "pollerEpollCtlMod V epVLSH vlsh events = do {
     r \<leftarrow> with_rlock V (vclpoll_epoll_ctl V epVLSH CTL_MOD vlsh (Some (events, event_key vlsh)));
     State_Monad.return (rv_result ''epoll_ctl_mod'' r ()) }"

definition pollerEpollCtlDel :: "cgo \<Rightarrow> handle \<Rightarrow> handle \<Rightarrow> (world, unit) state" where
  "pollerEpollCtlDel V epVLSH vlsh = do {
     _ \<leftarrow> with_rlock V (vclpoll_epoll_ctl V epVLSH CTL_DEL vlsh None);
     State_Monad.return () }"

definition pollerEpollWait :: "cgo \<Rightarrow> handle \<Rightarrow> nat \<Rightarrow> (world, pollEvent list option) state" where
  "pollerEpollWait V epVLSH len =
     (if len = 0 then State_Monad.return (Some [])
      else do {
        (n, evs) \<leftarrow> with_rlock V (vclpoll_epoll_wait V epVLSH (min len 64) (1 / 10));
        State_Monad.return (copy_events len n evs) })"

section \<open>Pinned one-shot operations\<close>

definition mode3ListenTCP4 :: "cgo \<Rightarrow> ip4 \<Rightarrow> u16 \<Rightarrow> int \<Rightarrow> (world, handle poll_result) state" where
  "mode3ListenTCP4 V ip4 port backlog = pin V (do {
     r \<leftarrow> vclpoll_listen_tcp4_nb V (ipBE ip4) (portBE port) backlog;
     State_Monad.return (rv_result ''listen_tcp4'' r r) })"

definition mode3ListenTCP6 :: "cgo \<Rightarrow> ip16 \<Rightarrow> u16 \<Rightarrow> int \<Rightarrow> (world, handle poll_result) state" where
  "mode3ListenTCP6 V ip6 port backlog = pin V (do {
     r \<leftarrow> vclpoll_listen_tcp6_nb V ip6 (portBE port) backlog;
     State_Monad.return (rv_result ''listen_tcp6'' r r) })"

definition mode3BindUDP4 :: "cgo \<Rightarrow> ip4 \<Rightarrow> u16 \<Rightarrow> (world, handle poll_result) state" where
  "mode3BindUDP4 V ip4 port = pin V (do {
     r \<leftarrow> vclpoll_bind_udp4_nb V (ipBE ip4) (portBE port);
     State_Monad.return (rv_result ''bind_udp4'' r r) })"

definition mode3BindUDP6 :: "cgo \<Rightarrow> ip16 \<Rightarrow> u16 \<Rightarrow> (world, handle poll_result) state" where
  "mode3BindUDP6 V ip6 port = pin V (do {
     r \<leftarrow> vclpoll_bind_udp6_nb V ip6 (portBE port);
     State_Monad.return (rv_result ''bind_udp6'' r r) })"

text \<open>The legacy blocking connects.\<close>

definition finishBlockingConnect ::
    "cgo \<Rightarrow> int \<Rightarrow> handle \<Rightarrow> string \<Rightarrow> rat \<Rightarrow> (world, handle poll_result) state" where
  "finishBlockingConnect V r outVLSH op timeoutSec =
     (if r \<ge> 0 then State_Monad.return (Inr outVLSH)
      else if \<not> isInProgress r \<and> \<not> isAgain r then do {
        _ \<leftarrow> (if outVLSH \<ge> 0 then vclpoll_close V outVLSH else State_Monad.return 0);
        State_Monad.return (Inl (vpp_error op r)) }
      else do {
        s \<leftarrow> vclpoll_wait_once V outVLSH epollOut timeoutSec;
        if s < 0 then do {
          _ \<leftarrow> vclpoll_close V outVLSH;
          State_Monad.return (Inl (vpp_error (op @ ''_wait'') s)) }
        else if s = 0 then do {
          _ \<leftarrow> vclpoll_close V outVLSH;
          State_Monad.return (Inl (vpp_error (op @ ''_timeout'') (- ETIMEDOUT))) }
        else State_Monad.return (Inr outVLSH) })"

definition mode3DialTCP4 :: "cgo \<Rightarrow> ip4 \<Rightarrow> u16 \<Rightarrow> (world, handle poll_result) state" where
  "mode3DialTCP4 V ip4 port = pin V (do {
     (r, out) \<leftarrow> vclpoll_connect_tcp4_nb V (ipBE ip4) (portBE port);
     finishBlockingConnect V r out ''connect'' 30 })"

definition mode3DialTCP6 :: "cgo \<Rightarrow> ip16 \<Rightarrow> u16 \<Rightarrow> (world, handle poll_result) state" where
  "mode3DialTCP6 V ip6 port = pin V (do {
     (r, out) \<leftarrow> vclpoll_connect_tcp6_nb V ip6 (portBE port);
     finishBlockingConnect V r out ''connect6'' 30 })"

definition mode3ConnectUDP4 :: "cgo \<Rightarrow> ip4 \<Rightarrow> u16 \<Rightarrow> (world, handle poll_result) state" where
  "mode3ConnectUDP4 V ip4 port = pin V (do {
     (r, out) \<leftarrow> vclpoll_connect_udp4_nb V (ipBE ip4) (portBE port);
     finishBlockingConnect V r out ''connect_udp4'' 10 })"

definition mode3ConnectUDP6 :: "cgo \<Rightarrow> ip16 \<Rightarrow> u16 \<Rightarrow> (world, handle poll_result) state" where
  "mode3ConnectUDP6 V ip6 port = pin V (do {
     (r, out) \<leftarrow> vclpoll_connect_udp6_nb V ip6 (portBE port);
     finishBlockingConnect V r out ''connect_udp6'' 10 })"

text \<open>The split connects.\<close>

type_synonym connect_result = "(handle \<times> bool) poll_result"

definition mode3ConnectTCP4Start :: "cgo \<Rightarrow> ip4 \<Rightarrow> u16 \<Rightarrow> (world, connect_result) state" where
  "mode3ConnectTCP4Start V ip4 port = pin V (do {
     (r, out) \<leftarrow> vclpoll_connect_tcp4_start V (ipBE ip4) (portBE port);
     parseConnectResult V r out ''connect_tcp4_start'' })"

definition mode3ConnectTCP6Start :: "cgo \<Rightarrow> ip16 \<Rightarrow> u16 \<Rightarrow> (world, connect_result) state" where
  "mode3ConnectTCP6Start V ip6 port = pin V (do {
     (r, out) \<leftarrow> vclpoll_connect_tcp6_start V ip6 (portBE port);
     parseConnectResult V r out ''connect_tcp6_start'' })"

definition mode3ConnectUDP4Start :: "cgo \<Rightarrow> ip4 \<Rightarrow> u16 \<Rightarrow> (world, connect_result) state" where
  "mode3ConnectUDP4Start V ip4 port = pin V (do {
     (r, out) \<leftarrow> vclpoll_connect_udp4_nb V (ipBE ip4) (portBE port);
     parseConnectResult V r out ''connect_udp4_start'' })"

definition mode3ConnectUDP6Start :: "cgo \<Rightarrow> ip16 \<Rightarrow> u16 \<Rightarrow> (world, connect_result) state" where
  "mode3ConnectUDP6Start V ip6 port = pin V (do {
     (r, out) \<leftarrow> vclpoll_connect_udp6_nb V ip6 (portBE port);
     parseConnectResult V r out ''connect_udp6_start'' })"

definition mode3ConnectTLS4Start ::
    "cgo \<Rightarrow> ip4 \<Rightarrow> u16 \<Rightarrow> u32 \<Rightarrow> bool \<Rightarrow> (world, connect_result) state" where
  "mode3ConnectTLS4Start V ip4 port ckp ckpValid = pin V (rawConnectTLS4Start V ip4 port ckp ckpValid)"

definition mode3ConnectTLS6Start ::
    "cgo \<Rightarrow> ip16 \<Rightarrow> u16 \<Rightarrow> u32 \<Rightarrow> bool \<Rightarrow> (world, connect_result) state" where
  "mode3ConnectTLS6Start V ip6 port ckp ckpValid = pin V (rawConnectTLS6Start V ip6 port ckp ckpValid)"

definition mode3ListenTLS4 ::
    "cgo \<Rightarrow> ip4 \<Rightarrow> u16 \<Rightarrow> int \<Rightarrow> u32 \<Rightarrow> (world, handle poll_result) state" where
  "mode3ListenTLS4 V ip4 port backlog ckp = pin V (rawListenTLS4 V ip4 port backlog ckp)"

definition mode3ListenTLS6 ::
    "cgo \<Rightarrow> ip16 \<Rightarrow> u16 \<Rightarrow> int \<Rightarrow> u32 \<Rightarrow> (world, handle poll_result) state" where
  "mode3ListenTLS6 V ip6 port backlog ckp = pin V (rawListenTLS6 V ip6 port backlog ckp)"

definition mode3AddCertKeyPair :: "cgo \<Rightarrow> u8 list \<Rightarrow> u8 list \<Rightarrow> (world, u32 poll_result) state" where
  "mode3AddCertKeyPair V cert key = pin V (rawAddCertKeyPair V cert key)"

definition mode3DelCertKeyPair :: "cgo \<Rightarrow> u32 \<Rightarrow> (world, unit poll_result) state" where
  "mode3DelCertKeyPair V idx = pin V (rawDelCertKeyPair V idx)"

definition mode3Shutdown :: "cgo \<Rightarrow> handle \<Rightarrow> int \<Rightarrow> (world, unit poll_result) state" where
  "mode3Shutdown V vlsh how = pin V (rawShutdown V vlsh how)"

definition mode3SessionConnectError :: "cgo \<Rightarrow> handle \<Rightarrow> (world, unit poll_result) state" where
  "mode3SessionConnectError V vlsh = pin V (rawSessionConnectError V vlsh)"

definition mode3GetLocalAddr :: "cgo \<Rightarrow> handle \<Rightarrow> (world, AddrInfo poll_result) state" where
  "mode3GetLocalAddr V vlsh = pin V (do {
     (r, ip, port, is4) \<leftarrow> vclpoll_get_local_addr V vlsh;
     State_Monad.return (rv_result ''get_local_addr'' r (addrInfoFromC ip port is4)) })"

definition mode3GetPeerAddr :: "cgo \<Rightarrow> handle \<Rightarrow> (world, AddrInfo poll_result) state" where
  "mode3GetPeerAddr V vlsh = pin V (do {
     (r, ip, port, is4) \<leftarrow> vclpoll_get_peer_addr V vlsh;
     State_Monad.return (rv_result ''get_peer_addr'' r (addrInfoFromC ip port is4)) })"

definition mode3SetV6Only :: "cgo \<Rightarrow> handle \<Rightarrow> bool \<Rightarrow> (world, unit poll_result) state" where
  "mode3SetV6Only V vlsh v6only = pin V (do {
     r \<leftarrow> vclpoll_set_v6only V vlsh (if v6only then 1 else 0);
     State_Monad.return (rv_result ''set_v6only'' r ()) })"

text \<open>
  The VLS part of \<open>mode3Close\<close> and \<open>mode3CloseVLSH\<close>; \<open>pollUnregister\<close>, which runs before it,
  is in the theory of the poller.
\<close>

definition mode3Close_vls :: "cgo \<Rightarrow> handle \<Rightarrow> (world, unit poll_result) state" where
  "mode3Close_vls V vlsh = pin V (rawClose V vlsh)"

section \<open>The retry loops\<close>

text \<open>
  The shape shared by the loops: check \<open>appLive\<close>, attempt, return unless the attempt says
  \<open>EAGAIN\<close>, release the lock, wait for readiness, take the lock again. An interrupted wait
  ends the loop with \<open>intr\<close> (\<open>mode3Accept\<close> ignores it). \<open>None\<close>: the fuel ran out.
\<close>

fun m3_retry :: "cgo \<Rightarrow> nat \<Rightarrow> (world, 'a poll_result) state \<Rightarrow> handle \<Rightarrow> u32
    \<Rightarrow> vclpoll_error option \<Rightarrow> (world, 'a poll_result option) state" where
  "m3_retry V 0 attempt h ev intr = State_Monad.return None"
| "m3_retry V (Suc fuel) attempt h ev intr = do {
     live \<leftarrow> vcall_rv V (GoEvent LoadAppLive);
     if live = 0 then do { _ \<leftarrow> exitVLS V; State_Monad.return (Some (Inl PollErrClosed)) }
     else do {
       r \<leftarrow> attempt;
       case r of
         Inr x \<Rightarrow> do { _ \<leftarrow> exitVLS V; State_Monad.return (Some (Inr x)) }
       | Inl e \<Rightarrow>
           if \<not> isAgainError e then do { _ \<leftarrow> exitVLS V; State_Monad.return (Some (Inl e)) }
           else do {
             _ \<leftarrow> exitVLS V;
             ok \<leftarrow> vcall_rv V (GoEvent (PollWait h ev));
             if ok = 0 \<and> intr \<noteq> None then State_Monad.return (Some (Inl (the intr)))
             else do { _ \<leftarrow> enterVLS V; m3_retry V fuel attempt h ev intr } } } }"

definition mode3ReadContext ::
    "cgo \<Rightarrow> nat \<Rightarrow> handle \<Rightarrow> nat \<Rightarrow> (world, u8 list poll_result option) state" where
  "mode3ReadContext V fuel vlsh n =
     (if n = 0 then State_Monad.return (Some (Inr []))
      else do {
        _ \<leftarrow> enterVLS V;
        m3_retry V fuel
          (do { (r, bs) \<leftarrow> vclpoll_read V vlsh n;
                State_Monad.return (rv_result ''read'' r (copy_into (nat r) bs)) })
          vlsh epollIn (Some ErrWaitCanceled) })"

definition mode3WriteContext ::
    "cgo \<Rightarrow> nat \<Rightarrow> handle \<Rightarrow> u8 list \<Rightarrow> (world, nat poll_result option) state" where
  "mode3WriteContext V fuel vlsh p =
     (if length p = 0 then State_Monad.return (Some (Inr 0))
      else do {
        _ \<leftarrow> enterVLS V;
        m3_retry V fuel
          (do { r \<leftarrow> vclpoll_write V vlsh p;
                State_Monad.return (rv_result ''write'' r (nat r)) })
          vlsh epollOut (Some ErrWaitCanceled) })"

definition mode3AcceptFullContext ::
    "cgo \<Rightarrow> nat \<Rightarrow> handle \<Rightarrow> (world, (handle \<times> AddrInfo) poll_result option) state" where
  "mode3AcceptFullContext V fuel listener = do {
     _ \<leftarrow> enterVLS V;
     m3_retry V fuel (rawAcceptFull V listener) listener epollIn (Some PollErrClosed) }"

definition mode3Accept ::
    "cgo \<Rightarrow> nat \<Rightarrow> handle \<Rightarrow> (world, (handle \<times> ip4 \<times> u16) poll_result option) state" where
  "mode3Accept V fuel listener = do {
     _ \<leftarrow> enterVLS V;
     m3_retry V fuel
       (do { (r, be, pBE) \<leftarrow> vclpoll_accept_nb V listener;
             State_Monad.return (rv_result ''accept'' r
               (r, ip4_of_be be, drop_bit 8 pBE OR push_bit 8 (pBE AND 0xff))) })
       listener epollIn None }"

definition mode3SendToContext ::
    "cgo \<Rightarrow> nat \<Rightarrow> handle \<Rightarrow> u8 list \<Rightarrow> AddrInfo \<Rightarrow> (world, nat poll_result option) state" where
  "mode3SendToContext V fuel vlsh p addr =
     (if length p = 0 then State_Monad.return (Some (Inr 0))
      else do {
        _ \<leftarrow> enterVLS V;
        m3_retry V fuel (rawSendTo V vlsh p addr) vlsh epollOut (Some ErrWaitCanceled) })"

definition mode3RecvFromContext ::
    "cgo \<Rightarrow> nat \<Rightarrow> handle \<Rightarrow> nat \<Rightarrow> (world, (u8 list \<times> AddrInfo) poll_result option) state" where
  "mode3RecvFromContext V fuel vlsh n =
     (if n = 0 then State_Monad.return (Some (Inr ([], AddrInfo_zero)))
      else do {
        _ \<leftarrow> enterVLS V;
        m3_retry V fuel (rawRecvFrom V vlsh n) vlsh epollIn (Some ErrWaitCanceled) })"

section \<open>Lock discipline: proofs\<close>

definition locks :: "lock_state \<Rightarrow> (world, 'a) state \<Rightarrow> lock_state \<Rightarrow> bool" where
  "locks s m t \<longleftrightarrow> (\<forall>w. lock_of w = Some s \<longrightarrow> lock_of (snd (run_state m w)) = Some t)"

lemma locksD: "locks s m t \<Longrightarrow> lock_of w = Some s \<Longrightarrow> lock_of (snd (run_state m w)) = Some t"
  by (simp add: locks_def)

lemma locks_return [intro!]: "locks s (State_Monad.return x) s"
  by (simp add: locks_def)

lemma locks_bind: "locks s m t \<Longrightarrow> (\<And>x. locks t (f x) u) \<Longrightarrow> locks s (m \<bind> f) u"
  by (simp add: locks_def)

lemma read_locked:
  "locks RLocked (vclpoll_listen_tcp4_nb V a4 p b) RLocked"
  "locks RLocked (vclpoll_listen_tcp6_nb V a6 p b) RLocked"
  "locks RLocked (vclpoll_listen_tls4_nb V a4 p b ckp) RLocked"
  "locks RLocked (vclpoll_listen_tls6_nb V a6 p b ckp) RLocked"
  "locks RLocked (vclpoll_bind_udp4_nb V a4 p) RLocked"
  "locks RLocked (vclpoll_bind_udp6_nb V a6 p) RLocked"
  "locks RLocked (vclpoll_connect_tcp4_nb V a4 p) RLocked"
  "locks RLocked (vclpoll_connect_tcp6_nb V a6 p) RLocked"
  "locks RLocked (vclpoll_connect_udp4_nb V a4 p) RLocked"
  "locks RLocked (vclpoll_connect_udp6_nb V a6 p) RLocked"
  "locks RLocked (vclpoll_connect_tcp4_start V a4 p) RLocked"
  "locks RLocked (vclpoll_connect_tcp6_start V a6 p) RLocked"
  "locks RLocked (vclpoll_connect_tls4_start V a4 p ckp cv) RLocked"
  "locks RLocked (vclpoll_connect_tls6_start V a6 p ckp cv) RLocked"
  by (simp_all add: locks_def listen_defs connect_defs)


text \<open>The other bridge functions, called with the read lock held.\<close>

lemma read_locked_ops:
  "locks RLocked (vclpoll_accept_nb V l) RLocked"
  "locks RLocked (vclpoll_accept_nb_full V l) RLocked"
  "locks RLocked (vclpoll_read V s n) RLocked"
  "locks RLocked (vclpoll_write V s buf) RLocked"
  "locks RLocked (vclpoll_close V s) RLocked"
  "locks RLocked (vclpoll_wait_once V s ev tmo) RLocked"
  "locks RLocked (vclpoll_get_local_addr V s) RLocked"
  "locks RLocked (vclpoll_get_peer_addr V s) RLocked"
  "locks RLocked (vclpoll_set_v6only V s v) RLocked"
  "locks RLocked (vclpoll_epoll_create V) RLocked"
  "locks RLocked (vclpoll_epoll_ctl V ep op s e) RLocked"
  "locks RLocked (vclpoll_epoll_wait V ep m tmo) RLocked"
  "locks RLocked (rawShutdown V s how) RLocked"
  "locks RLocked (rawClose V s) RLocked"
  "locks RLocked (rawSessionConnectError V s) RLocked"
  "locks RLocked (rawSendTo V s buf a) RLocked"
  "locks RLocked (rawRecvFrom V s n) RLocked"
  "locks RLocked (rawAcceptFull V l) RLocked"
  "locks RLocked (rawAddCertKeyPair V cert key) RLocked"
  "locks RLocked (rawDelCertKeyPair V ckp) RLocked"
  "locks RLocked (rawListenTLS4 V a4 p b ckp) RLocked"
  "locks RLocked (rawListenTLS6 V a6 p b ckp) RLocked"
  "locks RLocked (parseConnectResult V r out nm) RLocked"
  "locks RLocked (finishBlockingConnect V r out nm sec) RLocked"
  by (simp_all add: locks_def vclpoll_accept_nb_def vclpoll_accept_nb_full_def quiet_defs
      vclpoll_close_def vclpoll_epoll_create_def rawShutdown_def rawClose_def
      rawSessionConnectError_def rawSendTo_def rawRecvFrom_def rawAcceptFull_def
      rawAddCertKeyPair_def rawDelCertKeyPair_def rawListenTLS4_def rawListenTLS6_def listen_defs
      parseConnectResult_def finishBlockingConnect_def)

lemma registerThisThread_locks: "locks Unlocked (registerThisThread V) Unlocked"
  by (simp add: locks_def registerThisThread_def vclpoll_register_worker_def)

lemma enterVLS_locks: "locks Unlocked (enterVLS V) RLocked"
  using registerThisThread_locks [of V] by (simp add: locks_def enterVLS_def)

lemma exitVLS_locks: "locks RLocked (exitVLS V) Unlocked"
  by (simp add: locks_def exitVLS_def)

lemma pin_locks: "locks RLocked body RLocked \<Longrightarrow> locks Unlocked (pin V body) Unlocked"
  using enterVLS_locks [of V] exitVLS_locks [of V] by (simp add: locks_def pin_def)

lemma locks_if: "(b \<Longrightarrow> locks s m t) \<Longrightarrow> (\<not> b \<Longrightarrow> locks s m' t) \<Longrightarrow> locks s (if b then m else m') t"
  by simp

lemma with_rlock_locks: "locks RLocked body RLocked \<Longrightarrow> locks Unlocked (with_rlock V body) Unlocked"
  by (simp add: locks_def with_rlock_def)

lemma locks_map: "locks s m t \<Longrightarrow> locks s (m \<bind> (\<lambda>x. State_Monad.return (f x))) t"
  by (simp add: locks_def)

lemma locks_split: "(\<And>a b. locks s (f a b) t) \<Longrightarrow> locks s (case p of (a, b) \<Rightarrow> f a b) t"
  by (cases p) simp

lemmas pin_rules = pin_locks locks_map locks_bind locks_split with_rlock_locks read_locked
  read_locked_ops

text \<open>
  Every Mode 3 one-shot operation starts and ends with \<open>vlsMu\<close> free and takes the lock its VLS
  calls need in between.
\<close>

lemma mode3_ops_locks:
  "locks Unlocked (mode3ListenTCP4 V a4 p b) Unlocked"
  "locks Unlocked (mode3ListenTCP6 V a6 p b) Unlocked"
  "locks Unlocked (mode3ListenTLS4 V a4 p b ckp) Unlocked"
  "locks Unlocked (mode3ListenTLS6 V a6 p b ckp) Unlocked"
  "locks Unlocked (mode3BindUDP4 V a4 p) Unlocked"
  "locks Unlocked (mode3BindUDP6 V a6 p) Unlocked"
  "locks Unlocked (mode3DialTCP4 V a4 p) Unlocked"
  "locks Unlocked (mode3DialTCP6 V a6 p) Unlocked"
  "locks Unlocked (mode3ConnectUDP4 V a4 p) Unlocked"
  "locks Unlocked (mode3ConnectUDP6 V a6 p) Unlocked"
  "locks Unlocked (mode3ConnectTCP4Start V a4 p) Unlocked"
  "locks Unlocked (mode3ConnectTCP6Start V a6 p) Unlocked"
  "locks Unlocked (mode3ConnectUDP4Start V a4 p) Unlocked"
  "locks Unlocked (mode3ConnectUDP6Start V a6 p) Unlocked"
  "locks Unlocked (mode3ConnectTLS4Start V a4 p ckp cv) Unlocked"
  "locks Unlocked (mode3ConnectTLS6Start V a6 p ckp cv) Unlocked"
  "locks Unlocked (mode3AddCertKeyPair V cert key) Unlocked"
  "locks Unlocked (mode3DelCertKeyPair V ckp) Unlocked"
  "locks Unlocked (mode3Shutdown V s how) Unlocked"
  "locks Unlocked (mode3SessionConnectError V s) Unlocked"
  "locks Unlocked (mode3GetLocalAddr V s) Unlocked"
  "locks Unlocked (mode3GetPeerAddr V s) Unlocked"
  "locks Unlocked (mode3SetV6Only V s v) Unlocked"
  "locks Unlocked (mode3Close_vls V s) Unlocked"
  unfolding mode3ListenTCP4_def mode3ListenTCP6_def mode3ListenTLS4_def mode3ListenTLS6_def
    mode3BindUDP4_def mode3BindUDP6_def mode3DialTCP4_def mode3DialTCP6_def mode3ConnectUDP4_def
    mode3ConnectUDP6_def mode3ConnectTCP4Start_def mode3ConnectTCP6Start_def
    mode3ConnectUDP4Start_def mode3ConnectUDP6Start_def mode3ConnectTLS4Start_def
    mode3ConnectTLS6Start_def rawConnectTLS4Start_def rawConnectTLS6Start_def
    mode3AddCertKeyPair_def mode3DelCertKeyPair_def mode3Shutdown_def
    mode3SessionConnectError_def mode3GetLocalAddr_def mode3GetPeerAddr_def mode3SetV6Only_def
    mode3Close_vls_def
  by (rule pin_rules | rule locks_return)+

lemma poller_bridge_locks:
  "locks Unlocked (pollerEpollCreate V) Unlocked"
  "locks Unlocked (pollerEpollCtlAdd V ep s ev) Unlocked"
  "locks Unlocked (pollerEpollCtlMod V ep s ev) Unlocked"
  "locks Unlocked (pollerEpollCtlDel V ep s) Unlocked"
  "locks Unlocked (pollerEpollWait V ep len) Unlocked"
  unfolding pollerEpollCreate_def pollerEpollCtlAdd_def pollerEpollCtlMod_def pollerEpollCtlDel_def
    pollerEpollWait_def
  by (rule pin_rules locks_return locks_if | (rule locks_return))+

lemma lifecycle_locks:
  "locks Unlocked (mode3AppInit_once V nm) Unlocked"
  "locks Unlocked (mode3AppDestroy V c) Unlocked"
  using registerThisThread_locks [of V]
  by (simp_all add: locks_def mode3AppInit_once_def mode3AppDestroy_def vclpoll_app_create_def
      vclpoll_app_destroy_def)

section \<open>The retry loops: proofs\<close>

text \<open>A loop that returns has released the lock; out of fuel it still holds it.\<close>

lemma m3_retry_locks:
  assumes "locks RLocked attempt RLocked" and "lock_of w = Some RLocked"
  shows "lock_of (snd (run_state (m3_retry V fuel attempt h ev intr) w))
    = Some (if fst (run_state (m3_retry V fuel attempt h ev intr) w) = None then RLocked else Unlocked)"
  using assms(2)
proof (induction fuel arbitrary: w)
  case 0
  then show ?case by simp
next
  case (Suc fuel)
  have att: "lock_of (snd (run_state attempt w')) = Some RLocked" if "lock_of w' = Some RLocked" for w'
    using assms(1) that by (rule locksD)
  have ent: "lock_of (snd (run_state (enterVLS V) w')) = Some RLocked" if "lock_of w' = Some Unlocked" for w'
    using enterVLS_locks that by (rule locksD)
  show ?case
    using Suc.prems by (auto simp: exitVLS_def att ent Suc.IH split: sum.splits)
qed

text \<open>What a loop returns was the outcome of an attempt that was not \<open>EAGAIN\<close>, or the reason to
  stop waiting.\<close>

lemma m3_retry_outcome:
  assumes "fst (run_state (m3_retry V fuel attempt h ev intr) w) = Some r"
  shows "(\<exists>w1. fst (run_state attempt w1) = r \<and> (\<forall>e. r = Inl e \<longrightarrow> \<not> isAgainError e))
    \<or> r = Inl PollErrClosed \<or> (\<exists>e. intr = Some e \<and> r = Inl e)"
  using assms
proof (induction fuel arbitrary: w)
  case 0
  then show ?case by simp
next
  case (Suc fuel)
  then show ?case
    by (fastforce split: if_splits sum.splits)
qed

lemma m3_retry_no_again:
  assumes "fst (run_state (m3_retry V fuel attempt h ev intr) w) = Some (Inl e)"
    and "\<And>e. intr = Some e \<Longrightarrow> \<not> isAgainError e"
  shows "\<not> isAgainError e"
  using m3_retry_outcome [OF assms(1)] assms(2) by auto

text \<open>Enough fuel: waits the loop can still make before attempts stop saying \<open>EAGAIN\<close>.\<close>

fun poll_waits :: "world \<Rightarrow> nat" where
  "poll_waits [] = 0"
| "poll_waits ((GoEvent (PollWait h ev), r) # w) = Suc (poll_waits w)"
| "poll_waits (_ # w) = poll_waits w"

lemma poll_waits_enter [simp]: "poll_waits (snd (run_state (enterVLS V) w)) = poll_waits w"
  by (simp add: enterVLS_def registerThisThread_def vclpoll_register_worker_def)

lemma m3_retry_enough:
  assumes att: "\<And>w. poll_waits (snd (run_state attempt w)) = poll_waits w"
    and stop: "\<And>w e. N \<le> poll_waits w \<Longrightarrow> fst (run_state attempt w) = Inl e \<Longrightarrow> \<not> isAgainError e"
    and fuel: "N - poll_waits w < fuel"
  shows "\<exists>r. fst (run_state (m3_retry V fuel attempt h ev intr) w) = Some r"
  using fuel
proof (induction fuel arbitrary: w)
  case (Suc fuel)
  let ?w = "(GoEvent LoadAppLive, vls V w (GoEvent LoadAppLive)) # w"
  show ?case
  proof (cases "fst (run_state attempt ?w)")
    case (Inl e)
    show ?thesis
    proof (cases "isAgainError e")
      case True
      with stop [of ?w] Inl have "poll_waits w < N" by fastforce
      with Suc.prems have "N - Suc (poll_waits w) < fuel" by simp
      with True Inl show ?thesis
        by (simp add: exitVLS_def) (auto intro!: Suc.IH simp: att)
    qed (simp add: Inl)
  qed simp
qed simp

text \<open>The handle a loop keeps is that of its result.\<close>

lemma enterVLS_quiet [quiet_simps]: "quiet_run w (snd (run_state (enterVLS V) w))"
  by (simp add: keeps_def enterVLS_def registerThisThread_def vclpoll_register_worker_def)

lemma m3_retry_keeps:
  assumes att: "\<And>w. keeps w (H (fst (run_state attempt w))) (snd (run_state attempt w))"
    and neg: "\<And>e. H (Inl e) = -1"
  shows "keeps w (case fst (run_state (m3_retry V fuel attempt h ev intr) w) of
      None \<Rightarrow> -1 | Some r \<Rightarrow> H r) (snd (run_state (m3_retry V fuel attempt h ev intr) w))"
proof (induction fuel arbitrary: w)
  case (Suc fuel)
  have ent: "balance h (snd (run_state (enterVLS V) w)) = balance h w" for h w
    using enterVLS_quiet [of w V] by (simp add: keeps_def)
  from att have att': "balance h (snd (run_state attempt w))
      = balance h w + owns (H (fst (run_state attempt w))) h" for h w
    by (simp add: keeps_def)
  show ?case
    using Suc.IH by (auto simp: keeps_def exitVLS_def ent att' neg split: sum.splits)
qed simp

lemma m3_retry_quiet:
  assumes "\<And>w. quiet_run w (snd (run_state attempt w))"
  shows "quiet_run w (snd (run_state (m3_retry V fuel attempt h ev intr) w))"
  using m3_retry_keeps [where H = "\<lambda>_. -1" and attempt = attempt and w = w and V = V
      and fuel = fuel and h = h and ev = ev and intr = intr] assms
  by (simp add: option.case_eq_if)

section \<open>Handle accounting of the pinned operations\<close>

text \<open>As \<open>keeps\<close>, for the handles VLS gives out, which are not negative.\<close>

definition keeps_valid :: "world \<Rightarrow> handle \<Rightarrow> world \<Rightarrow> bool" where
  "keeps_valid w h0 w' \<longleftrightarrow> (\<forall>h \<ge> 0. balance h w' = balance h w + owns h0 h)"

lemma keeps_keeps_valid: "keeps w h0 w' \<Longrightarrow> keeps_valid w h0 w'"
  by (simp add: keeps_def keeps_valid_def)

lemma pin_keeps_valid:
  assumes "\<And>w. keeps_valid w (H (fst (run_state body w))) (snd (run_state body w))"
  shows "keeps_valid w (H (fst (run_state (pin V body) w))) (snd (run_state (pin V body) w))"
proof -
  have "balance h (snd (run_state (enterVLS V) w)) = balance h w" for h
    using enterVLS_quiet [of w V] by (simp add: keeps_def)
  with assms [of "snd (run_state (enterVLS V) w)"] show ?thesis
    by (simp add: keeps_valid_def pin_def exitVLS_def)
qed

lemma finishBlockingConnect_keeps:
  assumes "keeps w0 out w"
  shows "keeps_valid w0 (result_handle (fst (run_state (finishBlockingConnect V r out op sec) w)))
     (snd (run_state (finishBlockingConnect V r out op sec) w))"
proof -
  have "balance h (snd (run_state (vclpoll_wait_once V out e s) w)) = balance h w" for h e s
    using quiet_ops(21) [of w V out e s] by (simp add: keeps_def)
  with assms show ?thesis
    by (auto simp: finishBlockingConnect_def keeps_def keeps_valid_def balance_simps owns_def)
qed

lemmas pinned_create_defs = mode3ListenTCP4_def mode3ListenTCP6_def mode3ListenTLS4_def
  mode3ListenTLS6_def mode3BindUDP4_def mode3BindUDP6_def mode3DialTCP4_def mode3DialTCP6_def
  mode3ConnectUDP4_def mode3ConnectUDP6_def

lemmas pinned_start_defs = mode3ConnectTCP4Start_def mode3ConnectTCP6Start_def
  mode3ConnectUDP4Start_def mode3ConnectUDP6Start_def mode3ConnectTLS4Start_def
  mode3ConnectTLS6Start_def

section \<open>Properties\<close>

lemma mode3_create_keeps:
  "keeps_valid w (result_handle (fst (run_state (mode3ListenTCP4 V a4 p b) w))) (snd (run_state (mode3ListenTCP4 V a4 p b) w))
   \<and> keeps_valid w (result_handle (fst (run_state (mode3ListenTCP6 V a6 p b) w))) (snd (run_state (mode3ListenTCP6 V a6 p b) w))
   \<and> keeps_valid w (result_handle (fst (run_state (mode3ListenTLS4 V a4 p b ckp) w))) (snd (run_state (mode3ListenTLS4 V a4 p b ckp) w))
   \<and> keeps_valid w (result_handle (fst (run_state (mode3ListenTLS6 V a6 p b ckp) w))) (snd (run_state (mode3ListenTLS6 V a6 p b ckp) w))
   \<and> keeps_valid w (result_handle (fst (run_state (mode3BindUDP4 V a4 p) w))) (snd (run_state (mode3BindUDP4 V a4 p) w))
   \<and> keeps_valid w (result_handle (fst (run_state (mode3BindUDP6 V a6 p) w))) (snd (run_state (mode3BindUDP6 V a6 p) w))
   \<and> keeps_valid w (result_handle (fst (run_state (mode3DialTCP4 V a4 p) w))) (snd (run_state (mode3DialTCP4 V a4 p) w))
   \<and> keeps_valid w (result_handle (fst (run_state (mode3DialTCP6 V a6 p) w))) (snd (run_state (mode3DialTCP6 V a6 p) w))
   \<and> keeps_valid w (result_handle (fst (run_state (mode3ConnectUDP4 V a4 p) w))) (snd (run_state (mode3ConnectUDP4 V a4 p) w))
   \<and> keeps_valid w (result_handle (fst (run_state (mode3ConnectUDP6 V a6 p) w))) (snd (run_state (mode3ConnectUDP6 V a6 p) w))"
  unfolding pinned_create_defs
  by (intro conjI pin_keeps_valid)
    (simp_all add: keeps_keeps_valid listen_keeps rawListenTLS_keeps finishBlockingConnect_keeps connect_keeps)

text \<open>C27. No Mode 3 operation that opens a session leaks one: whatever VLS answers, the only handle
  it leaves open is the one it returns, none when it returns an error.\<close>

theorem mode3_create_accounting:
  "keeps_valid w (result_handle (fst (run_state (mode3ListenTCP4 V a4 p b) w))) (snd (run_state (mode3ListenTCP4 V a4 p b) w))
   \<and> keeps_valid w (result_handle (fst (run_state (mode3ListenTCP6 V a6 p b) w))) (snd (run_state (mode3ListenTCP6 V a6 p b) w))
   \<and> keeps_valid w (result_handle (fst (run_state (mode3ListenTLS4 V a4 p b ckp) w))) (snd (run_state (mode3ListenTLS4 V a4 p b ckp) w))
   \<and> keeps_valid w (result_handle (fst (run_state (mode3ListenTLS6 V a6 p b ckp) w))) (snd (run_state (mode3ListenTLS6 V a6 p b ckp) w))
   \<and> keeps_valid w (result_handle (fst (run_state (mode3BindUDP4 V a4 p) w))) (snd (run_state (mode3BindUDP4 V a4 p) w))
   \<and> keeps_valid w (result_handle (fst (run_state (mode3BindUDP6 V a6 p) w))) (snd (run_state (mode3BindUDP6 V a6 p) w))
   \<and> keeps_valid w (result_handle (fst (run_state (mode3DialTCP4 V a4 p) w))) (snd (run_state (mode3DialTCP4 V a4 p) w))
   \<and> keeps_valid w (result_handle (fst (run_state (mode3DialTCP6 V a6 p) w))) (snd (run_state (mode3DialTCP6 V a6 p) w))
   \<and> keeps_valid w (result_handle (fst (run_state (mode3ConnectUDP4 V a4 p) w))) (snd (run_state (mode3ConnectUDP4 V a4 p) w))
   \<and> keeps_valid w (result_handle (fst (run_state (mode3ConnectUDP6 V a6 p) w))) (snd (run_state (mode3ConnectUDP6 V a6 p) w))"
  by (rule mode3_create_keeps)

text \<open>The split connects leak no session either: in progress or connected, the session is the
  one returned; failed, it has been closed.\<close>

lemma mode3_connect_start_accounting:
  "keeps_valid w (result_handle1 (fst (run_state (mode3ConnectTCP4Start V a4 p) w))) (snd (run_state (mode3ConnectTCP4Start V a4 p) w))
   \<and> keeps_valid w (result_handle1 (fst (run_state (mode3ConnectTCP6Start V a6 p) w))) (snd (run_state (mode3ConnectTCP6Start V a6 p) w))
   \<and> keeps_valid w (result_handle1 (fst (run_state (mode3ConnectUDP4Start V a4 p) w))) (snd (run_state (mode3ConnectUDP4Start V a4 p) w))
   \<and> keeps_valid w (result_handle1 (fst (run_state (mode3ConnectUDP6Start V a6 p) w))) (snd (run_state (mode3ConnectUDP6Start V a6 p) w))
   \<and> keeps_valid w (result_handle1 (fst (run_state (mode3ConnectTLS4Start V a4 p ckp cv) w))) (snd (run_state (mode3ConnectTLS4Start V a4 p ckp cv) w))
   \<and> keeps_valid w (result_handle1 (fst (run_state (mode3ConnectTLS6Start V a6 p ckp cv) w))) (snd (run_state (mode3ConnectTLS6Start V a6 p ckp cv) w))"
  unfolding pinned_start_defs
  by (intro conjI pin_keeps_valid)
    (simp_all add: keeps_keeps_valid parseConnectResult_keeps connect_keeps rawConnectTLS_keeps)

lemma m3_retry_after_enter:
  assumes "lock_of w = Some Unlocked" "locks RLocked att RLocked"
    and "lock_of (snd (run_state (m3_retry V fuel att h ev intr) (snd (run_state (enterVLS V) w)))) \<noteq> Some Unlocked"
  shows "fst (run_state (m3_retry V fuel att h ev intr) (snd (run_state (enterVLS V) w))) = None"
  using assms(3) m3_retry_locks [OF assms(2) locksD [OF enterVLS_locks assms(1)], of V fuel h ev intr]
  by (auto split: if_splits)

lemma blocking_ops_locks:
  assumes "lock_of w = Some Unlocked"
  shows "fst (run_state (mode3ReadContext V fuel h n) w) = None
      \<or> lock_of (snd (run_state (mode3ReadContext V fuel h n) w)) = Some Unlocked"
    "fst (run_state (mode3WriteContext V fuel h bs) w) = None
      \<or> lock_of (snd (run_state (mode3WriteContext V fuel h bs) w)) = Some Unlocked"
    "fst (run_state (mode3SendToContext V fuel h bs a) w) = None
      \<or> lock_of (snd (run_state (mode3SendToContext V fuel h bs a) w)) = Some Unlocked"
    "fst (run_state (mode3RecvFromContext V fuel h n) w) = None
      \<or> lock_of (snd (run_state (mode3RecvFromContext V fuel h n) w)) = Some Unlocked"
    "fst (run_state (mode3AcceptFullContext V fuel h) w) = None
      \<or> lock_of (snd (run_state (mode3AcceptFullContext V fuel h) w)) = Some Unlocked"
    "fst (run_state (mode3Accept V fuel h) w) = None
      \<or> lock_of (snd (run_state (mode3Accept V fuel h) w)) = Some Unlocked"
  using assms
  unfolding mode3ReadContext_def mode3WriteContext_def mode3SendToContext_def mode3RecvFromContext_def
    mode3AcceptFullContext_def mode3Accept_def
  by (auto intro!: m3_retry_after_enter pin_rules locks_return)

text \<open>C28. Lock discipline of the blocking operations: each starts and, when it returns, ends with
  \<open>vlsMu\<close> free; in between every VLS call holds the read lock, registration the write lock,
  and the wait for readiness holds neither.\<close>

theorem blocking_ops_lock_discipline:
  assumes "lock_of w = Some Unlocked"
  shows "(fst (run_state (mode3ReadContext V fuel h n) w) = None
      \<or> lock_of (snd (run_state (mode3ReadContext V fuel h n) w)) = Some Unlocked)
    \<and> (fst (run_state (mode3WriteContext V fuel h bs) w) = None
      \<or> lock_of (snd (run_state (mode3WriteContext V fuel h bs) w)) = Some Unlocked)
    \<and> (fst (run_state (mode3SendToContext V fuel h bs a) w) = None
      \<or> lock_of (snd (run_state (mode3SendToContext V fuel h bs a) w)) = Some Unlocked)
    \<and> (fst (run_state (mode3RecvFromContext V fuel h n) w) = None
      \<or> lock_of (snd (run_state (mode3RecvFromContext V fuel h n) w)) = Some Unlocked)
    \<and> (fst (run_state (mode3AcceptFullContext V fuel h) w) = None
      \<or> lock_of (snd (run_state (mode3AcceptFullContext V fuel h) w)) = Some Unlocked)
    \<and> (fst (run_state (mode3Accept V fuel h) w) = None
      \<or> lock_of (snd (run_state (mode3Accept V fuel h) w)) = Some Unlocked)"
  using blocking_ops_locks [OF assms] by simp

lemma blocking_ops_lock_discipline_witness:
  "lock_of (snd (run_state (mode3ReadContext demo_cgo 1 5 10) [])) = Some Unlocked"
  using blocking_ops_lock_discipline [of "[]" demo_cgo 1 5 10]
  by (simp add: mode3ReadContext_def vclpoll_read_def exitVLS_def One_nat_def del: lock_of.simps)
    (simp add: mode3ReadContext_def)

text \<open>A read returns once VLS stops answering \<open>EAGAIN\<close>: if that is the case from the
  \<open>N\<close>-th readiness wait on, \<open>N + 1\<close> turns of the loop are enough. The result is never
  \<open>EAGAIN\<close>, and data it returns is what one VLS read delivered.\<close>

theorem read_returns_with_enough_fuel:
  assumes "\<And>w. N \<le> poll_waits w \<Longrightarrow> \<not> isAgain (rv (vls V w (VlsRead h n)))"
    and "N - poll_waits w < fuel" and "0 < n"
  shows "\<exists>r. fst (run_state (mode3ReadContext V fuel h n) w) = Some r
    \<and> (\<forall>e. r = Inl e \<longrightarrow> \<not> isAgainError e)
    \<and> (\<forall>bs. r = Inr bs \<longrightarrow> (\<exists>w1. int (length bs) = rv (vls V w1 (VlsRead h n))
          \<and> bs = copy_into (length bs) (r_data (vls V w1 (VlsRead h n)))))"
proof -
  define att where "att = vclpoll_read V h n
    \<bind> (\<lambda>(r, bs). State_Monad.return (rv_result ''read'' r (copy_into (nat r) bs)))"
  let ?w = "snd (run_state (enterVLS V) w)"
  have att: "fst (run_state att w') = rv_result ''read'' (rv (vls V w' (VlsRead h n)))
      (copy_into (nat (rv (vls V w' (VlsRead h n)))) (r_data (vls V w' (VlsRead h n))))"
    "poll_waits (snd (run_state att w')) = poll_waits w'" for w'
    by (simp_all add: att_def vclpoll_read_def)
  have run: "fst (run_state (mode3ReadContext V fuel h n) w)
      = fst (run_state (m3_retry V fuel att h epollIn (Some ErrWaitCanceled)) ?w)"
    using assms(3) by (simp add: mode3ReadContext_def att_def)
  have stop: "\<not> isAgainError e" if "N \<le> poll_waits w'" "fst (run_state att w') = Inl e" for w' e
    using assms(1) [OF that(1)] that(2) by (auto simp: att(1) rv_result_Inl)
  have "\<exists>r. fst (run_state (m3_retry V fuel att h epollIn (Some ErrWaitCanceled)) ?w) = Some r"
    by (rule m3_retry_enough [of att N]) (use att(2) stop assms(2) in auto)
  then obtain r where r: "fst (run_state (m3_retry V fuel att h epollIn (Some ErrWaitCanceled)) ?w) = Some r"
    by blast
  have "\<not> isAgainError e" if "r = Inl e" for e
    using m3_retry_no_again [of V fuel att h epollIn "Some ErrWaitCanceled" ?w e] r that by simp
  moreover have "\<exists>w1. int (length bs) = rv (vls V w1 (VlsRead h n))
      \<and> bs = copy_into (length bs) (r_data (vls V w1 (VlsRead h n)))" if "r = Inr bs" for bs
    using m3_retry_outcome [OF r] that by (auto simp: att(1) rv_result_Inr)
  ultimately show ?thesis using run r by auto
qed

lemma read_returns_with_enough_fuel_witness:
  "\<exists>r. fst (run_state (mode3ReadContext demo_cgo 1 5 10) []) = Some r \<and> (\<forall>e. r = Inl e \<longrightarrow> \<not> isAgainError e)"
  using read_returns_with_enough_fuel [of 0 demo_cgo 5 10 "[]" 1] by (auto simp: isAgain_def)

text \<open>An accept hands over exactly the session VLS accepted: a success leaves the returned
  handle open and nothing else, an error, an interruption or a turn of waiting leaves nothing.\<close>

lemma accept_accounting:
  assumes "fst (run_state (mode3AcceptFullContext V fuel h) w) = Some r"
  shows "keeps w (result_handle1 r) (snd (run_state (mode3AcceptFullContext V fuel h) w))"
proof -
  let ?w = "snd (run_state (enterVLS V) w)"
  have "keeps ?w (case fst (run_state (m3_retry V fuel (rawAcceptFull V h) h epollIn (Some PollErrClosed)) ?w) of
      None \<Rightarrow> -1 | Some r \<Rightarrow> result_handle1 r)
    (snd (run_state (m3_retry V fuel (rawAcceptFull V h) h epollIn (Some PollErrClosed)) ?w))"
    by (intro m3_retry_keeps rawAcceptFull_keeps) simp
  with assms enterVLS_quiet [of w V] show ?thesis
    by (simp add: mode3AcceptFullContext_def keeps_def)
qed

lemma accept_accounting_witness:
  "keeps [] 1 (snd (run_state (mode3AcceptFullContext demo_cgo 1 5) []))"
  using accept_accounting [of demo_cgo 1 5 "[]" "fst (run_state (rawAcceptFull demo_cgo 5) [])"]
  by (simp add: mode3AcceptFullContext_def rawAcceptFull_def vclpoll_accept_nb_full_def exitVLS_def)

end
