(* ===== verification/WaitSet.thy ===== *)
theory WaitSet
  imports Mode3Ops
begin

text \<open>
  What \<open>poller.go\<close> and \<open>worker.go\<close> share: waiters, wait sets, \<open>combinedEvents\<close>, \<open>wakeWaiter\<close>
  and \<open>wakeWaitSet\<close>, on the part of the state both have (the table of wait sets, the
  channels closed so far, the epoll handle and the own call history). A Go map is an
  association list with distinct keys, a Go set of pointers a distinct list; \<open>range\<close> visits
  either in list order, and the facts proved do not depend on that order. Closing a closed
  channel is a panic, a sticky flag.
\<close>

section \<open>Waiters and wait sets\<close>

text \<open>\<open>wt_ready\<close> is the identity of the channel \<open>ready\<close>.\<close>

record waiter =
  wt_vlsh :: handle
  wt_events :: u32
  wt_ready :: nat

record waitSet =
  ws_waiters :: "waiter list"
  ws_events :: u32

record waitTable =
  epVLSH :: handle
  waiters :: "(handle \<times> waitSet) list"
  ready_closed :: "nat list"
  panicked :: bool
  hist :: world

definition combinedEvents :: "waitSet \<Rightarrow> u32" where
  "combinedEvents ws = fold (\<lambda>w ev. ev OR wt_events w) (ws_waiters ws) 0"

definition wakeWaiter :: "waiter \<Rightarrow> 'a waitTable_scheme \<Rightarrow> 'a waitTable_scheme" where
  "wakeWaiter w t =
     (if wt_ready w \<in> set (ready_closed t) then t\<lparr>panicked := True\<rparr>
      else t\<lparr>ready_closed := wt_ready w # ready_closed t\<rparr>)"

definition wakeWaitSet :: "waitSet \<Rightarrow> 'a waitTable_scheme \<Rightarrow> 'a waitTable_scheme" where
  "wakeWaitSet ws t = fold wakeWaiter (ws_waiters ws) t"

text \<open>\<open>waiterIsReady\<close>: a non-blocking receive on \<open>ready\<close>.\<close>

definition waiterIsReady :: "waiter \<Rightarrow> 'a waitTable_scheme \<Rightarrow> bool" where
  "waiterIsReady w t \<longleftrightarrow> wt_ready w \<in> set (ready_closed t)"

text \<open>The masks \<open>epollErr | epollHup | epollRDHup\<close>, and what \<open>handleEvent\<close> wakes for a mask.\<close>

definition terminal_events :: "u32 \<Rightarrow> bool" where
  "terminal_events events \<longleftrightarrow> events AND (epollErr OR epollHup OR epollRDHup) \<noteq> 0"

definition event_wakes :: "u32 \<Rightarrow> waiter \<Rightarrow> bool" where
  "event_wakes events w \<longleftrightarrow> terminal_events events \<or> events AND wt_events w \<noteq> 0"

lemma wakeWaiter_sel [simp]:
  "waiters (wakeWaiter w t) = waiters t" "epVLSH (wakeWaiter w t) = epVLSH t"
  "hist (wakeWaiter w t) = hist t"
  by (simp_all add: wakeWaiter_def)

lemma wakeWaitSet_sel [simp]:
  "waiters (wakeWaitSet ws t) = waiters t" "epVLSH (wakeWaitSet ws t) = epVLSH t"
  "hist (wakeWaitSet ws t) = hist t"
proof -
  have "waiters (fold wakeWaiter xs t) = waiters t \<and> epVLSH (fold wakeWaiter xs t) = epVLSH t
     \<and> hist (fold wakeWaiter xs t) = hist t" for xs
    by (induction xs arbitrary: t) simp_all
  then show "waiters (wakeWaitSet ws t) = waiters t" "epVLSH (wakeWaitSet ws t) = epVLSH t"
    "hist (wakeWaitSet ws t) = hist t"
    by (simp_all add: wakeWaitSet_def)
qed

section \<open>The mask of a set\<close>

lemma fold_or_acc: "fold (\<lambda>w ev. ev OR wt_events w) ws (a OR b) = a OR fold (\<lambda>w ev. ev OR wt_events w) ws b"
  by (induction ws arbitrary: b) (simp_all add: or.assoc)

lemma combinedEvents_Nil [simp]: "ws_waiters ws = [] \<Longrightarrow> combinedEvents ws = 0"
  by (simp add: combinedEvents_def)

lemma combinedEvents_Cons:
  "ws_waiters ws = w # xs \<Longrightarrow> combinedEvents ws = wt_events w OR combinedEvents \<lparr>ws_waiters = xs, ws_events = e\<rparr>"
  using fold_or_acc [of xs "wt_events w" 0] by (simp add: combinedEvents_def)

lemma bit_combinedEvents:
  "bit (combinedEvents ws) n \<longleftrightarrow> (\<exists>w \<in> set (ws_waiters ws). bit (wt_events w) n)"
proof (induction "ws_waiters ws" arbitrary: ws)
  case (Cons w xs)
  from Cons.hyps(1) [of "\<lparr>ws_waiters = xs, ws_events = 0\<rparr>"] Cons.hyps(2) show ?case
    by (auto simp: combinedEvents_Cons [of ws w xs 0] bit_or_iff simp flip: Cons.hyps(2))
qed (use combinedEvents_Nil in \<open>metis bit_0_eq bot_apply bot_bool_def empty_iff empty_set\<close>)

text \<open>The order in which \<open>range\<close> visits the set is irrelevant to the mask.\<close>

lemma combinedEvents_set:
  "set (ws_waiters a) = set (ws_waiters b) \<Longrightarrow> combinedEvents a = combinedEvents b"
  by (rule bit_word_eqI) (simp add: bit_combinedEvents)

lemma combinedEvents_insert:
  "set (ws_waiters b) = insert w (set (ws_waiters a)) \<Longrightarrow> combinedEvents b = combinedEvents a OR wt_events w"
  by (rule bit_word_eqI) (auto simp: bit_combinedEvents bit_or_iff)

lemma combinedEvents_single [simp]: "combinedEvents \<lparr>ws_waiters = [w], ws_events = e\<rparr> = wt_events w"
  by (simp add: combinedEvents_def)

lemma combinedEvents_update [simp]: "combinedEvents (ws\<lparr>ws_events := e\<rparr>) = combinedEvents ws"
  by (simp add: combinedEvents_def)

section \<open>Pending waiters and the table invariant\<close>

definition pending :: "'a waitTable_scheme \<Rightarrow> (handle \<times> waiter) set" where
  "pending t = {(k, w). \<exists>ws. map_of (waiters t) k = Some ws \<and> w \<in> set (ws_waiters ws)}"

definition pend_at :: "'a waitTable_scheme \<Rightarrow> handle \<Rightarrow> waiter set" where
  "pend_at p k = {w. (k, w) \<in> pending p}"

lemma pend_at_set: "map_of (waiters p) k = Some ws \<Longrightarrow> pend_at p k = set (ws_waiters ws)"
  by (auto simp: pend_at_def pending_def)

lemma pend_at_none: "map_of (waiters p) k = None \<Longrightarrow> pend_at p k = {}"
  by (auto simp: pend_at_def pending_def)

definition set_ok :: "waitSet \<Rightarrow> bool" where
  "set_ok ws \<longleftrightarrow> ws_waiters ws \<noteq> [] \<and> distinct (ws_waiters ws) \<and> ws_events ws = combinedEvents ws"

text \<open>
  The table is well formed: keys are distinct, no set is empty, the stored mask is that of the
  waiters, a channel belongs to one pending waiter only, no pending waiter's channel is
  closed, and no channel was closed twice.
\<close>

definition tab_ok :: "'a waitTable_scheme \<Rightarrow> bool" where
  "tab_ok t \<longleftrightarrow> distinct (map fst (waiters t))
     \<and> (\<forall>k ws. map_of (waiters t) k = Some ws \<longrightarrow> set_ok ws)
     \<and> (\<forall>p \<in> pending t. \<forall>q \<in> pending t. wt_ready (snd p) = wt_ready (snd q) \<longrightarrow> p = q)
     \<and> (\<forall>p \<in> pending t. wt_ready (snd p) \<notin> set (ready_closed t))
     \<and> \<not> panicked t"

definition fresh_waiter :: "waiter \<Rightarrow> 'a waitTable_scheme \<Rightarrow> bool" where
  "fresh_waiter w t \<longleftrightarrow> wt_ready w \<notin> set (ready_closed t)
     \<and> (\<forall>p \<in> pending t. wt_ready (snd p) \<noteq> wt_ready w)"

lemma pendingI: "map_of (waiters t) k = Some ws \<Longrightarrow> w \<in> set (ws_waiters ws) \<Longrightarrow> (k, w) \<in> pending t"
  by (auto simp: pending_def)

lemma tab_okD:
  assumes "tab_ok t"
  shows "distinct (map fst (waiters t))" "map_of (waiters t) k = Some ws \<Longrightarrow> set_ok ws"
    "p \<in> pending t \<Longrightarrow> q \<in> pending t \<Longrightarrow> wt_ready (snd p) = wt_ready (snd q) \<Longrightarrow> p = q"
    "p \<in> pending t \<Longrightarrow> wt_ready (snd p) \<notin> set (ready_closed t)" "\<not> panicked t"
  using assms unfolding tab_ok_def by blast+

text \<open>Waking waiters with different open channels closes exactly these.\<close>

lemma fold_wake:
  assumes "distinct (map wt_ready ws)" and "wt_ready ` set ws \<inter> set (ready_closed t) = {}"
  shows "fold wakeWaiter ws t = t\<lparr>ready_closed := rev (map wt_ready ws) @ ready_closed t\<rparr>"
  using assms by (induction ws arbitrary: t) (auto simp: wakeWaiter_def)

lemma set_of_key_fresh:
  assumes "tab_ok t" "map_of (waiters t) k = Some ws" "set ws' \<subseteq> set (ws_waiters ws)" "distinct ws'"
  shows "distinct (map wt_ready ws')" "wt_ready ` set ws' \<inter> set (ready_closed t) = {}"
proof -
  have p: "(k, w) \<in> pending t" if "w \<in> set ws'" for w
    using assms(2,3) that by (auto intro: pendingI)
  show "distinct (map wt_ready ws')"
    using tab_okD(3) [OF assms(1) p p] assms(4) by (auto simp: distinct_map inj_on_def)
  show "wt_ready ` set ws' \<inter> set (ready_closed t) = {}"
    using tab_okD(4) [OF assms(1) p] by auto
qed

lemma set_of_key_inj:
  "tab_ok t \<Longrightarrow> map_of (waiters t) k = Some ws \<Longrightarrow> a \<in> set (ws_waiters ws) \<Longrightarrow> b \<in> set (ws_waiters ws)
    \<Longrightarrow> wt_ready a = wt_ready b \<Longrightarrow> a = b"
  using tab_okD(3) [of t "(k, a)" "(k, b)"] by (auto intro: pendingI)

text \<open>The channels of a part of a set are open when only the other part's have been closed.\<close>

lemma rest_of_key_fresh:
  assumes tab: "tab_ok p" "map_of (waiters p) k = Some ws"
    and part: "set (ws_waiters ws) = set out \<union> set rest" "set out \<inter> set rest = {}" "distinct rest"
    and closed: "set cs \<subseteq> wt_ready ` set out \<union> set (ready_closed p)"
  shows "distinct (map wt_ready rest)" "wt_ready ` set rest \<inter> set cs = {}"
proof -
  show "distinct (map wt_ready rest)"
    using set_of_key_fresh(1) [OF tab _ part(3)] part(1) by auto
  have "wt_ready ` set rest \<inter> (wt_ready ` set out \<union> set (ready_closed p)) = {}"
    using set_of_key_fresh(2) [OF tab _ part(3)] set_of_key_inj [OF tab] part(1,2)
    by (auto simp: disjoint_iff) (metis UnCI)
  with closed show "wt_ready ` set rest \<inter> set cs = {}" by blast
qed

text \<open>The state outside the three fields of the table does not matter.\<close>

lemma tab_cong:
  assumes "waiters t = waiters t'" "ready_closed t = ready_closed t'" "panicked t = panicked t'"
  shows "tab_ok t = tab_ok t'" "pending t = pending t'" "fresh_waiter w t = fresh_waiter w t'"
  using assms by (simp_all add: tab_ok_def pending_def fresh_waiter_def)

section \<open>Editing the table\<close>

text \<open>A set that is not yet there, with its first waiter.\<close>

lemma insert_set:
  assumes ok: "tab_ok t" and new: "map_of (waiters t) k = None" and fresh: "fresh_waiter w t"
    and t': "waiters t' = AList.update k \<lparr>ws_waiters = [w], ws_events = wt_events w\<rparr> (waiters t)"
      "ready_closed t' = ready_closed t" "panicked t' = panicked t"
  shows "tab_ok t'" "pending t' = insert (k, w) (pending t)"
proof -
  show p: "pending t' = insert (k, w) (pending t)"
    using new by (auto simp: pending_def t' split: if_splits)
  show "tab_ok t'"
    using ok fresh unfolding tab_ok_def p
    by (auto simp: t' fresh_waiter_def set_ok_def dest: spec)
qed

text \<open>One more waiter in a set.\<close>

lemma extend_set:
  assumes ok: "tab_ok t" and old: "map_of (waiters t) k = Some ws" and fresh: "fresh_waiter w t"
    and t': "waiters t' = AList.update k \<lparr>ws_waiters = w # ws_waiters ws,
        ws_events = ws_events ws OR wt_events w\<rparr> (waiters t)"
      "ready_closed t' = ready_closed t" "panicked t' = panicked t"
  shows "tab_ok t'" "pending t' = insert (k, w) (pending t)"
proof -
  show p: "pending t' = insert (k, w) (pending t)"
    using old by (auto simp: pending_def t' split: if_splits)
  have "w \<notin> set (ws_waiters ws)"
    using fresh old by (auto simp: fresh_waiter_def dest!: pendingI)
  with tab_okD(2) [OF ok old]
  have "set_ok \<lparr>ws_waiters = w # ws_waiters ws, ws_events = ws_events ws OR wt_events w\<rparr>"
    by (simp add: set_ok_def combinedEvents_insert [where w = w and a = ws])
  with ok fresh show "tab_ok t'"
    unfolding tab_ok_def p by (auto simp: t' fresh_waiter_def dest: spec)
qed

text \<open>Some waiters of a set woken, the rest kept (the set dropped when none is left).\<close>

lemma shrink_set:
  assumes ok: "tab_ok t" and old: "map_of (waiters t) k = Some ws"
    and part: "set (ws_waiters ws) = set out \<union> set rest" "set out \<inter> set rest = {}" "distinct rest"
    and t': "waiters t' = (if rest = [] then AList.delete k (waiters t)
        else AList.update k \<lparr>ws_waiters = rest, ws_events = m\<rparr> (waiters t))"
      "set (ready_closed t') = wt_ready ` set out \<union> set (ready_closed t)" "panicked t' = panicked t"
    and m: "rest \<noteq> [] \<Longrightarrow> m = combinedEvents \<lparr>ws_waiters = rest, ws_events = m\<rparr>"
  shows "tab_ok t'" "pending t' = pending t - {k} \<times> set out"
proof -
  show p: "pending t' = pending t - {k} \<times> set out"
    using old part(1,2) by (auto simp: pending_def t' disjoint_iff split: if_splits)
  have pend: "(k, w) \<in> pending t" if "w \<in> set out" for w
    using old part that by (auto intro: pendingI)
  have new_ok: "set_ok \<lparr>ws_waiters = rest, ws_events = m\<rparr>" if "rest \<noteq> []"
    using m that part(3) by (simp add: set_ok_def)
  have sets: "set_ok ws'" if "map_of (waiters t') k' = Some ws'" for k' ws'
    using that tab_okD(2) [OF ok, of k' ws'] new_ok by (auto simp: t' split: if_splits)
  have "wt_ready (snd q) \<notin> set (ready_closed t')" if "q \<in> pending t'" for q
  proof -
    from that have q: "q \<in> pending t" "q \<notin> {k} \<times> set out" by (simp_all add: p)
    have "wt_ready (snd q) \<noteq> wt_ready w" if "w \<in> set out" for w
      using tab_okD(3) [OF ok q(1) pend [OF that]] q(2) that by auto
    with tab_okD(4) [OF ok q(1)] show ?thesis by (auto simp: t')
  qed
  with ok sets show "tab_ok t'"
    unfolding tab_ok_def by (auto simp: t' p)
qed

text \<open>A whole set dropped and woken.\<close>

lemma drop_set:
  assumes "tab_ok t" "map_of (waiters t) k = Some ws"
    and "waiters t' = AList.delete k (waiters t)"
      "set (ready_closed t') = wt_ready ` set (ws_waiters ws) \<union> set (ready_closed t)"
      "panicked t' = panicked t"
  shows "tab_ok t'" "pending t' = pending t - {k} \<times> set (ws_waiters ws)"
  using shrink_set [OF assms(1,2), of "ws_waiters ws" "[]" t' 0] assms(3-) by simp_all

section \<open>The whole table\<close>

text \<open>All pending waiters, in the order a walk over the table meets them.\<close>

definition all_waiters :: "(handle \<times> waitSet) list \<Rightarrow> waiter list" where
  "all_waiters al = concat (map (\<lambda>(k, ws). ws_waiters ws) al)"

lemma all_waiters_simps [simp]:
  "all_waiters [] = []" "all_waiters ((k, ws) # al) = ws_waiters ws @ all_waiters al"
  by (simp_all add: all_waiters_def)

lemma set_all_waiters: "set (all_waiters al) = (\<Union>(k, ws) \<in> set al. set (ws_waiters ws))"
  by (induction al) auto

lemma all_waiters_pending:
  assumes "tab_ok t"
  shows "set (all_waiters (waiters t)) = snd ` pending t"
  using tab_okD(1) [OF assms]
  by (force simp: set_all_waiters pending_def in_set_distinct_map_of [symmetric] image_iff)

lemma all_waiters_distinct:
  assumes "tab_ok t"
  shows "distinct (map wt_ready (all_waiters (waiters t)))"
    "wt_ready ` set (all_waiters (waiters t)) \<inter> set (ready_closed t) = {}"
proof -
  have "distinct (map wt_ready (all_waiters al))"
    if "distinct (map fst al)" "\<And>k ws. (k, ws) \<in> set al \<Longrightarrow> map_of (waiters t) k = Some ws" for al
    using that
  proof (induction al)
    case (Cons e al)
    obtain k ws where e: "e = (k, ws)" by (cases e)
    have tb: "map_of (waiters t) k = Some ws" using Cons.prems(2) e by simp
    have "distinct (map wt_ready (ws_waiters ws))"
      using set_of_key_fresh(1) [OF assms tb subset_refl] tab_okD(2) [OF assms tb]
      by (simp add: set_ok_def)
    moreover have "wt_ready ` set (ws_waiters ws) \<inter> wt_ready ` set (all_waiters al) = {}"
    proof (rule equals0I)
      fix x assume "x \<in> wt_ready ` set (ws_waiters ws) \<inter> wt_ready ` set (all_waiters al)"
      then obtain a b k' ws' where ab: "a \<in> set (ws_waiters ws)" "(k', ws') \<in> set al"
        "b \<in> set (ws_waiters ws')" "wt_ready a = wt_ready b"
        by (auto simp: set_all_waiters)
      have "(k, a) = (k', b)"
        using tab_okD(3) [OF assms pendingI [OF tb ab(1)] pendingI [OF _ ab(3), of t k']] ab(2,4) Cons.prems(2)
        by auto
      with ab(2) Cons.prems(1) e show False by force
    qed
    ultimately show ?case
      using Cons.IH Cons.prems e by auto
  qed simp
  then show "distinct (map wt_ready (all_waiters (waiters t)))"
    using tab_okD(1) [OF assms] by simp
  show "wt_ready ` set (all_waiters (waiters t)) \<inter> set (ready_closed t) = {}"
    using tab_okD(4) [OF assms] unfolding all_waiters_pending [OF assms] by auto
qed

lemma pending_empty [simp]: "waiters t = [] \<Longrightarrow> pending t = {}"
  by (simp add: pending_def)

lemma tab_ok_empty: "waiters t = [] \<Longrightarrow> tab_ok t \<longleftrightarrow> \<not> panicked t"
  by (simp add: tab_ok_def)

end
