(* ===== verification/WaitService.thy ===== *)
theory WaitService
  imports WaitSet
begin

text \<open>
  The contract the poller of Mode 3 and the workers of Mode 2 share: a service that parks
  waiters under a session key and wakes them. The locale states what each operation promises;
  its lemmas say what any sequence of operations gives a parked goroutine: its channel is
  closed at most once, it is never lost, and nobody stays parked after the service wakes all.
\<close>

text \<open>\<open>'k\<close> names a session to the service, \<open>'r\<close> is a request to release one.\<close>

datatype ('k, 'r) wait_cmd =
    Register 'k waiter
  | Cancel 'k waiter
  | Release 'r
  | Event handle u32
  | WakeAll

locale wait_service =
  fixes inv :: "'s \<Rightarrow> bool"
    and pend :: "'s \<Rightarrow> (handle \<times> waiter) set"
    and closed :: "'s \<Rightarrow> nat set"
    and key :: "'k \<Rightarrow> handle"
    and rel_key :: "'r \<Rightarrow> handle"
    and can_register :: "'k \<Rightarrow> waiter \<Rightarrow> 's \<Rightarrow> bool"
    and can_cancel :: "'k \<Rightarrow> waiter \<Rightarrow> 's \<Rightarrow> bool"
    and can_release :: "'r \<Rightarrow> 's \<Rightarrow> bool"
    and can_wake_all :: "'s \<Rightarrow> bool"
    and register :: "'k \<Rightarrow> waiter \<Rightarrow> 's \<Rightarrow> bool \<times> 's"
    and cancel :: "'k \<Rightarrow> waiter \<Rightarrow> 's \<Rightarrow> 's"
    and release :: "'r \<Rightarrow> 's \<Rightarrow> 's"
    and event :: "handle \<Rightarrow> u32 \<Rightarrow> 's \<Rightarrow> 's"
    and wake_all :: "'s \<Rightarrow> 's"
  assumes pend_open: "inv s \<Longrightarrow> p \<in> pend s \<Longrightarrow> wt_ready (snd p) \<notin> closed s"
    and pend_inj: "inv s \<Longrightarrow> p \<in> pend s \<Longrightarrow> q \<in> pend s \<Longrightarrow> wt_ready (snd p) = wt_ready (snd q) \<Longrightarrow> p = q"
    and register_inv: "inv s \<Longrightarrow> can_register k w s \<Longrightarrow> inv (snd (register k w s))"
    and register_accepted: "inv s \<Longrightarrow> can_register k w s \<Longrightarrow> fst (register k w s) \<Longrightarrow>
        pend (snd (register k w s)) = insert (key k, w) (pend s) \<and> closed (snd (register k w s)) = closed s
        \<or> pend (snd (register k w s)) = pend s \<and> closed (snd (register k w s)) = insert (wt_ready w) (closed s)"
    and register_rejected: "inv s \<Longrightarrow> can_register k w s \<Longrightarrow> \<not> fst (register k w s) \<Longrightarrow>
        pend (snd (register k w s)) = pend s \<and> closed (snd (register k w s)) = closed s"
    and cancel_inv: "inv s \<Longrightarrow> can_cancel k w s \<Longrightarrow> inv (cancel k w s)"
    and cancel_removes: "inv s \<Longrightarrow> can_cancel k w s \<Longrightarrow> (key k, w) \<notin> pend (cancel k w s)"
    and cancel_wakes: "inv s \<Longrightarrow> can_cancel k w s \<Longrightarrow> pend (cancel k w s) \<subseteq> pend s
        \<and> closed (cancel k w s) = wt_ready ` snd ` (pend s - pend (cancel k w s)) \<union> closed s"
    and release_inv: "inv s \<Longrightarrow> can_release r s \<Longrightarrow> inv (release r s)"
    and release_removes: "inv s \<Longrightarrow> can_release r s \<Longrightarrow> (rel_key r, w) \<notin> pend (release r s)"
    and release_wakes: "inv s \<Longrightarrow> can_release r s \<Longrightarrow> pend (release r s) \<subseteq> pend s
        \<and> closed (release r s) = wt_ready ` snd ` (pend s - pend (release r s)) \<union> closed s"
    and event_inv: "inv s \<Longrightarrow> inv (event h ev s)"
    and event_removes: "inv s \<Longrightarrow> event_wakes ev w \<Longrightarrow> (h, w) \<notin> pend (event h ev s)"
    and event_wakes_removed: "inv s \<Longrightarrow> pend (event h ev s) \<subseteq> pend s
        \<and> closed (event h ev s) = wt_ready ` snd ` (pend s - pend (event h ev s)) \<union> closed s"
    and wake_all_inv: "inv s \<Longrightarrow> can_wake_all s \<Longrightarrow> inv (wake_all s)"
    and wake_all_wakes: "inv s \<Longrightarrow> can_wake_all s \<Longrightarrow> pend (wake_all s) = {}
        \<and> wt_ready ` snd ` pend s \<union> closed s \<subseteq> closed (wake_all s)"
begin

text \<open>The channels of the waiters the service has ever taken: pending or closed.\<close>

definition known :: "'s \<Rightarrow> nat set" where
  "known s = wt_ready ` snd ` pend s \<union> closed s"

fun allowed :: "('k, 'r) wait_cmd \<Rightarrow> 's \<Rightarrow> bool" where
  "allowed (Register k w) s = can_register k w s"
| "allowed (Cancel k w) s = can_cancel k w s"
| "allowed (Release r) s = can_release r s"
| "allowed (Event h ev) s = True"
| "allowed WakeAll s = can_wake_all s"

fun exec :: "('k, 'r) wait_cmd \<Rightarrow> 's \<Rightarrow> 's" where
  "exec (Register k w) s = snd (register k w s)"
| "exec (Cancel k w) s = cancel k w s"
| "exec (Release r) s = release r s"
| "exec (Event h ev) s = event h ev s"
| "exec WakeAll s = wake_all s"

text \<open>The channels of the registrations a run accepted.\<close>

fun accepted :: "('k, 'r) wait_cmd list \<Rightarrow> 's \<Rightarrow> nat set" where
  "accepted [] s = {}"
| "accepted (c # cs) s =
     (case c of Register k w \<Rightarrow> if fst (register k w s) then {wt_ready w} else {} | _ \<Rightarrow> {})
     \<union> accepted cs (exec c s)"

fun run_allowed :: "('k, 'r) wait_cmd list \<Rightarrow> 's \<Rightarrow> bool" where
  "run_allowed [] s = True"
| "run_allowed (c # cs) s = (allowed c s \<and> run_allowed cs (exec c s))"

definition runs :: "('k, 'r) wait_cmd list \<Rightarrow> 's \<Rightarrow> 's" where
  "runs cs s = fold exec cs s"

lemma exec_inv: "inv s \<Longrightarrow> allowed c s \<Longrightarrow> inv (exec c s)"
  by (cases c) (simp_all add: register_inv cancel_inv release_inv event_inv wake_all_inv)

lemma exec_closed_mono: "inv s \<Longrightarrow> allowed c s \<Longrightarrow> closed s \<subseteq> closed (exec c s)"
proof (cases c)
  case (Register k w)
  assume "inv s" "allowed c s"
  with Register register_accepted [of s k w] register_rejected [of s k w] show ?thesis
    by (cases "fst (register k w s)") auto
qed (use cancel_wakes release_wakes event_wakes_removed wake_all_wakes in auto)

lemma known_step:
  assumes "pend s' \<subseteq> pend s \<and> closed s' = wt_ready ` snd ` (pend s - pend s') \<union> closed s"
  shows "known s' = known s"
proof -
  have "pend s = (pend s - pend s') \<union> pend s'" using assms by blast
  then have "wt_ready ` snd ` pend s
      = wt_ready ` snd ` (pend s - pend s') \<union> wt_ready ` snd ` pend s'"
    by (metis image_Un)
  with assms show ?thesis by (auto simp: known_def)
qed

lemma exec_known:
  assumes "inv s" "allowed c s"
  shows "known s \<subseteq> known (exec c s)"
proof (cases c)
  case (Register k w)
  with assms register_accepted [of s k w] register_rejected [of s k w] show ?thesis
    by (cases "fst (register k w s)") (auto simp: known_def)
next
  case WakeAll
  with assms wake_all_wakes [of s] show ?thesis by (auto simp: known_def)
next
  case (Cancel k w)
  with assms known_step [OF cancel_wakes [of s k w]] show ?thesis by simp
next
  case (Release r)
  with assms known_step [OF release_wakes [of s r]] show ?thesis by simp
next
  case (Event h ev)
  with assms known_step [OF event_wakes_removed [of s h ev]] show ?thesis by simp
qed

lemma exec_registered:
  assumes "inv s" "can_register k w s" "fst (register k w s)"
  shows "wt_ready w \<in> known (snd (register k w s))"
  using register_accepted [OF assms] by (auto simp: known_def)

lemma runs_inv: "inv s \<Longrightarrow> run_allowed cs s \<Longrightarrow> inv (runs cs s)"
  unfolding runs_def by (induction cs arbitrary: s) (simp_all add: exec_inv)

lemma runs_closed_mono: "inv s \<Longrightarrow> run_allowed cs s \<Longrightarrow> closed s \<subseteq> closed (runs cs s)"
  unfolding runs_def
proof (induction cs arbitrary: s)
  case (Cons c cs)
  with exec_closed_mono [of s c] exec_inv [of s c] show ?case by fastforce
qed simp

text \<open>No accepted waiter is lost: it is pending, or its channel is closed.\<close>

lemma runs_known: "inv s \<Longrightarrow> run_allowed cs s \<Longrightarrow> known s \<union> accepted cs s \<subseteq> known (runs cs s)"
  unfolding runs_def
proof (induction cs arbitrary: s)
  case (Cons c cs)
  then have i: "inv (exec c s)" "known s \<subseteq> known (exec c s)"
    by (simp_all add: exec_inv exec_known)
  have "known (exec c s) \<union> accepted cs (exec c s) \<subseteq> known (fold exec cs (exec c s))"
    using Cons.IH [OF i(1)] Cons.prems(2) by simp
  moreover have "(case c of Register k w \<Rightarrow> if fst (register k w s) then {wt_ready w} else {} | _ \<Rightarrow> {})
      \<subseteq> known (exec c s)"
    using Cons.prems exec_registered by (auto split: wait_cmd.splits)
  ultimately show ?case using i(2) by auto
qed simp

text \<open>After \<open>wake_all\<close> every accepted waiter's channel is closed.\<close>

lemma runs_wake_all:
  assumes "inv s" "run_allowed (cs @ [WakeAll]) s"
  shows "known s \<union> accepted cs s \<subseteq> closed (runs (cs @ [WakeAll]) s)"
proof -
  have split: "run_allowed cs s \<and> can_wake_all (fold exec cs s)"
    using assms(2) by (induction cs arbitrary: s) simp_all
  with runs_known [OF assms(1)] have "known s \<union> accepted cs s \<subseteq> known (fold exec cs s)"
    by (simp add: runs_def)
  also have "known (fold exec cs s) \<subseteq> closed (wake_all (fold exec cs s))"
    using wake_all_wakes [of "fold exec cs s"] runs_inv [OF assms(1), of cs] split
    by (simp add: runs_def known_def)
  finally show ?thesis by (simp add: runs_def)
qed

text \<open>A waiter that leaves the pending set has its channel closed.\<close>

lemma left_is_closed:
  assumes "inv s" "p \<in> pend s" "p \<notin> pend s'" "pend s' \<subseteq> pend s"
    "closed s' = wt_ready ` snd ` (pend s - pend s') \<union> closed s"
  shows "wt_ready (snd p) \<in> closed s'"
  using assms by auto

lemma event_wakes_matching:
  assumes "inv s" "(h, w) \<in> pend s" "event_wakes ev w"
  shows "wt_ready w \<in> closed (event h ev s)"
  using left_is_closed [OF assms(1,2) event_removes [OF assms(1,3)]] event_wakes_removed [OF assms(1)]
  by simp

lemma cancel_wakes_waiter:
  assumes "inv s" "(key k, w) \<in> pend s" "can_cancel k w s"
  shows "wt_ready w \<in> closed (cancel k w s)"
  using left_is_closed [OF assms(1,2) cancel_removes [OF assms(1,3)]] cancel_wakes [OF assms(1,3)]
  by simp

lemma release_wakes_session:
  assumes "inv s" "(rel_key r, w) \<in> pend s" "can_release r s"
  shows "wt_ready w \<in> closed (release r s)"
  using left_is_closed [OF assms(1,2) release_removes [OF assms(1,3)]] release_wakes [OF assms(1,3)]
  by simp

end

end
