(* ===== verification/Poller.thy ===== *)
theory Poller
  imports WaitService
begin

text \<open>
  The shared poller of \<open>internal/vclpoll/poller.go\<close>: the handlers its goroutine runs. One
  definition per function, the body of a drain loop being the handling of one message; \<open>hist\<close>
  is the poller thread's own call history, so the calls a handler makes are visible. The real
  epoll bridge is used (the function fields tests inject are nil).
\<close>

section \<open>State\<close>

record unregisterRequest =
  ur_vlsh :: handle
  ur_done :: nat

record poller = waitTable +
  regCh :: "waiter list"
  cancelCh :: "waiter list"
  unregCh :: "unregisterRequest list"
  done_closed :: "nat list"
  stopCh_closed :: bool
  stopped_closed :: bool
  started_closed :: bool
  running :: bool
  disabled :: bool

definition new_poller :: poller where
  "new_poller = \<lparr>epVLSH = 0, waiters = [], ready_closed = [], panicked = False, hist = [],
     regCh = [], cancelCh = [], unregCh = [], done_closed = [], stopCh_closed = False,
     stopped_closed = False, started_closed = False, running = False, disabled = False\<rparr>"

section \<open>The epoll bridge\<close>

definition poller_add :: "cgo \<Rightarrow> handle \<Rightarrow> u32 \<Rightarrow> poller \<Rightarrow> bool \<times> poller" where
  "poller_add V vlsh events p =
     (let (r, w) = run_state (pollerEpollCtlAdd V (epVLSH p) vlsh events) (hist p)
      in (r = Inr (), p\<lparr>hist := w\<rparr>))"

definition poller_mod :: "cgo \<Rightarrow> handle \<Rightarrow> u32 \<Rightarrow> poller \<Rightarrow> bool \<times> poller" where
  "poller_mod V vlsh events p =
     (let (r, w) = run_state (pollerEpollCtlMod V (epVLSH p) vlsh events) (hist p)
      in (r = Inr (), p\<lparr>hist := w\<rparr>))"

definition poller_del :: "cgo \<Rightarrow> handle \<Rightarrow> poller \<Rightarrow> poller" where
  "poller_del V vlsh p =
     p\<lparr>hist := snd (run_state (pollerEpollCtlDel V (epVLSH p) vlsh) (hist p))\<rparr>"

definition dropWaitSet :: "cgo \<Rightarrow> handle \<Rightarrow> waitSet \<Rightarrow> poller \<Rightarrow> poller" where
  "dropWaitSet V vlsh ws p =
     (let p = poller_del V vlsh p;
          p = p\<lparr>waiters := AList.delete vlsh (waiters p)\<rparr>
      in wakeWaitSet ws p)"

section \<open>One message\<close>

text \<open>The body of \<open>drainRegistrations\<close> for \<open>w := <-p.regCh\<close>.\<close>

definition handleRegistration :: "cgo \<Rightarrow> waiter \<Rightarrow> poller \<Rightarrow> poller" where
  "handleRegistration V w p =
     (case map_of (waiters p) (wt_vlsh w) of
        None \<Rightarrow>
          (let (ok, p) = poller_add V (wt_vlsh w) (wt_events w) p in
           if \<not> ok then wakeWaiter w p
           else p\<lparr>waiters := AList.update (wt_vlsh w)
                  \<lparr>ws_waiters = [w], ws_events = wt_events w\<rparr> (waiters p)\<rparr>)
      | Some ws \<Rightarrow>
          (let newEvents = ws_events ws OR wt_events w;
               (ok, p) = (if newEvents \<noteq> ws_events ws then poller_mod V (wt_vlsh w) newEvents p
                          else (True, p)) in
           if \<not> ok then wakeWaiter w p
           else p\<lparr>waiters := AList.update (wt_vlsh w)
                  \<lparr>ws_waiters = (if w \<in> set (ws_waiters ws) then ws_waiters ws else w # ws_waiters ws),
                   ws_events = newEvents\<rparr> (waiters p)\<rparr>))"

text \<open>What \<open>drainCancellations\<close> and \<open>handleEvent\<close> do once waiters left a set that is not
  empty: recompute the mask, and drop the set when VLS refuses the new one.\<close>

definition shrinkInterest :: "cgo \<Rightarrow> handle \<Rightarrow> waiter list \<Rightarrow> u32 \<Rightarrow> poller \<Rightarrow> poller" where
  "shrinkInterest V vlsh rest oldEvents p =
     (let ws = \<lparr>ws_waiters = rest, ws_events = oldEvents\<rparr>;
          ws = ws\<lparr>ws_events := combinedEvents ws\<rparr>;
          p = p\<lparr>waiters := AList.update vlsh ws (waiters p)\<rparr>
      in if ws_events ws \<noteq> oldEvents then
           (let (ok, p) = poller_mod V vlsh (ws_events ws) p in
            if \<not> ok then dropWaitSet V vlsh ws p else p)
         else p)"

definition handleCancellation :: "cgo \<Rightarrow> waiter \<Rightarrow> poller \<Rightarrow> poller" where
  "handleCancellation V w p =
     (case map_of (waiters p) (wt_vlsh w) of
        None \<Rightarrow> p
      | Some ws \<Rightarrow>
          if w \<notin> set (ws_waiters ws) then p
          else
            (let rest = removeAll w (ws_waiters ws);
                 p = wakeWaiter w p
             in if rest = [] then
                  (let p = poller_del V (wt_vlsh w) p
                   in p\<lparr>waiters := AList.delete (wt_vlsh w) (waiters p)\<rparr>)
                else shrinkInterest V (wt_vlsh w) rest (ws_events ws) p))"

definition closeDone :: "nat \<Rightarrow> poller \<Rightarrow> poller" where
  "closeDone d p = (if d \<in> set (done_closed p) then p\<lparr>panicked := True\<rparr>
     else p\<lparr>done_closed := d # done_closed p\<rparr>)"

definition handleUnregistration :: "cgo \<Rightarrow> unregisterRequest \<Rightarrow> poller \<Rightarrow> poller" where
  "handleUnregistration V req p =
     closeDone (ur_done req)
       (case map_of (waiters p) (ur_vlsh req) of
          None \<Rightarrow> p
        | Some ws \<Rightarrow>
            (let p = poller_del V (ur_vlsh req) p;
                 p = p\<lparr>waiters := AList.delete (ur_vlsh req) (waiters p)\<rparr>
             in wakeWaitSet ws p))"

definition handleEvent :: "cgo \<Rightarrow> handle \<Rightarrow> u32 \<Rightarrow> poller \<Rightarrow> poller" where
  "handleEvent V vlsh events p =
     (case map_of (waiters p) vlsh of
        None \<Rightarrow> p
      | Some ws \<Rightarrow>
          (let rest = filter (\<lambda>w. \<not> event_wakes events w) (ws_waiters ws);
               p = fold wakeWaiter (filter (event_wakes events) (ws_waiters ws)) p
           in if rest = [] then
                (let p = poller_del V vlsh p
                 in p\<lparr>waiters := AList.delete vlsh (waiters p)\<rparr>)
              else shrinkInterest V vlsh rest (ws_events ws) p))"

section \<open>The loop\<close>

definition wakeAll :: "cgo \<Rightarrow> poller \<Rightarrow> poller" where
  "wakeAll V p =
     (let p = fold (\<lambda>(vlsh, ws) p. wakeWaitSet ws (poller_del V vlsh p)) (waiters p) p;
          p = p\<lparr>waiters := []\<rparr>
      in (fold wakeWaiter (regCh p) p)\<lparr>regCh := []\<rparr>)"

text \<open>The drains, on what is in the channels when they run.\<close>

definition drainRegistrations :: "cgo \<Rightarrow> poller \<Rightarrow> poller" where
  "drainRegistrations V p = fold (handleRegistration V) (regCh p) (p\<lparr>regCh := []\<rparr>)"

definition drainCancellations :: "cgo \<Rightarrow> poller \<Rightarrow> poller" where
  "drainCancellations V p = fold (handleCancellation V) (cancelCh p) (p\<lparr>cancelCh := []\<rparr>)"

definition drainUnregistrations :: "cgo \<Rightarrow> poller \<Rightarrow> poller" where
  "drainUnregistrations V p = fold (handleUnregistration V) (unregCh p) (p\<lparr>unregCh := []\<rparr>)"

text \<open>Before the loop; \<open>pollerEpollCreate\<close> failing is a panic.\<close>

definition loop_start :: "cgo \<Rightarrow> poller \<Rightarrow> poller" where
  "loop_start V p =
     (let w = snd (run_state (registerThisThread V) (hist p));
          (r, w) = run_state (pollerEpollCreate V) w
      in case r of
           Inl e \<Rightarrow> p\<lparr>hist := w, panicked := True\<rparr>
         | Inr ep \<Rightarrow> p\<lparr>hist := w, epVLSH := ep, running := True, started_closed := True\<rparr>)"

text \<open>One turn of the loop; the flag says whether it goes on.\<close>

definition loop_stop :: "cgo \<Rightarrow> poller \<Rightarrow> poller" where
  "loop_stop V p = (wakeAll V p)\<lparr>running := False, stopped_closed := True\<rparr>"

definition loop_turn :: "cgo \<Rightarrow> poller \<Rightarrow> bool \<times> poller" where
  "loop_turn V p =
     (if stopCh_closed p then (False, loop_stop V p)
      else
        (let p = drainUnregistrations V (drainCancellations V (drainRegistrations V p));
             (evs, w) = run_state (pollerEpollWait V (epVLSH p) 64) (hist p);
             p = p\<lparr>hist := w\<rparr>
         in case evs of
              None \<Rightarrow> (False, p\<lparr>panicked := True\<rparr>)
            | Some evs \<Rightarrow> (True, fold (\<lambda>e. handleEvent V (pe_Vlsh e) (pe_Events e)) evs p)))"

section \<open>What the bridge calls leave alone\<close>

lemma poller_add_sel [simp]:
  "waiters (snd (poller_add V h ev p)) = waiters p"
  "ready_closed (snd (poller_add V h ev p)) = ready_closed p"
  "panicked (snd (poller_add V h ev p)) = panicked p"
  "epVLSH (snd (poller_add V h ev p)) = epVLSH p"
  "done_closed (snd (poller_add V h ev p)) = done_closed p"
  "regCh (snd (poller_add V h ev p)) = regCh p" "cancelCh (snd (poller_add V h ev p)) = cancelCh p"
  "unregCh (snd (poller_add V h ev p)) = unregCh p"
  by (simp_all add: poller_add_def case_prod_beta Let_def)

lemma poller_mod_sel [simp]:
  "waiters (snd (poller_mod V h ev p)) = waiters p"
  "ready_closed (snd (poller_mod V h ev p)) = ready_closed p"
  "panicked (snd (poller_mod V h ev p)) = panicked p"
  "epVLSH (snd (poller_mod V h ev p)) = epVLSH p"
  "done_closed (snd (poller_mod V h ev p)) = done_closed p"
  "regCh (snd (poller_mod V h ev p)) = regCh p" "cancelCh (snd (poller_mod V h ev p)) = cancelCh p"
  "unregCh (snd (poller_mod V h ev p)) = unregCh p"
  by (simp_all add: poller_mod_def case_prod_beta Let_def)

lemma poller_del_sel [simp]:
  "waiters (poller_del V h p) = waiters p"
  "ready_closed (poller_del V h p) = ready_closed p"
  "panicked (poller_del V h p) = panicked p"
  "epVLSH (poller_del V h p) = epVLSH p"
  "done_closed (poller_del V h p) = done_closed p"
  "regCh (poller_del V h p) = regCh p" "cancelCh (poller_del V h p) = cancelCh p"
  "unregCh (poller_del V h p) = unregCh p"
  by (simp_all add: poller_del_def)

text \<open>The interest list of the poller's epoll handle.\<close>

abbreviation p_interest :: "poller \<Rightarrow> handle \<Rightarrow> (u32 \<times> u64) option" where
  "p_interest p \<equiv> interest (epVLSH p) (hist p)"

lemma poller_add_interest:
  "epVLSH p = ep \<Longrightarrow> interest ep (hist (snd (poller_add V h ev p))) =
     (if fst (poller_add V h ev p) then (interest ep (hist p))(h \<mapsto> (ev, event_key h))
      else interest ep (hist p))"
  by (auto simp: poller_add_def case_prod_beta Let_def pollerEpollCtlAdd_def with_rlock_def
      vclpoll_epoll_ctl_def rv_result_Inr)

lemma poller_mod_interest:
  "epVLSH p = ep \<Longrightarrow> interest ep (hist (snd (poller_mod V h ev p))) =
     (if fst (poller_mod V h ev p) then (interest ep (hist p))(h \<mapsto> (ev, event_key h))
      else interest ep (hist p))"
  by (auto simp: poller_mod_def case_prod_beta Let_def pollerEpollCtlMod_def with_rlock_def
      vclpoll_epoll_ctl_def rv_result_Inr)

lemma poller_del_interest [simp]:
  "epVLSH p = ep \<Longrightarrow> interest ep (hist (poller_del V h p)) = (interest ep (hist p))(h := None)"
  by (auto simp: poller_del_def pollerEpollCtlDel_def with_rlock_def vclpoll_epoll_ctl_def)

section \<open>The invariant\<close>

text \<open>
  The table is well formed, holds every waiter under its own session, and the epoll interest
  list is the table: exactly the sessions with waiters, each with the union of their masks.
\<close>

definition interest_ok :: "poller \<Rightarrow> bool" where
  "interest_ok p \<longleftrightarrow>
     p_interest p = (\<lambda>k. map_option (\<lambda>ws. (ws_events ws, event_key k)) (map_of (waiters p) k))"

definition poller_ok :: "poller \<Rightarrow> bool" where
  "poller_ok p \<longleftrightarrow> tab_ok p \<and> interest_ok p \<and> (\<forall>(k, w) \<in> pending p. wt_vlsh w = k)"

lemma poller_okD:
  assumes "poller_ok p"
  shows "tab_ok p" "interest_ok p" "(k, w) \<in> pending p \<Longrightarrow> wt_vlsh w = k"
  using assms by (auto simp: poller_ok_def)

lemma poller_okI:
  assumes "tab_ok p" "interest_ok p" "\<And>k w. (k, w) \<in> pending p \<Longrightarrow> wt_vlsh w = k"
  shows "poller_ok p"
  using assms by (auto simp: poller_ok_def)

lemma interest_okD:
  "interest_ok p \<Longrightarrow> p_interest p k = map_option (\<lambda>ws. (ws_events ws, event_key k)) (map_of (waiters p) k)"
  by (simp add: interest_ok_def)

text \<open>Waking a waiter that is pending nowhere.\<close>

lemma wake_fresh:
  assumes "tab_ok t" "fresh_waiter w t"
  shows "tab_ok (wakeWaiter w t)" "pending (wakeWaiter w t) = pending t"
    "set (ready_closed (wakeWaiter w t)) = insert (wt_ready w) (set (ready_closed t))"
  using assms by (auto simp: wakeWaiter_def fresh_waiter_def tab_ok_def pending_def)

text \<open>A registration: the waiter is in the table, or (VLS refused) woken at once.\<close>

definition registration_result :: "waiter \<Rightarrow> poller \<Rightarrow> poller \<Rightarrow> bool" where
  "registration_result w p p' \<longleftrightarrow> poller_ok p' \<and>
     (pending p' = insert (wt_vlsh w, w) (pending p) \<and> ready_closed p' = ready_closed p
      \<or> pending p' = pending p
        \<and> set (ready_closed p') = insert (wt_ready w) (set (ready_closed p)))"

lemma refused_registration:
  assumes ok: "poller_ok p" and fresh: "fresh_waiter w p"
    and p1: "waiters p1 = waiters p" "ready_closed p1 = ready_closed p" "panicked p1 = panicked p"
      "p_interest p1 = p_interest p"
  shows "registration_result w p (wakeWaiter w p1)"
proof -
  from tab_cong [OF p1(1-3)] ok fresh have t: "tab_ok p1" "fresh_waiter w p1" "pending p1 = pending p"
    by (simp_all add: poller_ok_def)
  note wk = wake_fresh [OF t(1,2)]
  have "interest_ok (wakeWaiter w p1)"
    using poller_okD(2) [OF ok] by (simp add: interest_ok_def p1)
  moreover have "wt_vlsh w' = k" if "(k, w') \<in> pending (wakeWaiter w p1)" for k w'
    using poller_okD(3) [OF ok] that by (simp add: wk t)
  ultimately show ?thesis
    by (auto simp: registration_result_def wk t p1 intro!: poller_okI)
qed

lemma accepted_registration:
  assumes ok: "poller_ok p"
    and tab: "tab_ok p'" "pending p' = insert (wt_vlsh w, w) (pending p)" "ready_closed p' = ready_closed p"
    and int: "interest_ok p'"
  shows "registration_result w p p'"
  using poller_okD(3) [OF ok] by (auto simp: registration_result_def tab int intro!: poller_okI)

lemma handleRegistration_result:
  assumes ok: "poller_ok p" and fresh: "fresh_waiter w p"
  shows "registration_result w p (handleRegistration V w p)"
proof (cases "map_of (waiters p) (wt_vlsh w)")
  case None
  let ?a = "poller_add V (wt_vlsh w) (wt_events w) p"
  show ?thesis
  proof (cases "fst ?a")
    case True
    let ?p' = "handleRegistration V w p"
    have p': "waiters ?p' = AList.update (wt_vlsh w) \<lparr>ws_waiters = [w], ws_events = wt_events w\<rparr> (waiters p)"
      "ready_closed ?p' = ready_closed p" "panicked ?p' = panicked p"
      using None True by (simp_all add: handleRegistration_def case_prod_beta)
    have "interest_ok ?p'"
      using None True interest_okD [OF poller_okD(2) [OF ok]]
      by (auto simp: interest_ok_def handleRegistration_def case_prod_beta poller_add_interest fun_eq_iff)
    with insert_set [OF poller_okD(1) [OF ok] None fresh p'] ok p'(2) show ?thesis
      by (intro accepted_registration) simp_all
  next
    case False
    have "handleRegistration V w p = wakeWaiter w (snd ?a)"
      using None False by (simp add: handleRegistration_def case_prod_beta)
    with refused_registration [OF ok fresh, of "snd ?a"] False show ?thesis
      by (simp add: poller_add_interest)
  qed
next
  case (Some ws)
  let ?ev = "ws_events ws OR wt_events w"
  let ?a = "if ?ev \<noteq> ws_events ws then poller_mod V (wt_vlsh w) ?ev p else (True, p)"
  have notin: "w \<notin> set (ws_waiters ws)"
    using fresh Some by (auto simp: fresh_waiter_def dest!: pendingI)
  show ?thesis
  proof (cases "fst ?a")
    case True
    let ?p' = "handleRegistration V w p"
    have p': "waiters ?p' = AList.update (wt_vlsh w)
        \<lparr>ws_waiters = w # ws_waiters ws, ws_events = ws_events ws OR wt_events w\<rparr> (waiters p)"
      "ready_closed ?p' = ready_closed p" "panicked ?p' = panicked p"
      using Some True notin by (simp_all add: handleRegistration_def case_prod_beta Let_def split: if_splits)
    have "interest_ok ?p'"
      using Some True interest_okD [OF poller_okD(2) [OF ok]]
      by (auto simp: interest_ok_def handleRegistration_def case_prod_beta Let_def poller_mod_interest
          fun_eq_iff split: if_splits)
    with extend_set [OF poller_okD(1) [OF ok] Some fresh p'] ok p'(2) show ?thesis
      by (intro accepted_registration) simp_all
  next
    case False
    have "handleRegistration V w p = wakeWaiter w (snd ?a)"
      using Some False by (simp add: handleRegistration_def case_prod_beta Let_def split: if_splits)
    with refused_registration [OF ok fresh, of "snd ?a"] False show ?thesis
      by (simp add: poller_mod_interest split: if_splits)
  qed
qed

section \<open>Releasing waiters\<close>

text \<open>\<open>out\<close> is what left the set of \<open>k\<close>: no longer pending, and its channels closed.\<close>

definition released :: "handle \<Rightarrow> waiter set \<Rightarrow> poller \<Rightarrow> poller \<Rightarrow> bool" where
  "released k out p p' \<longleftrightarrow> poller_ok p' \<and> out \<subseteq> {w. (k, w) \<in> pending p}
     \<and> pending p' = pending p - {k} \<times> out
     \<and> set (ready_closed p') = wt_ready ` out \<union> set (ready_closed p)"

text \<open>VLS refused to change the mask of \<open>k\<close> on the way from \<open>p\<close> to \<open>p'\<close>.\<close>

definition mod_refused :: "handle \<Rightarrow> poller \<Rightarrow> poller \<Rightarrow> bool" where
  "mod_refused k p p' \<longleftrightarrow> (\<exists>new ev r. hist p' = new @ hist p
     \<and> (VlsEpollCtl (epVLSH p) CTL_MOD k ev, r) \<in> set new \<and> rv r < 0)"

lemma released_ok: "released k out p p' \<Longrightarrow> poller_ok p'"
  by (simp add: released_def)

lemma released_none: "poller_ok p \<Longrightarrow> released k {} p p"
  by (simp add: released_def)

text \<open>Dropping the whole set of a session, however the epoll calls and the wake-ups are ordered.\<close>

lemma drop_released:
  assumes ok: "poller_ok p" and old: "map_of (waiters p) k = Some ws"
    and p': "waiters p' = AList.delete k (waiters p)"
      "set (ready_closed p') = wt_ready ` set (ws_waiters ws) \<union> set (ready_closed p)"
      "panicked p' = panicked p" "p_interest p' = (p_interest p)(k := None)"
  shows "released k (set (ws_waiters ws)) p p'"
proof -
  note ds = drop_set [OF poller_okD(1) [OF ok] old p'(1-3)]
  have "interest_ok p'"
    using interest_okD [OF poller_okD(2) [OF ok]] by (auto simp: interest_ok_def p' fun_eq_iff)
  with ds poller_okD(3) [OF ok] old show ?thesis
    by (auto simp: released_def p'(2) intro!: poller_okI pendingI)
qed

text \<open>Part of a set leaves it and the mask follows.\<close>

lemma shrink_released:
  assumes ok: "poller_ok p" and old: "map_of (waiters p) k = Some ws"
    and part: "set (ws_waiters ws) = set out \<union> set rest" "set out \<inter> set rest = {}" "distinct rest"
    and ne: "rest \<noteq> []"
    and p': "waiters p' = AList.update k \<lparr>ws_waiters = rest, ws_events = m\<rparr> (waiters p)"
      "set (ready_closed p') = wt_ready ` set out \<union> set (ready_closed p)"
      "panicked p' = panicked p" "p_interest p' = (p_interest p)(k \<mapsto> (m, event_key k))"
    and m: "m = combinedEvents \<lparr>ws_waiters = rest, ws_events = m\<rparr>"
  shows "released k (set out) p p'"
proof -
  have ss: "tab_ok p'" "pending p' = pending p - {k} \<times> set out"
    using shrink_set [OF poller_okD(1) [OF ok] old part, of p' m] p'(1-3) m ne by auto
  have "interest_ok p'"
    using interest_okD [OF poller_okD(2) [OF ok]] by (auto simp: interest_ok_def p' fun_eq_iff)
  with ss poller_okD(3) [OF ok] old part(1) show ?thesis
    by (auto simp: released_def p'(2) intro!: poller_okI intro: pendingI)
qed

text \<open>The common end of a cancellation and of an event.\<close>

definition release_tail :: "cgo \<Rightarrow> handle \<Rightarrow> waitSet \<Rightarrow> waiter list \<Rightarrow> poller \<Rightarrow> poller" where
  "release_tail V k ws rest p =
     (if rest = [] then (poller_del V k p)\<lparr>waiters := AList.delete k (waiters p)\<rparr>
      else shrinkInterest V k rest (ws_events ws) p)"

lemma poller_mod_refused:
  "\<not> fst (poller_mod V k ev p) \<Longrightarrow> mod_refused k p (snd (poller_mod V k ev p))"
  by (auto simp: mod_refused_def poller_mod_def case_prod_beta Let_def pollerEpollCtlMod_def
      with_rlock_def vclpoll_epoll_ctl_def rv_result_Inr)

lemma poller_mod_accepted:
  "fst (poller_mod V k ev p) \<Longrightarrow> \<not> mod_refused k p (snd (poller_mod V k ev p))"
  by (auto simp: mod_refused_def poller_mod_def case_prod_beta Let_def pollerEpollCtlMod_def
      with_rlock_def vclpoll_epoll_ctl_def rv_result_Inr Cons_eq_append_conv append_eq_Cons_conv)

lemma mod_refused_same: "hist p' = hist p \<Longrightarrow> \<not> mod_refused k p p'"
  by (simp add: mod_refused_def)

lemma poller_del_accepted: "hist p' = hist (poller_del V k p) \<Longrightarrow> \<not> mod_refused k' p p'"
  by (auto simp: mod_refused_def poller_del_def pollerEpollCtlDel_def with_rlock_def vclpoll_epoll_ctl_def
      Cons_eq_append_conv append_eq_Cons_conv)

lemma mod_refused_cong: "hist p1 = hist p \<Longrightarrow> epVLSH p1 = epVLSH p \<Longrightarrow> mod_refused k p1 p' \<longleftrightarrow> mod_refused k p p'"
  by (simp add: mod_refused_def)

lemma poller_del_extends: "\<exists>new. hist (poller_del V k p) = new @ hist p"
  by (auto simp: poller_del_def pollerEpollCtlDel_def with_rlock_def vclpoll_epoll_ctl_def)

lemma mod_refused_mono:
  assumes "mod_refused k p p1" "hist p2 = new @ hist p1"
  shows "mod_refused k p p2"
  using assms unfolding mod_refused_def by fastforce

text \<open>VLS refuses the smaller mask: the whole set is dropped.\<close>

lemma release_refused:
  assumes ok: "poller_ok p" and old: "map_of (waiters p) k = Some ws"
    and part: "set (ws_waiters ws) = set out \<union> set rest" "set out \<inter> set rest = {}" "distinct rest"
    and p2: "waiters p2 = AList.update k ws' (waiters p)" "ws_waiters ws' = rest"
      "set (ready_closed p2) = wt_ready ` set out \<union> set (ready_closed p)" "panicked p2 = panicked p"
      "epVLSH p2 = epVLSH p" "hist p2 = hist p"
    and refused: "\<not> fst (poller_mod V k m p2)"
    and p': "p' = dropWaitSet V k ws' (snd (poller_mod V k m p2))"
  shows "mod_refused k p p' \<and> released k (set (ws_waiters ws)) p p'"
proof
  define p3 where "p3 = snd (poller_mod V k m p2)"
  define p4 where "p4 = (poller_del V k p3)\<lparr>waiters := AList.delete k (waiters p3)\<rparr>"
  have p4: "ready_closed p4 = ready_closed p2" "panicked p4 = panicked p"
    "waiters p4 = AList.delete k (AList.update k ws' (waiters p))"
    by (simp_all add: p4_def p3_def p2)
  have "wt_ready ` set rest \<inter> set (ready_closed p4) = {}" "distinct (map wt_ready rest)"
    using rest_of_key_fresh [OF poller_okD(1) [OF ok] old part, of "ready_closed p4"] p2(3) by (simp_all add: p4)
  then have p'_eq: "p' = p4\<lparr>ready_closed := rev (map wt_ready rest) @ ready_closed p4\<rparr>"
    using fold_wake [of rest p4] by (simp add: p' dropWaitSet_def wakeWaitSet_def p3_def p4_def Let_def p2(2))
  show "released k (set (ws_waiters ws)) p p'"
  proof (rule drop_released [OF ok old])
    show "waiters p' = AList.delete k (waiters p)"
      by (simp add: p'_eq p4 AList.delete_update_same)
    show "p_interest p' = (p_interest p)(k := None)"
      using refused by (simp add: p'_eq p4_def p3_def poller_mod_interest p2)
  qed (auto simp: p'_eq p4 p2(3) part(1))
  obtain new where "hist p' = new @ hist p3"
    using poller_del_extends [of V k p3] by (auto simp: p'_eq p4_def)
  moreover have "mod_refused k p p3"
    using poller_mod_refused [OF refused] by (simp add: mod_refused_def p3_def p2)
  ultimately show "mod_refused k p p'" by (rule mod_refused_mono [rotated])
qed

lemma release_tail_result:
  assumes ok: "poller_ok p" and old: "map_of (waiters p) k = Some ws"
    and part: "set (ws_waiters ws) = set out \<union> set rest" "set out \<inter> set rest = {}" "distinct rest"
      "distinct out"
    and p': "p' = release_tail V k ws rest (fold wakeWaiter out p)"
  shows "\<not> mod_refused k p p' \<and> released k (set out) p p' \<or> mod_refused k p p' \<and> released k (set (ws_waiters ws)) p p'"
proof -
  note tab = poller_okD(1) [OF ok]
  define p1 where "p1 = fold wakeWaiter out p"
  have p1: "p1 = p\<lparr>ready_closed := rev (map wt_ready out) @ ready_closed p\<rparr>"
    unfolding p1_def using set_of_key_fresh [OF tab old _ part(4)] part(1) by (intro fold_wake) auto
  show ?thesis
  proof (cases "rest = []")
    case True
    have "released k (set (ws_waiters ws)) p p'"
      using drop_released [OF ok old, of p'] True part(1) unfolding p' p1_def [symmetric]
      by (simp add: p1 release_tail_def)
    moreover have "\<not> mod_refused k p1 p'"
      by (rule poller_del_accepted [of _ V k]) (simp add: p' release_tail_def True flip: p1_def)
    then have "\<not> mod_refused k p p'" by (simp add: mod_refused_def p1)
    ultimately show ?thesis using True part(1) by simp
  next
    case False
    define m where "m = combinedEvents \<lparr>ws_waiters = rest, ws_events = ws_events ws\<rparr>"
    have m: "m = combinedEvents \<lparr>ws_waiters = rest, ws_events = m\<rparr>"
      by (simp add: m_def combinedEvents_def)
    define p2 where "p2 = p1\<lparr>waiters := AList.update k \<lparr>ws_waiters = rest, ws_events = m\<rparr> (waiters p)\<rparr>"
    have wsm: "\<lparr>ws_waiters = rest, ws_events = ws_events ws\<rparr>\<lparr>ws_events := m\<rparr> = \<lparr>ws_waiters = rest, ws_events = m\<rparr>"
      by simp
    have tail: "p' = (if m \<noteq> ws_events ws then
        if fst (poller_mod V k m p2) then snd (poller_mod V k m p2)
        else dropWaitSet V k \<lparr>ws_waiters = rest, ws_events = m\<rparr> (snd (poller_mod V k m p2)) else p2)"
      using False unfolding p' p1_def [symmetric] release_tail_def shrinkInterest_def Let_def
        case_prod_beta m_def [symmetric] wsm
      by (simp add: p2_def p1)
    have p2_sel: "waiters p2 = AList.update k \<lparr>ws_waiters = rest, ws_events = m\<rparr> (waiters p)"
      "set (ready_closed p2) = wt_ready ` set out \<union> set (ready_closed p)" "panicked p2 = panicked p"
      "epVLSH p2 = epVLSH p" "hist p2 = hist p"
      by (auto simp: p2_def p1)
    consider (same) "m = ws_events ws" | (accepted) "m \<noteq> ws_events ws" "fst (poller_mod V k m p2)"
      | (refused) "m \<noteq> ws_events ws" "\<not> fst (poller_mod V k m p2)" by auto
    then show ?thesis
    proof cases
      case same
      have "p_interest p' = (p_interest p)(k \<mapsto> (m, event_key k))"
        using interest_okD [OF poller_okD(2) [OF ok], of k] old same
        by (auto simp: tail p2_sel fun_eq_iff)
      with shrink_released [OF ok old part(1-3) False, of p' m] m same show ?thesis
        by (simp add: tail p2_sel mod_refused_same)
    next
      case accepted
      then have "\<not> mod_refused k p p'"
        using poller_mod_accepted [OF accepted(2)] mod_refused_cong [OF p2_sel(5,4)] by (simp add: tail)
      with accepted show ?thesis
        using shrink_released [OF ok old part(1-3) False, of p' m] m
        by (simp add: tail p2_sel) (simp add: poller_mod_interest p2_sel)
    next
      case refused
      then show ?thesis
        using release_refused [OF ok old part(1-3) p2_sel(1) _ p2_sel(2-5) refused(2) refl] by (simp add: tail)
    qed
  qed
qed

section \<open>The handlers\<close>

text \<open>Waiters \<open>out\<close> leave the set of \<open>k\<close>, or all of them when VLS refuses the smaller mask.\<close>

definition release_result :: "handle \<Rightarrow> waiter set \<Rightarrow> poller \<Rightarrow> poller \<Rightarrow> bool" where
  "release_result k out p p' \<longleftrightarrow> out \<subseteq> pend_at p k
     \<and> (\<not> mod_refused k p p' \<and> released k out p p' \<or> mod_refused k p p' \<and> released k (pend_at p k) p p')"

lemma handleCancellation_result:
  assumes ok: "poller_ok p"
  shows "release_result (wt_vlsh w) ({w} \<inter> pend_at p (wt_vlsh w)) p (handleCancellation V w p)"
proof (cases "map_of (waiters p) (wt_vlsh w)")
  case None
  then show ?thesis
    using released_none [OF ok] by (simp add: handleCancellation_def pend_at_none release_result_def)
next
  case (Some ws)
  note ws = tab_okD(2) [OF poller_okD(1) [OF ok] Some]
  show ?thesis
  proof (cases "w \<in> set (ws_waiters ws)")
    case True
    have "handleCancellation V w p
        = release_tail V (wt_vlsh w) ws (removeAll w (ws_waiters ws)) (fold wakeWaiter [w] p)"
      using Some True by (simp add: handleCancellation_def release_tail_def Let_def)
    from release_tail_result [OF ok Some _ _ _ _ this] ws True show ?thesis
      by (auto simp: release_result_def pend_at_set [OF Some] set_ok_def distinct_removeAll)
  next
    case False
    with Some released_none [OF ok] show ?thesis
      by (simp add: handleCancellation_def pend_at_set release_result_def mod_refused_same)
  qed
qed

lemma handleEvent_result:
  assumes ok: "poller_ok p"
  shows "release_result k {w \<in> pend_at p k. event_wakes ev w} p (handleEvent V k ev p)"
proof (cases "map_of (waiters p) k")
  case None
  then show ?thesis
    using released_none [OF ok] by (simp add: handleEvent_def pend_at_none release_result_def)
next
  case (Some ws)
  note ws = tab_okD(2) [OF poller_okD(1) [OF ok] Some]
  let ?out = "filter (event_wakes ev) (ws_waiters ws)"
  have eq: "handleEvent V k ev p
      = release_tail V k ws (filter (\<lambda>w. \<not> event_wakes ev w) (ws_waiters ws)) (fold wakeWaiter ?out p)"
    using Some by (simp add: handleEvent_def release_tail_def Let_def)
  have "set ?out = {w \<in> pend_at p k. event_wakes ev w}"
    by (auto simp: pend_at_set [OF Some])
  with release_tail_result [OF ok Some _ _ _ _ eq] ws show ?thesis
    by (auto simp: release_result_def pend_at_set [OF Some] set_ok_def)
qed

lemma closeDone_sel [simp]:
  "d \<notin> set (done_closed p) \<Longrightarrow> closeDone d p = p\<lparr>done_closed := d # done_closed p\<rparr>"
  by (simp add: closeDone_def)

lemma wake_done [simp]: "done_closed (wakeWaiter w p) = done_closed p"
  by (simp add: wakeWaiter_def)

lemma fold_wake_done [simp]: "done_closed (fold wakeWaiter ws p) = done_closed p"
  by (induction ws arbitrary: p) simp_all

lemma poller_ok_done [simp]: "poller_ok (p\<lparr>done_closed := d\<rparr>) = poller_ok p"
  by (simp add: poller_ok_def tab_ok_def pending_def interest_ok_def)

lemma pending_done [simp]: "pending (p\<lparr>done_closed := d\<rparr>) = pending p"
  by (simp add: pending_def)

lemma released_done [simp]: "released k out p (p'\<lparr>done_closed := d\<rparr>) = released k out p p'"
  by (simp add: released_def)

text \<open>The close barrier: once \<open>done\<close> is closed nothing of the session is left in the poller.\<close>

lemma handleUnregistration_result:
  assumes ok: "poller_ok p" and fresh: "ur_done req \<notin> set (done_closed p)"
  shows "released (ur_vlsh req) (pend_at p (ur_vlsh req)) p (handleUnregistration V req p)"
    and "ur_done req \<in> set (done_closed (handleUnregistration V req p))"
    and "p_interest (handleUnregistration V req p) (ur_vlsh req) = None"
proof -
  let ?p' = "handleUnregistration V req p"
  show rel: "released (ur_vlsh req) (pend_at p (ur_vlsh req)) p ?p'"
  proof (cases "map_of (waiters p) (ur_vlsh req)")
    case None
    with released_none [OF ok] fresh show ?thesis
      by (simp add: handleUnregistration_def pend_at_none)
  next
    case (Some ws)
    note tab = poller_okD(1) [OF ok]
    define p1 where "p1 = (poller_del V (ur_vlsh req) p)\<lparr>waiters := AList.delete (ur_vlsh req) (waiters p)\<rparr>"
    have ws: "distinct (ws_waiters ws)" using tab_okD(2) [OF tab Some] by (simp add: set_ok_def)
    have wk: "wakeWaitSet ws p1 = p1\<lparr>ready_closed := rev (map wt_ready (ws_waiters ws)) @ ready_closed p1\<rparr>"
      unfolding wakeWaitSet_def
      using set_of_key_fresh [OF tab Some subset_refl ws] by (intro fold_wake) (simp_all add: p1_def)
    have "?p' = (wakeWaitSet ws p1)\<lparr>done_closed := ur_done req # done_closed p\<rparr>"
      using Some fresh wk by (simp add: handleUnregistration_def p1_def [symmetric] Let_def)
        (simp add: p1_def)
    moreover have "released (ur_vlsh req) (set (ws_waiters ws)) p (wakeWaitSet ws p1)"
      by (rule drop_released [OF ok Some]) (auto simp: wk, simp_all add: p1_def)
    ultimately show ?thesis by (simp add: pend_at_set [OF Some])
  qed
  show "ur_done req \<in> set (done_closed ?p')"
    by (simp add: handleUnregistration_def closeDone_def)
  have "map_of (waiters ?p') (ur_vlsh req) = None"
  proof (rule ccontr)
    assume "map_of (waiters ?p') (ur_vlsh req) \<noteq> None"
    then obtain ws where ws: "map_of (waiters ?p') (ur_vlsh req) = Some ws" by auto
    with rel have "ws_waiters ws \<noteq> []"
      using tab_okD(2) [of ?p'] by (auto simp: released_def poller_ok_def set_ok_def)
    then obtain w where "(ur_vlsh req, w) \<in> pending ?p'"
      using pendingI [OF ws] by (cases "ws_waiters ws") auto
    with rel show False by (auto simp: released_def pend_at_def)
  qed
  then show "p_interest ?p' (ur_vlsh req) = None"
    using interest_okD [OF poller_okD(2) [OF released_ok [OF rel]]] by simp
qed

section \<open>Stopping\<close>

lemma wake_sets:
  fixes V :: cgo
  assumes "distinct (map wt_ready (all_waiters al))"
    "wt_ready ` set (all_waiters al) \<inter> set (ready_closed p) = {}"
  defines "p' \<equiv> fold (\<lambda>(k, ws) p. wakeWaitSet ws (poller_del V k p)) al p"
  shows "set (ready_closed p') = wt_ready ` set (all_waiters al) \<union> set (ready_closed p)"
    "panicked p' = panicked p" "regCh p' = regCh p" "cancelCh p' = cancelCh p" "unregCh p' = unregCh p"
    "done_closed p' = done_closed p" "epVLSH p' = epVLSH p"
    "interest (epVLSH p) (hist p') = (\<lambda>k. if k \<in> fst ` set al then None else p_interest p k)"
proof -
  have "set (ready_closed p') = wt_ready ` set (all_waiters al) \<union> set (ready_closed p)
    \<and> panicked p' = panicked p \<and> regCh p' = regCh p \<and> cancelCh p' = cancelCh p \<and> unregCh p' = unregCh p
    \<and> done_closed p' = done_closed p \<and> epVLSH p' = epVLSH p
    \<and> interest (epVLSH p) (hist p') = (\<lambda>k. if k \<in> fst ` set al then None else p_interest p k)"
    using assms(1,2) unfolding p'_def
  proof (induction al arbitrary: p)
    case (Cons e al)
    obtain k ws where e: "e = (k, ws)" by (cases e)
    have wk: "wakeWaitSet ws (poller_del V k p)
        = (poller_del V k p)\<lparr>ready_closed := rev (map wt_ready (ws_waiters ws)) @ ready_closed p\<rparr>"
      using Cons.prems e unfolding wakeWaitSet_def by (subst fold_wake) auto
    have "wt_ready ` set (all_waiters al) \<inter> set (ready_closed (wakeWaitSet ws (poller_del V k p))) = {}"
      using Cons.prems e by (auto simp: wk)
    from Cons.IH [OF _ this] Cons.prems(1) show ?case
      by (auto simp: e wk fun_eq_iff)
  qed simp
  then show "set (ready_closed p') = wt_ready ` set (all_waiters al) \<union> set (ready_closed p)"
    "panicked p' = panicked p" "regCh p' = regCh p" "cancelCh p' = cancelCh p" "unregCh p' = unregCh p"
    "done_closed p' = done_closed p" "epVLSH p' = epVLSH p"
    "interest (epVLSH p) (hist p') = (\<lambda>k. if k \<in> fst ` set al then None else p_interest p k)"
    by blast+
qed

text \<open>The queue of registrations holds waiters of its own, each once.\<close>

definition queue_ok :: "poller \<Rightarrow> bool" where
  "queue_ok p \<longleftrightarrow> distinct (map wt_ready (regCh p)) \<and> (\<forall>w \<in> set (regCh p). fresh_waiter w p)"

lemma wakeAll_result:
  assumes ok: "poller_ok p" and q: "queue_ok p"
  shows "poller_ok (wakeAll V p)" "pending (wakeAll V p) = {}" "p_interest (wakeAll V p) k = None"
    "set (ready_closed (wakeAll V p))
       = wt_ready ` (snd ` pending p \<union> set (regCh p)) \<union> set (ready_closed p)"
    "regCh (wakeAll V p) = []" "unregCh (wakeAll V p) = unregCh p" "cancelCh (wakeAll V p) = cancelCh p"
    "done_closed (wakeAll V p) = done_closed p"
proof -
  note tab = poller_okD(1) [OF ok]
  define p1 where "p1 = (fold (\<lambda>(k, ws) p. wakeWaitSet ws (poller_del V k p)) (waiters p) p)\<lparr>waiters := []\<rparr>"
  note ws = wake_sets [OF all_waiters_distinct [OF tab], of V]
  have rc: "set (ready_closed p1) = wt_ready ` (snd ` pending p) \<union> set (ready_closed p)"
    by (simp add: p1_def ws all_waiters_pending [OF tab])
  have "fold wakeWaiter (regCh p1) p1 = p1\<lparr>ready_closed := rev (map wt_ready (regCh p)) @ ready_closed p1\<rparr>"
  proof (subst fold_wake)
    have rq: "regCh p1 = regCh p" by (simp add: p1_def ws)
    show "distinct (map wt_ready (regCh p1))" using q by (simp add: rq queue_ok_def)
    show "wt_ready ` set (regCh p1) \<inter> set (ready_closed p1) = {}"
      using q unfolding rq rc queue_ok_def fresh_waiter_def by fastforce
  qed (simp add: p1_def ws)
  then have eq: "wakeAll V p = p1\<lparr>ready_closed := rev (map wt_ready (regCh p)) @ ready_closed p1, regCh := []\<rparr>"
    by (simp add: wakeAll_def p1_def Let_def)
  have int: "p_interest (wakeAll V p) = (\<lambda>k. None)"
    using interest_okD [OF poller_okD(2) [OF ok]]
    by (auto simp: eq p1_def ws fun_eq_iff map_of_eq_None_iff)
  then show "p_interest (wakeAll V p) k = None" by simp
  show pe: "pending (wakeAll V p) = {}"
    by (simp add: eq p1_def)
  show "poller_ok (wakeAll V p)"
    using int tab_okD(5) [OF tab] pe by (simp add: poller_ok_def interest_ok_def tab_ok_empty eq p1_def ws)
  show "set (ready_closed (wakeAll V p))
      = wt_ready ` (snd ` pending p \<union> set (regCh p)) \<union> set (ready_closed p)"
    by (auto simp: eq rc)
  show "regCh (wakeAll V p) = []" "unregCh (wakeAll V p) = unregCh p" "cancelCh (wakeAll V p) = cancelCh p"
    "done_closed (wakeAll V p) = done_closed p"
    by (simp_all add: eq p1_def ws)
qed

section \<open>The poller as a wait service\<close>

lemma released_laws:
  assumes "released k out p p'"
  shows "poller_ok p'" "pending p' \<subseteq> pending p" "w \<in> out \<Longrightarrow> (k, w) \<notin> pending p'"
    "set (ready_closed p') = wt_ready ` snd ` (pending p - pending p') \<union> set (ready_closed p)"
proof -
  from assms have out: "pending p - pending p' = {k} \<times> out"
    by (auto simp: released_def)
  have "snd ` ({k} \<times> out) = out" by force
  with assms show "set (ready_closed p') = wt_ready ` snd ` (pending p - pending p') \<union> set (ready_closed p)"
    unfolding out by (simp add: released_def)
qed (use assms in \<open>auto simp: released_def\<close>)

lemma release_result_laws:
  assumes "release_result k out p p'"
  shows "poller_ok p'" "pending p' \<subseteq> pending p" "w \<in> out \<Longrightarrow> (k, w) \<notin> pending p'"
    "set (ready_closed p') = wt_ready ` snd ` (pending p - pending p') \<union> set (ready_closed p)"
proof -
  obtain out' where out': "released k out' p p'" "out \<subseteq> out'"
    using assms unfolding release_result_def by blast
  note laws = released_laws [OF out'(1)]
  show "poller_ok p'" "pending p' \<subseteq> pending p"
    "set (ready_closed p') = wt_ready ` snd ` (pending p - pending p') \<union> set (ready_closed p)"
    by (rule laws)+
  show "w \<in> out \<Longrightarrow> (k, w) \<notin> pending p'"
    using laws(3) out'(2) by blast
qed

interpretation pw: wait_service poller_ok pending "\<lambda>p. set (ready_closed p)" "\<lambda>k. k" ur_vlsh
  "\<lambda>k w p. wt_vlsh w = k \<and> fresh_waiter w p" "\<lambda>k w p. wt_vlsh w = k"
  "\<lambda>r p. ur_done r \<notin> set (done_closed p)" queue_ok
  "\<lambda>k w p. (True, handleRegistration V w p)" "\<lambda>k w. handleCancellation V w"
  "handleUnregistration V" "handleEvent V" "wakeAll V" for V
proof (unfold_locales, goal_cases)
  case (1 s p) then show ?case by (simp add: poller_okD(1) tab_okD(4))
next
  case (2 s p q) then show ?case by (intro tab_okD(3) [of s p q] poller_okD(1))
next
  case (3 s k w) then show ?case
    using handleRegistration_result [of s w V] by (simp add: registration_result_def)
next
  case (4 s k w) then show ?case
    using handleRegistration_result [of s w V] by (auto simp: registration_result_def)
next
  case (5 s k w) then show ?case by simp
next
  case (6 s k w) then show ?case by (intro release_result_laws(1) [OF handleCancellation_result])
next
  case (7 s k w)
  note laws = release_result_laws [OF handleCancellation_result [OF 7(1), of w V]]
  show ?case
    using laws(2) laws(3) [of w] 7(2) by (auto simp: pend_at_def)
next
  case (8 s k w) then show ?case
    using release_result_laws [OF handleCancellation_result [OF 8(1), of w V]] by simp
next
  case (9 s r) then show ?case by (intro released_laws(1) [OF handleUnregistration_result(1)])
next
  case (10 s r w)
  note laws = released_laws [OF handleUnregistration_result(1) [OF 10]]
  show ?case using laws(2) laws(3) [of w] by (auto simp: pend_at_def)
next
  case (11 s r) then show ?case
    using released_laws [OF handleUnregistration_result(1) [OF 11]] by simp
next
  case (12 s h ev) then show ?case by (intro release_result_laws(1) [OF handleEvent_result])
next
  case (13 s ev w h)
  note laws = release_result_laws [OF handleEvent_result [OF 13(1), of h ev V]]
  show ?case using laws(2) laws(3) [of w] 13(2) by (auto simp: pend_at_def)
next
  case (14 s h ev) then show ?case
    using release_result_laws [OF handleEvent_result [OF 14, of h ev V]] by simp
next
  case (15 s) then show ?case by (rule wakeAll_result(1))
next
  case (16 s) then show ?case by (auto simp: wakeAll_result)
qed

section \<open>Properties\<close>

text \<open>A poller with a reader and a writer parked on session 5.\<close>

definition demo_reader :: waiter where
  "demo_reader = \<lparr>wt_vlsh = 5, wt_events = epollIn, wt_ready = 0\<rparr>"

definition demo_writer :: waiter where
  "demo_writer = \<lparr>wt_vlsh = 5, wt_events = epollOut, wt_ready = 1\<rparr>"

definition demo_two :: poller where
  "demo_two = handleRegistration demo_cgo demo_writer (handleRegistration demo_cgo demo_reader new_poller)"

lemma new_poller_ok: "poller_ok new_poller" "pending new_poller = {}" "ready_closed new_poller = []"
  by (simp_all add: poller_ok_def tab_ok_empty interest_ok_def new_poller_def)

lemma demo_bridge_ok:
  "fst (poller_add demo_cgo h ev p)" "fst (poller_mod demo_cgo h ev p)"
  by (simp_all add: poller_add_def poller_mod_def pollerEpollCtlAdd_def pollerEpollCtlMod_def
      with_rlock_def vclpoll_epoll_ctl_def rv_result_Inr)

lemma demo_two_state:
  "waiters demo_two = [(5, \<lparr>ws_waiters = [demo_writer, demo_reader], ws_events = 5\<rparr>)]"
  "ready_closed demo_two = []" "done_closed demo_two = []"
  by (simp_all add: demo_two_def handleRegistration_def demo_reader_def demo_writer_def new_poller_def
      case_prod_beta demo_bridge_ok Let_def)

lemma demo_two_ok: "poller_ok demo_two"
  unfolding demo_two_def
proof (rule pw.register_inv [where V = demo_cgo and k = 5 and w = demo_writer, simplified])
  show "poller_ok (handleRegistration demo_cgo demo_reader new_poller)"
    by (rule pw.register_inv [where V = demo_cgo and k = 5 and w = demo_reader, simplified])
      (simp_all add: new_poller_ok demo_reader_def fresh_waiter_def)
  show "wt_vlsh demo_writer = 5 \<and> fresh_waiter demo_writer (handleRegistration demo_cgo demo_reader new_poller)"
    using handleRegistration_result [OF new_poller_ok(1), of demo_reader demo_cgo]
    by (auto simp: registration_result_def new_poller_ok fresh_waiter_def demo_reader_def demo_writer_def)
qed

lemma demo_pending: "pending demo_two = {(5, demo_writer), (5, demo_reader)}"
  by (auto simp: pending_def demo_two_state split: if_splits)

lemma demo_waiters [simp]: "demo_reader \<noteq> demo_writer" "wt_ready demo_reader = 0" "wt_ready demo_writer = 1"
  "wt_vlsh demo_reader = 5" "wt_vlsh demo_writer = 5"
  "event_wakes epollIn demo_reader" "\<not> event_wakes epollIn demo_writer"
  by (simp_all add: demo_reader_def demo_writer_def event_wakes_def terminal_events_def)

lemma demo_not_refused: "\<not> mod_refused h demo_two (handleEvent demo_cgo 5 epollIn demo_two)"
  "\<not> mod_refused h demo_two (handleCancellation demo_cgo demo_reader demo_two)"
  by (simp_all add: mod_refused_def handleEvent_def handleCancellation_def demo_two_state event_wakes_def
      terminal_events_def demo_reader_def demo_writer_def shrinkInterest_def combinedEvents_def
      wakeWaiter_def poller_mod_def pollerEpollCtlMod_def with_rlock_def vclpoll_epoll_ctl_def Let_def)

text \<open>C33. Whom an epoll event on a session wakes, the answer of VLS included. If VLS takes the mask that is left, or none
  has to be set, it wakes exactly the waiters of the session whose mask the event meets, all of them when it reports
  an error or a hangup. If VLS refuses the smaller mask the session is given up, and all its waiters
  are woken. The waiters of other sessions stay in either case, and no channel is closed but those of the woken.\<close>

theorem event_wakes_exactly:
  assumes "poller_ok p"
  shows "let p' = handleEvent V h ev p;
             woken = {w. (h, w) \<in> pending p \<and> (mod_refused h p p' \<or> event_wakes ev w)}
         in pending p' = pending p - {h} \<times> woken \<and> set (ready_closed p') = set (ready_closed p) \<union> wt_ready ` woken"
proof -
  let ?p' = "handleEvent V h ev p"
  have "released h {w. (h, w) \<in> pending p \<and> (mod_refused h p ?p' \<or> event_wakes ev w)} p ?p'"
    using handleEvent_result [OF assms, of h ev V] by (auto simp: release_result_def pend_at_def)
  then show ?thesis by (auto simp: released_def Let_def)
qed

lemma event_wakes_exactly_witness:
  "pending (handleEvent demo_cgo 5 epollIn demo_two) = {(5, demo_writer)}
   \<and> set (ready_closed (handleEvent demo_cgo 5 epollIn demo_two)) = {0}"
proof -
  have woken: "{w. (5, w) \<in> pending demo_two \<and> (mod_refused 5 demo_two (handleEvent demo_cgo 5 epollIn demo_two)
      \<or> event_wakes epollIn w)} = {demo_reader}"
    using demo_not_refused(1) by (auto simp: demo_pending)
  have kept: "pending demo_two - {5} \<times> {demo_reader} = {(5, demo_writer)}"
    by (auto simp: demo_pending dest: sym)
  show ?thesis
    using event_wakes_exactly [OF demo_two_ok, where V = demo_cgo and h = 5 and ev = epollIn]
    unfolding Let_def woken kept by (simp add: demo_two_state)
qed

text \<open>Cancelling one waiter removes and wakes that waiter and no other, a concurrent writer on
  the same session included, unless VLS refuses to shrink the mask of the session.\<close>

theorem cancellation_is_precise:
  assumes "poller_ok p" and "\<not> mod_refused (wt_vlsh w) p (handleCancellation V w p)"
  shows "pending (handleCancellation V w p) = pending p - {(wt_vlsh w, w)}
    \<and> set (ready_closed (handleCancellation V w p))
        = set (ready_closed p) \<union> (if (wt_vlsh w, w) \<in> pending p then {wt_ready w} else {})"
proof -
  have "released (wt_vlsh w) ({w} \<inter> pend_at p (wt_vlsh w)) p (handleCancellation V w p)"
    using handleCancellation_result [OF assms(1), of w V] assms(2) by (simp add: release_result_def)
  then show ?thesis by (auto simp: released_def pend_at_def)
qed

lemma cancellation_is_precise_witness:
  "pending (handleCancellation demo_cgo demo_reader demo_two) = {(5, demo_writer)}
   \<and> set (ready_closed (handleCancellation demo_cgo demo_reader demo_two)) = {0}"
proof -
  have "pending demo_two - {(5, demo_reader)} = {(5, demo_writer)}"
    by (auto simp: demo_pending dest: sym)
  then show ?thesis
    using cancellation_is_precise [OF demo_two_ok demo_not_refused(2)]
    by (simp add: demo_two_state) (simp add: demo_pending)
qed

text \<open>The close barrier: when the poller acknowledges an unregistration, no waiter of the
  session is pending, all of them have been woken, the session is out of the epoll set, and the
  waiters of every other session are as they were.\<close>

theorem unregistration_is_a_barrier:
  assumes "poller_ok p" and "ur_done req \<notin> set (done_closed p)"
    and "p' = handleUnregistration V req p"
  shows "ur_done req \<in> set (done_closed p') \<and> p_interest p' (ur_vlsh req) = None
    \<and> pending p' = {q \<in> pending p. fst q \<noteq> ur_vlsh req}
    \<and> set (ready_closed p') = set (ready_closed p) \<union> wt_ready ` {w. (ur_vlsh req, w) \<in> pending p}"
  using handleUnregistration_result [OF assms(1,2), of V] unfolding assms(3)
  by (auto simp: released_def pend_at_def)

lemma unregistration_is_a_barrier_witness:
  "let p' = handleUnregistration demo_cgo \<lparr>ur_vlsh = 5, ur_done = 3\<rparr> demo_two in
     3 \<in> set (done_closed p') \<and> p_interest p' 5 = None \<and> pending p' = {}
     \<and> set (ready_closed p') = {0, 1}"
proof -
  have woken: "{w. (5, w) \<in> pending demo_two} = {demo_reader, demo_writer}"
    by (auto simp: demo_pending)
  have kept: "{q \<in> pending demo_two. fst q \<noteq> 5} = {}"
    by (auto simp: demo_pending)
  show ?thesis
    using unregistration_is_a_barrier [OF demo_two_ok _ refl, of "\<lparr>ur_vlsh = 5, ur_done = 3\<rparr>" demo_cgo]
    by (simp add: woken kept demo_two_state Let_def)
qed

text \<open>Whatever sequence of registrations, cancellations, unregistrations, events and stops
  the poller handles, no waiter's channel is closed twice, every waiter it took is pending or
  woken, and after a stop all of them are woken.\<close>

theorem poller_conserves_waiters:
  assumes "poller_ok p" and "pw.run_allowed V (cs @ [WakeAll]) p"
  shows "poller_ok (pw.runs V (cs @ [WakeAll]) p) \<and> \<not> panicked (pw.runs V (cs @ [WakeAll]) p)
    \<and> wt_ready ` snd ` pending p \<union> pw.accepted V cs p \<subseteq> set (ready_closed (pw.runs V (cs @ [WakeAll]) p))"
  using pw.runs_wake_all [OF assms] pw.runs_inv [OF assms]
  by (auto simp: pw.known_def dest: poller_okD(1) tab_okD(5))

lemma poller_conserves_waiters_witness:
  "{0, 1} \<subseteq> set (ready_closed (pw.runs demo_cgo [Event 5 epollIn, WakeAll] demo_two))"
proof -
  have q: "queue_ok (handleEvent demo_cgo 5 epollIn demo_two)"
    by (simp add: queue_ok_def demo_two_def handleEvent_def handleRegistration_def new_poller_def
        demo_reader_def demo_writer_def case_prod_beta demo_bridge_ok Let_def event_wakes_def
        terminal_events_def shrinkInterest_def wakeWaiter_def)
  show ?thesis
    using poller_conserves_waiters [OF demo_two_ok, of demo_cgo "[Event 5 epollIn]"] q
    by (simp add: pw.run_allowed.simps demo_pending)
qed

end
