(* ===== verification/PollerSteps.thy ===== *)
theory PollerSteps
  imports Poller
begin

text \<open>
  The poller goroutine beside its callers: \<open>start\<close>, \<open>stop\<close>, \<open>pollUnregister\<close> and
  \<open>mode3PollWaitContext\<close> of \<open>poller.go\<close> as a step relation, one step per channel operation, in
  any interleaving. The poller's own program counter keeps its order (all registrations, then
  all cancellations, then all unregistrations, then the epoll wait and its events).
\<close>

section \<open>The system\<close>

datatype ppc = PTop | PReg | PCancel | PUnreg | PWait | PEvents "pollEvent list" | PStopped

text \<open>
  Where a caller is: in the first or the second select of \<open>mode3PollWaitContext\<close>, in the
  select that sends the cancellation, in one of the two selects of \<open>pollUnregister\<close>, or
  returned. The waiter is allocated when it is sent; nobody sees it before.
\<close>

datatype pcaller =
    Idle
  | WantWait handle u32
  | Waiting waiter
  | WantCancel waiter
  | WaitDone bool
  | WantUnreg handle
  | UnregWait unregisterRequest
  | UnregDone

record psys =
  pl :: poller
  pc :: ppc
  callers :: "nat \<Rightarrow> pcaller"
  cancelled :: "nat set"
  next_ready :: nat
  next_done :: nat

text \<open>After \<open>start\<close> has run the loop up to its first turn.\<close>

definition psys_init :: "cgo \<Rightarrow> psys" where
  "psys_init V = \<lparr>pl = loop_start V new_poller, pc = PTop, callers = (\<lambda>_. Idle), cancelled = {},
     next_ready = 0, next_done = 0\<rparr>"

definition set_caller :: "nat \<Rightarrow> pcaller \<Rightarrow> psys \<Rightarrow> psys" where
  "set_caller i c s = s\<lparr>callers := (callers s)(i := c)\<rparr>"

text \<open>The capacity of the three channels.\<close>

abbreviation chan_cap :: nat where "chan_cap \<equiv> 256"

inductive pstep :: "cgo \<Rightarrow> psys \<Rightarrow> psys \<Rightarrow> bool" for V where
  wait_refused: "callers s i = Idle \<Longrightarrow> disabled (pl s) \<or> \<not> running (pl s) \<Longrightarrow>
     pstep V s (set_caller i (WaitDone False) s)"
| wait_begin: "callers s i = Idle \<Longrightarrow> \<not> disabled (pl s) \<Longrightarrow> running (pl s) \<Longrightarrow>
     pstep V s (set_caller i (WantWait h ev) s)"
| wait_send: "callers s i = WantWait h ev \<Longrightarrow> length (regCh (pl s)) < chan_cap \<Longrightarrow>
     w = \<lparr>wt_vlsh = h, wt_events = ev, wt_ready = next_ready s\<rparr> \<Longrightarrow>
     pstep V s (set_caller i (Waiting w)
       (s\<lparr>pl := (pl s)\<lparr>regCh := regCh (pl s) @ [w]\<rparr>, next_ready := Suc (next_ready s)\<rparr>))"
| wait_send_cancelled: "callers s i = WantWait h ev \<Longrightarrow> i \<in> cancelled s \<or> stopped_closed (pl s) \<Longrightarrow>
     pstep V s (set_caller i (WaitDone False) s)"
| wait_ready: "callers s i = Waiting w \<Longrightarrow> waiterIsReady w (pl s) \<Longrightarrow>
     pstep V s (set_caller i (WaitDone True) s)"
| wait_cancelled: "callers s i = Waiting w \<Longrightarrow> i \<in> cancelled s \<Longrightarrow>
     pstep V s (set_caller i (WantCancel w) s)"
| wait_stopped: "callers s i = Waiting w \<Longrightarrow> stopped_closed (pl s) \<Longrightarrow>
     pstep V s (set_caller i (WaitDone False) s)"
| cancel_send: "callers s i = WantCancel w \<Longrightarrow> length (cancelCh (pl s)) < chan_cap \<Longrightarrow>
     pstep V s (set_caller i (WaitDone False) (s\<lparr>pl := (pl s)\<lparr>cancelCh := cancelCh (pl s) @ [w]\<rparr>\<rparr>))"
| cancel_ready: "callers s i = WantCancel w \<Longrightarrow> waiterIsReady w (pl s) \<Longrightarrow>
     pstep V s (set_caller i (WaitDone True) s)"
| cancel_stopped: "callers s i = WantCancel w \<Longrightarrow> stopped_closed (pl s) \<Longrightarrow>
     pstep V s (set_caller i (WaitDone False) s)"
| ctx_done: "pstep V s (s\<lparr>cancelled := insert i (cancelled s)\<rparr>)"
| unreg_idle: "callers s i = Idle \<Longrightarrow> disabled (pl s) \<or> \<not> running (pl s) \<Longrightarrow>
     pstep V s (set_caller i UnregDone s)"
| unreg_begin: "callers s i = Idle \<Longrightarrow> \<not> disabled (pl s) \<Longrightarrow> running (pl s) \<Longrightarrow>
     pstep V s (set_caller i (WantUnreg h) s)"
| unreg_send: "callers s i = WantUnreg h \<Longrightarrow> length (unregCh (pl s)) < chan_cap \<Longrightarrow>
     r = \<lparr>ur_vlsh = h, ur_done = next_done s\<rparr> \<Longrightarrow>
     pstep V s (set_caller i (UnregWait r)
       (s\<lparr>pl := (pl s)\<lparr>unregCh := unregCh (pl s) @ [r]\<rparr>, next_done := Suc (next_done s)\<rparr>))"
| unreg_send_stopped: "callers s i = WantUnreg h \<Longrightarrow> stopped_closed (pl s) \<Longrightarrow>
     pstep V s (set_caller i UnregDone s)"
| unreg_done: "callers s i = UnregWait r \<Longrightarrow> ur_done r \<in> set (done_closed (pl s)) \<or> stopped_closed (pl s) \<Longrightarrow>
     pstep V s (set_caller i UnregDone s)"
| stop_request: "pstep V s (s\<lparr>pl := (pl s)\<lparr>disabled := True, stopCh_closed := True\<rparr>\<rparr>)"
| p_stop: "pc s = PTop \<Longrightarrow> stopCh_closed (pl s) \<Longrightarrow>
     pstep V s (s\<lparr>pl := loop_stop V (pl s), pc := PStopped\<rparr>)"
| p_go: "pc s = PTop \<Longrightarrow> \<not> stopCh_closed (pl s) \<Longrightarrow> pstep V s (s\<lparr>pc := PReg\<rparr>)"
| p_reg: "pc s = PReg \<Longrightarrow> regCh (pl s) = w # q \<Longrightarrow>
     pstep V s (s\<lparr>pl := handleRegistration V w ((pl s)\<lparr>regCh := q\<rparr>)\<rparr>)"
| p_reg_empty: "pc s = PReg \<Longrightarrow> regCh (pl s) = [] \<Longrightarrow> pstep V s (s\<lparr>pc := PCancel\<rparr>)"
| p_cancel: "pc s = PCancel \<Longrightarrow> cancelCh (pl s) = w # q \<Longrightarrow>
     pstep V s (s\<lparr>pl := handleCancellation V w ((pl s)\<lparr>cancelCh := q\<rparr>)\<rparr>)"
| p_cancel_empty: "pc s = PCancel \<Longrightarrow> cancelCh (pl s) = [] \<Longrightarrow> pstep V s (s\<lparr>pc := PUnreg\<rparr>)"
| p_unreg: "pc s = PUnreg \<Longrightarrow> unregCh (pl s) = r # q \<Longrightarrow>
     pstep V s (s\<lparr>pl := handleUnregistration V r ((pl s)\<lparr>unregCh := q\<rparr>)\<rparr>)"
| p_unreg_empty: "pc s = PUnreg \<Longrightarrow> unregCh (pl s) = [] \<Longrightarrow> pstep V s (s\<lparr>pc := PWait\<rparr>)"
| p_wait: "pc s = PWait \<Longrightarrow> run_state (pollerEpollWait V (epVLSH (pl s)) 64) (hist (pl s)) = (Some evs, w') \<Longrightarrow>
     pstep V s (s\<lparr>pl := (pl s)\<lparr>hist := w'\<rparr>, pc := PEvents evs\<rparr>)"
| p_event: "pc s = PEvents (e # evs) \<Longrightarrow>
     pstep V s (s\<lparr>pl := handleEvent V (pe_Vlsh e) (pe_Events e) (pl s), pc := PEvents evs\<rparr>)"
| p_event_end: "pc s = PEvents [] \<Longrightarrow> pstep V s (s\<lparr>pc := PTop\<rparr>)"

inductive preach :: "cgo \<Rightarrow> psys \<Rightarrow> bool" for V where
  preach_init: "preach V (psys_init V)"
| preach_step: "preach V s \<Longrightarrow> pstep V s s' \<Longrightarrow> preach V s'"

section \<open>What a handler leaves alone\<close>

definition rest :: "poller \<Rightarrow> waiter list \<times> waiter list \<times> unregisterRequest list \<times> bool \<times> bool \<times> bool \<times> bool \<times> bool \<times> handle" where
  "rest p = (regCh p, cancelCh p, unregCh p, stopCh_closed p, stopped_closed p, started_closed p,
     running p, disabled p, epVLSH p)"

lemma rest_wake [simp]: "rest (wakeWaiter w p) = rest p"
  by (simp add: rest_def wakeWaiter_def)

lemma rest_fold_wake [simp]: "rest (fold wakeWaiter ws p) = rest p"
  by (induction ws arbitrary: p) simp_all

lemma rest_wakeWaitSet [simp]: "rest (wakeWaitSet ws p) = rest p"
  by (simp add: wakeWaitSet_def)

lemma rest_bridge [simp]:
  "rest (snd (poller_add V h ev p)) = rest p" "rest (snd (poller_mod V h ev p)) = rest p"
  "rest (poller_del V h p) = rest p" "rest (p\<lparr>waiters := x\<rparr>) = rest p" "rest (closeDone d p) = rest p"
  by (simp_all add: rest_def poller_add_def poller_mod_def poller_del_def case_prod_beta Let_def closeDone_def)

lemma rest_handlers [simp]:
  "rest (handleRegistration V w p) = rest p"
  "rest (handleCancellation V w p) = rest p"
  "rest (handleUnregistration V r p) = rest p"
  "rest (handleEvent V h ev p) = rest p"
  by (simp_all add: handleRegistration_def handleCancellation_def handleUnregistration_def
      handleEvent_def shrinkInterest_def dropWaitSet_def case_prod_beta Let_def split: option.split)

lemma rest_fold_del [simp]:
  "rest (fold (\<lambda>(k, ws) p. wakeWaitSet ws (poller_del V k p)) al p) = rest p"
  by (induction al arbitrary: p) auto

lemma rest_wakeAll: "rest (wakeAll V p) = rest (p\<lparr>regCh := []\<rparr>)"
proof -
  have "rest (a\<lparr>regCh := []\<rparr>) = rest (b\<lparr>regCh := []\<rparr>)" if "rest a = rest b" for a b
    using that by (simp add: rest_def)
  then show ?thesis unfolding wakeAll_def Let_def by this simp
qed

lemma restD:
  assumes "rest p' = rest p"
  shows "regCh p' = regCh p" "cancelCh p' = cancelCh p" "unregCh p' = unregCh p"
    "stopCh_closed p' = stopCh_closed p" "stopped_closed p' = stopped_closed p" "running p' = running p"
    "disabled p' = disabled p" "epVLSH p' = epVLSH p"
  using assms by (simp_all add: rest_def)

lemma stopped_handlers [simp]:
  "stopped_closed (handleRegistration V w p) = stopped_closed p"
  "stopped_closed (handleCancellation V w p) = stopped_closed p"
  "stopped_closed (handleUnregistration V r p) = stopped_closed p"
  "stopped_closed (handleEvent V h ev p) = stopped_closed p"
  by (rule restD(5), simp)+

lemma done_handlers [simp]:
  "done_closed (handleRegistration V w p) = done_closed p"
  "done_closed (handleCancellation V w p) = done_closed p"
  "done_closed (handleEvent V h ev p) = done_closed p"
  by (simp_all add: handleRegistration_def handleCancellation_def handleEvent_def shrinkInterest_def
      dropWaitSet_def wakeWaitSet_def case_prod_beta Let_def split: option.split)

lemma done_unregistration:
  assumes "ur_done r \<notin> set (done_closed p)"
  shows "done_closed (handleUnregistration V r p) = ur_done r # done_closed p"
  using assms by (simp add: handleUnregistration_def wakeWaitSet_def closeDone_def Let_def split: option.split)

section \<open>The invariant of the system\<close>

text \<open>A waiter that was sent is queued, pending, or woken.\<close>

definition parked :: "waiter \<Rightarrow> poller \<Rightarrow> bool" where
  "parked w p \<longleftrightarrow> w \<in> set (regCh p) \<or> (wt_vlsh w, w) \<in> pending p \<or> waiterIsReady w p"

definition unreg_known :: "unregisterRequest \<Rightarrow> poller \<Rightarrow> bool" where
  "unreg_known r p \<longleftrightarrow> r \<in> set (unregCh p) \<or> ur_done r \<in> set (done_closed p)"

definition done_ok :: "poller \<Rightarrow> bool" where
  "done_ok p \<longleftrightarrow> distinct (map ur_done (unregCh p)) \<and> ur_done ` set (unregCh p) \<inter> set (done_closed p) = {}"

definition chan_ids :: "poller \<Rightarrow> nat set" where
  "chan_ids p = wt_ready ` (set (regCh p) \<union> snd ` pending p) \<union> set (ready_closed p)"

definition done_ids :: "poller \<Rightarrow> nat set" where
  "done_ids p = ur_done ` set (unregCh p) \<union> set (done_closed p)"

definition psys_inv :: "psys \<Rightarrow> bool" where
  "psys_inv s \<longleftrightarrow> poller_ok (pl s) \<and> queue_ok (pl s) \<and> done_ok (pl s)
     \<and> chan_ids (pl s) \<subseteq> {..< next_ready s} \<and> done_ids (pl s) \<subseteq> {..< next_done s}
     \<and> (\<forall>i w. callers s i = Waiting w \<or> callers s i = WantCancel w \<longrightarrow> parked w (pl s))
     \<and> (\<forall>i r. callers s i = UnregWait r \<longrightarrow> unreg_known r (pl s))
     \<and> (stopped_closed (pl s) \<longleftrightarrow> pc s = PStopped)
     \<and> (pc s = PStopped \<longrightarrow> \<not> running (pl s) \<and> pending (pl s) = {})"

text \<open>What a step of the poller goroutine may change, and what it must keep.\<close>

definition advances :: "poller \<Rightarrow> poller \<Rightarrow> bool" where
  "advances p p' \<longleftrightarrow> poller_ok p' \<and> queue_ok p' \<and> done_ok p'
     \<and> (\<forall>w. parked w p \<longrightarrow> parked w p') \<and> (\<forall>r. unreg_known r p \<longrightarrow> unreg_known r p')
     \<and> chan_ids p' \<subseteq> chan_ids p \<and> done_ids p' \<subseteq> done_ids p"

lemma psys_inv_advance:
  assumes "psys_inv s" "advances (pl s) p'" "pc s \<noteq> PStopped"
    "(stopped_closed p' \<longleftrightarrow> pc' = PStopped) \<and> (pc' = PStopped \<longrightarrow> \<not> running p' \<and> pending p' = {})"
  shows "psys_inv (s\<lparr>pl := p', pc := pc'\<rparr>)"
  using assms(1,2,4) by (simp add: psys_inv_def advances_def) (meson subset_trans)

lemma poller_ok_cong:
  assumes "waiters p = waiters q" "ready_closed p = ready_closed q" "panicked p = panicked q"
    "epVLSH p = epVLSH q" "interest (epVLSH q) (hist p) = interest (epVLSH q) (hist q)"
  shows "poller_ok p = poller_ok q" "pending p = pending q" "fresh_waiter w p = fresh_waiter w q"
  using tab_cong [OF assms(1-3)] assms by (simp_all add: poller_ok_def interest_ok_def)

lemma fresh_waiter_mono:
  assumes "fresh_waiter w p" "pending p' \<subseteq> pending p"
    "set (ready_closed p') \<subseteq> wt_ready ` snd ` pending p \<union> set (ready_closed p)"
  shows "fresh_waiter w p'"
  using assms by (fastforce simp: fresh_waiter_def)

text \<open>Cancellations and events.\<close>

lemma advances_release:
  assumes inv: "queue_ok p" "done_ok p"
    and p': "release_result k out p p'" "rest p' = rest p" "done_closed p' = done_closed p"
  shows "advances p p'"
proof -
  note laws = release_result_laws [OF p'(1)] and r = restD [OF p'(2)]
  have "parked w p'" if "parked w p" for w
  proof (cases "(wt_vlsh w, w) \<in> pending p - pending p'")
    case True
    then have "wt_ready w \<in> wt_ready ` snd ` (pending p - pending p')" by force
    then show ?thesis by (simp add: parked_def waiterIsReady_def laws(4))
  qed (use that laws(2,4) r in \<open>auto simp: parked_def waiterIsReady_def\<close>)
  moreover have "queue_ok p'"
    using inv(1) fresh_waiter_mono [OF _ laws(2)] laws(4) by (force simp: queue_ok_def r)
  moreover have "chan_ids p' \<subseteq> chan_ids p"
    using laws(2) by (auto simp: chan_ids_def r laws(4))
  ultimately show ?thesis
    using laws(1) inv(2) by (simp add: advances_def done_ok_def done_ids_def unreg_known_def r p'(3))
qed

lemma pop_cancel [simp]:
  "poller_ok (p\<lparr>cancelCh := q\<rparr>) = poller_ok p" "pending (p\<lparr>cancelCh := q\<rparr>) = pending p"
  "queue_ok (p\<lparr>cancelCh := q\<rparr>) = queue_ok p" "done_ok (p\<lparr>cancelCh := q\<rparr>) = done_ok p"
proof -
  note c = poller_ok_cong [of "p\<lparr>cancelCh := q\<rparr>" p]
  show "poller_ok (p\<lparr>cancelCh := q\<rparr>) = poller_ok p" "pending (p\<lparr>cancelCh := q\<rparr>) = pending p"
    by (rule c; simp)+
  show "queue_ok (p\<lparr>cancelCh := q\<rparr>) = queue_ok p"
    by (simp add: queue_ok_def c(3))
  show "done_ok (p\<lparr>cancelCh := q\<rparr>) = done_ok p"
    by (simp add: done_ok_def)
qed

lemma advances_pop_cancel: "advances (p\<lparr>cancelCh := q\<rparr>) p' = advances p p'"
  by (simp add: advances_def parked_def unreg_known_def chan_ids_def done_ids_def waiterIsReady_def)

text \<open>Registrations.\<close>

lemma advances_registration:
  assumes inv: "poller_ok p" "queue_ok p" "done_ok p" and q: "regCh p = w # q"
  shows "advances p (handleRegistration V w (p\<lparr>regCh := q\<rparr>))"
proof -
  let ?p = "p\<lparr>regCh := q\<rparr>" let ?p' = "handleRegistration V w ?p"
  have pok: "poller_ok ?p" "pending ?p = pending p" "fresh_waiter v ?p = fresh_waiter v p" for v
    using poller_ok_cong [of ?p p] inv(1) by auto
  have fresh: "fresh_waiter w ?p" using inv(2) q by (simp add: queue_ok_def pok)
  note res = handleRegistration_result [OF pok(1) fresh, of V, unfolded registration_result_def pok(2)]
  note r = restD [OF rest_handlers(1) [of V w ?p]]
  have dis: "wt_ready v \<noteq> wt_ready w" if "v \<in> set q" for v
    using inv(2) q that by (auto simp: queue_ok_def) (metis image_eqI)
  have "fresh_waiter v ?p'" if "v \<in> set q" for v
  proof -
    have "fresh_waiter v p" using inv(2) q that by (simp add: queue_ok_def)
    with res dis [OF that] show ?thesis by (fastforce simp: fresh_waiter_def)
  qed
  then have "queue_ok ?p'"
    using inv(2) q by (simp add: queue_ok_def r)
  moreover have "parked v ?p'" if "parked v p" for v
    using conjunct2 [OF res] that unfolding parked_def waiterIsReady_def r q
    by (elim disjE conjE) (simp_all, blast+)
  moreover have "chan_ids ?p' \<subseteq> chan_ids p"
    using conjunct2 [OF res] unfolding chan_ids_def r q by (elim disjE conjE) auto
  ultimately show ?thesis
    using res inv(3) by (simp add: advances_def done_ok_def done_ids_def unreg_known_def r)
qed

text \<open>Unregistrations.\<close>

lemma advances_unregistration:
  assumes inv: "poller_ok p" "queue_ok p" "done_ok p" and q: "unregCh p = r # q"
  shows "advances p (handleUnregistration V r (p\<lparr>unregCh := q\<rparr>))"
proof -
  let ?p = "p\<lparr>unregCh := q\<rparr>" let ?p' = "handleUnregistration V r ?p"
  have pok: "poller_ok ?p" "pending ?p = pending p" "fresh_waiter v ?p = fresh_waiter v p" for v
    using poller_ok_cong [of ?p p] inv(1) by auto
  have fresh: "ur_done r \<notin> set (done_closed ?p)" using inv(3) q by (auto simp: done_ok_def)
  note laws = released_laws [OF handleUnregistration_result(1) [OF pok(1) fresh, of V], unfolded pok(2)]
  note rs = restD [OF rest_handlers(3) [of V r ?p]]
  note dn = done_unregistration [OF fresh, of V]
  have "parked w ?p'" if "parked w p" for w
  proof (cases "(wt_vlsh w, w) \<in> pending p - pending ?p'")
    case True
    then have "wt_ready w \<in> wt_ready ` snd ` (pending p - pending ?p')" by force
    then show ?thesis by (simp add: parked_def waiterIsReady_def laws(4))
  qed (use that laws(2,4) rs in \<open>auto simp: parked_def waiterIsReady_def\<close>)
  moreover have "queue_ok ?p'"
    using inv(2) fresh_waiter_mono [of _ p, OF _ laws(2)] laws(4) by (force simp: queue_ok_def rs)
  moreover have "chan_ids ?p' \<subseteq> chan_ids p"
    using laws(2) by (auto simp: chan_ids_def rs laws(4))
  moreover have "done_ok ?p'" "done_ids ?p' \<subseteq> done_ids p" "unreg_known u ?p'" if "unreg_known u p" for u
    using inv(3) q that by (auto simp: done_ok_def done_ids_def unreg_known_def rs dn)
  ultimately show ?thesis
    using laws(1) inv(3) q by (auto simp: advances_def done_ok_def done_ids_def unreg_known_def rs dn)
qed

text \<open>Stopping.\<close>

lemma advances_stop:
  assumes inv: "poller_ok p" "queue_ok p" "done_ok p"
  shows "advances p (loop_stop V p)" "stopped_closed (loop_stop V p)" "\<not> running (loop_stop V p)"
    "pending (loop_stop V p) = {}"
proof -
  note wk = wakeAll_result [OF inv(1,2), of V]
  let ?p' = "loop_stop V p"
  have eqs: "regCh ?p' = []" "unregCh ?p' = unregCh p" "done_closed ?p' = done_closed p"
    "ready_closed ?p' = ready_closed (wakeAll V p)"
    by (simp_all add: loop_stop_def wk)
  have ok: "poller_ok ?p' = poller_ok (wakeAll V p)" "pending ?p' = pending (wakeAll V p)"
    by (rule poller_ok_cong; simp add: loop_stop_def)+
  show "stopped_closed ?p'" "\<not> running ?p'" "pending ?p' = {}"
    by (simp_all add: loop_stop_def ok(2) [unfolded loop_stop_def] wk)
  have "parked w ?p'" if "parked w p" for w
    using that by (force simp: parked_def waiterIsReady_def eqs wk)
  moreover have "chan_ids ?p' \<subseteq> chan_ids p"
    by (auto simp: chan_ids_def eqs ok wk)
  ultimately show "advances p ?p'"
    using inv(3) by (simp add: advances_def ok wk queue_ok_def done_ok_def done_ids_def unreg_known_def eqs)
qed

section \<open>Every step keeps the invariant\<close>

lemma psys_invD:
  assumes "psys_inv s"
  shows "poller_ok (pl s)" "queue_ok (pl s)" "done_ok (pl s)"
    "callers s i = Waiting w \<Longrightarrow> parked w (pl s)" "callers s i = WantCancel w \<Longrightarrow> parked w (pl s)"
    "callers s i = UnregWait r \<Longrightarrow> unreg_known r (pl s)"
    "stopped_closed (pl s) \<longleftrightarrow> pc s = PStopped" "pc s = PStopped \<Longrightarrow> pending (pl s) = {}"
    "pc s = PStopped \<Longrightarrow> \<not> running (pl s)"
  using assms unfolding psys_inv_def by blast+

lemma psys_inv_caller:
  assumes "psys_inv s"
    "\<And>w. c = Waiting w \<or> c = WantCancel w \<Longrightarrow> parked w (pl s)" "\<And>r. c = UnregWait r \<Longrightarrow> unreg_known r (pl s)"
  shows "psys_inv (set_caller i c s)"
  using assms unfolding psys_inv_def set_caller_def by (simp; blast)

lemma psys_inv_cancelled: "psys_inv s \<Longrightarrow> psys_inv (s\<lparr>cancelled := c\<rparr>)"
  by (simp add: psys_inv_def)

text \<open>A fresh waiter into the registration channel, a fresh request into the other.\<close>

lemma psys_inv_send:
  assumes inv: "psys_inv s" and w: "wt_ready w = next_ready s"
  shows "psys_inv (s\<lparr>pl := (pl s)\<lparr>regCh := regCh (pl s) @ [w]\<rparr>, next_ready := Suc (next_ready s)\<rparr>)"
proof -
  let ?p = "(pl s)\<lparr>regCh := regCh (pl s) @ [w]\<rparr>"
  have same: "poller_ok ?p = poller_ok (pl s)" "pending ?p = pending (pl s)"
    "fresh_waiter v ?p = fresh_waiter v (pl s)" for v
    by (rule poller_ok_cong; simp)+
  have new: "next_ready s \<notin> chan_ids (pl s)"
    using inv by (auto simp: psys_inv_def)
  have fw: "fresh_waiter w (pl s)"
    using new w by (force simp: fresh_waiter_def chan_ids_def)
  have "wt_ready w \<notin> wt_ready ` set (regCh (pl s))"
    using new w by (auto simp: chan_ids_def)
  with fw psys_invD(2) [OF inv] have "queue_ok ?p"
    by (auto simp: queue_ok_def same)
  moreover have "chan_ids ?p = insert (next_ready s) (chan_ids (pl s))"
    using w by (auto simp: chan_ids_def same)
  moreover have "parked v ?p" if "parked v (pl s)" for v
    using that by (auto simp: parked_def same waiterIsReady_def)
  moreover have "done_ok ?p = done_ok (pl s)" "done_ids ?p = done_ids (pl s)"
    "unreg_known r ?p = unreg_known r (pl s)" for r
    by (simp_all add: done_ok_def done_ids_def unreg_known_def)
  ultimately show ?thesis
    using inv by (simp add: psys_inv_def same) (metis less_Suc_eq lessThan_iff subset_iff)
qed

lemma psys_inv_send_unreg:
  assumes inv: "psys_inv s" and r: "ur_done r = next_done s"
  shows "psys_inv (s\<lparr>pl := (pl s)\<lparr>unregCh := unregCh (pl s) @ [r]\<rparr>, next_done := Suc (next_done s)\<rparr>)"
proof -
  let ?p = "(pl s)\<lparr>unregCh := unregCh (pl s) @ [r]\<rparr>"
  have same: "poller_ok ?p = poller_ok (pl s)" "pending ?p = pending (pl s)"
    "fresh_waiter v ?p = fresh_waiter v (pl s)" for v
    by (rule poller_ok_cong; simp)+
  have new: "next_done s \<notin> done_ids (pl s)"
    using inv by (auto simp: psys_inv_def)
  with r psys_invD(3) [OF inv] have "done_ok ?p"
    by (auto simp: done_ok_def done_ids_def)
  moreover have "done_ids ?p = insert (next_done s) (done_ids (pl s))"
    using r by (auto simp: done_ids_def)
  moreover have "unreg_known u ?p" if "unreg_known u (pl s)" for u
    using that by (auto simp: unreg_known_def)
  moreover have "queue_ok ?p = queue_ok (pl s)" "chan_ids ?p = chan_ids (pl s)"
    "parked v ?p = parked v (pl s)" for v
    by (simp_all add: queue_ok_def same chan_ids_def parked_def waiterIsReady_def)
  ultimately show ?thesis
    using inv by (simp add: psys_inv_def same) (metis less_Suc_eq lessThan_iff subset_iff)
qed

lemma psys_inv_pl:
  assumes inv: "psys_inv s" and p': "waiters p' = waiters (pl s)" "ready_closed p' = ready_closed (pl s)"
    "panicked p' = panicked (pl s)" "epVLSH p' = epVLSH (pl s)"
    "interest (epVLSH (pl s)) (hist p') = p_interest (pl s)"
    "regCh p' = regCh (pl s)" "unregCh p' = unregCh (pl s)" "done_closed p' = done_closed (pl s)"
    "stopped_closed p' = stopped_closed (pl s)" "running p' = running (pl s)"
    and pc': "pc' = PStopped \<longleftrightarrow> pc s = PStopped"
  shows "psys_inv (s\<lparr>pl := p', pc := pc'\<rparr>)"
proof -
  note same = poller_ok_cong [OF p'(1-5)]
  have "queue_ok p' = queue_ok (pl s)" "done_ok p' = done_ok (pl s)" "chan_ids p' = chan_ids (pl s)"
    "done_ids p' = done_ids (pl s)" "parked w p' = parked w (pl s)" "unreg_known r p' = unreg_known r (pl s)" for w r
    by (simp_all add: queue_ok_def same done_ok_def chan_ids_def done_ids_def parked_def waiterIsReady_def
        unreg_known_def p')
  with inv pc' show ?thesis
    by (simp add: psys_inv_def same p')
qed

lemma psys_inv_move:
  "psys_inv s \<Longrightarrow> pc s \<noteq> PStopped \<Longrightarrow> pc' \<noteq> PStopped \<Longrightarrow> psys_inv (s\<lparr>pc := pc'\<rparr>)"
  using psys_inv_pl [of s "pl s" pc'] by simp

lemma epoll_wait_interest:
  "interest ep (snd (run_state (pollerEpollWait V ep' n) w)) = interest ep w"
  by (simp add: pollerEpollWait_def with_rlock_def vclpoll_epoll_wait_def)

lemma pstep_inv:
  assumes "pstep V s s'" and inv: "psys_inv s"
  shows "psys_inv s'"
  using assms(1)
proof cases
  note ok = psys_invD(1-3) [OF inv]
  have go: "psys_inv (s\<lparr>pl := p', pc := pc'\<rparr>)"
    if "advances (pl s) p'" "pc s \<noteq> PStopped" "pc' \<noteq> PStopped" "stopped_closed p' = stopped_closed (pl s)"
    for p' pc'
    using psys_inv_advance [OF inv that(1,2), of pc'] psys_invD(7) [OF inv] that by simp
  have stay: "psys_inv (s\<lparr>pl := p'\<rparr>)"
    if "advances (pl s) p'" "pc s \<noteq> PStopped" "stopped_closed p' = stopped_closed (pl s)" for p'
    using go [OF that(1,2,2,3)] by simp
  {
    case (wait_send i h ev w)
    then show ?thesis
      using psys_inv_caller [OF psys_inv_send [OF inv, of w], of "Waiting w" i]
      by (simp add: parked_def)
  next
    case (unreg_send i h r)
    then show ?thesis
      using psys_inv_caller [OF psys_inv_send_unreg [OF inv, of r], of "UnregWait r" i]
      by (simp add: unreg_known_def)
  next
    case (cancel_send i w)
    have "psys_inv (s\<lparr>pl := (pl s)\<lparr>cancelCh := cancelCh (pl s) @ [w]\<rparr>\<rparr>)"
      using psys_inv_pl [OF inv, of "(pl s)\<lparr>cancelCh := cancelCh (pl s) @ [w]\<rparr>" "pc s"] by simp
    with cancel_send(1) show ?thesis
      by simp (rule psys_inv_caller, simp_all)
  next
    case stop_request
    then show ?thesis
      using psys_inv_pl [OF inv, of "(pl s)\<lparr>disabled := True, stopCh_closed := True\<rparr>" "pc s"] by simp
  next
    case p_stop
    then show ?thesis
      using psys_inv_advance [OF inv advances_stop(1) [OF ok], of V PStopped] advances_stop(2-4) [OF ok, of V]
      by simp
  next
    case (p_reg w q)
    then show ?thesis
      using stay [OF advances_registration [OF ok p_reg(3), of V]] p_reg by simp
  next
    case (p_cancel w q)
    let ?p = "(pl s)\<lparr>cancelCh := q\<rparr>"
    have "advances ?p (handleCancellation V w ?p)"
      using ok by (intro advances_release [OF _ _ handleCancellation_result]) simp_all
    then have "advances (pl s) (handleCancellation V w ?p)"
      by (simp add: advances_pop_cancel)
    then show ?thesis
      using stay p_cancel by simp
  next
    case (p_unreg r q)
    then show ?thesis
      using stay [OF advances_unregistration [OF ok p_unreg(3), of V]] p_unreg by simp
  next
    case (p_wait evs w')
    have "interest (epVLSH (pl s)) w' = p_interest (pl s)"
      using epoll_wait_interest [of "epVLSH (pl s)" V "epVLSH (pl s)" 64 "hist (pl s)"] p_wait(3) by simp
    then show ?thesis
      using psys_inv_pl [OF inv, of "(pl s)\<lparr>hist := w'\<rparr>" "PEvents evs"] p_wait by simp
  next
    case (p_event e evs)
    have "advances (pl s) (handleEvent V (pe_Vlsh e) (pe_Events e) (pl s))"
      using ok by (intro advances_release [OF _ _ handleEvent_result]) simp_all
    then show ?thesis
      using go [of _ "PEvents evs"] p_event by simp
  }
qed (use inv psys_invD(4) [OF inv] in \<open>auto intro: psys_inv_caller psys_inv_cancelled psys_inv_move\<close>)

lemma psys_inv_init:
  assumes "\<not> panicked (pl (psys_init V))"
  shows "psys_inv (psys_init V)"
proof -
  have int: "interest ep (snd (run_state (registerThisThread V) [])) = (\<lambda>_. None)"
    "interest ep (snd (run_state (pollerEpollCreate V) w)) = interest ep w" for ep w
    by (simp_all add: registerThisThread_def vclpoll_register_worker_def pollerEpollCreate_def
        with_rlock_def vclpoll_epoll_create_def)
  obtain ep w where e: "loop_start V new_poller
      = new_poller\<lparr>hist := w, epVLSH := ep, running := True, started_closed := True\<rparr>"
      "interest ep w = (\<lambda>_. None)"
    using assms int by (auto simp: psys_init_def loop_start_def new_poller_def case_prod_beta Let_def
        split: sum.splits)
  let ?p = "loop_start V new_poller"
  have p: "waiters ?p = []" "ready_closed ?p = []" "\<not> panicked ?p" "regCh ?p = []" "unregCh ?p = []"
    "done_closed ?p = []" "\<not> stopped_closed ?p" "p_interest ?p = (\<lambda>_. None)"
    unfolding e(1) by (simp_all add: new_poller_def e(2))
  then have "poller_ok ?p"
    by (simp add: poller_ok_def interest_ok_def tab_ok_empty)
  with p show ?thesis
    by (simp add: psys_inv_def psys_init_def queue_ok_def done_ok_def chan_ids_def done_ids_def)
qed

lemma preach_inv:
  assumes "preach V s" and "\<not> panicked (pl (psys_init V))"
  shows "psys_inv s"
  using assms by (induction rule: preach.induct) (auto intro: psys_inv_init pstep_inv)

section \<open>A concrete run\<close>

text \<open>
  One caller asks for readability of session 5, its context ends, and it sends its
  cancellation, all after the poller drained its registrations and before it drains its
  cancellations.
\<close>

definition demo_waiter :: waiter where
  "demo_waiter = \<lparr>wt_vlsh = 5, wt_events = epollIn, wt_ready = 0\<rparr>"

definition demo_poller :: poller where
  "demo_poller = loop_start demo_cgo new_poller"

definition demo_state :: "poller \<Rightarrow> ppc \<Rightarrow> pcaller \<Rightarrow> bool \<Rightarrow> psys" where
  "demo_state p q c can = \<lparr>pl = p, pc = q, callers = (\<lambda>_. Idle)(0 := c),
     cancelled = (if can then {0} else {}), next_ready = (if c = WantWait 5 epollIn then 0 else 1), next_done = 0\<rparr>"

lemma demo_start: "\<not> panicked (pl (psys_init demo_cgo))" "running demo_poller" "\<not> disabled demo_poller"
  "\<not> stopCh_closed demo_poller" "waiters demo_poller = []" "regCh demo_poller = []" "cancelCh demo_poller = []"
  "unregCh demo_poller = []" "ready_closed demo_poller = []"
  by (simp_all add: psys_init_def demo_poller_def loop_start_def new_poller_def case_prod_beta Let_def
      pollerEpollCreate_def with_rlock_def vclpoll_epoll_create_def)

lemma demo_want:
  "preach demo_cgo (demo_state demo_poller PCancel (WantWait 5 epollIn) False)"
proof -
  let ?s = "\<lambda>q c. \<lparr>pl = demo_poller, pc = q, callers = (\<lambda>_. Idle)(0 := c), cancelled = {}, next_ready = 0, next_done = 0\<rparr>"
  have "preach demo_cgo (?s PTop Idle)"
    using preach_init [of demo_cgo] by (simp add: psys_init_def demo_poller_def fun_upd_idem)
  then have "preach demo_cgo (?s PReg Idle)"
    by (rule preach_step) (use p_go [of "?s PTop Idle" demo_cgo] in \<open>simp add: demo_start\<close>)
  then have "preach demo_cgo (?s PCancel Idle)"
    by (rule preach_step) (use p_reg_empty [of "?s PReg Idle" demo_cgo] in \<open>simp add: demo_start\<close>)
  then have "preach demo_cgo (?s PCancel (WantWait 5 epollIn))"
    by (rule preach_step)
      (use wait_begin [of "?s PCancel Idle" 0 demo_cgo 5 epollIn] in \<open>simp add: demo_start set_caller_def\<close>)
  then show ?thesis by (simp add: demo_state_def)
qed

abbreviation "demo_sent \<equiv> demo_poller\<lparr>regCh := [demo_waiter]\<rparr>"

lemma demo_waiting: "preach demo_cgo (demo_state demo_sent PCancel (Waiting demo_waiter) False)"
  using wait_send [of "demo_state demo_poller PCancel (WantWait 5 epollIn) False" 0 5 epollIn demo_waiter demo_cgo]
  by (intro preach_step [OF demo_want])
    (simp add: demo_state_def demo_start set_caller_def demo_waiter_def)

abbreviation "demo_cancelled \<equiv> demo_poller\<lparr>regCh := [demo_waiter], cancelCh := [demo_waiter]\<rparr>"

lemma demo_cancel_sent: "preach demo_cgo (demo_state demo_cancelled PCancel (WaitDone False) True)"
proof -
  let ?s = "\<lambda>c. demo_state demo_sent PCancel c True"
  have "preach demo_cgo (?s (Waiting demo_waiter))"
    using ctx_done [of demo_cgo "demo_state demo_sent PCancel (Waiting demo_waiter) False" 0]
    by (intro preach_step [OF demo_waiting]) (simp add: demo_state_def)
  then have "preach demo_cgo (?s (WantCancel demo_waiter))"
    by (rule preach_step)
      (use wait_cancelled [of "?s (Waiting demo_waiter)" 0 demo_waiter demo_cgo] in
        \<open>simp add: demo_state_def set_caller_def\<close>)
  then show ?thesis
    by (rule preach_step)
      (use cancel_send [of "?s (WantCancel demo_waiter)" 0 demo_waiter demo_cgo] in
        \<open>simp add: demo_state_def set_caller_def demo_start\<close>)
qed

lemma demo_orphan:
  "\<exists>w. preach demo_cgo (demo_state (handleRegistration demo_cgo demo_waiter (demo_poller\<lparr>hist := w\<rparr>))
     PReg (WaitDone False) True)"
proof -
  let ?s = "\<lambda>p q. demo_state p q (WaitDone False) True"
  have "handleCancellation demo_cgo demo_waiter (demo_cancelled\<lparr>cancelCh := []\<rparr>) = demo_sent"
    by (simp add: handleCancellation_def demo_start)
  with demo_start(7) have "preach demo_cgo (?s demo_sent PCancel)"
    by (intro preach_step [OF demo_cancel_sent])
      (use p_cancel [of "?s demo_cancelled PCancel" demo_waiter "[]" demo_cgo] in \<open>simp add: demo_state_def\<close>)
  then have "preach demo_cgo (?s demo_sent PUnreg)"
    by (rule preach_step) (use p_cancel_empty [of "?s demo_sent PCancel" demo_cgo] in \<open>simp add: demo_state_def demo_start\<close>)
  then have waitp: "preach demo_cgo (?s demo_sent PWait)"
    by (rule preach_step) (use p_unreg_empty [of "?s demo_sent PUnreg" demo_cgo] in \<open>simp add: demo_state_def demo_start\<close>)
  obtain w where w: "run_state (pollerEpollWait demo_cgo (epVLSH demo_poller) 64) (hist demo_poller) = (Some [], w)"
    by (simp add: pollerEpollWait_def with_rlock_def vclpoll_epoll_wait_def copy_events_def)
  have "preach demo_cgo (?s (demo_sent\<lparr>hist := w\<rparr>) (PEvents []))"
    using waitp by (rule preach_step) (use p_wait [of "?s demo_sent PWait" demo_cgo "[]" w] w in \<open>simp add: demo_state_def\<close>)
  then have "preach demo_cgo (?s (demo_sent\<lparr>hist := w\<rparr>) PTop)"
    by (rule preach_step) (use p_event_end [of "?s (demo_sent\<lparr>hist := w\<rparr>) (PEvents [])" demo_cgo] in \<open>simp add: demo_state_def\<close>)
  then have "preach demo_cgo (?s (demo_sent\<lparr>hist := w\<rparr>) PReg)"
    by (rule preach_step) (use p_go [of "?s (demo_sent\<lparr>hist := w\<rparr>) PTop" demo_cgo] in \<open>simp add: demo_state_def demo_start\<close>)
  then have "preach demo_cgo (?s (handleRegistration demo_cgo demo_waiter (demo_sent\<lparr>hist := w, regCh := []\<rparr>)) PReg)"
    by (rule preach_step)
      (use p_reg [of "?s (demo_sent\<lparr>hist := w\<rparr>) PReg" demo_waiter "[]" demo_cgo] in \<open>simp add: demo_state_def\<close>)
  moreover have "demo_sent\<lparr>hist := w, regCh := []\<rparr> = demo_poller\<lparr>hist := w\<rparr>"
    using demo_start(6) by (cases demo_poller) simp
  ultimately show ?thesis by auto
qed

section \<open>Properties\<close>

text \<open>C5. In every reachable state of the poller and its callers no channel has been closed
  twice, and the interest list of the epoll handle is exactly the waiter table: each session
  with waiters, with the union of their masks and its own key, and nothing else.\<close>

theorem poller_interest_is_table:
  assumes "preach V s" and "\<not> panicked (pl (psys_init V))"
  shows "\<not> panicked (pl s)
    \<and> (\<forall>h. p_interest (pl s) h
        = map_option (\<lambda>ws. (combinedEvents ws, event_key h)) (map_of (waiters (pl s)) h))"
proof -
  note ok = psys_invD(1) [OF preach_inv [OF assms]]
  have "p_interest (pl s) h = map_option (\<lambda>ws. (combinedEvents ws, event_key h)) (map_of (waiters (pl s)) h)" for h
    using interest_okD [OF poller_okD(2) [OF ok], of h] tab_okD(2) [OF poller_okD(1) [OF ok], of h]
    by (cases "map_of (waiters (pl s)) h") (simp_all add: set_ok_def)
  then show ?thesis
    using tab_okD(5) [OF poller_okD(1) [OF ok]] by simp
qed

lemma poller_interest_is_table_witness:
  "\<exists>s h. preach demo_cgo s \<and> callers s 0 = WaitDone False \<and> \<not> panicked (pl s)
     \<and> p_interest (pl s) h
        = map_option (\<lambda>ws. (combinedEvents ws, event_key h)) (map_of (waiters (pl s)) h)"
  using poller_interest_is_table [OF demo_cancel_sent demo_start(1)] demo_cancel_sent
  by (intro exI [of _ "demo_state demo_cancelled PCancel (WaitDone False) True"] exI [of _ 5])
    (simp add: demo_state_def)

text \<open>C6. A goroutine parked in the second select of \<open>mode3PollWaitContext\<close> is never lost: its
  waiter is still in the registration channel, or its channel is closed, or it is in the wait
  set of its session and epoll watches that session for at least the events it asked for.\<close>

theorem parked_waiter_not_lost:
  assumes "preach V s" and "\<not> panicked (pl (psys_init V))" and "callers s i = Waiting w"
  shows "w \<in> set (regCh (pl s)) \<or> waiterIsReady w (pl s)
    \<or> (\<exists>m. p_interest (pl s) (wt_vlsh w) = Some (m, event_key (wt_vlsh w)) \<and> m AND wt_events w = wt_events w)"
proof -
  note inv = preach_inv [OF assms(1,2)]
  note ok = psys_invD(1) [OF inv]
  {
    assume "(wt_vlsh w, w) \<in> pending (pl s)"
    then obtain ws where ws: "map_of (waiters (pl s)) (wt_vlsh w) = Some ws" "w \<in> set (ws_waiters ws)"
      by (auto simp: pending_def)
    have "combinedEvents ws AND wt_events w = wt_events w"
      using ws(2) by (intro bit_word_eqI) (auto simp: bit_and_iff bit_combinedEvents)
    then have ?thesis
      using interest_okD [OF poller_okD(2) [OF ok], of "wt_vlsh w"] ws(1)
        tab_okD(2) [OF poller_okD(1) [OF ok] ws(1)]
      by (simp add: set_ok_def)
  }
  with psys_invD(4) [OF inv assms(3)] show ?thesis by (auto simp: parked_def)
qed

lemma parked_waiter_not_lost_witness:
  "\<exists>s. preach demo_cgo s \<and> callers s 0 = Waiting demo_waiter \<and>
     (demo_waiter \<in> set (regCh (pl s)) \<or> waiterIsReady demo_waiter (pl s)
      \<or> (\<exists>m. p_interest (pl s) (wt_vlsh demo_waiter) = Some (m, event_key (wt_vlsh demo_waiter))
           \<and> m AND wt_events demo_waiter = wt_events demo_waiter))"
  using parked_waiter_not_lost [OF demo_waiting demo_start(1), of 0 demo_waiter] demo_waiting
  by (intro exI [of _ "demo_state demo_sent PCancel (Waiting demo_waiter) False"])
    (simp add: demo_state_def)

text \<open>When the poller stops, every goroutine parked on a waiter finds its channel closed, and
  no session is left in the epoll set.\<close>

theorem stopping_wakes_everyone:
  assumes "preach V s" and "\<not> panicked (pl (psys_init V))" and "callers s i = Waiting w"
  shows "waiterIsReady w (loop_stop V (pl s)) \<and> p_interest (loop_stop V (pl s)) h = None"
proof -
  note inv = preach_inv [OF assms(1,2)]
  note ok = psys_invD(1-3) [OF inv]
  from psys_invD(4) [OF inv assms(3)] advances_stop [OF ok, of V]
  have "parked w (loop_stop V (pl s))" "pending (loop_stop V (pl s)) = {}"
    by (simp_all add: advances_def)
  moreover have "regCh (loop_stop V (pl s)) = []" "epVLSH (loop_stop V (pl s)) = epVLSH (wakeAll V (pl s))"
    "hist (loop_stop V (pl s)) = hist (wakeAll V (pl s))"
    by (simp_all add: loop_stop_def wakeAll_result [OF ok(1,2)])
  ultimately show ?thesis
    using wakeAll_result(3) [OF ok(1,2), of V h] by (simp add: parked_def)
qed

lemma stopping_wakes_everyone_witness:
  "preach demo_cgo (demo_state demo_sent PCancel (Waiting demo_waiter) False)
   \<and> waiterIsReady demo_waiter (loop_stop demo_cgo demo_sent)
   \<and> p_interest (loop_stop demo_cgo demo_sent) 5 = None"
  using stopping_wakes_everyone [OF demo_waiting demo_start(1), of 0 demo_waiter 5] demo_waiting
  by (simp add: demo_state_def)

text \<open>C34. Once the poller has stopped, no caller of \<open>mode3PollWaitContext\<close> or \<open>pollUnregister\<close>
  blocks: each has a step that returns.\<close>

theorem stopped_callers_return:
  assumes "stopped_closed (pl s)" and "callers s i \<noteq> Idle"
  shows "(\<exists>b. callers s i = WaitDone b) \<or> callers s i = UnregDone
    \<or> (\<exists>s' b. pstep V s s' \<and> (callers s' i = WaitDone b \<or> callers s' i = UnregDone))"
proof -
  have ret: "\<exists>s' b. pstep V s s' \<and> (callers s' i = WaitDone b \<or> callers s' i = UnregDone)"
    if "pstep V s (set_caller i c s)" "c = WaitDone False \<or> c = UnregDone" for c
    using that by (intro exI [of _ "set_caller i c s"]) (auto simp: set_caller_def)
  have "(\<exists>b. callers s i = WaitDone b) \<or> callers s i = UnregDone
      \<or> pstep V s (set_caller i (WaitDone False) s) \<or> pstep V s (set_caller i UnregDone s)"
    using assms
    by (cases "callers s i")
      (auto intro: pstep.wait_send_cancelled pstep.wait_stopped pstep.cancel_stopped
        pstep.unreg_send_stopped pstep.unreg_done)
  with ret show ?thesis by blast
qed

lemma stopped_callers_return_witness:
  "let s = demo_state (demo_sent\<lparr>stopped_closed := True\<rparr>) PStopped (Waiting demo_waiter) False in
     \<exists>s' b. pstep demo_cgo s s' \<and> (callers s' 0 = WaitDone b \<or> callers s' 0 = UnregDone)"
  using stopped_callers_return [of "demo_state (demo_sent\<lparr>stopped_closed := True\<rparr>) PStopped (Waiting demo_waiter) False" 0 demo_cgo]
  by (simp add: demo_state_def)

text \<open>A cancellation can overtake its registration: there is a run in which a caller gives
  up and has returned \<open>false\<close>, both channels are drained, and its waiter is left in the wait
  set (with its session in the epoll set) for nobody.\<close>

theorem cancellation_can_overtake_registration:
  "\<exists>s. preach demo_cgo s \<and> callers s 0 = WaitDone False \<and> regCh (pl s) = [] \<and> cancelCh (pl s) = []
     \<and> (5, demo_waiter) \<in> pending (pl s) \<and> p_interest (pl s) 5 \<noteq> None"
proof -
  obtain w where reach: "preach demo_cgo (demo_state
      (handleRegistration demo_cgo demo_waiter (demo_poller\<lparr>hist := w\<rparr>)) PReg (WaitDone False) True)"
    using demo_orphan by blast
  let ?p = "handleRegistration demo_cgo demo_waiter (demo_poller\<lparr>hist := w\<rparr>)"
  let ?s = "demo_state ?p PReg (WaitDone False) True"
  have "fst (poller_add demo_cgo 5 epollIn (demo_poller\<lparr>hist := w\<rparr>))"
    by (simp add: poller_add_def pollerEpollCtlAdd_def with_rlock_def vclpoll_epoll_ctl_def rv_result_Inr)
  then have tab: "map_of (waiters ?p) 5 = Some \<lparr>ws_waiters = [demo_waiter], ws_events = epollIn\<rparr>"
    by (simp add: handleRegistration_def demo_waiter_def demo_start case_prod_beta)
  have "poller_ok ?p"
    using psys_invD(1) [OF preach_inv [OF reach demo_start(1)]] by (simp add: demo_state_def)
  with tab have "p_interest ?p 5 \<noteq> None" "(5, demo_waiter) \<in> pending ?p"
    using interest_okD [of ?p 5] by (auto simp: poller_ok_def pending_def)
  moreover have "regCh ?p = []" "cancelCh ?p = []"
    using restD(1,2) [OF rest_handlers(1) [of demo_cgo demo_waiter "demo_poller\<lparr>hist := w\<rparr>"]]
    by (simp_all add: demo_start)
  ultimately show ?thesis
    using reach by (intro exI [of _ ?s]) (simp add: demo_state_def)
qed

end
