(* ===== verification/Worker.thy ===== *)
theory Worker
  imports WaitService
begin

text \<open>
  A Mode 2 worker (\<open>internal/vclpoll/worker.go\<close>): one VCL worker on its own pinned thread, its
  epoll handle, the raw sessions it owns under their public handles, and the waiters parked on
  them. All functions run on the worker's thread; \<open>hist\<close> is its call history. The counters
  \<open>ownershipViolations\<close> and \<open>unregisterFailures\<close> of the dispatcher are kept as each worker's
  share. The function fields tests inject have their defaults.
\<close>

section \<open>State\<close>

record worker = waitTable +
  worker_id :: nat
  bootstrap :: bool
  vclIndex :: u32
  sessions :: "(handle \<times> handle) list"
  violations :: nat
  unregister_failures :: nat
  quiesced_closed :: bool
  exited_closed :: bool

definition newWorker :: "nat \<Rightarrow> bool \<Rightarrow> worker" where
  "newWorker i b = \<lparr>epVLSH = invalidVLSH, waiters = [], ready_closed = [], panicked = False, hist = [],
     worker_id = i, bootstrap = b, vclIndex = 0, sessions = [], violations = 0,
     unregister_failures = 0, quiesced_closed = False, exited_closed = False\<rparr>"

text \<open>A bridge call on the worker's thread.\<close>

definition on_worker :: "(world, 'a) state \<Rightarrow> worker \<Rightarrow> 'a \<times> worker" where
  "on_worker m w = (fst (run_state m (hist w)), w\<lparr>hist := snd (run_state m (hist w))\<rparr>)"

definition worker_add :: "cgo \<Rightarrow> handle \<Rightarrow> handle \<Rightarrow> u32 \<Rightarrow> worker \<Rightarrow> unit poll_result \<times> worker" where
  "worker_add V raw key events w = on_worker (rawEpollAdd V (epVLSH w) raw key events) w"

definition worker_mod :: "cgo \<Rightarrow> handle \<Rightarrow> handle \<Rightarrow> u32 \<Rightarrow> worker \<Rightarrow> unit poll_result \<times> worker" where
  "worker_mod V raw key events w = on_worker (rawEpollMod V (epVLSH w) raw key events) w"

definition worker_del :: "cgo \<Rightarrow> handle \<Rightarrow> worker \<Rightarrow> worker" where
  "worker_del V raw w = snd (on_worker (rawEpollDel V (epVLSH w) raw) w)"

section \<open>Ownership\<close>

definition checkOwnership :: "cgo \<Rightarrow> handle \<Rightarrow> worker \<Rightarrow> unit poll_result \<times> worker" where
  "checkOwnership V raw w =
     (let ((owner, ok), w) = on_worker (rawSessionWorker V raw) w
      in if ok \<and> owner = vclIndex w then (Inr (), w)
         else (Inl (Errorf ''vclpoll: raw session belongs to another VCL worker''),
               w\<lparr>violations := violations w + 1\<rparr>))"

definition ownedRaw :: "cgo \<Rightarrow> handle \<Rightarrow> handle \<Rightarrow> worker \<Rightarrow> handle poll_result \<times> worker" where
  "ownedRaw V public expected w =
     (if map_of (sessions w) public \<noteq> Some expected then (Inl PollErrClosed, w)
      else (case checkOwnership V expected w of
              (Inl e, w) \<Rightarrow> (Inl e, w)
            | (Inr _, w) \<Rightarrow> (Inr expected, w)))"

section \<open>Waiters\<close>

text \<open>The common body of \<open>addWaiter\<close> and \<open>addWaiterRaw\<close>.\<close>

definition joinWaitSet :: "cgo \<Rightarrow> handle \<Rightarrow> handle \<Rightarrow> waiter \<Rightarrow> worker \<Rightarrow> unit poll_result \<times> worker" where
  "joinWaitSet V key raw wtr w =
     (case map_of (waiters w) key of
        None \<Rightarrow>
          (case worker_add V raw key (wt_events wtr) w of
             (Inl e, w) \<Rightarrow> (Inl e, w)
           | (Inr _, w) \<Rightarrow> (Inr (), w\<lparr>waiters := AList.update key
               \<lparr>ws_waiters = [wtr], ws_events = wt_events wtr\<rparr> (waiters w)\<rparr>))
      | Some ws \<Rightarrow>
          (let newEvents = ws_events ws OR wt_events wtr;
               (r, w) = (if newEvents \<noteq> ws_events ws then worker_mod V raw key newEvents w else (Inr (), w))
           in case r of
                Inl e \<Rightarrow> (Inl e, w)
              | Inr _ \<Rightarrow> (Inr (), w\<lparr>waiters := AList.update key
                  \<lparr>ws_waiters = (if wtr \<in> set (ws_waiters ws) then ws_waiters ws else wtr # ws_waiters ws),
                   ws_events = newEvents\<rparr> (waiters w)\<rparr>)))"

definition addWaiter :: "cgo \<Rightarrow> handle \<Rightarrow> handle \<Rightarrow> waiter \<Rightarrow> worker \<Rightarrow> unit poll_result \<times> worker" where
  "addWaiter V public raw wtr w =
     (case ownedRaw V public raw w of
        (Inl e, w) \<Rightarrow> (Inl e, w)
      | (Inr _, w) \<Rightarrow> joinWaitSet V public raw wtr w)"

definition worker_dropWaitSet :: "cgo \<Rightarrow> handle \<Rightarrow> handle \<Rightarrow> waitSet \<Rightarrow> worker \<Rightarrow> worker" where
  "worker_dropWaitSet V public raw ws w =
     (let w = worker_del V raw w;
          w = w\<lparr>waiters := AList.delete public (waiters w)\<rparr>
      in wakeWaitSet ws w)"

text \<open>The common end of a cancellation and an event that leave waiters behind.\<close>

definition worker_shrink :: "cgo \<Rightarrow> handle \<Rightarrow> handle \<Rightarrow> waiter list \<Rightarrow> u32 \<Rightarrow> worker \<Rightarrow> worker" where
  "worker_shrink V key raw rest oldEvents w =
     (let ws = \<lparr>ws_waiters = rest, ws_events = oldEvents\<rparr>;
          ws = ws\<lparr>ws_events := combinedEvents ws\<rparr>;
          w = w\<lparr>waiters := AList.update key ws (waiters w)\<rparr>
      in if ws_events ws \<noteq> oldEvents then
           (case worker_mod V raw key (ws_events ws) w of
              (Inl e, w) \<Rightarrow> worker_dropWaitSet V key raw ws w
            | (Inr _, w) \<Rightarrow> w)
         else w)"

definition cancelWaiter :: "cgo \<Rightarrow> handle \<Rightarrow> handle \<Rightarrow> waiter \<Rightarrow> worker \<Rightarrow> bool \<times> worker" where
  "cancelWaiter V public raw wtr w =
     (case map_of (waiters w) public of
        None \<Rightarrow> (waiterIsReady wtr w, w)
      | Some ws \<Rightarrow>
          if wtr \<notin> set (ws_waiters ws) then (waiterIsReady wtr w, w)
          else
            (let rest = removeAll wtr (ws_waiters ws);
                 w = wakeWaiter wtr w
             in if rest = [] then
                  (False, (worker_del V raw w)\<lparr>waiters := AList.delete public (waiters w)\<rparr>)
                else (False, worker_shrink V public raw rest (ws_events ws) w)))"

definition removeWaiters :: "cgo \<Rightarrow> handle \<Rightarrow> handle \<Rightarrow> worker \<Rightarrow> worker" where
  "removeWaiters V public raw w =
     (case map_of (waiters w) public of
        None \<Rightarrow> w
      | Some ws \<Rightarrow> worker_dropWaitSet V public raw ws w)"

text \<open>A set whose session is gone is dropped without waking the waiters the event does not
  meet; the invariant below rules that case out.\<close>

definition worker_handleEvent :: "cgo \<Rightarrow> handle \<Rightarrow> u32 \<Rightarrow> worker \<Rightarrow> worker" where
  "worker_handleEvent V public events w =
     (case map_of (waiters w) public of
        None \<Rightarrow> w
      | Some ws \<Rightarrow>
          (let rest = filter (\<lambda>x. \<not> event_wakes events x) (ws_waiters ws);
               w = fold wakeWaiter (filter (event_wakes events) (ws_waiters ws)) w
           in case map_of (sessions w) public of
                None \<Rightarrow> w\<lparr>waiters := AList.delete public (waiters w)\<rparr>
              | Some raw \<Rightarrow>
                  if rest = [] then (worker_del V raw w)\<lparr>waiters := AList.delete public (waiters w)\<rparr>
                  else worker_shrink V public raw rest (ws_events ws) w))"

definition wakeAllWaiters :: "cgo \<Rightarrow> worker \<Rightarrow> worker" where
  "wakeAllWaiters V w =
     (fold (\<lambda>(public, ws) w.
        let w = (case map_of (sessions w) public of
                   Some raw \<Rightarrow> if 0 \<le> epVLSH w then worker_del V raw w else w
                 | None \<Rightarrow> w)
        in wakeWaitSet ws w) (waiters w) w)\<lparr>waiters := []\<rparr>"

section \<open>Raw listener waiters\<close>

text \<open>\<open>^raw\<close>: the negative key of a raw listener.\<close>

definition raw_key :: "handle \<Rightarrow> handle" where
  "raw_key raw = - raw - 1"

definition addWaiterRaw :: "cgo \<Rightarrow> handle \<Rightarrow> waiter \<Rightarrow> worker \<Rightarrow> unit poll_result \<times> worker" where
  "addWaiterRaw V raw wtr w =
     (let key = raw_key raw;
          w = w\<lparr>sessions := AList.update key raw (sessions w)\<rparr>
      in joinWaitSet V key raw wtr w)"

definition cancelWaiterRaw :: "cgo \<Rightarrow> handle \<Rightarrow> waiter \<Rightarrow> worker \<Rightarrow> worker" where
  "cancelWaiterRaw V raw wtr w =
     (let key = raw_key raw in
      case map_of (waiters w) key of
        None \<Rightarrow> w
      | Some ws \<Rightarrow>
          if wtr \<notin> set (ws_waiters ws) then w
          else
            (let rest = removeAll wtr (ws_waiters ws);
                 w = wakeWaiter wtr w
             in if rest = [] then
                  (worker_del V raw w)\<lparr>waiters := AList.delete key (waiters w),
                    sessions := AList.delete key (sessions w)\<rparr>
                else worker_shrink V key raw rest (ws_events ws) w))"

definition removeWaitersRaw :: "cgo \<Rightarrow> handle \<Rightarrow> worker \<Rightarrow> worker" where
  "removeWaitersRaw V raw w =
     (let key = raw_key raw;
          w = (case map_of (waiters w) key of
                 None \<Rightarrow> w
               | Some ws \<Rightarrow> worker_dropWaitSet V key raw ws w)
      in w\<lparr>sessions := AList.delete key (sessions w)\<rparr>)"

section \<open>What the bridge calls leave alone\<close>

lemma on_worker_sel [simp]:
  "waiters (snd (on_worker m w)) = waiters w" "ready_closed (snd (on_worker m w)) = ready_closed w"
  "panicked (snd (on_worker m w)) = panicked w" "epVLSH (snd (on_worker m w)) = epVLSH w"
  "sessions (snd (on_worker m w)) = sessions w" "vclIndex (snd (on_worker m w)) = vclIndex w"
  "bootstrap (snd (on_worker m w)) = bootstrap w" "worker_id (snd (on_worker m w)) = worker_id w"
  "violations (snd (on_worker m w)) = violations w"
  "quiesced_closed (snd (on_worker m w)) = quiesced_closed w"
  "exited_closed (snd (on_worker m w)) = exited_closed w"
  "hist (snd (on_worker m w)) = snd (run_state m (hist w))"
  "fst (on_worker m w) = fst (run_state m (hist w))"
  by (simp_all add: on_worker_def)

lemmas worker_bridge_defs = worker_add_def worker_mod_def worker_del_def

text \<open>The interest list of the worker's epoll handle, by raw handle.\<close>

abbreviation w_interest :: "worker \<Rightarrow> handle \<Rightarrow> (u32 \<times> u64) option" where
  "w_interest w \<equiv> interest (epVLSH w) (hist w)"

lemma worker_bridge_interest:
  "epVLSH w = ep \<Longrightarrow> fst (worker_add V raw key ev w) = Inl e \<Longrightarrow>
     interest ep (hist (snd (worker_add V raw key ev w))) = interest ep (hist w)"
  "epVLSH w = ep \<Longrightarrow> fst (worker_add V raw key ev w) = Inr u \<Longrightarrow>
     interest ep (hist (snd (worker_add V raw key ev w))) = (interest ep (hist w))(raw \<mapsto> (ev, event_key key))"
  "epVLSH w = ep \<Longrightarrow> fst (worker_mod V raw key ev w) = Inl e \<Longrightarrow>
     interest ep (hist (snd (worker_mod V raw key ev w))) = interest ep (hist w)"
  "epVLSH w = ep \<Longrightarrow> fst (worker_mod V raw key ev w) = Inr u \<Longrightarrow>
     interest ep (hist (snd (worker_mod V raw key ev w))) = (interest ep (hist w))(raw \<mapsto> (ev, event_key key))"
  "epVLSH w = ep \<Longrightarrow> interest ep (hist (worker_del V raw w)) = (interest ep (hist w))(raw := None)"
  by (auto simp: worker_bridge_defs rawEpollAdd_def rawEpollMod_def rawEpollDel_def rawEpollCtl_def
      vclpoll_epoll_ctl_def rv_result_Inr rv_result_Inl)

lemma worker_bridge_sel [simp]:
  "waiters (snd (worker_add V r k ev w)) = waiters w" "ready_closed (snd (worker_add V r k ev w)) = ready_closed w"
  "panicked (snd (worker_add V r k ev w)) = panicked w" "epVLSH (snd (worker_add V r k ev w)) = epVLSH w"
  "sessions (snd (worker_add V r k ev w)) = sessions w"
  "waiters (snd (worker_mod V r k ev w)) = waiters w" "ready_closed (snd (worker_mod V r k ev w)) = ready_closed w"
  "panicked (snd (worker_mod V r k ev w)) = panicked w" "epVLSH (snd (worker_mod V r k ev w)) = epVLSH w"
  "sessions (snd (worker_mod V r k ev w)) = sessions w"
  "waiters (worker_del V r w) = waiters w" "ready_closed (worker_del V r w) = ready_closed w"
  "panicked (worker_del V r w) = panicked w" "epVLSH (worker_del V r w) = epVLSH w"
  "sessions (worker_del V r w) = sessions w"
  by (simp_all add: worker_bridge_defs)

lemma wake_sessions [simp]:
  "sessions (wakeWaiter x w) = sessions w" "sessions (fold wakeWaiter xs w) = sessions w"
  "sessions (wakeWaitSet ws w) = sessions w"
proof -
  show 1: "sessions (wakeWaiter x w) = sessions w" for x w by (simp add: wakeWaiter_def)
  show 2: "sessions (fold wakeWaiter xs w) = sessions w" for xs
    by (induction xs arbitrary: w) (simp_all add: 1)
  show "sessions (wakeWaitSet ws w) = sessions w" by (simp add: wakeWaitSet_def 2)
qed

section \<open>The invariant\<close>

text \<open>
  The table is well formed; every wait set belongs to a session; raw handles belong to one key;
  and epoll watches, for each session, exactly what its waiters ask for under its key.
\<close>

definition watch_ok :: "worker \<Rightarrow> bool" where
  "watch_ok w \<longleftrightarrow> distinct (map fst (sessions w))
     \<and> dom (map_of (waiters w)) \<subseteq> dom (map_of (sessions w))
     \<and> (\<forall>k k' r. map_of (sessions w) k = Some r \<longrightarrow> map_of (sessions w) k' = Some r \<longrightarrow> k = k')
     \<and> (\<forall>k r. map_of (sessions w) k = Some r \<longrightarrow>
          w_interest w r = map_option (\<lambda>ws. (ws_events ws, event_key k)) (map_of (waiters w) k))
     \<and> (\<forall>r. r \<notin> ran (map_of (sessions w)) \<longrightarrow> w_interest w r = None)"

definition worker_ok :: "worker \<Rightarrow> bool" where
  "worker_ok w \<longleftrightarrow> tab_ok w \<and> watch_ok w"

lemma watch_okD:
  assumes "watch_ok w"
  shows "map_of (waiters w) k = Some ws \<Longrightarrow> \<exists>r. map_of (sessions w) k = Some r"
    "map_of (sessions w) k = Some r \<Longrightarrow> map_of (sessions w) k' = Some r \<Longrightarrow> k = k'"
    "map_of (sessions w) k = Some r \<Longrightarrow>
       w_interest w r = map_option (\<lambda>ws. (ws_events ws, event_key k)) (map_of (waiters w) k)"
    "r \<notin> ran (map_of (sessions w)) \<Longrightarrow> w_interest w r = None"
  using assms unfolding watch_ok_def by blast+

text \<open>An edit of one key.\<close>

lemma watch_edit:
  assumes ok: "watch_ok w" and r: "map_of (sessions w) k = Some r"
    and w': "sessions w' = sessions w" "\<And>k'. k' \<noteq> k \<Longrightarrow> map_of (waiters w') k' = map_of (waiters w) k'"
      "w_interest w' = (w_interest w)(r := map_option (\<lambda>ws. (ws_events ws, event_key k)) (map_of (waiters w') k))"
  shows "watch_ok w'"
  unfolding watch_ok_def w'(1)
proof (intro conjI allI impI)
  show "distinct (map fst (sessions w))" using ok by (simp add: watch_ok_def)
  show "dom (map_of (waiters w')) \<subseteq> dom (map_of (sessions w))"
  proof
    fix k' assume "k' \<in> dom (map_of (waiters w'))"
    then show "k' \<in> dom (map_of (sessions w))"
      using w'(2) [of k'] r watch_okD(1) [OF ok, of k'] by (cases "k' = k") (auto dest: sym)
  qed
  show "a = b" if "map_of (sessions w) a = Some x" "map_of (sessions w) b = Some x" for a b x
    using watch_okD(2) [OF ok that] .
  show "w_interest w' x = map_option (\<lambda>ws. (ws_events ws, event_key a)) (map_of (waiters w') a)"
    if "map_of (sessions w) a = Some x" for a x
  proof (cases "a = k")
    case True
    with r that show ?thesis by (simp add: w'(3))
  next
    case False
    with watch_okD(2) [OF ok r, of a] that have "x \<noteq> r" by auto
    with watch_okD(3) [OF ok that] w'(2) [OF False] show ?thesis by (simp add: w'(3))
  qed
  show "w_interest w' x = None" if "x \<notin> ran (map_of (sessions w))" for x
    using that watch_okD(4) [OF ok that] r by (auto simp: w'(3) ran_def)
qed

section \<open>Registrations\<close>

lemma worker_okD: "worker_ok w \<Longrightarrow> tab_ok w" "worker_ok w \<Longrightarrow> watch_ok w"
  by (simp_all add: worker_ok_def)

lemma worker_ok_cong:
  assumes "waiters w' = waiters w" "ready_closed w' = ready_closed w" "panicked w' = panicked w"
    "sessions w' = sessions w" "w_interest w' = w_interest w"
  shows "worker_ok w' = worker_ok w" "pending w' = pending w"
proof -
  have "watch_ok w' = watch_ok w"
    unfolding watch_ok_def assms(1,4,5) ..
  then show "worker_ok w' = worker_ok w" "pending w' = pending w"
    using tab_cong [OF assms(1-3)] by (simp_all add: worker_ok_def)
qed

text \<open>Accepted: the waiter is pending. Refused: nothing has changed.\<close>

definition join_result :: "handle \<Rightarrow> waiter \<Rightarrow> worker \<Rightarrow> unit poll_result \<times> worker \<Rightarrow> bool" where
  "join_result key x w res \<longleftrightarrow> worker_ok (snd res) \<and> ready_closed (snd res) = ready_closed w
     \<and> sessions (snd res) = sessions w \<and> epVLSH (snd res) = epVLSH w
     \<and> (case fst res of
          Inl e \<Rightarrow> pending (snd res) = pending w
        | Inr _ \<Rightarrow> pending (snd res) = insert (key, x) (pending w))"

lemma join_new_set:
  assumes ok: "worker_ok w" and s: "map_of (sessions w) key = Some raw" and fresh: "fresh_waiter x w"
    and None: "map_of (waiters w) key = None"
  shows "join_result key x w (joinWaitSet V key raw x w)"
proof -
  let ?a = "worker_add V raw key (wt_events x) w"
  show ?thesis
  proof (cases "fst ?a")
    case (Inl e)
    have "joinWaitSet V key raw x w = (Inl e, snd ?a)"
      using None Inl by (simp add: joinWaitSet_def case_prod_beta)
    with worker_ok_cong [of "snd ?a" w] worker_bridge_interest(1) [OF refl Inl] ok show ?thesis
      by (simp add: join_result_def)
  next
    case (Inr u)
    define w' where "w' = snd (joinWaitSet V key raw x w)"
    have j: "joinWaitSet V key raw x w = (Inr (), w')"
      and w': "waiters w' = AList.update key \<lparr>ws_waiters = [x], ws_events = wt_events x\<rparr> (waiters w)"
      "ready_closed w' = ready_closed w" "panicked w' = panicked w" "sessions w' = sessions w"
      "epVLSH w' = epVLSH w" "hist w' = hist (snd ?a)"
      using None Inr by (simp_all add: w'_def joinWaitSet_def case_prod_beta)
    have "watch_ok w'"
      using worker_bridge_interest(2) [OF refl Inr]
      by (intro watch_edit [OF worker_okD(2) [OF ok] s]) (simp_all add: w')
    with insert_set [OF worker_okD(1) [OF ok] None fresh w'(1-3)] show ?thesis
      by (simp add: j join_result_def worker_ok_def w')
  qed
qed

lemma join_old_set:
  assumes ok: "worker_ok w" and s: "map_of (sessions w) key = Some raw" and fresh: "fresh_waiter x w"
    and Some: "map_of (waiters w) key = Some ws"
  shows "join_result key x w (joinWaitSet V key raw x w)"
proof -
  let ?ev = "ws_events ws OR wt_events x"
  let ?a = "if ?ev \<noteq> ws_events ws then worker_mod V raw key ?ev w else (Inr (), w)"
  have notin: "x \<notin> set (ws_waiters ws)"
    using fresh Some by (auto simp: fresh_waiter_def dest!: pendingI)
  show ?thesis
  proof (cases "fst ?a")
    case (Inl e)
    then have m: "fst (worker_mod V raw key ?ev w) = Inl e" "?ev \<noteq> ws_events ws" by (auto split: if_splits)
    have "joinWaitSet V key raw x w = (Inl e, snd (worker_mod V raw key ?ev w))"
      using Some m by (simp add: joinWaitSet_def case_prod_beta Let_def)
    with worker_ok_cong [of "snd (worker_mod V raw key ?ev w)" w] worker_bridge_interest(3) [OF refl m(1)] ok
    show ?thesis by (simp add: join_result_def)
  next
    case (Inr u)
    define w' where "w' = snd (joinWaitSet V key raw x w)"
    have j: "joinWaitSet V key raw x w = (Inr (), w')"
      and w': "waiters w' = AList.update key \<lparr>ws_waiters = x # ws_waiters ws, ws_events = ?ev\<rparr> (waiters w)"
      "ready_closed w' = ready_closed w" "panicked w' = panicked w" "sessions w' = sessions w"
      "epVLSH w' = epVLSH w" "hist w' = hist (snd ?a)"
      using Some Inr notin by (auto simp: w'_def joinWaitSet_def case_prod_beta Let_def split: if_splits)
    have "w_interest w' = (w_interest w)(raw \<mapsto> (?ev, event_key key))"
    proof (cases "?ev \<noteq> ws_events ws")
      case True
      with Inr worker_bridge_interest(4) [OF refl, of V raw key ?ev w u] show ?thesis by (simp add: w')
    next
      case False
      with watch_okD(3) [OF worker_okD(2) [OF ok] s] Some show ?thesis by (auto simp: w')
    qed
    then have "watch_ok w'"
      by (intro watch_edit [OF worker_okD(2) [OF ok] s]) (simp_all add: w')
    with extend_set [OF worker_okD(1) [OF ok] Some fresh w'(1-3)] show ?thesis
      by (simp add: j join_result_def worker_ok_def w')
  qed
qed

lemma joinWaitSet_result:
  assumes "worker_ok w" "map_of (sessions w) key = Some raw" "fresh_waiter x w"
  shows "join_result key x w (joinWaitSet V key raw x w)"
  using join_new_set [OF assms] join_old_set [OF assms] by (cases "map_of (waiters w) key") auto

section \<open>Releases\<close>

definition w_released :: "handle \<Rightarrow> waiter set \<Rightarrow> worker \<Rightarrow> worker \<Rightarrow> bool" where
  "w_released k out w w' \<longleftrightarrow> worker_ok w' \<and> sessions w' = sessions w \<and> epVLSH w' = epVLSH w
     \<and> out \<subseteq> {x. (k, x) \<in> pending w} \<and> pending w' = pending w - {k} \<times> out
     \<and> set (ready_closed w') = wt_ready ` out \<union> set (ready_closed w)"

lemma w_released_none: "worker_ok w \<Longrightarrow> w_released k {} w w"
  by (simp add: w_released_def)

lemma w_drop_released:
  assumes ok: "worker_ok w" and old: "map_of (waiters w) k = Some ws" and s: "map_of (sessions w) k = Some r"
    and w': "waiters w' = AList.delete k (waiters w)"
      "set (ready_closed w') = wt_ready ` set (ws_waiters ws) \<union> set (ready_closed w)"
      "panicked w' = panicked w" "w_interest w' = (w_interest w)(r := None)"
      "sessions w' = sessions w" "epVLSH w' = epVLSH w"
  shows "w_released k (set (ws_waiters ws)) w w'"
proof -
  have "watch_ok w'"
    by (rule watch_edit [OF worker_okD(2) [OF ok] s]) (simp_all add: w'(1,5) w'(4))
  with drop_set [OF worker_okD(1) [OF ok] old w'(1-3)] old show ?thesis
    by (auto simp: w_released_def worker_ok_def w' intro: pendingI)
qed

lemma w_shrink_released:
  assumes ok: "worker_ok w" and old: "map_of (waiters w) k = Some ws" and s: "map_of (sessions w) k = Some r"
    and part: "set (ws_waiters ws) = set out \<union> set rest" "set out \<inter> set rest = {}" "distinct rest"
    and ne: "rest \<noteq> []"
    and w': "waiters w' = AList.update k \<lparr>ws_waiters = rest, ws_events = m\<rparr> (waiters w)"
      "set (ready_closed w') = wt_ready ` set out \<union> set (ready_closed w)"
      "panicked w' = panicked w" "w_interest w' = (w_interest w)(r \<mapsto> (m, event_key k))"
      "sessions w' = sessions w" "epVLSH w' = epVLSH w"
    and m: "m = combinedEvents \<lparr>ws_waiters = rest, ws_events = m\<rparr>"
  shows "w_released k (set out) w w'"
proof -
  have ss: "tab_ok w'" "pending w' = pending w - {k} \<times> set out"
    using shrink_set [OF worker_okD(1) [OF ok] old part, of w' m] w'(1-3) m ne by auto
  have "watch_ok w'"
    by (rule watch_edit [OF worker_okD(2) [OF ok] s]) (simp_all add: w'(1,5) w'(4))
  with ss old part(1) show ?thesis
    by (auto simp: w_released_def worker_ok_def w' intro: pendingI)
qed

text \<open>VLS refused to change the mask of the raw session on the way from \<open>w\<close> to \<open>w'\<close>.\<close>

definition w_refused :: "handle \<Rightarrow> worker \<Rightarrow> worker \<Rightarrow> bool" where
  "w_refused r w w' \<longleftrightarrow> (\<exists>new ev res. hist w' = new @ hist w
     \<and> (VlsEpollCtl (epVLSH w) CTL_MOD r ev, res) \<in> set new \<and> rv res < 0)"

definition w_release_result :: "handle \<Rightarrow> handle \<Rightarrow> waiter set \<Rightarrow> worker \<Rightarrow> worker \<Rightarrow> bool" where
  "w_release_result k r out w w' \<longleftrightarrow> out \<subseteq> pend_at w k
     \<and> (w_released k out w w' \<or> w_refused r w w' \<and> w_released k (pend_at w k) w w')"

definition worker_tail :: "cgo \<Rightarrow> handle \<Rightarrow> handle \<Rightarrow> waitSet \<Rightarrow> waiter list \<Rightarrow> worker \<Rightarrow> worker" where
  "worker_tail V k r ws rest w =
     (if rest = [] then (worker_del V r w)\<lparr>waiters := AList.delete k (waiters w)\<rparr>
      else worker_shrink V k r rest (ws_events ws) w)"

lemma worker_drop_eq:
  assumes "distinct (map wt_ready xs)" "wt_ready ` set xs \<inter> set (ready_closed w) = {}"
  shows "worker_dropWaitSet V k r \<lparr>ws_waiters = xs, ws_events = e\<rparr> w
    = (worker_del V r w)\<lparr>waiters := AList.delete k (waiters w),
        ready_closed := rev (map wt_ready xs) @ ready_closed w\<rparr>"
  using assms unfolding worker_dropWaitSet_def wakeWaitSet_def Let_def by (subst fold_wake) simp_all

lemma worker_mod_refused_hist:
  assumes "fst (worker_mod V r k ev w) = Inl e"
  shows "\<exists>new res. hist (worker_del V r (snd (worker_mod V r k ev w))) = new @ hist w
    \<and> (VlsEpollCtl (epVLSH w) CTL_MOD r (Some (ev, event_key k)), res) \<in> set new \<and> rv res < 0"
  using assms
  by (auto simp: worker_bridge_defs rawEpollMod_def rawEpollDel_def rawEpollCtl_def vclpoll_epoll_ctl_def
      rv_result_Inl)

text \<open>VLS refuses the smaller mask: the whole set is dropped.\<close>

lemma worker_tail_refused:
  assumes ok: "worker_ok w" and old: "map_of (waiters w) k = Some ws" and s: "map_of (sessions w) k = Some r"
    and part: "set (ws_waiters ws) = set out \<union> set rest" "set out \<inter> set rest = {}" "distinct rest"
    and w2: "waiters w2 = AList.update k \<lparr>ws_waiters = rest, ws_events = m\<rparr> (waiters w)"
      "set (ready_closed w2) = wt_ready ` set out \<union> set (ready_closed w)" "panicked w2 = panicked w"
      "epVLSH w2 = epVLSH w" "hist w2 = hist w" "sessions w2 = sessions w"
    and refused: "fst (worker_mod V r k m w2) = Inl e"
    and w': "w' = worker_dropWaitSet V k r \<lparr>ws_waiters = rest, ws_events = m\<rparr> (snd (worker_mod V r k m w2))"
  shows "w_refused r w w' \<and> w_released k (set (ws_waiters ws)) w w'"
proof
  define w3 where "w3 = snd (worker_mod V r k m w2)"
  have w3: "ready_closed w3 = ready_closed w2" "panicked w3 = panicked w" "waiters w3 = waiters w2" "sessions w3 = sessions w"
    "epVLSH w3 = epVLSH w"
    by (simp_all add: w3_def w2)
  have fresh: "distinct (map wt_ready rest)" "wt_ready ` set rest \<inter> set (ready_closed w3) = {}"
    using rest_of_key_fresh [OF worker_okD(1) [OF ok] old part, of "ready_closed w3"] w2(2) by (simp_all add: w3)
  have w'_eq: "w' = (worker_del V r w3)\<lparr>waiters := AList.delete k (waiters w3),
      ready_closed := rev (map wt_ready rest) @ ready_closed w3\<rparr>"
    by (simp add: w' w3_def [symmetric] worker_drop_eq [OF fresh])
  have i3: "interest (epVLSH w) (hist w3) = w_interest w"
    using worker_bridge_interest(3) [OF w2(4) refused] by (simp add: w3_def w2)
  show "w_released k (set (ws_waiters ws)) w w'"
    by (rule w_drop_released [OF ok old s])
      (auto simp: w'_eq w3 w2 AList.delete_update_same part(1) worker_bridge_interest i3)
  show "w_refused r w w'"
    using worker_mod_refused_hist [OF refused] by (auto simp: w_refused_def w'_eq w3_def w2)
qed

lemma worker_tail_result:
  assumes ok: "worker_ok w" and old: "map_of (waiters w) k = Some ws" and s: "map_of (sessions w) k = Some r"
    and part: "set (ws_waiters ws) = set out \<union> set rest" "set out \<inter> set rest = {}" "distinct rest"
      "distinct out"
    and w': "w' = worker_tail V k r ws rest (fold wakeWaiter out w)"
  shows "w_release_result k r (set out) w w'"
proof -
  note tab = worker_okD(1) [OF ok]
  have all: "pend_at w k = set (ws_waiters ws)" by (rule pend_at_set [OF old])
  define w1 where "w1 = fold wakeWaiter out w"
  have w1: "w1 = w\<lparr>ready_closed := rev (map wt_ready out) @ ready_closed w\<rparr>"
    unfolding w1_def using set_of_key_fresh [OF tab old _ part(4)] part(1) by (intro fold_wake) auto
  show ?thesis
  proof (cases "rest = []")
    case True
    have "w_released k (set (ws_waiters ws)) w w'"
      by (rule w_drop_released [OF ok old s])
        (use True part(1) in \<open>simp_all add: w' w1_def [symmetric] w1 worker_tail_def worker_bridge_interest\<close>)
    with True part(1) show ?thesis by (simp add: w_release_result_def all)
  next
    case False
    define m where "m = combinedEvents \<lparr>ws_waiters = rest, ws_events = ws_events ws\<rparr>"
    have m: "m = combinedEvents \<lparr>ws_waiters = rest, ws_events = m\<rparr>"
      by (simp add: m_def combinedEvents_def)
    define w2 where "w2 = w1\<lparr>waiters := AList.update k \<lparr>ws_waiters = rest, ws_events = m\<rparr> (waiters w)\<rparr>"
    have tail: "w' = (if m \<noteq> ws_events ws then
        case fst (worker_mod V r k m w2) of
          Inl e \<Rightarrow> worker_dropWaitSet V k r \<lparr>ws_waiters = rest, ws_events = m\<rparr> (snd (worker_mod V r k m w2))
        | Inr _ \<Rightarrow> snd (worker_mod V r k m w2) else w2)"
      using False unfolding w' w1_def [symmetric] worker_tail_def worker_shrink_def Let_def
        case_prod_beta m_def [symmetric]
      by (simp add: w2_def w1 m_def [symmetric] split: sum.split)
    have w2_sel: "waiters w2 = AList.update k \<lparr>ws_waiters = rest, ws_events = m\<rparr> (waiters w)"
      "set (ready_closed w2) = wt_ready ` set out \<union> set (ready_closed w)" "panicked w2 = panicked w"
      "epVLSH w2 = epVLSH w" "hist w2 = hist w" "sessions w2 = sessions w"
      by (auto simp: w2_def w1)
    consider (same) "m = ws_events ws" | (accepted) u where "m \<noteq> ws_events ws" "fst (worker_mod V r k m w2) = Inr u"
      | (refused) e where "m \<noteq> ws_events ws" "fst (worker_mod V r k m w2) = Inl e"
      by (cases "fst (worker_mod V r k m w2)") auto
    then show ?thesis
    proof cases
      case same
      have "w_interest w r = Some (m, event_key k)"
        using watch_okD(3) [OF worker_okD(2) [OF ok] s] old same by simp
      then have "w_released k (set out) w w'"
        using same m by (intro w_shrink_released [OF ok old s part(1-3) False]) (simp_all add: tail w2_sel fun_upd_idem)
      with part(1) show ?thesis by (simp add: w_release_result_def all)
    next
      case accepted
      then have "w_released k (set out) w w'"
        using m worker_bridge_interest(4) [OF w2_sel(4) accepted(2)]
        by (intro w_shrink_released [OF ok old s part(1-3) False]) (simp_all add: tail w2_sel)
      with part(1) show ?thesis by (simp add: w_release_result_def all)
    next
      case refused
      then show ?thesis
        using worker_tail_refused [OF ok old s part(1-3) w2_sel refused(2) refl] part(1)
        by (auto simp: tail w_release_result_def all)
    qed
  qed
qed

section \<open>The operations\<close>

lemma addWaiter_result:
  assumes ok: "worker_ok w" and fresh: "fresh_waiter x w"
  shows "join_result public x w (addWaiter V public raw x w)"
proof (cases "map_of (sessions w) public = Some raw")
  case True
  let ?c = "checkOwnership V raw w"
  have sel: "waiters (snd ?c) = waiters w" "ready_closed (snd ?c) = ready_closed w"
    "panicked (snd ?c) = panicked w" "sessions (snd ?c) = sessions w" "epVLSH (snd ?c) = epVLSH w"
    "w_interest (snd ?c) = w_interest w"
    by (simp_all add: checkOwnership_def case_prod_beta Let_def rawSessionWorker_def vclpoll_session_worker_def)
  have c: "worker_ok (snd ?c)" "pending (snd ?c) = pending w" "fresh_waiter x (snd ?c)"
    using worker_ok_cong [OF sel(1-4,6)] ok fresh tab_cong(3) [OF sel(1-3)] by simp_all
  show ?thesis
  proof (cases "fst ?c")
    case (Inl e)
    then have "addWaiter V public raw x w = (Inl e, snd ?c)"
      using True by (simp add: addWaiter_def ownedRaw_def case_prod_beta)
    then show ?thesis using c sel by (simp add: join_result_def)
  next
    case (Inr u)
    then have a: "addWaiter V public raw x w = joinWaitSet V public raw x (snd ?c)"
      using True by (simp add: addWaiter_def ownedRaw_def case_prod_beta)
    have "join_result public x (snd ?c) (joinWaitSet V public raw x (snd ?c))"
      using True by (intro joinWaitSet_result c) (simp add: sel)
    then show ?thesis unfolding a join_result_def by (simp add: c sel split: sum.splits)
  qed
next
  case False
  with ok show ?thesis by (simp add: addWaiter_def ownedRaw_def join_result_def)
qed

lemma cancelWaiter_result:
  assumes ok: "worker_ok w" and s: "map_of (sessions w) public = Some raw"
  shows "w_release_result public raw ({x} \<inter> pend_at w public) w (snd (cancelWaiter V public raw x w))"
    and "fst (cancelWaiter V public raw x w)
      = (waiterIsReady x w \<and> (public, x) \<notin> pending w)"
proof -
  have "w_release_result public raw ({x} \<inter> pend_at w public) w (snd (cancelWaiter V public raw x w))
    \<and> fst (cancelWaiter V public raw x w) = (waiterIsReady x w \<and> (public, x) \<notin> pending w)"
  proof (cases "map_of (waiters w) public")
    case None
    with w_released_none [OF ok] show ?thesis
      by (simp add: cancelWaiter_def pend_at_none w_release_result_def pending_def)
  next
    case (Some ws)
    note ws = tab_okD(2) [OF worker_okD(1) [OF ok] Some]
    show ?thesis
    proof (cases "x \<in> set (ws_waiters ws)")
      case True
      have "snd (cancelWaiter V public raw x w)
          = worker_tail V public raw ws (removeAll x (ws_waiters ws)) (fold wakeWaiter [x] w)"
        using Some True by (simp add: cancelWaiter_def worker_tail_def Let_def)
      from worker_tail_result [OF ok Some s _ _ _ _ this] ws True
      have "w_release_result public raw ({x} \<inter> pend_at w public) w (snd (cancelWaiter V public raw x w))"
        by (auto simp: pend_at_set [OF Some] set_ok_def distinct_removeAll)
      then show ?thesis using Some True by (auto simp: cancelWaiter_def pending_def Let_def)
    next
      case False
      with Some w_released_none [OF ok] show ?thesis
        by (simp add: cancelWaiter_def pend_at_set w_release_result_def pending_def)
    qed
  qed
  then show "w_release_result public raw ({x} \<inter> pend_at w public) w (snd (cancelWaiter V public raw x w))"
    "fst (cancelWaiter V public raw x w) = (waiterIsReady x w \<and> (public, x) \<notin> pending w)"
    by simp_all
qed

lemma worker_drop_released:
  assumes ok: "worker_ok w" and old: "map_of (waiters w) k = Some ws" and s: "map_of (sessions w) k = Some r"
  shows "w_released k (pend_at w k) w (worker_dropWaitSet V k r ws w)"
proof -
  note tab = worker_okD(1) [OF ok]
  have d: "worker_dropWaitSet V k r ws w = (worker_del V r w)\<lparr>waiters := AList.delete k (waiters w),
      ready_closed := rev (map wt_ready (ws_waiters ws)) @ ready_closed w\<rparr>"
    using worker_drop_eq [OF set_of_key_fresh [OF tab old subset_refl], of V k r "ws_events ws"]
      tab_okD(2) [OF tab old] by (cases ws) (simp add: set_ok_def)
  show ?thesis
    unfolding pend_at_set [OF old]
    by (rule w_drop_released [OF ok old s]) (simp_all add: d worker_bridge_interest)
qed

lemma removeWaiters_result:
  assumes ok: "worker_ok w" and s: "map_of (sessions w) public = Some raw"
  shows "w_released public (pend_at w public) w (removeWaiters V public raw w)"
  using worker_drop_released [OF ok _ s] w_released_none [OF ok]
  by (simp add: removeWaiters_def pend_at_none split: option.split)

lemma worker_handleEvent_result:
  assumes ok: "worker_ok w"
  shows "(\<exists>r. w_release_result k r {x \<in> pend_at w k. event_wakes ev x} w (worker_handleEvent V k ev w))
    \<or> w_released k {x \<in> pend_at w k. event_wakes ev x} w (worker_handleEvent V k ev w)"
proof (cases "map_of (waiters w) k")
  case None
  with w_released_none [OF ok] show ?thesis
    by (simp add: worker_handleEvent_def pend_at_none)
next
  case (Some ws)
  note ws = tab_okD(2) [OF worker_okD(1) [OF ok] Some]
  let ?out = "filter (event_wakes ev) (ws_waiters ws)"
  obtain r where s: "map_of (sessions w) k = Some r"
    using watch_okD(1) [OF worker_okD(2) [OF ok] Some] by blast
  have eq: "worker_handleEvent V k ev w
      = worker_tail V k r ws (filter (\<lambda>x. \<not> event_wakes ev x) (ws_waiters ws)) (fold wakeWaiter ?out w)"
    using Some s by (simp add: worker_handleEvent_def worker_tail_def Let_def)
  have "set ?out = {x \<in> pend_at w k. event_wakes ev x}"
    by (auto simp: pend_at_set [OF Some])
  with worker_tail_result [OF ok Some s _ _ _ _ eq] ws show ?thesis
    by (auto simp: set_ok_def)
qed

lemma worker_wake_sets:
  fixes V :: cgo
  assumes "distinct (map wt_ready (all_waiters al))"
    "wt_ready ` set (all_waiters al) \<inter> set (ready_closed w) = {}" "0 \<le> epVLSH w"
    "fst ` set al \<subseteq> dom (map_of (sessions w))"
  defines "w' \<equiv> fold (\<lambda>(public, ws) w.
        let w = (case map_of (sessions w) public of
                   Some raw \<Rightarrow> if 0 \<le> epVLSH w then worker_del V raw w else w
                 | None \<Rightarrow> w)
        in wakeWaitSet ws w) al w"
  shows "set (ready_closed w') = wt_ready ` set (all_waiters al) \<union> set (ready_closed w)
    \<and> panicked w' = panicked w \<and> sessions w' = sessions w \<and> epVLSH w' = epVLSH w
    \<and> interest (epVLSH w) (hist w')
        = (\<lambda>r. if r \<in> the ` map_of (sessions w) ` fst ` set al then None else w_interest w r)"
  using assms(1-4) unfolding w'_def
proof (induction al arbitrary: w)
  case (Cons e al)
  obtain k ws where e: "e = (k, ws)" by (cases e)
  obtain r where r: "map_of (sessions w) k = Some r" using Cons.prems(4) e by auto
  let ?w = "wakeWaitSet ws (worker_del V r w)"
  have wk: "?w = (worker_del V r w)\<lparr>ready_closed := rev (map wt_ready (ws_waiters ws)) @ ready_closed w\<rparr>"
    using Cons.prems e unfolding wakeWaitSet_def by (subst fold_wake) auto
  have pre: "wt_ready ` set (all_waiters al) \<inter> set (ready_closed ?w) = {}" "0 \<le> epVLSH ?w"
    "fst ` set al \<subseteq> dom (map_of (sessions ?w))" "distinct (map wt_ready (all_waiters al))"
    using Cons.prems e by (auto simp: wk)
  note ih = Cons.IH [OF pre(4,1,2,3)]
  show ?case
    using ih Cons.prems(3) r
    by (auto simp: e wk fun_eq_iff worker_bridge_interest image_Un Let_def)
qed simp

lemma wakeAllWaiters_result:
  assumes ok: "worker_ok w" and ep: "0 \<le> epVLSH w"
  shows "worker_ok (wakeAllWaiters V w)" "pending (wakeAllWaiters V w) = {}"
    "set (ready_closed (wakeAllWaiters V w)) = wt_ready ` snd ` pending w \<union> set (ready_closed w)"
    "sessions (wakeAllWaiters V w) = sessions w" "epVLSH (wakeAllWaiters V w) = epVLSH w"
proof -
  note tab = worker_okD(1) [OF ok] and wat = worker_okD(2) [OF ok]
  have dom: "fst ` set (waiters w) \<subseteq> dom (map_of (sessions w))"
    using wat by (simp add: watch_ok_def dom_map_of_conv_image_fst)
  note ws = worker_wake_sets [OF all_waiters_distinct [OF tab] ep dom, of V]
  let ?w' = "wakeAllWaiters V w"
  show rest: "pending ?w' = {}" "sessions ?w' = sessions w" "epVLSH ?w' = epVLSH w"
    "set (ready_closed ?w') = wt_ready ` snd ` pending w \<union> set (ready_closed w)"
    using ws by (simp_all add: wakeAllWaiters_def all_waiters_pending [OF tab])
  have w: "waiters ?w' = []" "panicked ?w' = panicked w"
    using ws by (simp_all add: wakeAllWaiters_def)
  have "w_interest ?w' r = None" for r
  proof (cases "r \<in> the ` map_of (sessions w) ` fst ` set (waiters w)")
    case True
    with ws show ?thesis by (simp add: wakeAllWaiters_def)
  next
    case False
    have "w_interest w r = None"
    proof (cases "r \<in> ran (map_of (sessions w))")
      case True
      then obtain k where k: "map_of (sessions w) k = Some r" by (auto simp: ran_def)
      with False have "map_of (waiters w) k = None"
        by (auto simp: map_of_eq_None_iff image_iff)
      with watch_okD(3) [OF wat k] show ?thesis by simp
    qed (rule watch_okD(4) [OF wat])
    with False ws show ?thesis by (simp add: wakeAllWaiters_def)
  qed
  then show "worker_ok ?w'"
    using w tab wat by (simp add: worker_ok_def tab_ok_empty watch_ok_def rest(2) tab_okD(5))
qed

section \<open>Sessions come and go\<close>

lemma watch_add_session:
  assumes ok: "watch_ok w" and new: "raw \<notin> ran (map_of (sessions w))" "map_of (sessions w) k = None"
    and w': "waiters w' = waiters w" "sessions w' = AList.update k raw (sessions w)" "w_interest w' = w_interest w"
  shows "watch_ok w'"
proof -
  have "map_of (waiters w) k = None"
    using watch_okD(1) [OF ok, of k] new(2) by (cases "map_of (waiters w) k") auto
  moreover have "raw \<noteq> r" if "map_of (sessions w) k' = Some r" for k' r
    using new(1) that by (auto simp: ran_def)
  moreover have "ran ((map_of (sessions w))(k \<mapsto> raw)) = insert raw (ran (map_of (sessions w)))"
    using new(2) by simp
  ultimately show ?thesis
    using ok watch_okD(4) [OF ok new(1)] unfolding watch_ok_def w'
    by (auto simp: ran_def)
qed

lemma watch_del_session:
  assumes ok: "watch_ok w" and k: "map_of (waiters w) k = None"
    and w': "waiters w' = waiters w" "sessions w' = AList.delete k (sessions w)" "w_interest w' = w_interest w"
  shows "watch_ok w'"
  unfolding watch_ok_def w'
proof (intro conjI allI impI)
  show "distinct (map fst (AList.delete k (sessions w)))" using ok by (simp add: watch_ok_def)
  show "dom (map_of (waiters w)) \<subseteq> dom (map_of (AList.delete k (sessions w)))"
    using ok k by (auto simp: watch_ok_def)
  show "a = b" if "map_of (AList.delete k (sessions w)) a = Some r"
      "map_of (AList.delete k (sessions w)) b = Some r" for a b r
    using that watch_okD(2) [OF ok, of a r b] by (auto split: if_splits)
  show "w_interest w r = map_option (\<lambda>ws. (ws_events ws, event_key a)) (map_of (waiters w) a)"
    if "map_of (AList.delete k (sessions w)) a = Some r" for a r
    using that watch_okD(3) [OF ok] by (auto split: if_splits)
  show "w_interest w r = None" if "r \<notin> ran (map_of (AList.delete k (sessions w)))" for r
  proof (cases "map_of (sessions w) k = Some r")
    case True
    with watch_okD(3) [OF ok] k show ?thesis by simp
  next
    case False
    with that have "r \<notin> ran (map_of (sessions w))" by (auto simp: ran_def split: if_splits)
    with watch_okD(4) [OF ok] show ?thesis by blast
  qed
qed

lemma add_session_ok:
  assumes "worker_ok w" "raw \<notin> ran (map_of (sessions w))" "map_of (sessions w) k = None"
  shows "worker_ok (w\<lparr>sessions := AList.update k raw (sessions w)\<rparr>)"
    "pending (w\<lparr>sessions := AList.update k raw (sessions w)\<rparr>) = pending w"
  using assms watch_add_session [of w raw k "w\<lparr>sessions := AList.update k raw (sessions w)\<rparr>"]
    tab_cong(1,2) [of "w\<lparr>sessions := AList.update k raw (sessions w)\<rparr>" w]
  by (simp_all add: worker_ok_def)

lemma del_session_ok:
  assumes "worker_ok w" "map_of (waiters w) k = None"
  shows "worker_ok (w\<lparr>sessions := AList.delete k (sessions w)\<rparr>)"
    "pending (w\<lparr>sessions := AList.delete k (sessions w)\<rparr>) = pending w"
  using assms watch_del_session [of w k "w\<lparr>sessions := AList.delete k (sessions w)\<rparr>"]
    tab_cong(1,2) [of "w\<lparr>sessions := AList.delete k (sessions w)\<rparr>" w]
  by (simp_all add: worker_ok_def)

lemma no_pending_no_set:
  assumes "tab_ok t" "pend_at t k = {}"
  shows "map_of (waiters t) k = None"
proof (rule ccontr)
  assume "map_of (waiters t) k \<noteq> None"
  then obtain ws where ws: "map_of (waiters t) k = Some ws" by auto
  with tab_okD(2) [OF assms(1) ws] assms(2) show False
    by (auto simp: pend_at_set [OF ws] set_ok_def)
qed

section \<open>The worker as a wait service\<close>

lemma w_released_laws:
  assumes "w_released k out w w'"
  shows "worker_ok w'" "pending w' \<subseteq> pending w" "x \<in> out \<Longrightarrow> (k, x) \<notin> pending w'"
    "set (ready_closed w') = wt_ready ` snd ` (pending w - pending w') \<union> set (ready_closed w)"
proof -
  from assms have out: "pending w - pending w' = {k} \<times> out"
    by (auto simp: w_released_def)
  have "snd ` ({k} \<times> out) = out" by force
  with assms show "set (ready_closed w') = wt_ready ` snd ` (pending w - pending w') \<union> set (ready_closed w)"
    unfolding out by (simp add: w_released_def)
qed (use assms in \<open>auto simp: w_released_def\<close>)

lemma w_release_result_laws:
  assumes "w_release_result k r out w w'"
  shows "worker_ok w'" "pending w' \<subseteq> pending w" "x \<in> out \<Longrightarrow> (k, x) \<notin> pending w'"
    "set (ready_closed w') = wt_ready ` snd ` (pending w - pending w') \<union> set (ready_closed w)"
proof -
  obtain out' where out': "w_released k out' w w'" "out \<subseteq> out'"
    using assms unfolding w_release_result_def by blast
  note laws = w_released_laws [OF out'(1)]
  show "worker_ok w'" "pending w' \<subseteq> pending w"
    "set (ready_closed w') = wt_ready ` snd ` (pending w - pending w') \<union> set (ready_closed w)"
    by (rule laws)+
  show "x \<in> out \<Longrightarrow> (k, x) \<notin> pending w'"
    using laws(3) out'(2) by blast
qed

text \<open>The caller may use a reference that is out of date, but only for a session without waiters.\<close>

definition current_ref :: "handle \<times> handle \<Rightarrow> worker \<Rightarrow> bool" where
  "current_ref ref w \<longleftrightarrow> map_of (sessions w) (fst ref) = Some (snd ref) \<or> map_of (waiters w) (fst ref) = None"

lemma cancel_laws:
  fixes V :: cgo and x :: waiter
  assumes "worker_ok w" "current_ref ref w"
  defines "w' \<equiv> snd (cancelWaiter V (fst ref) (snd ref) x w)"
  shows "worker_ok w'" "pending w' \<subseteq> pending w" "(fst ref, x) \<notin> pending w'"
    "set (ready_closed w') = wt_ready ` snd ` (pending w - pending w') \<union> set (ready_closed w)"
proof -
  have "worker_ok w' \<and> pending w' \<subseteq> pending w \<and> (fst ref, x) \<notin> pending w'
    \<and> set (ready_closed w') = wt_ready ` snd ` (pending w - pending w') \<union> set (ready_closed w)"
  proof (cases "map_of (waiters w) (fst ref)")
    case None
    then have "w' = w" by (simp add: w'_def cancelWaiter_def)
    with None assms(1) show ?thesis by (simp add: pending_def)
  next
    case (Some ws)
    with assms(2) have "map_of (sessions w) (fst ref) = Some (snd ref)" by (simp add: current_ref_def)
    note laws = w_release_result_laws [OF cancelWaiter_result(1) [OF assms(1) this, of x V], folded w'_def]
    show ?thesis using laws(1,2,4) laws(3) [of x] by (auto simp: pend_at_def)
  qed
  then show "worker_ok w'" "pending w' \<subseteq> pending w" "(fst ref, x) \<notin> pending w'"
    "set (ready_closed w') = wt_ready ` snd ` (pending w - pending w') \<union> set (ready_closed w)"
    by simp_all
qed

lemma remove_laws:
  fixes V :: cgo
  assumes "worker_ok w" "current_ref ref w"
  defines "w' \<equiv> removeWaiters V (fst ref) (snd ref) w"
  shows "w_released (fst ref) (pend_at w (fst ref)) w w'"
proof (cases "map_of (waiters w) (fst ref)")
  case None
  with assms(1) show ?thesis
    by (simp add: w'_def removeWaiters_def pend_at_none w_released_none)
next
  case (Some ws)
  with assms(2) have "map_of (sessions w) (fst ref) = Some (snd ref)" by (simp add: current_ref_def)
  with removeWaiters_result [OF assms(1) this] show ?thesis by (simp add: w'_def)
qed

lemma event_laws:
  assumes "worker_ok w"
  shows "worker_ok (worker_handleEvent V k ev w)" "pending (worker_handleEvent V k ev w) \<subseteq> pending w"
    "event_wakes ev x \<Longrightarrow> (k, x) \<notin> pending (worker_handleEvent V k ev w)"
    "set (ready_closed (worker_handleEvent V k ev w))
      = wt_ready ` snd ` (pending w - pending (worker_handleEvent V k ev w)) \<union> set (ready_closed w)"
proof -
  let ?w' = "worker_handleEvent V k ev w" and ?out = "{x \<in> pend_at w k. event_wakes ev x}"
  have l: "worker_ok ?w' \<and> pending ?w' \<subseteq> pending w \<and> (\<forall>x \<in> ?out. (k, x) \<notin> pending ?w')
    \<and> set (ready_closed ?w') = wt_ready ` snd ` (pending w - pending ?w') \<union> set (ready_closed w)"
    using worker_handleEvent_result [OF assms, of k ev V]
  proof (elim disjE exE)
    fix r assume "w_release_result k r ?out w ?w'"
    from w_release_result_laws [OF this] show ?thesis by blast
  next
    assume "w_released k ?out w ?w'"
    from w_released_laws [OF this] show ?thesis by blast
  qed
  then show "worker_ok ?w'" "pending ?w' \<subseteq> pending w"
    "set (ready_closed ?w') = wt_ready ` snd ` (pending w - pending ?w') \<union> set (ready_closed w)"
    by blast+
  show "event_wakes ev x \<Longrightarrow> (k, x) \<notin> pending ?w'"
    using l by (auto simp: pend_at_def)
qed

text \<open>The operations on waiters as the dispatcher submits them.\<close>

definition offer_waiter :: "cgo \<Rightarrow> handle \<times> handle \<Rightarrow> waiter \<Rightarrow> worker \<Rightarrow> bool \<times> worker" where
  "offer_waiter V ref x w =
     (fst (addWaiter V (fst ref) (snd ref) x w) = Inr (), snd (addWaiter V (fst ref) (snd ref) x w))"

definition withdraw_waiter :: "cgo \<Rightarrow> handle \<times> handle \<Rightarrow> waiter \<Rightarrow> worker \<Rightarrow> worker" where
  "withdraw_waiter V ref x w = snd (cancelWaiter V (fst ref) (snd ref) x w)"

definition release_session :: "cgo \<Rightarrow> handle \<times> handle \<Rightarrow> worker \<Rightarrow> worker" where
  "release_session V ref w = removeWaiters V (fst ref) (snd ref) w"

interpretation ww: wait_service worker_ok pending "\<lambda>w. set (ready_closed w)" fst fst
  "\<lambda>_ x w. fresh_waiter x w" "\<lambda>ref _. current_ref ref" current_ref "\<lambda>w. 0 \<le> epVLSH w"
  "offer_waiter V" "withdraw_waiter V" "release_session V" "worker_handleEvent V" "wakeAllWaiters V" for V
proof (unfold_locales, goal_cases)
  case (1 s p) then show ?case by (simp add: worker_okD(1) tab_okD(4))
next
  case (2 s p q) then show ?case by (intro tab_okD(3) [of s p q] worker_okD(1))
next
  case (3 s k x) then show ?case
    using addWaiter_result [of s x "fst k" V "snd k"] by (simp add: join_result_def offer_waiter_def)
next
  case (4 s k x) then show ?case
    using addWaiter_result [of s x "fst k" V "snd k"] by (simp add: join_result_def offer_waiter_def)
next
  case (5 s k x) then show ?case
    using addWaiter_result [of s x "fst k" V "snd k"]
    by (auto simp: join_result_def offer_waiter_def split: sum.splits)
next
  case (6 s k x) then show ?case unfolding withdraw_waiter_def by (intro cancel_laws(1))
next
  case (7 s k x) then show ?case unfolding withdraw_waiter_def by (intro cancel_laws(3))
next
  case (8 s k x) then show ?case unfolding withdraw_waiter_def by (intro conjI cancel_laws(2,4))
next
  case (9 s r) then show ?case unfolding release_session_def by (intro w_released_laws(1) [OF remove_laws])
next
  case (10 s r x) then show ?case
    using w_released_laws(2,3) [OF remove_laws [OF 10, of V]] by (auto simp: pend_at_def release_session_def)
next
  case (11 s r) then show ?case unfolding release_session_def by (intro conjI w_released_laws(2,4) [OF remove_laws])
next
  case (12 s h ev) then show ?case by (rule event_laws(1))
next
  case (13 s ev x h) then show ?case by (rule event_laws(3))
next
  case (14 s h ev) then show ?case by (intro conjI event_laws(2,4))
next
  case (15 s) then show ?case by (rule wakeAllWaiters_result(1))
next
  case (16 s) then show ?case by (simp add: wakeAllWaiters_result)
qed

end
