(* ===== verification/WorkerLoop.thy ===== *)
theory WorkerLoop
  imports Worker
begin

text \<open>
  The life of a Mode 2 worker (\<open>worker.go\<close>): registration with VCL, the batch of operations per
  turn (\<open>drainOps\<close>), and \<open>quiesce\<close>; and the raw listener waiters a sharded listener uses. An
  operation is a function on the worker; whether the dispatcher is stopping or the application
  is dead is looked at before each one. How often \<open>drainCloseNotifications\<close> polls within its
  100 ms is a parameter.
\<close>

section \<open>Start\<close>

text \<open>\<open>loop\<close> up to \<open>w.registered <- err\<close>.\<close>

definition worker_register :: "cgo \<Rightarrow> string \<Rightarrow> worker \<Rightarrow> unit poll_result \<times> worker" where
  "worker_register V appName w =
     (let (err, w) =
        (if bootstrap w then
           (case on_worker (rawAppCreate V appName) w of
              (Inl e, w) \<Rightarrow> (Inl e, w)
            | (Inr _, w) \<Rightarrow>
                (let (enabled, w) = on_worker (rawMode2Enabled V) w in
                 if enabled then (Inr (), w)
                 else (Inl (Errorf ''vclpoll: mode 2 requires multi-thread-workers in VCL_CONFIG''),
                       snd (on_worker (rawAppDestroy V) w))))
         else on_worker (rawRegisterWorker V) w)
      in case err of
           Inl e \<Rightarrow> (Inl e, w\<lparr>exited_closed := True\<rparr>)
         | Inr _ \<Rightarrow>
             (let w = snd (on_worker (markCurrentThreadRegistered V) w);
                  (idx, w) = on_worker (rawWorkerIndex V) w
              in (Inr (), w\<lparr>vclIndex := idx\<rparr>)))"

text \<open>\<open>w.epVLSH, err = rawEpollCreate()\<close>.\<close>

definition worker_open_epoll :: "cgo \<Rightarrow> worker \<Rightarrow> unit poll_result \<times> worker" where
  "worker_open_epoll V w =
     (case on_worker (rawEpollCreate V) w of
        (Inl e, w) \<Rightarrow> (Inl e, w\<lparr>epVLSH := invalidVLSH\<rparr>)
      | (Inr ep, w) \<Rightarrow> (Inr (), w\<lparr>epVLSH := ep\<rparr>))"

section \<open>Operations in batches\<close>

type_synonym 'a worker_op = "worker \<Rightarrow> 'a poll_result \<times> worker"

definition run_op :: "(worker \<Rightarrow> bool) \<Rightarrow> 'a worker_op \<Rightarrow> 'a worker_op" where
  "run_op refuse f w = (if refuse w then (Inl PollErrClosed, w) else f w)"

text \<open>The results sent, what is left in \<open>opCh\<close>, and whether the batch was full.\<close>

fun drainOps :: "nat \<Rightarrow> (worker \<Rightarrow> bool) \<Rightarrow> 'a worker_op list \<Rightarrow> worker
    \<Rightarrow> 'a poll_result list \<times> 'a worker_op list \<times> bool \<times> worker" where
  "drainOps 0 refuse ops w = ([], ops, True, w)"
| "drainOps (Suc n) refuse [] w = ([], [], False, w)"
| "drainOps (Suc n) refuse (f # ops) w =
     (let (r, w) = run_op refuse f w;
          (rs, rest, full, w) = drainOps n refuse ops w
      in (r # rs, rest, full, w))"

text \<open>One turn of the loop after the stop check: a full batch polls without sleeping.\<close>

definition worker_turn :: "cgo \<Rightarrow> (worker \<Rightarrow> bool) \<Rightarrow> 'a worker_op list \<Rightarrow> worker
    \<Rightarrow> 'a poll_result list \<times> 'a worker_op list \<times> worker" where
  "worker_turn V refuse ops w =
     (let (rs, rest, full, w) = drainOps 64 refuse ops w;
          timeout = (if full then 0 else 1 / 100);
          (evs, w) = on_worker (rawEpollWait V (epVLSH w) 64 timeout) w
      in case evs of
           None \<Rightarrow> (rs, rest, w\<lparr>panicked := True\<rparr>)
         | Some evs \<Rightarrow> (rs, rest, fold (\<lambda>e. worker_handleEvent V (pe_Vlsh e) (pe_Events e)) evs w))"

section \<open>Quiesce\<close>

text \<open>\<open>for public, raw := range w.sessions\<close>: close, and forget the session. The public handles
  the dispatcher forgets too are the result.\<close>

definition closeSession :: "cgo \<Rightarrow> handle \<times> handle \<Rightarrow> worker \<Rightarrow> worker" where
  "closeSession V pr w =
     (let w = snd (on_worker (rawClose V (snd pr)) w)
      in w\<lparr>sessions := AList.delete (fst pr) (sessions w)\<rparr>)"

definition closeSessions :: "cgo \<Rightarrow> worker \<Rightarrow> handle list \<times> worker" where
  "closeSessions V w =
     (map fst (sessions w), fold (closeSession V) (sessions w) w)"

fun drainCloseNotifications :: "cgo \<Rightarrow> nat \<Rightarrow> worker \<Rightarrow> worker" where
  "drainCloseNotifications V 0 w = w"
| "drainCloseNotifications V (Suc n) w =
     drainCloseNotifications V n (snd (on_worker (rawEpollWait V (epVLSH w) 64 (1 / 100)) w))"

definition quiesce :: "cgo \<Rightarrow> bool \<Rightarrow> nat \<Rightarrow> worker \<Rightarrow> handle list \<times> worker" where
  "quiesce V appCreated polls w =
     (let w = wakeAllWaiters V w;
          (publics, w) = closeSessions V w;
          w = (if epVLSH w < 0 \<or> \<not> appCreated then w else drainCloseNotifications V polls w);
          w = (if 0 \<le> epVLSH w then (snd (on_worker (rawClose V (epVLSH w)) w))\<lparr>epVLSH := invalidVLSH\<rparr>
               else w);
          w = w\<lparr>quiesced_closed := True\<rparr>;
          w = (if bootstrap w then w
               else (case on_worker (rawUnregisterWorker V) w of
                       (Inl e, w) \<Rightarrow> w\<lparr>unregister_failures := unregister_failures w + 1, exited_closed := True\<rparr>
                     | (Inr _, w) \<Rightarrow> w\<lparr>exited_closed := True\<rparr>))
      in (publics, w))"

text \<open>The bootstrap worker, after \<open>destroyCh\<close> is closed.\<close>

definition worker_destroy :: "cgo \<Rightarrow> worker \<Rightarrow> worker" where
  "worker_destroy V w = snd (on_worker (rawAppDestroy V) w)"

section \<open>Batches: proofs\<close>

text \<open>A batch answers the operations in order, at most \<open>limit\<close> of them, loses none, and is full
  exactly when it stopped at the limit.\<close>

lemma drainOps_shape:
  assumes "drainOps limit refuse ops w = (rs, rest, full, w')"
  shows "length rs = min limit (length ops)" "rest = drop limit ops" "full \<longleftrightarrow> limit \<le> length ops"
  using assms
  by (induction limit refuse ops w arbitrary: rs rest full w' rule: drainOps.induct)
    (auto simp: Let_def split: prod.splits)

lemma drainOps_refused:
  assumes "\<And>w. refuse w"
  shows "fst (drainOps limit refuse ops w) = replicate (min limit (length ops)) (Inl PollErrClosed)
    \<and> snd (snd (snd (drainOps limit refuse ops w))) = w"
  using assms
  by (induction limit refuse ops w rule: drainOps.induct) (auto simp: run_op_def Let_def case_prod_beta)

lemma drainOps_invariant:
  assumes "\<And>f w. f \<in> set ops \<Longrightarrow> P w \<Longrightarrow> P (snd (f w))" and "P w"
  shows "P (snd (snd (snd (drainOps limit refuse ops w))))"
  using assms
proof (induction limit arbitrary: ops w)
  case (Suc n)
  show ?case
  proof (cases ops)
    case (Cons f fs)
    have "P (snd (run_op refuse f w))"
      using Suc.prems Cons by (auto simp: run_op_def)
    then show ?thesis
      using Suc.IH [of fs "snd (run_op refuse f w)"] Suc.prems(1) Cons by (simp add: Let_def case_prod_beta)
  qed (use Suc.prems in simp)
qed simp

section \<open>Quiesce: proofs\<close>

lemma rawClose_worker_balance [balance_simps]:
  "balance h (hist (snd (on_worker (rawClose V raw) w))) = balance h (hist w) - (if h = raw then 1 else 0)"
  by (simp add: rawClose_balance)

lemma quiet_on_worker:
  "quiet_run (hist w) (snd (run_state m (hist w))) \<Longrightarrow> balance h (hist (snd (on_worker m w))) = balance h (hist w)"
  by (simp add: keeps_def)

lemma closeSession_sel [simp]:
  "waiters (closeSession V pr w) = waiters w" "ready_closed (closeSession V pr w) = ready_closed w"
  "panicked (closeSession V pr w) = panicked w" "epVLSH (closeSession V pr w) = epVLSH w"
  "bootstrap (closeSession V pr w) = bootstrap w"
  "sessions (closeSession V pr w) = AList.delete (fst pr) (sessions w)"
  "balance h (hist (closeSession V pr w)) = balance h (hist w) - (if h = snd pr then 1 else 0)"
  by (simp_all add: closeSession_def Let_def rawClose_balance)

lemma close_fold:
  "balance h (hist (fold (closeSession V) al w)) = balance h (hist w) - int (count_list (map snd al) h)
   \<and> map_of (sessions (fold (closeSession V) al w)) k
       = (if k \<in> fst ` set al then None else map_of (sessions w) k)
   \<and> waiters (fold (closeSession V) al w) = waiters w
   \<and> ready_closed (fold (closeSession V) al w) = ready_closed w
   \<and> panicked (fold (closeSession V) al w) = panicked w
   \<and> epVLSH (fold (closeSession V) al w) = epVLSH w
   \<and> bootstrap (fold (closeSession V) al w) = bootstrap w"
proof (induction al arbitrary: w)
  case (Cons e al)
  from Cons.IH [of "closeSession V e w"] show ?case by simp
qed simp

lemma drainClose_sel [simp]:
  "waiters (drainCloseNotifications V n w) = waiters w" "ready_closed (drainCloseNotifications V n w) = ready_closed w"
  "panicked (drainCloseNotifications V n w) = panicked w" "epVLSH (drainCloseNotifications V n w) = epVLSH w"
  "bootstrap (drainCloseNotifications V n w) = bootstrap w" "sessions (drainCloseNotifications V n w) = sessions w"
  "balance h (hist (drainCloseNotifications V n w)) = balance h (hist w)"
proof (induction n arbitrary: w)
  case (Suc n)
  {
    case 7
    have "balance h (hist (snd (on_worker (rawEpollWait V (epVLSH w) 64 (1 / 100)) w))) = balance h (hist w)"
      by (rule quiet_on_worker) (rule quiet_simps)
    with Suc.IH(7) show ?case by simp
  }
qed simp_all

text \<open>A raw handle belongs to one session, so it is closed once.\<close>

lemma count_sessions:
  assumes "watch_ok w"
  shows "count_list (map snd (sessions w)) r = (if r \<in> ran (map_of (sessions w)) then 1 else 0)"
proof -
  have d: "distinct (map fst (sessions w))" using assms by (simp add: watch_ok_def)
  have "inj_on snd (set (sessions w))"
  proof (rule inj_onI)
    fix p q assume pq: "p \<in> set (sessions w)" "q \<in> set (sessions w)" "snd p = snd q"
    have "map_of (sessions w) (fst p) = Some (snd p)"
      using pq(1) by (intro map_of_is_SomeI d) simp
    moreover have "map_of (sessions w) (fst q) = Some (snd p)"
      unfolding pq(3) using pq(2) by (intro map_of_is_SomeI d) simp
    ultimately have "fst p = fst q" by (rule watch_okD(2) [OF assms])
    then show "p = q" using pq(3) by (rule prod_eqI)
  qed
  then have "distinct (map snd (sessions w))"
    using d by (simp add: distinct_map)
  then show ?thesis
    by (simp add: count_list_distinct ran_distinct [OF d])
qed

lemma wakeAll_idle:
  assumes "waiters w = []"
  shows "wakeAllWaiters V w = w"
  using assms by (simp add: wakeAllWaiters_def)

lemma wakeAll_hist_balance: "balance h (hist (wakeAllWaiters V w)) = balance h (hist w)"
proof -
  have del: "balance h (hist (worker_del V r u)) = balance h (hist u)" for r u
    unfolding worker_del_def by (rule quiet_on_worker) (rule quiet_simps)
  have "balance h (hist (fold (\<lambda>(public, ws) w.
        let w = (case map_of (sessions w) public of
                   Some raw \<Rightarrow> if 0 \<le> epVLSH w then worker_del V raw w else w
                 | None \<Rightarrow> w)
        in wakeWaitSet ws w) al u)) = balance h (hist u)" for al u
    by (induction al arbitrary: u) (auto simp: del Let_def split: option.split)
  then show ?thesis by (simp add: wakeAllWaiters_def)
qed

lemma quiesce_rest:
  "sessions (snd (quiesce V live polls w)) = sessions (snd (closeSessions V (wakeAllWaiters V w)))"
  "waiters (snd (quiesce V live polls w)) = waiters (snd (closeSessions V (wakeAllWaiters V w)))"
  "ready_closed (snd (quiesce V live polls w)) = ready_closed (snd (closeSessions V (wakeAllWaiters V w)))"
  "panicked (snd (quiesce V live polls w)) = panicked (snd (closeSessions V (wakeAllWaiters V w)))"
  "quiesced_closed (snd (quiesce V live polls w))"
  by (simp_all add: quiesce_def case_prod_beta Let_def split: sum.split)

lemma quiesce_balance:
  "balance h (hist (snd (quiesce V live polls w)))
     = balance h (hist (snd (closeSessions V (wakeAllWaiters V w))))
       - (if 0 \<le> epVLSH (snd (closeSessions V (wakeAllWaiters V w)))
            \<and> h = epVLSH (snd (closeSessions V (wakeAllWaiters V w))) then 1 else 0)"
proof -
  have "balance h' (snd (run_state (rawUnregisterWorker V) u)) = balance h' u" for u h'
    using raw_quiet(5) [of u V] by (simp add: keeps_def)
  then show ?thesis
    by (simp add: quiesce_def case_prod_beta Let_def rawClose_balance split: sum.split)
qed

text \<open>What \<open>quiesce\<close> needs: a worker that has waiters has its epoll handle.\<close>

lemma quiesce_result:
  fixes V :: cgo and live :: bool and polls :: nat
  assumes ok: "worker_ok w" and ep: "0 \<le> epVLSH w \<or> waiters w = []"
  defines "w' \<equiv> snd (quiesce V live polls w)"
  shows "map_of (sessions w') k = None"
    "set (fst (quiesce V live polls w)) = dom (map_of (sessions w))"
    "pending w' = {}" "\<not> panicked w'"
    "set (ready_closed w') = wt_ready ` snd ` pending w \<union> set (ready_closed w)"
    "balance h (hist w') = balance h (hist w)
       - (if h \<in> ran (map_of (sessions w)) then 1 else 0) - (if 0 \<le> epVLSH w \<and> h = epVLSH w then 1 else 0)"
proof -
  let ?a = "wakeAllWaiters V w"
  have a: "sessions ?a = sessions w" "epVLSH ?a = epVLSH w" "pending ?a = {}" "\<not> panicked ?a" "waiters ?a = []"
    "set (ready_closed ?a) = wt_ready ` snd ` pending w \<union> set (ready_closed w)"
  proof -
    have "sessions ?a = sessions w \<and> epVLSH ?a = epVLSH w \<and> pending ?a = {} \<and> \<not> panicked ?a
      \<and> set (ready_closed ?a) = wt_ready ` snd ` pending w \<union> set (ready_closed w)"
    proof (cases "0 \<le> epVLSH w")
      case True
      with wakeAllWaiters_result [OF ok True, of V] show ?thesis
        by (simp add: worker_okD(1) tab_okD(5))
    next
      case False
      with ep wakeAll_idle [of w V] tab_okD(5) [OF worker_okD(1) [OF ok]] show ?thesis by simp
    qed
    then show "sessions ?a = sessions w" "epVLSH ?a = epVLSH w" "pending ?a = {}" "\<not> panicked ?a"
      "set (ready_closed ?a) = wt_ready ` snd ` pending w \<union> set (ready_closed w)" by simp_all
    show "waiters ?a = []" by (simp add: wakeAllWaiters_def)
  qed
  note cl = close_fold [of h V "sessions w" ?a k]
  show "map_of (sessions w') k = None"
    using cl by (simp add: w'_def quiesce_rest closeSessions_def a map_of_eq_None_iff)
  show "set (fst (quiesce V live polls w)) = dom (map_of (sessions w))"
    by (simp add: quiesce_def closeSessions_def case_prod_beta Let_def a dom_map_of_conv_image_fst split: sum.split)
  show "pending w' = {}" "\<not> panicked w'"
    "set (ready_closed w') = wt_ready ` snd ` pending w \<union> set (ready_closed w)"
    using cl a by (simp_all add: w'_def quiesce_rest closeSessions_def)
  show "balance h (hist w') = balance h (hist w)
      - (if h \<in> ran (map_of (sessions w)) then 1 else 0) - (if 0 \<le> epVLSH w \<and> h = epVLSH w then 1 else 0)"
    using cl count_sessions [OF worker_okD(2) [OF ok], of h]
    by (simp add: w'_def quiesce_balance closeSessions_def a wakeAll_hist_balance)
qed

section \<open>Raw listener waiters\<close>

text \<open>A raw listener is known under its own negative key or not at all.\<close>

definition raw_listener :: "handle \<Rightarrow> worker \<Rightarrow> bool" where
  "raw_listener raw w \<longleftrightarrow> map_of (sessions w) (raw_key raw) = Some raw
     \<or> map_of (sessions w) (raw_key raw) = None \<and> raw \<notin> ran (map_of (sessions w))"

lemma raw_key_negative [simp]: "0 \<le> raw \<Longrightarrow> raw_key raw < 0"
  by (simp add: raw_key_def)

lemma raw_key_inj: "raw_key a = raw_key b \<longleftrightarrow> a = b"
  by (simp add: raw_key_def)

lemma addWaiterRaw_result:
  fixes V :: cgo
  assumes ok: "worker_ok w" and raw: "raw_listener raw w" and fresh: "fresh_waiter x w"
  defines "res \<equiv> addWaiterRaw V raw x w"
  shows "worker_ok (snd res)" "ready_closed (snd res) = ready_closed w"
    "map_of (sessions (snd res)) (raw_key raw) = Some raw"
    "case fst res of Inl e \<Rightarrow> pending (snd res) = pending w
       | Inr _ \<Rightarrow> pending (snd res) = insert (raw_key raw, x) (pending w)"
proof -
  let ?w = "w\<lparr>sessions := AList.update (raw_key raw) raw (sessions w)\<rparr>"
  have "worker_ok ?w \<and> pending ?w = pending w"
  proof (cases "map_of (sessions w) (raw_key raw)")
    case None
    with raw add_session_ok [OF ok] show ?thesis by (simp add: raw_listener_def)
  next
    case (Some r)
    have d: "distinct (map fst (sessions w))" using worker_okD(2) [OF ok] by (simp add: watch_ok_def)
    from Some raw have r: "map_of (sessions w) (raw_key raw) = Some raw" by (auto simp: raw_listener_def)
    define u where "u = ?w"
    have u: "waiters u = waiters w" "map_of (sessions u) = map_of (sessions w)" "distinct (map fst (sessions u))"
      "w_interest u = w_interest w"
      using r d by (simp_all add: u_def fun_upd_idem)
    have "watch_ok u"
      using worker_okD(2) [OF ok] u(3) unfolding watch_ok_def u(1,2,4) by blast
    with worker_okD(1) [OF ok] tab_cong(1,2) [of u w] show ?thesis
      by (simp add: worker_ok_def u_def)
  qed
  moreover have "fresh_waiter x ?w" using fresh tab_cong(3) [of ?w w] by simp
  ultimately have j: "join_result (raw_key raw) x ?w (joinWaitSet V (raw_key raw) raw x ?w)"
    and p: "pending ?w = pending w"
    using joinWaitSet_result [of ?w "raw_key raw" raw x V] by simp_all
  have "res = joinWaitSet V (raw_key raw) raw x ?w"
    by (simp add: res_def addWaiterRaw_def Let_def)
  with j p show "worker_ok (snd res)" "ready_closed (snd res) = ready_closed w"
    "map_of (sessions (snd res)) (raw_key raw) = Some raw"
    "case fst res of Inl e \<Rightarrow> pending (snd res) = pending w
       | Inr _ \<Rightarrow> pending (snd res) = insert (raw_key raw, x) (pending w)"
    by (auto simp: join_result_def split: sum.splits)
qed

lemma removeWaitersRaw_result:
  fixes V :: cgo
  assumes ok: "worker_ok w" and raw: "raw_listener raw w"
  defines "w' \<equiv> removeWaitersRaw V raw w"
  shows "worker_ok w'" "pend_at w' (raw_key raw) = {}" "map_of (sessions w') (raw_key raw) = None"
    "pending w' = {p \<in> pending w. fst p \<noteq> raw_key raw}"
proof -
  let ?k = "raw_key raw"
  have ref: "current_ref (?k, raw) w"
    using raw watch_okD(1) [OF worker_okD(2) [OF ok], of ?k]
    by (cases "map_of (waiters w) ?k") (auto simp: current_ref_def raw_listener_def)
  define u where "u = removeWaiters V ?k raw w"
  have rel: "w_released ?k (pend_at w ?k) w u"
    using remove_laws [OF ok ref, of V] by (simp add: u_def)
  have w': "w' = u\<lparr>sessions := AList.delete ?k (sessions u)\<rparr>"
    by (simp add: w'_def removeWaitersRaw_def u_def removeWaiters_def Let_def split: option.split)
  have pu: "pending u = {p \<in> pending w. fst p \<noteq> ?k}"
    using rel by (auto simp: w_released_def pend_at_def)
  then have none: "map_of (waiters u) ?k = None"
    using rel by (intro no_pending_no_set) (auto simp: w_released_def worker_ok_def pend_at_def)
  show "worker_ok w'" "pending w' = {p \<in> pending w. fst p \<noteq> ?k}"
    using del_session_ok [OF w_released_laws(1) [OF rel] none] by (simp_all add: w' pu)
  then show "pend_at w' ?k = {}" by (auto simp: pend_at_def)
  show "map_of (sessions w') ?k = None" by (simp add: w')
qed

section \<open>Properties\<close>

text \<open>A worker with one session and a reader parked on it.\<close>

definition demo_worker :: worker where
  "demo_worker = (newWorker 1 False)\<lparr>epVLSH := 9, sessions := [(1, 4)]\<rparr>"

definition demo_parked :: worker where
  "demo_parked = snd (joinWaitSet demo_cgo 1 4 \<lparr>wt_vlsh = 1, wt_events = epollIn, wt_ready = 0\<rparr> demo_worker)"

lemma demo_worker_ok: "worker_ok demo_worker" "pending demo_worker = {}" "ready_closed demo_worker = []"
  by (simp_all add: worker_ok_def tab_ok_empty watch_ok_def demo_worker_def newWorker_def)

lemma demo_parked_state:
  "worker_ok demo_parked" "pending demo_parked = {(1, \<lparr>wt_vlsh = 1, wt_events = epollIn, wt_ready = 0\<rparr>)}"
  "ready_closed demo_parked = []" "sessions demo_parked = [(1, 4)]" "epVLSH demo_parked = 9"
  "balance h (hist demo_parked) = 0"
proof -
  let ?x = "\<lparr>wt_vlsh = 1, wt_events = epollIn, wt_ready = 0\<rparr>"
  have r: "fst (worker_add demo_cgo 4 1 epollIn demo_worker) = Inr ()"
    by (simp add: worker_add_def rawEpollAdd_def rawEpollCtl_def vclpoll_epoll_ctl_def)
  have j: "join_result 1 ?x demo_worker (joinWaitSet demo_cgo 1 4 ?x demo_worker)"
    by (rule joinWaitSet_result [OF demo_worker_ok(1)])
      (simp_all add: demo_worker_def newWorker_def fresh_waiter_def)
  have eq: "joinWaitSet demo_cgo 1 4 ?x demo_worker = (Inr (), demo_parked)"
    using r by (simp add: demo_parked_def joinWaitSet_def demo_worker_def newWorker_def case_prod_beta)
  show "worker_ok demo_parked" "pending demo_parked = {(1, ?x)}" "ready_closed demo_parked = []"
    "sessions demo_parked = [(1, 4)]" "epVLSH demo_parked = 9"
    using j unfolding eq join_result_def
    by (simp_all add: demo_worker_ok) (simp_all add: demo_worker_def)
  show "balance h (hist demo_parked) = 0"
    by (simp add: demo_parked_def joinWaitSet_def demo_worker_def newWorker_def worker_add_def
        rawEpollAdd_def rawEpollCtl_def vclpoll_epoll_ctl_def case_prod_beta split: sum.split)
qed

text \<open>A worker that quiesces releases everything it owns: every parked goroutine is woken, every
  session is forgotten and its raw handle closed exactly once, the epoll handle is closed, and
  the dispatcher is told exactly the public handles that are gone.\<close>

theorem quiesce_releases_everything:
  assumes "worker_ok w" and "0 \<le> epVLSH w \<or> waiters w = []" and "quiesce V live polls w = (publics, w')"
  shows "set publics = dom (map_of (sessions w)) \<and> map_of (sessions w') k = None
    \<and> pending w' = {} \<and> wt_ready ` snd ` pending w \<subseteq> set (ready_closed w') \<and> \<not> panicked w'
    \<and> balance h (hist w') = balance h (hist w)
        - (if h \<in> ran (map_of (sessions w)) then 1 else 0) - (if 0 \<le> epVLSH w \<and> h = epVLSH w then 1 else 0)"
  using quiesce_result [OF assms(1,2), where V = V and live = live and polls = polls]
  by (auto simp: assms(3))

lemma quiesce_releases_everything_witness:
  "let (publics, w') = quiesce demo_cgo True 2 demo_parked in
     set publics = {1} \<and> 0 \<in> set (ready_closed w') \<and> balance 4 (hist w') = -1 \<and> balance 9 (hist w') = -1"
  using quiesce_releases_everything [OF demo_parked_state(1) _ surjective_pairing,
      where V = demo_cgo and live = True and polls = 2 and h = 4]
    quiesce_releases_everything [OF demo_parked_state(1) _ surjective_pairing,
      where V = demo_cgo and live = True and polls = 2 and h = 9]
  by (simp add: demo_parked_state case_prod_beta)

text \<open>C25. Whatever a worker is asked to do with its waiters (add, cancel, remove, events), no
  channel is closed twice and no waiter it accepted is lost; waking all closes every channel.\<close>

theorem worker_conserves_waiters:
  assumes "worker_ok w" and "ww.run_allowed V (cs @ [WakeAll]) w"
  shows "worker_ok (ww.runs V (cs @ [WakeAll]) w) \<and> \<not> panicked (ww.runs V (cs @ [WakeAll]) w)
    \<and> wt_ready ` snd ` pending w \<union> ww.accepted V cs w \<subseteq> set (ready_closed (ww.runs V (cs @ [WakeAll]) w))"
  using ww.runs_wake_all [OF assms] ww.runs_inv [OF assms]
  by (auto simp: ww.known_def dest: worker_okD(1) tab_okD(5))

lemma worker_conserves_waiters_witness:
  "0 \<in> set (ready_closed (ww.runs demo_cgo [WakeAll] demo_parked))"
  using worker_conserves_waiters [OF demo_parked_state(1), of demo_cgo "[]"]
  by (simp add: ww.run_allowed.simps demo_parked_state)

text \<open>Cancelling a waiter of a session removes it, and tells the caller whether the event had
  already happened: \<open>true\<close> exactly when the waiter had been woken before.\<close>

theorem worker_cancel_reports_wakeup:
  assumes "worker_ok w" and "map_of (sessions w) public = Some raw"
    and "cancelWaiter V public raw x w = (b, w')"
  shows "(public, x) \<notin> pending w' \<and> b = waiterIsReady x w
    \<and> ((public, x) \<in> pending w \<longrightarrow> waiterIsReady x w') \<and> worker_ok w'"
proof -
  note c = cancelWaiter_result [OF assms(1,2), where x = x and V = V, unfolded assms(3)]
  have ref: "current_ref (public, raw) w" using assms(2) by (simp add: current_ref_def)
  note laws = cancel_laws [OF assms(1) ref, where V = V and x = x, unfolded fst_conv snd_conv assms(3)]
  have "\<not> waiterIsReady x w" if "(public, x) \<in> pending w"
    using tab_okD(4) [OF worker_okD(1) [OF assms(1)] that] by (simp add: waiterIsReady_def)
  moreover have "waiterIsReady x w'" if "(public, x) \<in> pending w"
  proof -
    have "wt_ready x \<in> wt_ready ` snd ` (pending w - pending w')"
      using that laws(3) by force
    then show ?thesis by (simp add: waiterIsReady_def laws(4))
  qed
  ultimately show ?thesis using c(2) laws(1,3) by auto
qed

lemma worker_cancel_reports_wakeup_witness:
  "fst (cancelWaiter demo_cgo 1 4 \<lparr>wt_vlsh = 1, wt_events = epollIn, wt_ready = 0\<rparr> demo_parked) = False"
  using worker_cancel_reports_wakeup [OF demo_parked_state(1) _ surjective_pairing, where V = demo_cgo
      and public = 1 and raw = 4 and x = "\<lparr>wt_vlsh = 1, wt_events = epollIn, wt_ready = 0\<rparr>"]
  by (simp add: demo_parked_state waiterIsReady_def)

text \<open>A batch of operations answers them first in first out, at most 64 of them, drops none, and
  asks for a poll without sleeping exactly when the batch was full; once the dispatcher is
  stopping every one is answered \<open>ErrClosed\<close> without running.\<close>

theorem drainOps_answers_in_order:
  "length (fst (drainOps limit refuse ops w)) = min limit (length ops)
   \<and> fst (snd (drainOps limit refuse ops w)) = drop limit ops
   \<and> (fst (snd (snd (drainOps limit refuse ops w))) \<longleftrightarrow> limit \<le> length ops)
   \<and> drainOps limit (\<lambda>_. True) ops w
       = (replicate (min limit (length ops)) (Inl PollErrClosed), drop limit ops, limit \<le> length ops, w)"
proof -
  obtain rs rest full w' where d: "drainOps limit refuse ops w = (rs, rest, full, w')"
    by (metis prod_cases4)
  obtain rs' rest' full' w'' where d': "drainOps limit (\<lambda>_. True) ops w = (rs', rest', full', w'')"
    by (metis prod_cases4)
  show ?thesis
    using drainOps_shape [OF d] drainOps_shape [OF d'] drainOps_refused [of "\<lambda>_. True" limit ops w]
    by (simp add: d d')
qed

end
