(* ===== verification/Mode2.thy ===== *)
theory Mode2
  imports WorkerLoop
begin

text \<open>
  The Mode 2 dispatcher (\<open>internal/vclpoll/mode2.go\<close>): virtual handles, their owners, and the
  operations it submits to the workers. \<open>V i\<close> is the environment of worker \<open>i\<close>'s thread. A
  submitted operation runs on its worker in one step; what else can become of it (refused
  because the dispatcher stops, or run but the reply lost to the worker's \<open>quiesced\<close> channel)
  is a parameter, an arbitrary function of the state, as is what happens while a goroutine is
  parked. A panic (the type assertion of \<open>lookup\<close>) is a sticky flag.
\<close>

section \<open>State\<close>

record shardAcceptResult =
  sa_handle :: handle
  sa_addr :: AddrInfo
  sa_err :: "vclpoll_error option"

record shardedListener =
  sl_public :: handle
  sl_shards :: "(nat \<times> handle) list"
  sl_acceptC :: "shardAcceptResult list"
  sl_stopped :: bool

text \<open>An entry of \<open>owners\<close>: a session of a worker, or a sharded listener (by its index).\<close>

datatype owner = SessionRef nat handle | ShardedRef nat

record mode2 =
  workers :: "worker list"
  owners :: "(handle \<times> owner) list"
  listeners :: "shardedListener list"
  rr :: u32
  nextHandle :: u32
  stopping :: bool
  appLive :: bool
  appCreated :: bool
  destroyed :: bool
  d_panicked :: bool

definition newMode2Dispatcher :: mode2 where
  "newMode2Dispatcher = \<lparr>workers = [], owners = [], listeners = [], rr = 0, nextHandle = 0,
     stopping = False, appLive = False, appCreated = False, destroyed = False, d_panicked = False\<rparr>"

definition maxVirtualHandle :: u32 where
  "maxVirtualHandle = push_bit 31 1 - 1"

section \<open>Submitting\<close>

definition at_worker :: "nat \<Rightarrow> (worker \<Rightarrow> 'a \<times> worker) \<Rightarrow> mode2 \<Rightarrow> 'a \<times> mode2" where
  "at_worker i f s = (let (r, w) = f (workers s ! i) in (r, s\<lparr>workers := (workers s)[i := w]\<rparr>))"

datatype submit_fate = Answered | Refused | AnswerLost

definition submit :: "(mode2 \<Rightarrow> submit_fate) \<Rightarrow> (mode2 \<Rightarrow> 'a poll_result \<times> mode2) \<Rightarrow> mode2
    \<Rightarrow> 'a poll_result \<times> mode2" where
  "submit F f s =
     (if stopping s \<or> \<not> appLive s then (Inl PollErrClosed, s)
      else (case F s of
              Refused \<Rightarrow> (Inl PollErrClosed, s)
            | AnswerLost \<Rightarrow> (Inl PollErrClosed, snd (f s))
            | Answered \<Rightarrow> f s))"

text \<open>\<open>d.rr.Add(1) - 1\<close>, reduced in 32 bits.\<close>

definition pickWorker :: "mode2 \<Rightarrow> nat \<times> mode2" where
  "pickWorker s = (unat (rr s mod of_nat (length (workers s))), s\<lparr>rr := rr s + 1\<rparr>)"

section \<open>Sessions\<close>

definition close_raw :: "(nat \<Rightarrow> cgo) \<Rightarrow> nat \<Rightarrow> handle \<Rightarrow> mode2 \<Rightarrow> unit poll_result \<times> mode2" where
  "close_raw V i raw s = at_worker i (on_worker (rawClose (V i) raw)) s"

definition registerSession :: "(nat \<Rightarrow> cgo) \<Rightarrow> nat \<Rightarrow> handle \<Rightarrow> mode2 \<Rightarrow> handle poll_result \<times> mode2" where
  "registerSession V i raw s =
     (case at_worker i (checkOwnership (V i) raw) s of
        (Inl e, s) \<Rightarrow> (Inl e, snd (close_raw V i raw s))
      | (Inr _, s) \<Rightarrow>
          (let id = nextHandle s + 1;
               s = s\<lparr>nextHandle := id\<rparr>
           in if id = 0 \<or> id > maxVirtualHandle then
                (Inl (Errorf ''vclpoll: virtual session handle space exhausted''), snd (close_raw V i raw s))
              else
                (let public = sint id;
                     s = snd (at_worker i (\<lambda>w. ((), w\<lparr>sessions := AList.update public raw (sessions w)\<rparr>)) s)
                 in (Inr public, s\<lparr>owners := AList.update public (SessionRef i raw) (owners s)\<rparr>))))"

text \<open>\<open>None\<close>: the entry is a sharded listener, and the type assertion panics.\<close>

definition lookup :: "handle \<Rightarrow> mode2 \<Rightarrow> (nat \<times> handle) poll_result option" where
  "lookup public s =
     (case map_of (owners s) public of
        None \<Rightarrow> Some (Inl PollErrClosed)
      | Some (SessionRef i raw) \<Rightarrow> Some (Inr (i, raw))
      | Some (ShardedRef n) \<Rightarrow> None)"

definition lookupShardedListener :: "handle \<Rightarrow> mode2 \<Rightarrow> nat option" where
  "lookupShardedListener public s =
     (case map_of (owners s) public of Some (ShardedRef n) \<Rightarrow> Some n | _ \<Rightarrow> None)"

definition unregisterSession :: "nat \<Rightarrow> handle \<Rightarrow> mode2 \<Rightarrow> mode2" where
  "unregisterSession i public s =
     (let s = snd (at_worker i (\<lambda>w. ((), w\<lparr>sessions := AList.delete public (sessions w)\<rparr>)) s)
      in s\<lparr>owners := AList.delete public (owners s)\<rparr>)"

text \<open>A panic leaves no result; an error stands for it.\<close>

definition with_lookup :: "handle \<Rightarrow> (nat \<times> handle \<Rightarrow> mode2 \<Rightarrow> 'a poll_result \<times> mode2) \<Rightarrow> mode2
    \<Rightarrow> 'a poll_result \<times> mode2" where
  "with_lookup public f s =
     (case lookup public s of
        None \<Rightarrow> (Inl (Errorf ''panic: interface conversion''), s\<lparr>d_panicked := True\<rparr>)
      | Some (Inl e) \<Rightarrow> (Inl e, s)
      | Some (Inr ref) \<Rightarrow> f ref s)"

definition sessionCall :: "(nat \<Rightarrow> cgo) \<Rightarrow> (mode2 \<Rightarrow> submit_fate) \<Rightarrow> handle
    \<Rightarrow> (cgo \<Rightarrow> handle \<Rightarrow> worker \<Rightarrow> 'a poll_result \<times> worker) \<Rightarrow> mode2 \<Rightarrow> 'a poll_result \<times> mode2" where
  "sessionCall V F public fn =
     with_lookup public (\<lambda>(i, expected). submit F (at_worker i (\<lambda>w.
       case ownedRaw (V i) public expected w of
         (Inl e, w) \<Rightarrow> (Inl e, w)
       | (Inr raw, w) \<Rightarrow> fn (V i) raw w)))"

section \<open>Creating\<close>

definition create :: "(nat \<Rightarrow> cgo) \<Rightarrow> (mode2 \<Rightarrow> submit_fate) \<Rightarrow> (cgo \<Rightarrow> (world, handle poll_result) state)
    \<Rightarrow> mode2 \<Rightarrow> handle poll_result \<times> mode2" where
  "create V F fn s =
     (let (i, s) = pickWorker s in
      submit F (\<lambda>s.
        case at_worker i (on_worker (fn (V i))) s of
          (Inl e, s) \<Rightarrow> (Inl e, s)
        | (Inr raw, s) \<Rightarrow> registerSession V i raw s) s)"

definition createConnect :: "(nat \<Rightarrow> cgo) \<Rightarrow> (mode2 \<Rightarrow> submit_fate)
    \<Rightarrow> (cgo \<Rightarrow> (world, connect_result) state) \<Rightarrow> mode2 \<Rightarrow> connect_result \<times> mode2" where
  "createConnect V F fn s =
     (let (i, s) = pickWorker s in
      submit F (\<lambda>s.
        case at_worker i (on_worker (fn (V i))) s of
          (Inl e, s) \<Rightarrow> (Inl e, s)
        | (Inr (raw, immediate), s) \<Rightarrow>
            (case registerSession V i raw s of
               (Inl e, s) \<Rightarrow> (Inl e, s)
             | (Inr public, s) \<Rightarrow> (Inr (public, immediate), s))) s)"

definition mode2_bindUDP4 where
  "mode2_bindUDP4 V F ip port = create V F (\<lambda>C. mode3BindUDP4 C ip port)"

definition mode2_bindUDP6 where
  "mode2_bindUDP6 V F ip port = create V F (\<lambda>C. mode3BindUDP6 C ip port)"

definition mode2_connectTCP4Start where
  "mode2_connectTCP4Start V F ip port = createConnect V F (\<lambda>C. mode3ConnectTCP4Start C ip port)"

definition mode2_connectTCP6Start where
  "mode2_connectTCP6Start V F ip port = createConnect V F (\<lambda>C. mode3ConnectTCP6Start C ip port)"

definition mode2_connectTLS4Start where
  "mode2_connectTLS4Start V F ip port ckp valid = createConnect V F (\<lambda>C. rawConnectTLS4Start C ip port ckp valid)"

definition mode2_connectTLS6Start where
  "mode2_connectTLS6Start V F ip port ckp valid = createConnect V F (\<lambda>C. rawConnectTLS6Start C ip port ckp valid)"

text \<open>UDP connects block on the worker and are always immediate.\<close>

definition immediate :: "(world, handle poll_result) state \<Rightarrow> (world, connect_result) state" where
  "immediate m = do {
     r \<leftarrow> m;
     State_Monad.return (case r of Inl e \<Rightarrow> Inl e | Inr h \<Rightarrow> Inr (h, True)) }"

definition mode2_connectUDP4Start where
  "mode2_connectUDP4Start V F ip port = createConnect V F (\<lambda>C. immediate (mode3ConnectUDP4 C ip port))"

definition mode2_connectUDP6Start where
  "mode2_connectUDP6Start V F ip port = createConnect V F (\<lambda>C. immediate (mode3ConnectUDP6 C ip port))"

definition mode2_addCertKeyPair :: "(nat \<Rightarrow> cgo) \<Rightarrow> (mode2 \<Rightarrow> submit_fate) \<Rightarrow> u8 list \<Rightarrow> u8 list
    \<Rightarrow> mode2 \<Rightarrow> u32 poll_result \<times> mode2" where
  "mode2_addCertKeyPair V F cert key s =
     (let (i, s) = pickWorker s
      in submit F (at_worker i (on_worker (rawAddCertKeyPair (V i) cert key))) s)"

definition mode2_delCertKeyPair :: "(nat \<Rightarrow> cgo) \<Rightarrow> (mode2 \<Rightarrow> submit_fate) \<Rightarrow> u32
    \<Rightarrow> mode2 \<Rightarrow> unit poll_result \<times> mode2" where
  "mode2_delCertKeyPair V F idx s =
     (let (i, s) = pickWorker s
      in submit F (at_worker i (on_worker (rawDelCertKeyPair (V i) idx))) s)"

section \<open>Calls on a session\<close>

definition mode2_shutdown where
  "mode2_shutdown V F h how = sessionCall V F h (\<lambda>C raw. on_worker (rawShutdown C raw how))"

definition mode2_sessionConnectError where
  "mode2_sessionConnectError V F h = sessionCall V F h (\<lambda>C raw. on_worker (rawSessionConnectError C raw))"

definition mode2_getPeerAddr where
  "mode2_getPeerAddr V F h = sessionCall V F h (\<lambda>C raw. on_worker (mode3GetPeerAddr C raw))"

text \<open>One attempt of the loops of \<open>readContext\<close>, \<open>writeContext\<close>, \<open>sendToContext\<close>, \<open>recvFromContext\<close>.\<close>

definition read_attempt where
  "read_attempt V F h n = sessionCall V F h (\<lambda>C raw. on_worker (rawRead C raw n))"

definition write_attempt where
  "write_attempt V F h p = sessionCall V F h (\<lambda>C raw. on_worker (rawWrite C raw p))"

definition sendTo_attempt where
  "sendTo_attempt V F h p addr = sessionCall V F h (\<lambda>C raw. on_worker (rawSendTo C raw p addr))"

definition recvFrom_attempt where
  "recvFrom_attempt V F h n = sessionCall V F h (\<lambda>C raw. on_worker (rawRecvFrom C raw n))"

definition accept_attempt :: "(nat \<Rightarrow> cgo) \<Rightarrow> (mode2 \<Rightarrow> submit_fate) \<Rightarrow> handle \<Rightarrow> mode2
    \<Rightarrow> (handle \<times> AddrInfo) poll_result \<times> mode2" where
  "accept_attempt V F listener =
     with_lookup listener (\<lambda>(i, expected). submit F (\<lambda>s.
       case at_worker i (ownedRaw (V i) listener expected) s of
         (Inl e, s) \<Rightarrow> (Inl e, s)
       | (Inr raw, s) \<Rightarrow>
           (case at_worker i (on_worker (rawAcceptFull (V i) raw)) s of
              (Inl e, s) \<Rightarrow> (Inl e, s)
            | (Inr (conn, addr), s) \<Rightarrow>
                (case registerSession V i conn s of
                   (Inl e, s) \<Rightarrow> (Inl e, s)
                 | (Inr public, s) \<Rightarrow> (Inr (public, addr), s)))))"

definition wakeVLSH :: "(nat \<Rightarrow> cgo) \<Rightarrow> (mode2 \<Rightarrow> submit_fate) \<Rightarrow> handle \<Rightarrow> mode2 \<Rightarrow> unit poll_result \<times> mode2" where
  "wakeVLSH V F h =
     with_lookup h (\<lambda>(i, raw). submit F (at_worker i (\<lambda>w. (Inr (), removeWaiters (V i) h raw w))))"

text \<open>\<open>close\<close> for a session; sharded listeners are in theory \<open>ShardListener\<close>.\<close>

definition closeSessionHandle :: "(nat \<Rightarrow> cgo) \<Rightarrow> (mode2 \<Rightarrow> submit_fate) \<Rightarrow> handle \<Rightarrow> mode2
    \<Rightarrow> unit poll_result \<times> mode2" where
  "closeSessionHandle V F h =
     with_lookup h (\<lambda>(i, expected). submit F (\<lambda>s.
       case at_worker i (ownedRaw (V i) h expected) s of
         (Inl e, s) \<Rightarrow> (Inl e, s)
       | (Inr raw, s) \<Rightarrow>
           (let (_, s) = at_worker i (\<lambda>w. ((), removeWaiters (V i) h raw w)) s;
                (closeErr, s) = close_raw V i raw s
            in (closeErr, unregisterSession i h s))))"

section \<open>Running on one worker\<close>

lemma at_worker_sel [simp]:
  "owners (snd (at_worker i f s)) = owners s" "listeners (snd (at_worker i f s)) = listeners s"
  "rr (snd (at_worker i f s)) = rr s" "nextHandle (snd (at_worker i f s)) = nextHandle s"
  "stopping (snd (at_worker i f s)) = stopping s" "appLive (snd (at_worker i f s)) = appLive s"
  "d_panicked (snd (at_worker i f s)) = d_panicked s"
  "fst (at_worker i f s) = fst (f (workers s ! i))"
  "workers (snd (at_worker i f s)) = (workers s)[i := snd (f (workers s ! i))]"
  by (simp_all add: at_worker_def case_prod_beta)

lemma close_raw_sel [simp]:
  "owners (snd (close_raw V i raw s)) = owners s" "nextHandle (snd (close_raw V i raw s)) = nextHandle s"
  "listeners (snd (close_raw V i raw s)) = listeners s" "d_panicked (snd (close_raw V i raw s)) = d_panicked s"
  "workers (snd (close_raw V i raw s)) = (workers s)[i := snd (on_worker (rawClose (V i) raw) (workers s ! i))]"
  by (simp_all add: close_raw_def)

text \<open>
  Every owned virtual handle is positive and was issued; a session is entered for exactly the
  worker that holds it; and the workers are well formed. (Negative keys of a worker's session
  table are its raw listeners, which the dispatcher does not know.)
\<close>

definition mode2_ok :: "mode2 \<Rightarrow> bool" where
  "mode2_ok s \<longleftrightarrow> (\<forall>i < length (workers s). worker_ok (workers s ! i))
     \<and> (\<forall>h \<in> dom (map_of (owners s)). 0 < h \<and> h \<le> uint (nextHandle s))
     \<and> (\<forall>h i raw. map_of (owners s) h = Some (SessionRef i raw) \<longleftrightarrow>
          0 < h \<and> i < length (workers s) \<and> map_of (sessions (workers s ! i)) h = Some raw)"

lemma mode2_okD:
  assumes "mode2_ok s"
  shows "i < length (workers s) \<Longrightarrow> worker_ok (workers s ! i)"
    "map_of (owners s) h = Some x \<Longrightarrow> 0 < h \<and> h \<le> uint (nextHandle s)"
    "map_of (owners s) h = Some (SessionRef i raw) \<Longrightarrow>
       i < length (workers s) \<and> map_of (sessions (workers s ! i)) h = Some raw"
    "0 < h \<Longrightarrow> i < length (workers s) \<Longrightarrow> map_of (sessions (workers s ! i)) h = Some raw \<Longrightarrow>
       map_of (owners s) h = Some (SessionRef i raw)"
  using assms unfolding mode2_ok_def by blast+

text \<open>A step of one worker that keeps its invariant and its public sessions.\<close>

lemma mode2_ok_worker:
  assumes ok: "mode2_ok s" and i: "i < length (workers s)"
    and f: "worker_ok w'" "\<And>h. 0 < h \<Longrightarrow> map_of (sessions w') h = map_of (sessions (workers s ! i)) h"
    and s': "workers s' = (workers s)[i := w']" "owners s' = owners s" "nextHandle s' = nextHandle s"
  shows "mode2_ok s'"
  unfolding mode2_ok_def s'
proof (intro conjI allI impI)
  show "worker_ok ((workers s)[i := w'] ! j)" if "j < length ((workers s)[i := w'])" for j
    using that f(1) mode2_okD(1) [OF ok] by (cases "j = i") simp_all
  show "\<forall>h\<in>dom (map_of (owners s)). 0 < h \<and> h \<le> uint (nextHandle s)"
    using ok by (simp add: mode2_ok_def)
  show "(map_of (owners s) h = Some (SessionRef j raw)) = (0 < h \<and> j < length ((workers s)[i := w'])
      \<and> map_of (sessions ((workers s)[i := w'] ! j)) h = Some raw)" for h j raw
    using ok f(2) [of h] i unfolding mode2_ok_def by (cases "j = i") auto
qed

lemma mode2_ok_next:
  assumes ok: "mode2_ok s" and s': "workers s' = workers s" "owners s' = owners s" "nextHandle s \<le> nextHandle s'"
  shows "mode2_ok s'"
proof -
  have "0 < h \<and> h \<le> uint (nextHandle s')" if "h \<in> dom (map_of (owners s))" for h
    using that mode2_okD(2) [OF ok, of h] s'(3) by (fastforce simp: word_le_def)
  with ok show ?thesis unfolding mode2_ok_def s'(1,2) by blast
qed

text \<open>A bridge call that is not about the worker's epoll set keeps the worker as it is.\<close>

definition leaves_epoll :: "(world, 'a) state \<Rightarrow> handle \<Rightarrow> bool" where
  "leaves_epoll m ep \<longleftrightarrow> (\<forall>w. interest ep (snd (run_state m w)) = interest ep w)"

lemma on_worker_ok:
  assumes "worker_ok w" "leaves_epoll m (epVLSH w)"
  shows "worker_ok (snd (on_worker m w))" "pending (snd (on_worker m w)) = pending w"
  using assms worker_ok_cong [of "snd (on_worker m w)" w] by (simp_all add: leaves_epoll_def)

lemma rawClose_leaves [simp]: "leaves_epoll (rawClose C raw) ep"
  by (simp add: leaves_epoll_def rawClose_def vclpoll_close_def)

lemma checkOwnership_ok:
  assumes "worker_ok w"
  shows "worker_ok (snd (checkOwnership C raw w))" "sessions (snd (checkOwnership C raw w)) = sessions w"
    "pending (snd (checkOwnership C raw w)) = pending w"
    "balance h (hist (snd (checkOwnership C raw w))) = balance h (hist w)"
    "epVLSH (snd (checkOwnership C raw w)) = epVLSH w" "waiters (snd (checkOwnership C raw w)) = waiters w"
proof -
  let ?w' = "snd (checkOwnership C raw w)"
  have s: "waiters ?w' = waiters w" "ready_closed ?w' = ready_closed w" "panicked ?w' = panicked w"
    "sessions ?w' = sessions w" "epVLSH ?w' = epVLSH w" "w_interest ?w' = w_interest w"
    "balance h (hist ?w') = balance h (hist w)"
    by (simp_all add: checkOwnership_def case_prod_beta Let_def rawSessionWorker_def vclpoll_session_worker_def)
  with worker_ok_cong [OF s(1-4,6)] assms
  show "worker_ok ?w'" "sessions ?w' = sessions w" "pending ?w' = pending w"
    "balance h (hist ?w') = balance h (hist w)" "epVLSH ?w' = epVLSH w" "waiters ?w' = waiters w"
    by simp_all
qed

lemma ownedRaw_run:
  "ownedRaw C h raw w = (if map_of (sessions w) h = Some raw
     then (case fst (checkOwnership C raw w) of Inl e \<Rightarrow> Inl e | Inr _ \<Rightarrow> Inr raw, snd (checkOwnership C raw w))
     else (Inl PollErrClosed, w))"
  by (simp add: ownedRaw_def case_prod_beta split: sum.split)

section \<open>Registering a session\<close>

lemma next_uint:
  fixes n :: u32
  assumes "n + 1 \<noteq> 0"
  shows "uint (n + 1) = uint n + 1"
proof -
  have lt: "uint n < 2 ^ 32" using uint_lt2p [of n] by simp
  have m: "uint (n + 1) = (uint n + 1) mod 2 ^ 32"
    by (simp add: uint_word_ariths)
  show ?thesis
  proof (cases "uint n + 1 = 2 ^ 32")
    case True
    with m have "uint (n + 1) = 0" by simp
    with assms show ?thesis by (simp add: uint_0_iff)
  next
    case False
    with lt m show ?thesis by simp
  qed
qed

lemma id_bounds:
  fixes n :: u32
  assumes "n + 1 \<noteq> 0" "\<not> n + 1 > maxVirtualHandle"
  shows "sint (n + 1) = uint n + 1" "0 < sint (n + 1)" "sint (n + 1) = uint (n + 1)"
proof -
  have u: "uint (n + 1) = uint n + 1" by (rule next_uint [OF assms(1)])
  have "uint (n + 1) \<le> uint maxVirtualHandle"
    using assms(2) by (simp add: word_le_def not_less)
  then have b: "uint (n + 1) < 2 ^ 31"
    by (simp add: maxVirtualHandle_def push_bit_eq_mult)
  have "sint (n + 1) = uint (n + 1)"
    unfolding sint_uint using b order_trans [OF _ uint_ge_0 [of "n + 1"], of "- (2 ^ 31)"]
    by (intro signed_take_bit_int_eq_self) simp_all
  with u show "sint (n + 1) = uint n + 1" "0 < sint (n + 1)" "sint (n + 1) = uint (n + 1)"
    using uint_ge_0 [of n] by simp_all
qed

text \<open>
  A registered session gets the next virtual handle, which was not in use; a refused one is
  closed. Nothing else of the dispatcher or of the other workers changes.
\<close>

text \<open>A worker gains a public session under a handle nobody owns.\<close>

lemma mode2_ok_new_session:
  assumes ok: "mode2_ok s" and i: "i < length (workers s)" and p: "0 < p" "map_of (owners s) p = None"
    and w': "worker_ok w'" "map_of (sessions w') p = Some raw"
      "\<And>h. 0 < h \<Longrightarrow> h \<noteq> p \<Longrightarrow> map_of (sessions w') h = map_of (sessions (workers s ! i)) h"
    and s': "workers s' = (workers s)[i := w']" "map_of (owners s') = (map_of (owners s))(p \<mapsto> SessionRef i raw)"
      "p \<le> uint (nextHandle s')" "uint (nextHandle s) \<le> uint (nextHandle s')"
  shows "mode2_ok s'"
  unfolding mode2_ok_def
proof (intro conjI allI impI ballI)
  show "worker_ok (workers s' ! j)" if "j < length (workers s')" for j
    using that w'(1) mode2_okD(1) [OF ok] s'(1) by (cases "j = i") simp_all
  have "0 < h \<and> h \<le> uint (nextHandle s')" if "h \<in> dom (map_of (owners s'))" for h
  proof (cases "h = p")
    case False
    with that s'(2) obtain x where "map_of (owners s) h = Some x" by auto
    with mode2_okD(2) [OF ok this] s'(4) show ?thesis by linarith
  qed (use p s' in simp)
  then show "h \<in> dom (map_of (owners s')) \<Longrightarrow> 0 < h" "h \<in> dom (map_of (owners s')) \<Longrightarrow> h \<le> uint (nextHandle s')" for h
    by blast+
  show "(map_of (owners s') h = Some (SessionRef j r)) = (0 < h \<and> j < length (workers s') \<and> map_of (sessions (workers s' ! j)) h = Some r)"
    for h j r
  proof (cases "h = p")
    case True
    have "map_of (sessions (workers s ! j)) p = None" if "j < length (workers s)"
      using mode2_okD(4) [OF ok p(1) that] p(2) by (cases "map_of (sessions (workers s ! j)) p") auto
    with True i p(1) w'(2) s'(1,2) show ?thesis by (cases "j = i") auto
  next
    case False
    have "(map_of (owners s) h = Some (SessionRef j r))
        = (0 < h \<and> j < length (workers s) \<and> map_of (sessions (workers s ! j)) h = Some r)"
      using ok unfolding mode2_ok_def by blast
    with False i w'(3) [of h] s'(1,2) show ?thesis by (cases "j = i") auto
  qed
qed

text \<open>The raw session of a registration that is refused is closed; numbers may have been used up.\<close>

lemma close_refused_raw:
  assumes ok: "mode2_ok s" and i: "i < length (workers s)" and w: "worker_ok w" "pending w = pending (workers s ! i)"
      "\<And>h. balance h (hist w) = balance h (hist (workers s ! i))" "sessions w = sessions (workers s ! i)"
    and s1: "workers s1 = (workers s)[i := w]" "owners s1 = owners s" "nextHandle s \<le> nextHandle s1"
    and s2: "s2 = snd (close_raw V i raw s1)"
  shows "mode2_ok s2" "length (workers s2) = length (workers s)" "j \<noteq> i \<Longrightarrow> workers s2 ! j = workers s ! j" "owners s2 = owners s"
    "pending (workers s2 ! i) = pending (workers s ! i)"
    "balance h (hist (workers s2 ! i)) = balance h (hist (workers s ! i)) - (if h = raw then 1 else 0)"
proof -
  let ?w = "snd (on_worker (rawClose (V i) raw) w)"
  have "worker_ok ?w" "pending ?w = pending (workers s ! i)" using on_worker_ok [OF w(1) rawClose_leaves] w(2) by simp_all
  note w2 = this
  have wi: "workers s1 ! i = w" using i s1(1) by simp
  have sel: "workers s2 = (workers s)[i := ?w]" "owners s2 = owners s" "nextHandle s2 = nextHandle s1"
    using s1 wi by (simp_all add: s2 close_raw_sel)
  have "mode2_ok (s\<lparr>workers := (workers s)[i := ?w]\<rparr>)"
    by (rule mode2_ok_worker [OF ok i w2(1)]) (simp_all add: w(4))
  then show "mode2_ok s2" by (rule mode2_ok_next) (simp_all add: sel s1(3))
  show "length (workers s2) = length (workers s)" "j \<noteq> i \<Longrightarrow> workers s2 ! j = workers s ! j" "owners s2 = owners s"
    "pending (workers s2 ! i) = pending (workers s ! i)"
    "balance h (hist (workers s2 ! i)) = balance h (hist (workers s ! i)) - (if h = raw then 1 else 0)"
    using i w2(2) w(3) by (simp_all add: sel rawClose_balance)
qed

text \<open>What a registration does: refused, and the raw session closed; or the next handle, owned by the worker.\<close>

lemma registerSession_refused:
  fixes V :: "nat \<Rightarrow> cgo"
  assumes ok: "mode2_ok s" and i: "i < length (workers s)" and wrap: "nextHandle s + 1 \<noteq> 0"
    and err: "registerSession V i raw s = (Inl e, s')"
  shows "mode2_ok s'" "length (workers s') = length (workers s)" "j \<noteq> i \<Longrightarrow> workers s' ! j = workers s ! j" "owners s' = owners s"
    "pending (workers s' ! i) = pending (workers s ! i)"
    "balance h (hist (workers s' ! i)) = balance h (hist (workers s ! i)) - (if h = raw then 1 else 0)"
proof -
  let ?c = "checkOwnership (V i) raw (workers s ! i)" and ?s1 = "snd (at_worker i (checkOwnership (V i) raw) s)"
  note c = checkOwnership_ok [OF mode2_okD(1) [OF ok i], where C = "V i" and raw = raw]
  have mono: "nextHandle s \<le> nextHandle s + 1" using next_uint [OF wrap] by (simp add: word_le_def)
  have "\<exists>s1. workers s1 = (workers s)[i := snd ?c] \<and> owners s1 = owners s \<and> nextHandle s \<le> nextHandle s1
      \<and> s' = snd (close_raw V i raw s1)"
  proof (cases "fst ?c")
    case (Inl e')
    with err have "s' = snd (close_raw V i raw ?s1)" by (simp add: registerSession_def case_prod_beta)
    then show ?thesis by (intro exI [of _ ?s1]) simp
  next
    case (Inr u)
    with err wrap have "s' = snd (close_raw V i raw (?s1\<lparr>nextHandle := nextHandle s + 1\<rparr>))"
      by (simp add: registerSession_def case_prod_beta Let_def split: if_splits)
    then show ?thesis using mono by (intro exI [of _ "?s1\<lparr>nextHandle := nextHandle s + 1\<rparr>"]) simp
  qed
  then obtain s1 where "workers s1 = (workers s)[i := snd ?c]" "owners s1 = owners s" "nextHandle s \<le> nextHandle s1"
    "s' = snd (close_raw V i raw s1)" by blast
  note close = close_refused_raw [OF ok i c(1,3,4,2) this]
  show "mode2_ok s'" "length (workers s') = length (workers s)" "j \<noteq> i \<Longrightarrow> workers s' ! j = workers s ! j" "owners s' = owners s"
    "pending (workers s' ! i) = pending (workers s ! i)"
    "balance h (hist (workers s' ! i)) = balance h (hist (workers s ! i)) - (if h = raw then 1 else 0)"
    using close by simp_all
qed

lemma registerSession_issued:
  fixes V :: "nat \<Rightarrow> cgo"
  assumes ok: "mode2_ok s" and i: "i < length (workers s)" and raw: "raw \<notin> ran (map_of (sessions (workers s ! i)))"
    and wrap: "nextHandle s + 1 \<noteq> 0" and res: "registerSession V i raw s = (Inr p, s')"
  shows "mode2_ok s'" "length (workers s') = length (workers s)" "j \<noteq> i \<Longrightarrow> workers s' ! j = workers s ! j"
    "pending (workers s' ! i) = pending (workers s ! i)" "balance h (hist (workers s' ! i)) = balance h (hist (workers s ! i))"
    "p = uint (nextHandle s) + 1" "p < 2 ^ 31" "map_of (owners s) p = None"
    "map_of (owners s') = (map_of (owners s))(p \<mapsto> SessionRef i raw)"
proof -
  let ?c = "checkOwnership (V i) raw (workers s ! i)" and ?id = "nextHandle s + 1"
  note c = checkOwnership_ok [OF mode2_okD(1) [OF ok i], where C = "V i" and raw = raw]
  from res have free: "\<not> ?id > maxVirtualHandle" and p: "p = sint ?id"
    by (auto simp: registerSession_def case_prod_beta Let_def split: sum.splits if_splits)
  note id = id_bounds [OF wrap free]
  let ?w = "(snd ?c)\<lparr>sessions := AList.update p raw (sessions (snd ?c))\<rparr>"
  have s': "workers s' = (workers s)[i := ?w]" "owners s' = AList.update p (SessionRef i raw) (owners s)" "nextHandle s' = ?id"
    using res i by (auto simp: p registerSession_def case_prod_beta Let_def at_worker_def split: sum.splits if_splits)
  show unused: "map_of (owners s) p = None"
    using mode2_okD(2) [OF ok, of p] id(1) p by (cases "map_of (owners s) p") auto
  have new: "map_of (sessions (workers s ! i)) p = None"
    using mode2_okD(4) [OF ok _ i] id(2) unused p by (cases "map_of (sessions (workers s ! i)) p") auto
  have w: "worker_ok ?w" "pending ?w = pending (workers s ! i)"
    using add_session_ok [OF c(1), of raw p] raw new c(2,3) by simp_all
  show "mode2_ok s'"
    by (rule mode2_ok_new_session [OF ok i _ unused w(1)]) (use id p c(2) s' in \<open>auto simp: update_conv'\<close>)
  show "length (workers s') = length (workers s)" "j \<noteq> i \<Longrightarrow> workers s' ! j = workers s ! j"
    "pending (workers s' ! i) = pending (workers s ! i)" "balance h (hist (workers s' ! i)) = balance h (hist (workers s ! i))"
    "map_of (owners s') = (map_of (owners s))(p \<mapsto> SessionRef i raw)"
    using i w(2) c(4) s' by (simp_all add: update_conv')
  show "p = uint (nextHandle s) + 1" "p < 2 ^ 31" using id p sint_lt [of ?id] by simp_all
qed

lemma registerSession_result:
  fixes V :: "nat \<Rightarrow> cgo"
  assumes ok: "mode2_ok s" and i: "i < length (workers s)" and raw: "raw \<notin> ran (map_of (sessions (workers s ! i)))"
    and wrap: "nextHandle s + 1 \<noteq> 0"
  defines "res \<equiv> registerSession V i raw s"
  shows "mode2_ok (snd res)" "length (workers (snd res)) = length (workers s)"
    "j \<noteq> i \<Longrightarrow> workers (snd res) ! j = workers s ! j"
    "pending (workers (snd res) ! i) = pending (workers s ! i)"
    "balance h (hist (workers (snd res) ! i)) = balance h (hist (workers s ! i))
       - (case fst res of Inl e \<Rightarrow> if h = raw then 1 else 0 | Inr _ \<Rightarrow> 0)"
    "case fst res of
       Inl e \<Rightarrow> owners (snd res) = owners s
     | Inr public \<Rightarrow> public = uint (nextHandle s) + 1 \<and> public < 2 ^ 31 \<and> map_of (owners s) public = None
         \<and> map_of (owners (snd res)) = (map_of (owners s))(public \<mapsto> SessionRef i raw)"
proof (atomize (full), cases "fst res", goal_cases)
  case (1 e)
  then have "registerSession V i raw s = (Inl e, snd res)" by (simp add: res_def prod_eq_iff)
  from registerSession_refused [OF ok i wrap this] 1 show ?case by simp
next
  case (2 p)
  then have "registerSession V i raw s = (Inr p, snd res)" by (simp add: res_def prod_eq_iff)
  from registerSession_issued [OF ok i raw wrap this] 2 show ?case by simp
qed

end
