(* ===== verification/Mode2Laws.thy ===== *)
theory Mode2Laws
  imports Mode2
begin

text \<open>
  What the Mode 2 dispatcher promises about virtual handles: each is issued once, an operation on
  one touches the worker that owns it and no other, and a closed one is refused everywhere.
\<close>

section \<open>Calls that leave the epoll set alone\<close>

lemma leaves_return [intro!]: "leaves_epoll (State_Monad.return x) ep"
  by (simp add: leaves_epoll_def)

lemma leaves_bind [intro]:
  "leaves_epoll m ep \<Longrightarrow> (\<And>x. leaves_epoll (f x) ep) \<Longrightarrow> leaves_epoll (m \<bind> f) ep"
  by (simp add: leaves_epoll_def run_state_bind case_prod_beta)

lemma leaves_if: "leaves_epoll m ep \<Longrightarrow> leaves_epoll m' ep \<Longrightarrow> leaves_epoll (if b then m else m') ep"
  by simp

lemma leaves_split: "(\<And>a b. leaves_epoll (f a b) ep) \<Longrightarrow> leaves_epoll (case p of (a, b) \<Rightarrow> f a b) ep"
  by (cases p) simp

lemma leaves_split3:
  "(\<And>a b c. leaves_epoll (f a b c) ep) \<Longrightarrow> leaves_epoll (case p of (a, b, c) \<Rightarrow> f a b c) ep"
  by (cases p) simp

lemma leaves_vcall:
  assumes "\<And>e op h ev. c \<noteq> VlsEpollCtl e op h ev"
  shows "leaves_epoll (vcall V c) ep" "leaves_epoll (vcall_rv V c) ep"
  using assms by (simp_all add: leaves_epoll_def split: vls_call.split)

lemmas leaves_rules = leaves_return leaves_bind leaves_if leaves_split leaves_split3 leaves_vcall


lemma leaves_pin:
  assumes "leaves_epoll m ep"
  shows "leaves_epoll (pin V m) ep"
proof -
  have "leaves_epoll (enterVLS V) ep" "leaves_epoll (exitVLS V) ep"
    by (simp_all add: leaves_epoll_def enterVLS_def exitVLS_def registerThisThread_def vclpoll_register_worker_def)
  with assms show ?thesis unfolding pin_def by (intro leaves_rules)
qed

lemma leaves_data_ops [simp]:
  "leaves_epoll (rawRead V h n) ep" "leaves_epoll (rawWrite V h p) ep" "leaves_epoll (rawShutdown V h how) ep"
  "leaves_epoll (rawSessionConnectError V h) ep" "leaves_epoll (rawSendTo V h p a) ep"
  "leaves_epoll (rawRecvFrom V h n) ep" "leaves_epoll (mode3GetPeerAddr V h) ep"
  "leaves_epoll (mode3GetLocalAddr V h) ep" "leaves_epoll (mode3SetV6Only V h b) ep"
  "leaves_epoll (rawAcceptFull V h) ep"
  by (auto simp: rawRead_def rawWrite_def rawShutdown_def rawSessionConnectError_def rawSendTo_def
      rawRecvFrom_def rawAcceptFull_def mode3GetPeerAddr_def mode3GetLocalAddr_def mode3SetV6Only_def
      vclpoll_read_def vclpoll_write_def vclpoll_shutdown_def vclpoll_sendto_def vclpoll_recvfrom_def
      vclpoll_session_get_connect_error_def vclpoll_get_peer_addr_def vclpoll_get_local_addr_def
      vclpoll_set_v6only_def vclpoll_accept_nb_full_def intro!: leaves_rules leaves_pin)

lemma leaves_create_ops [simp]:
  "leaves_epoll (mode3BindUDP4 V a4 p) ep" "leaves_epoll (mode3BindUDP6 V a6 p) ep"
  "leaves_epoll (mode3ConnectTCP4Start V a4 p) ep" "leaves_epoll (mode3ConnectTCP6Start V a6 p) ep"
  "leaves_epoll (rawConnectTLS4Start V a4 p c v) ep" "leaves_epoll (rawConnectTLS6Start V a6 p c v) ep"
  by (auto simp: mode3BindUDP4_def mode3BindUDP6_def mode3ConnectTCP4Start_def mode3ConnectTCP6Start_def
      rawConnectTLS4Start_def rawConnectTLS6Start_def connect_defs connect_nb_def connect_tls_start_def
      parseConnectResult_def vclpoll_bind_udp4_nb_def vclpoll_bind_udp6_nb_def bind_listen_def rawClose_def vclpoll_close_def
      intro!: leaves_rules leaves_pin)

section \<open>Submitting\<close>

lemma submit_cases:
  obtains "fst (submit F f s) = Inl PollErrClosed" "snd (submit F f s) = s"
  | "fst (submit F f s) = Inl PollErrClosed" "snd (submit F f s) = snd (f s)" "F s = AnswerLost" "\<not> stopping s" "appLive s"
  | "submit F f s = f s" "F s = Answered" "\<not> stopping s" "appLive s"
  by (cases "stopping s \<or> \<not> appLive s"; cases "F s") (simp_all add: submit_def)

lemma submit_inv: "P s \<Longrightarrow> P (snd (f s)) \<Longrightarrow> P (snd (submit F f s))"
  by (rule submit_cases [of F f s]) simp_all

lemma submit_Inr: "fst (submit F f s) = Inr x \<Longrightarrow> submit F f s = f s"
  by (rule submit_cases [of F f s]) simp_all

section \<open>Calls on a session\<close>

text \<open>A step about the public handle \<open>h\<close> may touch the worker that owns it and nothing else.\<close>

definition only_owner :: "handle \<Rightarrow> mode2 \<Rightarrow> mode2 \<Rightarrow> bool" where
  "only_owner h s s' \<longleftrightarrow> length (workers s') = length (workers s) \<and> nextHandle s' = nextHandle s
     \<and> (\<forall>j. (\<forall>raw. map_of (owners s) h \<noteq> Some (SessionRef j raw)) \<longrightarrow> workers s' ! j = workers s ! j)"

lemma only_owner_refl [simp]: "only_owner h s s"
  by (simp add: only_owner_def)

lemma only_owner_at_worker:
  assumes "map_of (owners s) h = Some (SessionRef i raw)"
  shows "only_owner h s (snd (at_worker i f s))"
  using assms by (auto simp: only_owner_def nth_list_update)

lemma ownedRaw_ok:
  assumes "worker_ok w"
  shows "worker_ok (snd (ownedRaw C h raw w))" "sessions (snd (ownedRaw C h raw w)) = sessions w"
    "pending (snd (ownedRaw C h raw w)) = pending w" "epVLSH (snd (ownedRaw C h raw w)) = epVLSH w"
    "balance k (hist (snd (ownedRaw C h raw w))) = balance k (hist w)"
    "waiters (snd (ownedRaw C h raw w)) = waiters w"
  using checkOwnership_ok [OF assms, where C = C and raw = raw] assms by (simp_all add: ownedRaw_run)

lemma session_fn_ok:
  fixes h raw :: handle
  assumes ok: "worker_ok w" and m: "\<And>raw. leaves_epoll (m C raw) (epVLSH w)"
  defines "w' \<equiv> snd (case ownedRaw C h raw w of (Inl e, w) \<Rightarrow> (Inl e, w) | (Inr raw, w) \<Rightarrow> on_worker (m C raw) w)"
  shows "worker_ok w'" "sessions w' = sessions w" "pending w' = pending w"
proof -
  let ?o = "ownedRaw C h raw w"
  note o = ownedRaw_ok [OF ok, where C = C and h = h and raw = raw]
  have "w' = (case fst ?o of Inl e \<Rightarrow> snd ?o | Inr r \<Rightarrow> snd (on_worker (m C r) (snd ?o)))"
    by (simp add: w'_def case_prod_beta split: sum.split)
  with o on_worker_ok [OF o(1), of "m C r" for r] m
  show "worker_ok w'" "sessions w' = sessions w" "pending w' = pending w"
    by (simp_all split: sum.split)
qed

text \<open>The frame of \<open>sessionCall\<close>.\<close>

lemma sessionCall_frame:
  "only_owner h s (snd (sessionCall V F h fn s)) \<and> owners (snd (sessionCall V F h fn s)) = owners s
   \<and> (map_of (owners s) h = None \<longrightarrow> sessionCall V F h fn s = (Inl PollErrClosed, s))"
proof (cases "map_of (owners s) h")
  case (Some x)
  show ?thesis
  proof (cases x)
    case (SessionRef i raw)
    with Some have "sessionCall V F h fn s = submit F (at_worker i (\<lambda>w. case ownedRaw (V i) h raw w of
         (Inl e, w) \<Rightarrow> (Inl e, w) | (Inr raw, w) \<Rightarrow> fn (V i) raw w)) s"
      by (simp add: sessionCall_def with_lookup_def lookup_def)
    moreover from Some SessionRef have "map_of (owners s) h = Some (SessionRef i raw)" by simp
    ultimately show ?thesis
      by (auto intro!: submit_inv [where P = "\<lambda>s'. only_owner h s s' \<and> owners s' = owners s"] only_owner_at_worker)
  qed (simp add: Some sessionCall_def with_lookup_def lookup_def only_owner_def)
qed (simp add: sessionCall_def with_lookup_def lookup_def)

lemma sessionCall_ok:
  fixes h :: handle and V :: "nat \<Rightarrow> cgo" and F :: "mode2 \<Rightarrow> submit_fate"
  assumes ok: "mode2_ok s" and m: "\<And>C raw ep. leaves_epoll (m C raw) ep"
  defines "s' \<equiv> snd (sessionCall V F h (\<lambda>C raw. on_worker (m C raw)) s)"
  shows "mode2_ok s' \<and> (\<forall>j < length (workers s). pending (workers s' ! j) = pending (workers s ! j))"
proof (cases "map_of (owners s) h")
  case None
  with ok show ?thesis by (simp add: s'_def sessionCall_def with_lookup_def lookup_def)
next
  case (Some x)
  show ?thesis
  proof (cases x)
    case (SessionRef i raw)
    with Some have o: "map_of (owners s) h = Some (SessionRef i raw)" by simp
    note i = mode2_okD(3) [OF ok o, THEN conjunct1]
    let ?f = "\<lambda>w. case ownedRaw (V i) h raw w of (Inl e, w) \<Rightarrow> (Inl e, w) | (Inr raw, w) \<Rightarrow> on_worker (m (V i) raw) w"
    note f = session_fn_ok [OF mode2_okD(1) [OF ok i], where C = "V i" and m = m, OF m]
    have "mode2_ok (snd (at_worker i ?f s))"
      by (rule mode2_ok_worker [OF ok i f(1)]) (simp_all add: f(2))
    moreover have "\<forall>j < length (workers s). pending (workers (snd (at_worker i ?f s)) ! j) = pending (workers s ! j)"
      using f(3) i by (auto simp: nth_list_update)
    moreover have "sessionCall V F h (\<lambda>C raw. on_worker (m C raw)) s = submit F (at_worker i ?f) s"
      by (simp add: sessionCall_def with_lookup_def lookup_def o)
    ultimately show ?thesis
      unfolding s'_def using ok
      by (auto intro!: submit_inv [where P = "\<lambda>s'. mode2_ok s' \<and> (\<forall>j < length (workers s). pending (workers s' ! j) = pending (workers s ! j))"])
  next
    case (ShardedRef n)
    with Some ok show ?thesis
      by (simp add: s'_def sessionCall_def with_lookup_def lookup_def mode2_ok_def)
  qed
qed

lemma sessionCall_unowned: "map_of (owners s) h = None \<Longrightarrow> sessionCall V F h fn s = (Inl PollErrClosed, s)"
  by (simp add: sessionCall_frame)

definition session_step :: "handle \<Rightarrow> mode2 \<Rightarrow> mode2 \<Rightarrow> bool" where
  "session_step h s s' \<longleftrightarrow> only_owner h s s' \<and> owners s' = owners s \<and> mode2_ok s'
    \<and> (\<forall>j < length (workers s). pending (workers s' ! j) = pending (workers s ! j))
    \<and> (map_of (owners s) h = None \<longrightarrow> s' = s)"

lemma session_step:
  assumes "mode2_ok s" "\<And>C raw ep. leaves_epoll (m C raw) ep"
  shows "session_step h s (snd (sessionCall V F h (\<lambda>C raw. on_worker (m C raw)) s))"
  using sessionCall_frame [of h s V F "\<lambda>C raw. on_worker (m C raw)"]
    sessionCall_ok [OF assms, where V = V and F = F and h = h]
  by (simp add: session_step_def)

lemmas session_op_defs = read_attempt_def write_attempt_def sendTo_attempt_def recvFrom_attempt_def
  mode2_shutdown_def mode2_sessionConnectError_def mode2_getPeerAddr_def

section \<open>Closing a session\<close>

lemma unregister_sel [simp]:
  "owners (unregisterSession i h s) = AList.delete h (owners s)"
  "nextHandle (unregisterSession i h s) = nextHandle s"
  "workers (unregisterSession i h s)
     = (workers s)[i := (workers s ! i)\<lparr>sessions := AList.delete h (sessions (workers s ! i))\<rparr>]"
  by (simp_all add: unregisterSession_def Let_def)

text \<open>The worker's part of a close.\<close>

definition close_on_worker :: "cgo \<Rightarrow> handle \<Rightarrow> handle \<Rightarrow> worker \<Rightarrow> worker" where
  "close_on_worker C h raw w =
     (let w = snd (on_worker (rawClose C raw) (removeWaiters C h raw w))
      in w\<lparr>sessions := AList.delete h (sessions w)\<rparr>)"

lemma close_on_worker_result:
  fixes C :: cgo and h raw :: handle
  assumes ok: "worker_ok w" and s: "map_of (sessions w) h = Some raw"
  defines "w' \<equiv> close_on_worker C h raw w"
  shows "worker_ok w'" "sessions w' = AList.delete h (sessions w)"
    "pending w' = pending w - {h} \<times> pend_at w h"
    "set (ready_closed w') = wt_ready ` pend_at w h \<union> set (ready_closed w)"
proof -
  let ?w1 = "removeWaiters C h raw w"
  let ?w2 = "snd (on_worker (rawClose C raw) ?w1)"
  note r = removeWaiters_result [OF ok s, where V = C]
  have r': "worker_ok ?w1" "sessions ?w1 = sessions w" "pending ?w1 = pending w - {h} \<times> pend_at w h"
    "set (ready_closed ?w1) = wt_ready ` pend_at w h \<union> set (ready_closed w)"
    using r by (simp_all add: w_released_def)
  note k = on_worker_ok [OF r'(1) rawClose_leaves [of C raw]]
  have "pend_at ?w2 h = {}"
    using r'(3) by (auto simp: pend_at_def k(2))
  then have none: "map_of (waiters ?w2) h = None"
    using k(1) by (intro no_pending_no_set worker_okD(1))
  note d = del_session_ok [OF k(1) none]
  have e: "w' = ?w2\<lparr>sessions := AList.delete h (sessions ?w2)\<rparr>"
    by (simp add: w'_def close_on_worker_def Let_def)
  show "worker_ok w'" "sessions w' = AList.delete h (sessions w)"
    "pending w' = pending w - {h} \<times> pend_at w h"
    "set (ready_closed w') = wt_ready ` pend_at w h \<union> set (ready_closed w)"
    using d k(2) r' by (simp_all add: e)
qed

lemma removeWaiters_balance: "balance k (hist (removeWaiters C h raw w)) = balance k (hist w)"
proof -
  have "balance k (hist (worker_del C raw w)) = balance k (hist w)"
    unfolding worker_del_def by (rule quiet_on_worker) (rule quiet_simps)
  then show ?thesis
    by (simp add: removeWaiters_def worker_dropWaitSet_def Let_def split: option.split)
qed

lemma close_on_worker_balance:
  "balance k (hist (close_on_worker C h raw w)) = balance k (hist w) - (if k = raw then 1 else 0)"
  by (simp add: close_on_worker_def Let_def rawClose_balance removeWaiters_balance)

text \<open>What a close does that reaches its worker.\<close>

definition close_effect :: "(nat \<Rightarrow> cgo) \<Rightarrow> nat \<Rightarrow> handle \<Rightarrow> handle \<Rightarrow> mode2 \<Rightarrow> mode2" where
  "close_effect V i h raw s =
     (let (r, w) = ownedRaw (V i) h raw (workers s ! i)
      in case r of
           Inl e \<Rightarrow> s\<lparr>workers := (workers s)[i := w]\<rparr>
         | Inr raw \<Rightarrow> s\<lparr>workers := (workers s)[i := close_on_worker (V i) h raw w],
                         owners := AList.delete h (owners s)\<rparr>)"

lemma closeSessionHandle_eq:
  assumes o: "map_of (owners s) h = Some (SessionRef i raw)" and i: "i < length (workers s)"
  obtains f where "closeSessionHandle V F h s = submit F f s" "snd (f s) = close_effect V i h raw s"
    "\<And>e. fst (ownedRaw (V i) h raw (workers s ! i)) = Inl e \<Longrightarrow> fst (f s) = Inl e"
proof
  let ?f = "\<lambda>s. case at_worker i (ownedRaw (V i) h raw) s of
         (Inl e, s) \<Rightarrow> (Inl e, s)
       | (Inr raw, s) \<Rightarrow>
           (let (_, s) = at_worker i (\<lambda>w. ((), removeWaiters (V i) h raw w)) s;
                (closeErr, s) = close_raw V i raw s
            in (closeErr, unregisterSession i h s))"
  show "closeSessionHandle V F h s = submit F ?f s"
    using o by (simp add: closeSessionHandle_def with_lookup_def lookup_def)
  show "snd (?f s) = close_effect V i h raw s"
    using i by (simp add: close_effect_def close_on_worker_def close_raw_def
       at_worker_def unregisterSession_def Let_def case_prod_beta split: sum.split)
  show "fst (?f s) = Inl e" if "fst (ownedRaw (V i) h raw (workers s ! i)) = Inl e" for e
    using that by (simp add: at_worker_def case_prod_beta split: sum.split)
qed

lemma close_effect_result:
  fixes V :: "nat \<Rightarrow> cgo" and h k raw :: handle and i :: nat
  assumes ok: "mode2_ok s" and o: "map_of (owners s) h = Some (SessionRef i raw)"
    and owned: "fst (checkOwnership (V i) raw (workers s ! i)) = Inr ()"
  defines "s' \<equiv> close_effect V i h raw s"
  shows "mode2_ok s'" "only_owner h s s'" "owners s' = AList.delete h (owners s)"
    "pending (workers s' ! i) = pending (workers s ! i) - {h} \<times> pend_at (workers s ! i) h"
    "wt_ready ` pend_at (workers s ! i) h \<subseteq> set (ready_closed (workers s' ! i))"
    "balance k (hist (workers s' ! i)) = balance k (hist (workers s ! i)) - (if k = raw then 1 else 0)"
proof -
  have i: "i < length (workers s)" and m: "map_of (sessions (workers s ! i)) h = Some raw"
    using mode2_okD(3) [OF ok o] by simp_all
  let ?w = "snd (ownedRaw (V i) h raw (workers s ! i))"
  note w = ownedRaw_ok [OF mode2_okD(1) [OF ok i], where C = "V i" and h = h and raw = raw]
  have rc: "ready_closed ?w = ready_closed (workers s ! i)"
    by (simp add: ownedRaw_def checkOwnership_def case_prod_beta Let_def split: sum.split)
  have pa: "pend_at ?w h = pend_at (workers s ! i) h" by (simp add: pend_at_def w)
  have e: "s' = s\<lparr>workers := (workers s)[i := close_on_worker (V i) h raw ?w], owners := AList.delete h (owners s)\<rparr>"
    using m owned by (simp add: s'_def close_effect_def case_prod_beta ownedRaw_run Let_def)
  note c = close_on_worker_result [OF w(1), where C = "V i" and h = h and raw = raw, unfolded w(2), OF m]
  show "only_owner h s s'" using o by (auto simp: only_owner_def e nth_list_update)
  show "owners s' = AList.delete h (owners s)" by (simp add: e)
  show "pending (workers s' ! i) = pending (workers s ! i) - {h} \<times> pend_at (workers s ! i) h"
    "wt_ready ` pend_at (workers s ! i) h \<subseteq> set (ready_closed (workers s' ! i))"
    "balance k (hist (workers s' ! i)) = balance k (hist (workers s ! i)) - (if k = raw then 1 else 0)"
    using i by (simp_all add: e c pa rc w close_on_worker_balance)
  have sel: "workers s' = (workers s)[i := close_on_worker (V i) h raw ?w]"
    "map_of (owners s') = (map_of (owners s))(h := None)" "nextHandle s' = nextHandle s"
    by (simp_all add: e AList.delete_conv')
  show "mode2_ok s'" unfolding mode2_ok_def sel
  proof (intro conjI allI impI)
    show "worker_ok ((workers s)[i := close_on_worker (V i) h raw ?w] ! j)"
      if "j < length ((workers s)[i := close_on_worker (V i) h raw ?w])" for j
      using that c(1) mode2_okD(1) [OF ok] by (cases "j = i") simp_all
    show "\<forall>x\<in>dom ((map_of (owners s))(h := None)). 0 < x \<and> x \<le> uint (nextHandle s)"
      using ok by (auto simp: mode2_ok_def)
    show "(((map_of (owners s))(h := None)) x = Some (SessionRef j r)) = (0 < x
        \<and> j < length ((workers s)[i := close_on_worker (V i) h raw ?w])
        \<and> map_of (sessions ((workers s)[i := close_on_worker (V i) h raw ?w] ! j)) x = Some r)" for x j r
    proof (cases "x = h")
      case True
      have "map_of (sessions (workers s ! j)) h = None" if "j \<noteq> i" "j < length (workers s)" "0 < h"
        using mode2_okD(4) [OF ok that(3,2)] o that(1)
        by (cases "map_of (sessions (workers s ! j)) h") auto
      with True i c(2) show ?thesis by (cases "j = i") (auto simp: AList.delete_conv')
    next
      case False
      then show ?thesis using ok i c(2) unfolding mode2_ok_def by (cases "j = i") (simp_all add: AList.delete_conv')
    qed
  qed
qed

section \<open>Opening a session\<close>

text \<open>The common body of \<open>create\<close>, \<open>createConnect\<close> and an accept: obtain a raw handle, register it.\<close>

definition issue :: "(nat \<Rightarrow> cgo) \<Rightarrow> nat \<Rightarrow> ('a \<Rightarrow> handle) \<Rightarrow> (world, 'a poll_result) state \<Rightarrow> mode2
    \<Rightarrow> (handle \<times> 'a) poll_result \<times> mode2" where
  "issue V i hf m s =
     (case at_worker i (on_worker m) s of
        (Inl e, s) \<Rightarrow> (Inl e, s)
      | (Inr x, s) \<Rightarrow>
          (case registerSession V i (hf x) s of
             (Inl e, s) \<Rightarrow> (Inl e, s)
           | (Inr public, s) \<Rightarrow> (Inr (public, x), s)))"

text \<open>VLS gives out handles that are not open on the worker.\<close>

definition gives_new :: "('a \<Rightarrow> handle) \<Rightarrow> (world, 'a poll_result) state \<Rightarrow> worker \<Rightarrow> bool" where
  "gives_new hf m w \<longleftrightarrow> (case fst (run_state m (hist w)) of
     Inl e \<Rightarrow> True | Inr x \<Rightarrow> hf x \<notin> ran (map_of (sessions w)))"

text \<open>What opening a session on worker \<open>i\<close> may do: a fresh virtual handle for one raw handle more,
  or an error and no handle more.\<close>

definition issued :: "nat \<Rightarrow> handle poll_result \<Rightarrow> mode2 \<Rightarrow> mode2 \<Rightarrow> bool" where
  "issued i r s s' \<longleftrightarrow> mode2_ok s' \<and> length (workers s') = length (workers s)
     \<and> (\<forall>j. j \<noteq> i \<longrightarrow> workers s' ! j = workers s ! j)
     \<and> pending (workers s' ! i) = pending (workers s ! i)
     \<and> (case r of
          Inl e \<Rightarrow> owners s' = owners s
            \<and> (\<forall>h \<ge> 0. balance h (hist (workers s' ! i)) = balance h (hist (workers s ! i)))
        | Inr p \<Rightarrow> p = uint (nextHandle s) + 1 \<and> p < 2 ^ 31 \<and> map_of (owners s) p = None
            \<and> (\<exists>raw. map_of (owners s') = (map_of (owners s))(p \<mapsto> SessionRef i raw)
                 \<and> (\<forall>h \<ge> 0. balance h (hist (workers s' ! i)) = balance h (hist (workers s ! i)) + owns raw h)))"

lemma issue_result:
  fixes V :: "nat \<Rightarrow> cgo" and hf :: "'a \<Rightarrow> handle" and i :: nat
  assumes ok: "mode2_ok s" and i: "i < length (workers s)" and wrap: "nextHandle s + 1 \<noteq> 0"
    and leaves: "leaves_epoll m (epVLSH (workers s ! i))"
    and keeps: "\<And>w. keeps_valid w (case fst (run_state m w) of Inl e \<Rightarrow> -1 | Inr x \<Rightarrow> hf x) (snd (run_state m w))"
    and new: "gives_new hf m (workers s ! i)"
  defines "res \<equiv> issue V i hf m s"
  shows "issued i (map_sum id fst (fst res)) s (snd res)"
proof -
  let ?w = "workers s ! i"
  define s1 where "s1 = snd (at_worker i (on_worker m) s)"
  have s1: "workers s1 = (workers s)[i := snd (on_worker m ?w)]" "owners s1 = owners s" "nextHandle s1 = nextHandle s"
    by (simp_all add: s1_def)
  note w1 = on_worker_ok [OF mode2_okD(1) [OF ok i] leaves]
  have ok1: "mode2_ok s1" by (rule mode2_ok_worker [OF ok i w1(1) _ s1]) simp
  have bal: "balance h (hist (workers s1 ! i)) = balance h (hist ?w)
      + owns (case fst (run_state m (hist ?w)) of Inl e \<Rightarrow> -1 | Inr x \<Rightarrow> hf x) h" if "0 \<le> h" for h
    using keeps [of "hist ?w"] that i by (simp add: s1 keeps_valid_def)
  show ?thesis
  proof (cases "fst (run_state m (hist ?w))")
    case (Inl e)
    then have "res = (Inl e, s1)"
      by (simp add: res_def issue_def at_worker_def on_worker_def s1_def)
    with ok1 bal Inl i s1 w1(2) show ?thesis by (simp add: issued_def)
  next
    case (Inr x)
    let ?r = "registerSession V i (hf x) s1"
    have r: "res = (map_sum id (\<lambda>p. (p, x)) (fst ?r), snd ?r)"
      using Inr by (simp add: res_def issue_def at_worker_def on_worker_def s1_def case_prod_beta split: sum.split)
    have i1: "i < length (workers s1)" and fresh: "hf x \<notin> ran (map_of (sessions (workers s1 ! i)))"
      and wrap1: "nextHandle s1 + 1 \<noteq> 0"
      using i new wrap by (simp_all add: s1 gives_new_def Inr)
    note reg = registerSession_result [OF ok1 i1 fresh wrap1, where V = V]
    have k: "balance h (hist (workers (snd ?r) ! i)) = balance h (hist ?w)
        + (case fst ?r of Inl e \<Rightarrow> 0 | Inr p \<Rightarrow> owns (hf x) h)" if "0 \<le> h" for h
      using reg(5) [of h] bal [OF that] that by (auto simp: Inr owns_def split: sum.split)
    have fr: "length (workers (snd ?r)) = length (workers s)" "pending (workers (snd ?r) ! i) = pending ?w"
      "j \<noteq> i \<Longrightarrow> workers (snd ?r) ! j = workers s ! j" for j
      using reg(2,4) reg(3) [of j] i w1(2) by (simp_all add: s1)
    show ?thesis
    proof (cases "fst ?r")
      case (Inl e)
      with reg(1,6) fr k show ?thesis by (simp add: r issued_def s1(2))
    next
      case (Inr p)
      with reg(1,6) fr k show ?thesis by (auto simp: r issued_def s1(2,3))
    qed
  qed
qed

section \<open>Choosing a worker\<close>

lemma pickWorker_sel [simp]:
  "workers (snd (pickWorker s)) = workers s" "owners (snd (pickWorker s)) = owners s"
  "nextHandle (snd (pickWorker s)) = nextHandle s" "stopping (snd (pickWorker s)) = stopping s"
  "appLive (snd (pickWorker s)) = appLive s" "rr (snd (pickWorker s)) = rr s + 1"
  by (simp_all add: pickWorker_def)

lemma pickWorker_fst:
  assumes "length (workers s) < 2 ^ 32"
  shows "fst (pickWorker s) = unat (rr s) mod length (workers s)"
  using assms by (simp add: pickWorker_def unat_mod unat_of_nat take_bit_nat_eq_self)

lemma pickWorker_bound:
  assumes "workers s \<noteq> []" "length (workers s) < 2 ^ 32"
  shows "fst (pickWorker s) < length (workers s)"
  using assms by (simp add: pickWorker_fst)

lemma pick_ok: "mode2_ok s \<Longrightarrow> mode2_ok (snd (pickWorker s))"
  by (rule mode2_ok_next [of s]) simp_all

fun picks :: "nat \<Rightarrow> mode2 \<Rightarrow> nat list" where
  "picks 0 s = []"
| "picks (Suc n) s = (let (i, s) = pickWorker s in i # picks n s)"

lemma picks_eq:
  assumes "length (workers s) < 2 ^ 32" "unat (rr s) + n < 2 ^ 32"
  shows "picks n s = map (\<lambda>k. (unat (rr s) + k) mod length (workers s)) [0..<n]"
  using assms
proof (induction n arbitrary: s)
  case (Suc n)
  have "unat (rr s + 1) = unat (rr s) + 1"
    using Suc.prems(2) by (simp add: unat_word_ariths)
  with Suc.IH [of "snd (pickWorker s)"] Suc.prems
  have "picks n (snd (pickWorker s)) = map (\<lambda>k. (unat (rr s) + 1 + k) mod length (workers s)) [0..<n]"
    by simp
  then show ?case
    using pickWorker_fst [OF Suc.prems(1)]
    by (simp add: case_prod_beta map_upt_Suc comp_def Let_def del: upt_Suc)
qed simp

lemma mod_shift_inj:
  fixes a i j L :: nat
  assumes "(a + i) mod L = (a + j) mod L" "i < L" "j < L"
  shows "i = j"
proof -
  have *: "y = x" if "x \<le> y" "y < L" "(a + y) mod L = (a + x) mod L" for x y
  proof -
    have "L dvd (a + y) - (a + x)" using that mod_eq_dvd_iff_nat [of "a + x" "a + y" L] by simp
    then show ?thesis using that nat_dvd_not_less [of "y - x" L] by fastforce
  qed
  show ?thesis
  proof (cases "i \<le> j")
    case True
    from * [OF this assms(3) assms(1) [symmetric]] show ?thesis by (rule sym)
  next
    case False
    then have "j \<le> i" by simp
    from * [OF this assms(2) assms(1)] show ?thesis .
  qed
qed

section \<open>Sequences of requests\<close>

text \<open>The requests that open or close sessions, and the handle each issues.\<close>

datatype m2_cmd =
    M2BindUDP4 ip4 u16
  | M2BindUDP6 ip16 u16
  | M2ConnectTCP4 ip4 u16
  | M2ConnectTCP6 ip16 u16
  | M2ConnectTLS4 ip4 u16 u32 bool
  | M2ConnectTLS6 ip16 u16 u32 bool
  | M2ConnectUDP4 ip4 u16
  | M2ConnectUDP6 ip16 u16
  | M2Accept handle
  | M2Close handle
  | M2Read handle nat
  | M2Write handle "u8 list"
  | M2Shutdown handle int

fun handle_of :: "handle poll_result \<Rightarrow> handle option" where
  "handle_of (Inl e) = None"
| "handle_of (Inr h) = Some h"

fun handle_of1 :: "(handle \<times> 'a) poll_result \<Rightarrow> handle option" where
  "handle_of1 (Inl e) = None"
| "handle_of1 (Inr (h, x)) = Some h"

fun m2_step :: "(nat \<Rightarrow> cgo) \<Rightarrow> (mode2 \<Rightarrow> submit_fate) \<Rightarrow> m2_cmd \<Rightarrow> mode2 \<Rightarrow> handle option \<times> mode2" where
  "m2_step V F (M2BindUDP4 a p) s = map_prod handle_of id (mode2_bindUDP4 V F a p s)"
| "m2_step V F (M2BindUDP6 a p) s = map_prod handle_of id (mode2_bindUDP6 V F a p s)"
| "m2_step V F (M2ConnectTCP4 a p) s = map_prod handle_of1 id (mode2_connectTCP4Start V F a p s)"
| "m2_step V F (M2ConnectTCP6 a p) s = map_prod handle_of1 id (mode2_connectTCP6Start V F a p s)"
| "m2_step V F (M2ConnectTLS4 a p c v) s = map_prod handle_of1 id (mode2_connectTLS4Start V F a p c v s)"
| "m2_step V F (M2ConnectTLS6 a p c v) s = map_prod handle_of1 id (mode2_connectTLS6Start V F a p c v s)"
| "m2_step V F (M2ConnectUDP4 a p) s = map_prod handle_of1 id (mode2_connectUDP4Start V F a p s)"
| "m2_step V F (M2ConnectUDP6 a p) s = map_prod handle_of1 id (mode2_connectUDP6Start V F a p s)"
| "m2_step V F (M2Accept l) s = map_prod handle_of1 id (accept_attempt V F l s)"
| "m2_step V F (M2Close h) s = (None, snd (closeSessionHandle V F h s))"
| "m2_step V F (M2Read h n) s = (None, snd (read_attempt V F h n s))"
| "m2_step V F (M2Write h p) s = (None, snd (write_attempt V F h p s))"
| "m2_step V F (M2Shutdown h how) s = (None, snd (mode2_shutdown V F h how s))"

fun m2_trace :: "(nat \<Rightarrow> cgo) \<Rightarrow> (mode2 \<Rightarrow> submit_fate) \<Rightarrow> m2_cmd list \<Rightarrow> mode2 \<Rightarrow> handle list" where
  "m2_trace V F [] s = []"
| "m2_trace V F (c # cs) s =
     (case m2_step V F c s of
        (None, s) \<Rightarrow> m2_trace V F cs s
      | (Some h, s) \<Rightarrow> h # m2_trace V F cs s)"

text \<open>A step counts \<open>nextHandle\<close> up by at most one, and issues no handle but the new count.\<close>

definition counts :: "handle option \<Rightarrow> mode2 \<Rightarrow> mode2 \<Rightarrow> bool" where
  "counts r s s' \<longleftrightarrow> uint (nextHandle s) + 1 < 2 ^ 32 \<longrightarrow>
     (uint (nextHandle s') = uint (nextHandle s) \<and> r = None)
     \<or> (uint (nextHandle s') = uint (nextHandle s) + 1
         \<and> (r = None \<or> r = Some (uint (nextHandle s) + 1) \<and> uint (nextHandle s) + 1 < 2 ^ 31))"

lemma counts_same: "nextHandle s' = nextHandle s \<Longrightarrow> counts None s s'"
  by (simp add: counts_def)

lemma registerSession_counts:
  "counts (handle_of (fst (registerSession V i raw s))) s (snd (registerSession V i raw s))"
proof -
  let ?id = "nextHandle s + 1"
  let ?c = "at_worker i (checkOwnership (V i) raw) s"
  have ne: "?id \<noteq> 0" if lt: "uint (nextHandle s) + 1 < 2 ^ 32"
  proof -
    have "0 \<le> uint (nextHandle s)" by simp
    then have "uint ?id = uint (nextHandle s) + 1" "0 < uint (nextHandle s) + 1"
      using lt by (simp_all add: uint_word_ariths mod_pos_pos_trivial)
    then show ?thesis by (metis less_irrefl uint_0_eq)
  qed
  show ?thesis
  proof (cases "fst ?c")
    case (Inl e)
    then show ?thesis by (simp add: registerSession_def case_prod_beta counts_same)
  next
    case (Inr u)
    show ?thesis unfolding counts_def
    proof
      assume lt: "uint (nextHandle s) + 1 < 2 ^ 32"
      note id = next_uint [OF ne [OF lt]]
      have "uint ?id < 2 ^ 31 \<and> sint ?id = uint (nextHandle s) + 1" if "\<not> ?id > maxVirtualHandle"
        using id_bounds [OF ne [OF lt] that] sint_lt [of ?id] by simp
      with Inr ne [OF lt] id show "uint (nextHandle (snd (registerSession V i raw s))) = uint (nextHandle s) \<and>
          handle_of (fst (registerSession V i raw s)) = None \<or>
          uint (nextHandle (snd (registerSession V i raw s))) = uint (nextHandle s) + 1 \<and>
          (handle_of (fst (registerSession V i raw s)) = None \<or>
           handle_of (fst (registerSession V i raw s)) = Some (uint (nextHandle s) + 1) \<and> uint (nextHandle s) + 1 < 2 ^ 31)"
        by (simp add: registerSession_def case_prod_beta Let_def)
    qed
  qed
qed

lemma counts_weaken: "counts r s s' \<Longrightarrow> counts None s s'"
  by (auto simp: counts_def)

lemma counts_pre: "nextHandle s0 = nextHandle s \<Longrightarrow> counts r s s' \<Longrightarrow> counts r s0 s'"
  by (simp add: counts_def)

lemma submit_counts:
  assumes "counts (H (fst (f s))) s (snd (f s))" "\<And>e. H (Inl e) = None"
  shows "counts (H (fst (submit F f s))) s (snd (submit F f s))"
  using assms counts_weaken [OF assms(1)] counts_same [OF refl, of s]
  by (cases rule: submit_cases [of F f s]) simp_all

text \<open>The body of a creating operation, by the raw result \<open>r\<close> and what it makes of the new handle.\<close>

lemma create_counts:
  "counts (handle_of (fst (create V F fn s))) s (snd (create V F fn s))"
proof -
  obtain i s1 where p: "pickWorker s = (i, s1)" by fastforce
  then have n: "nextHandle s = nextHandle s1" using pickWorker_sel(3) [of s] by simp
  let ?f = "\<lambda>s. case at_worker i (on_worker (fn (V i))) s of
          (Inl e, s) \<Rightarrow> (Inl e, s)
        | (Inr raw, s) \<Rightarrow> registerSession V i raw s"
  have "counts (handle_of (fst (?f s1))) s1 (snd (?f s1))"
    by (auto simp: case_prod_beta counts_same split: sum.split
        intro!: counts_pre [OF _ registerSession_counts])
  then show ?thesis
    unfolding create_def p
    by (auto intro!: counts_pre [OF n] submit_counts)
qed

lemma createConnect_counts:
  "counts (handle_of1 (fst (createConnect V F fn s))) s (snd (createConnect V F fn s))"
proof -
  obtain i s1 where p: "pickWorker s = (i, s1)" by fastforce
  then have n: "nextHandle s = nextHandle s1" using pickWorker_sel(3) [of s] by simp
  let ?f = "\<lambda>s. case at_worker i (on_worker (fn (V i))) s of
          (Inl e, s) \<Rightarrow> (Inl e, s)
        | (Inr (raw, imm), s) \<Rightarrow>
            (case registerSession V i raw s of
               (Inl e, s) \<Rightarrow> (Inl e, s)
             | (Inr public, s) \<Rightarrow> (Inr (public, imm), s))"
  have "counts (handle_of1 (fst (?f s1))) s1 (snd (?f s1))"
  proof (cases "fst (at_worker i (on_worker (fn (V i))) s1)")
    case (Inr x)
    let ?s2 = "snd (at_worker i (on_worker (fn (V i))) s1)"
    have "counts (handle_of (fst (registerSession V i (fst x) ?s2))) s1 (snd (registerSession V i (fst x) ?s2))"
      by (rule counts_pre [OF _ registerSession_counts]) simp
    with Inr show ?thesis
      by (cases "fst (registerSession V i (fst x) ?s2)") (simp_all add: case_prod_beta)
  qed (simp add: case_prod_beta counts_same)
  then show ?thesis
    unfolding createConnect_def p
    by (auto intro!: counts_pre [OF n] submit_counts)
qed

lemma accept_counts:
  "counts (handle_of1 (fst (accept_attempt V F l s))) s (snd (accept_attempt V F l s))"
proof (cases "lookup l s")
  case (Some r)
  show ?thesis
  proof (cases r)
    case (Inr ref)
    obtain i raw where ref: "ref = (i, raw)" by fastforce
    let ?f = "\<lambda>s. case at_worker i (ownedRaw (V i) l raw) s of
         (Inl e, s) \<Rightarrow> (Inl e, s)
       | (Inr raw, s) \<Rightarrow>
           (case at_worker i (on_worker (rawAcceptFull (V i) raw)) s of
              (Inl e, s) \<Rightarrow> (Inl e, s)
            | (Inr (conn, addr), s) \<Rightarrow>
                (case registerSession V i conn s of
                   (Inl e, s) \<Rightarrow> (Inl e, s)
                 | (Inr public, s) \<Rightarrow> (Inr (public, addr), s)))"
    have "counts (handle_of1 (fst (?f s))) s (snd (?f s))"
    proof (cases "fst (at_worker i (ownedRaw (V i) l raw) s)")
      case o: (Inr raw')
      let ?s1 = "snd (at_worker i (ownedRaw (V i) l raw) s)"
      let ?a = "at_worker i (on_worker (rawAcceptFull (V i) raw')) ?s1"
      show ?thesis
      proof (cases "fst ?a")
        case (Inr x)
        have "counts (handle_of (fst (registerSession V i (fst x) (snd ?a)))) s (snd (registerSession V i (fst x) (snd ?a)))"
          by (rule counts_pre [OF _ registerSession_counts]) simp
        with o Inr show ?thesis
          by (cases "fst (registerSession V i (fst x) (snd ?a))") (simp_all add: case_prod_beta)
      qed (use o in \<open>simp add: case_prod_beta counts_same\<close>)
    qed (simp add: case_prod_beta counts_same)
    then show ?thesis
      using Some Inr ref by (simp add: accept_attempt_def with_lookup_def submit_counts)
  qed (simp add: Some accept_attempt_def with_lookup_def counts_same)
qed (simp add: accept_attempt_def with_lookup_def counts_same)

lemma close_counts: "nextHandle (snd (closeSessionHandle V F h s)) = nextHandle s"
  unfolding closeSessionHandle_def with_lookup_def
  by (auto simp: case_prod_beta Let_def split: option.split sum.split
      intro!: submit_inv [where P = "\<lambda>s'. nextHandle s' = nextHandle s"])

lemma session_counts: "counts None s (snd (sessionCall V F h fn s))"
  using sessionCall_frame [of h s V F fn] by (intro counts_same) (simp add: only_owner_def)

lemma m2_step_counts: "counts (fst (m2_step V F c s)) s (snd (m2_step V F c s))"
proof (cases c)
  case (M2Close h) then show ?thesis by (simp add: counts_same close_counts)
qed (simp_all add: create_counts createConnect_counts accept_counts session_counts mode2_bindUDP4_def mode2_bindUDP6_def mode2_connectTCP4Start_def
    mode2_connectTCP6Start_def mode2_connectTLS4Start_def mode2_connectTLS6Start_def
    mode2_connectUDP4Start_def mode2_connectUDP6Start_def session_op_defs)

lemma m2_trace_increasing:
  assumes "uint (nextHandle s) + int (length cs) < 2 ^ 32"
  shows "sorted_wrt (<) (m2_trace V F cs s)
    \<and> (\<forall>h \<in> set (m2_trace V F cs s). uint (nextHandle s) < h \<and> h < 2 ^ 31)"
  using assms
proof (induction cs arbitrary: s)
  case (Cons c cs)
  obtain r s1 where st: "m2_step V F c s = (r, s1)" by fastforce
  with m2_step_counts [of V F c s] Cons.prems have c: "uint (nextHandle s1) = uint (nextHandle s) \<and> r = None
      \<or> uint (nextHandle s1) = uint (nextHandle s) + 1
         \<and> (r = None \<or> r = Some (uint (nextHandle s) + 1) \<and> uint (nextHandle s) + 1 < 2 ^ 31)"
    by (simp add: counts_def)
  then have "uint (nextHandle s1) + int (length cs) < 2 ^ 32" using Cons.prems by auto
  note ih = Cons.IH [OF this]
  show ?case
  proof (cases r)
    case None
    with ih c show ?thesis by (auto simp: st)
  next
    case (Some h)
    with ih c show ?thesis by (auto simp: st)
  qed
qed simp

section \<open>A concrete dispatcher\<close>

text \<open>Two workers, one session with a parked waiter on the first.\<close>

definition demo_mode2 :: mode2 where
  "demo_mode2 = newMode2Dispatcher\<lparr>workers := [demo_parked, newWorker 1 False],
     owners := [(1, SessionRef 0 4)], nextHandle := 1, appLive := True\<rparr>"

lemma newWorker_ok: "worker_ok (newWorker i b)"
  by (simp add: worker_ok_def tab_ok_empty watch_ok_def newWorker_def)

lemma demo_mode2_sel [simp]:
  "workers demo_mode2 = [demo_parked, newWorker 1 False]" "owners demo_mode2 = [(1, SessionRef 0 4)]"
  "nextHandle demo_mode2 = 1" "appLive demo_mode2" "\<not> stopping demo_mode2" "rr demo_mode2 = 0"
  by (simp_all add: demo_mode2_def newMode2Dispatcher_def)

lemma demo_mode2_ok: "mode2_ok demo_mode2"
  unfolding mode2_ok_def demo_mode2_sel
proof (intro conjI allI impI)
  show "worker_ok ([demo_parked, newWorker 1 False] ! i)" if "i < length [demo_parked, newWorker 1 False]" for i
    using that demo_parked_state(1) newWorker_ok by (cases i) simp_all
  show "(map_of [(1, SessionRef 0 4)] h = Some (SessionRef i raw)) = (0 < h \<and> i < length [demo_parked, newWorker 1 False]
      \<and> map_of (sessions ([demo_parked, newWorker 1 False] ! i)) h = Some raw)" for h i raw
    by (cases i) (auto simp: demo_parked_state newWorker_def split: if_splits)
qed simp

lemma demo_owned: "fst (checkOwnership demo_cgo 4 demo_parked) = Inr ()"
  by (simp add: checkOwnership_def rawSessionWorker_def vclpoll_session_worker_def Let_def case_prod_beta
      demo_parked_def joinWaitSet_def demo_worker_def newWorker_def worker_add_def on_worker_def
      split: sum.split)

lemma demo_gives:
  assumes "sessions w = [(1, 4)]"
  shows "gives_new fst (rawAcceptFull demo_cgo h) w"
    "gives_new fst (mode3ConnectTCP4Start demo_cgo ip p) w"
  using assms by (simp_all add: gives_new_def rawAcceptFull_def vclpoll_accept_nb_full_def ep_out_def
      mode3ConnectTCP4Start_def pin_def parseConnectResult_def connect_defs connect_nb_def case_prod_beta)

section \<open>Properties\<close>

text \<open>Virtual handles are never reused: whatever sessions are opened, accepted and closed, and
  whatever VLS and the workers answer, the public handles issued strictly increase and fit a
  positive 32-bit handle, until the 32-bit counter wraps; a stale handle cannot name a later
  session.\<close>

theorem virtual_handles_never_reissued:
  assumes "uint (nextHandle s) + int (length cs) < 2 ^ 32"
  shows "sorted_wrt (<) (m2_trace V F cs s)
    \<and> (\<forall>h \<in> set (m2_trace V F cs s). uint (nextHandle s) < h \<and> h < 2 ^ 31)"
  by (rule m2_trace_increasing [OF assms])

lemma virtual_handles_never_reissued_witness:
  "set (m2_trace (\<lambda>_. demo_cgo) (\<lambda>_. Answered)
     [M2Close 1, M2BindUDP4 (10, 0, 0, 1) 80, M2Accept 2] demo_mode2) \<subseteq> {1 <..< 2 ^ 31}"
  using virtual_handles_never_reissued [of demo_mode2
      "[M2Close 1, M2BindUDP4 (10, 0, 0, 1) 80, M2Accept 2]" "\<lambda>_. demo_cgo" "\<lambda>_. Answered"]
  by (auto simp del: m2_trace.simps)

text \<open>An operation on a public handle runs on the worker that owns it and touches no other: reads,
  writes, datagrams, shutdown and the address calls leave every other worker and the handle table
  as they are, keep the dispatcher's invariant, park and wake nobody, and on a handle that is not
  owned (a closed one) answer \<open>ErrClosed\<close> without touching any worker.\<close>

theorem session_calls_stay_on_owner:
  assumes "mode2_ok s"
    and "s' \<in> {snd (read_attempt V F h n s), snd (write_attempt V F h p s), snd (sendTo_attempt V F h p a s),
      snd (recvFrom_attempt V F h n s), snd (mode2_shutdown V F h how s),
      snd (mode2_sessionConnectError V F h s), snd (mode2_getPeerAddr V F h s)}"
  shows "only_owner h s s' \<and> owners s' = owners s \<and> mode2_ok s'
    \<and> (\<forall>j < length (workers s). pending (workers s' ! j) = pending (workers s ! j))
    \<and> (map_of (owners s) h = None \<longrightarrow> s' = s \<and> fst (read_attempt V F h n s) = Inl PollErrClosed
         \<and> fst (write_attempt V F h p s) = Inl PollErrClosed)"
proof -
  have "session_step h s s'"
    using assms(2) unfolding session_op_defs by (auto intro!: session_step [OF assms(1)])
  then show ?thesis
    by (simp add: session_step_def session_op_defs sessionCall_unowned)
qed

lemma session_calls_stay_on_owner_witness:
  "workers (snd (read_attempt (\<lambda>_. demo_cgo) (\<lambda>_. Answered) 1 10 demo_mode2)) ! 1 = newWorker 1 False
   \<and> fst (write_attempt (\<lambda>_. demo_cgo) (\<lambda>_. Answered) 7 [] demo_mode2) = Inl PollErrClosed"
  using session_calls_stay_on_owner [OF demo_mode2_ok, of "snd (read_attempt (\<lambda>_. demo_cgo) (\<lambda>_. Answered) 1 10 demo_mode2)"
      "\<lambda>_. demo_cgo" "\<lambda>_. Answered" 1 10 "[]" AddrInfo_zero 0]
    session_calls_stay_on_owner [OF demo_mode2_ok, of "snd (write_attempt (\<lambda>_. demo_cgo) (\<lambda>_. Answered) 7 [] demo_mode2)"
      "\<lambda>_. demo_cgo" "\<lambda>_. Answered" 7 10 "[]" AddrInfo_zero 0]
  by (simp add: only_owner_def)

text \<open>C8. Closing a session that its worker still owns wakes every goroutine parked on it, hands the
  raw handle back to VLS exactly once, forgets the public handle, leaves the other workers alone,
  and keeps the invariant; after that the handle is closed for everybody: a second close, a read,
  a write answers \<open>ErrClosed\<close> and changes nothing.\<close>

theorem close_releases_session:
  assumes "mode2_ok s" and "map_of (owners s) h = Some (SessionRef i raw)"
    and "fst (checkOwnership (V i) raw (workers s ! i)) = Inr ()"
    and "\<not> stopping s" and "appLive s" and "F s \<noteq> Refused"
    and "closeSessionHandle V F h s = (r, s')"
  shows "mode2_ok s' \<and> only_owner h s s' \<and> map_of (owners s') h = None
    \<and> wt_ready ` pend_at (workers s ! i) h \<subseteq> set (ready_closed (workers s' ! i))
    \<and> pend_at (workers s' ! i) h = {}
    \<and> balance k (hist (workers s' ! i)) = balance k (hist (workers s ! i)) - (if k = raw then 1 else 0)
    \<and> closeSessionHandle V F h s' = (Inl PollErrClosed, s')
    \<and> read_attempt V F h n s' = (Inl PollErrClosed, s') \<and> write_attempt V F h p s' = (Inl PollErrClosed, s')"
proof -
  have i: "i < length (workers s)" using mode2_okD(3) [OF assms(1,2)] by simp
  obtain f where f: "closeSessionHandle V F h s = submit F f s" "snd (f s) = close_effect V i h raw s"
    using closeSessionHandle_eq [OF assms(2) i, where V = V and F = F] by metis
  have s': "s' = close_effect V i h raw s"
  proof -
    have "s' = snd (submit F f s)" using f(1) assms(7) by (metis snd_conv)
    with assms(4-6) f(2) show ?thesis by (cases "F s") (simp_all add: submit_def)
  qed
  note c = close_effect_result [where V = V, OF assms(1-3), folded s']
  have gone: "map_of (owners s') h = None" by (simp add: c(3) AList.delete_conv')
  have "pend_at (workers s' ! i) h = {}"
    by (auto simp: pend_at_def c(4))
  moreover have "closeSessionHandle V F h s' = (Inl PollErrClosed, s')"
    by (simp add: closeSessionHandle_def with_lookup_def lookup_def gone)
  moreover have "read_attempt V F h n s' = (Inl PollErrClosed, s')" "write_attempt V F h p s' = (Inl PollErrClosed, s')"
    by (simp_all add: session_op_defs sessionCall_def with_lookup_def lookup_def gone)
  ultimately show ?thesis using c(1,2,5,6) gone by simp
qed

lemma close_releases_session_witness:
  "let s' = snd (closeSessionHandle (\<lambda>_. demo_cgo) (\<lambda>_. Answered) 1 demo_mode2) in
     map_of (owners s') 1 = None \<and> balance 4 (hist (workers s' ! 0)) = -1
     \<and> closeSessionHandle (\<lambda>_. demo_cgo) (\<lambda>_. Answered) 1 s' = (Inl PollErrClosed, s')"
  using close_releases_session [OF demo_mode2_ok, of 1 0 4 "\<lambda>_. demo_cgo" "\<lambda>_. Answered"
      "fst (closeSessionHandle (\<lambda>_. demo_cgo) (\<lambda>_. Answered) 1 demo_mode2)"
      "snd (closeSessionHandle (\<lambda>_. demo_cgo) (\<lambda>_. Answered) 1 demo_mode2)" 4]
  by (simp add: demo_owned demo_parked_state)

lemma registerSession_rr: "rr (snd (registerSession V i raw s)) = rr s"
  by (simp add: registerSession_def case_prod_beta Let_def close_raw_def split: sum.split)

lemma issue_rr: "rr (snd (issue V i hf m s)) = rr s"
  by (simp add: issue_def case_prod_beta registerSession_rr split: sum.split)

lemma result_handle1_case: "(case r of Inl e \<Rightarrow> -1 | Inr x \<Rightarrow> fst x) = result_handle1 r"
  by (cases r) auto

lemma connect_start_keeps:
  "keeps_valid w (result_handle1 (fst (run_state (mode3ConnectTCP4Start V a4 p) w))) (snd (run_state (mode3ConnectTCP4Start V a4 p) w))"
  "keeps_valid w (result_handle1 (fst (run_state (mode3ConnectTCP6Start V a6 p) w))) (snd (run_state (mode3ConnectTCP6Start V a6 p) w))"
  unfolding pinned_start_defs
  by (rule pin_keeps_valid, simp add: keeps_keeps_valid parseConnectResult_keeps connect_keeps)+

lemma map_sum_pair: "map_sum id fst (map_sum id (\<lambda>(p, x). (p, snd x)) r) = map_sum id fst r"
  by (cases r) auto

lemma issued_pick: "issued i r (snd (pickWorker s)) s' \<longleftrightarrow> issued i r s s'"
  unfolding issued_def pickWorker_sel ..

text \<open>How the creating operations use \<open>issue\<close>.\<close>

lemma createConnect_issue:
  "createConnect V F fn s =
     (let (i, s) = pickWorker s
      in submit F (\<lambda>s. (map_sum id (\<lambda>(p, x). (p, snd x)) (fst (issue V i fst (fn (V i)) s)),
           snd (issue V i fst (fn (V i)) s))) s)"
  unfolding createConnect_def
  by (auto simp: issue_def case_prod_beta fun_eq_iff split: sum.split intro!: arg_cong [where f = "\<lambda>f. submit F f _"])

text \<open>C9. A Mode 2 TCP connect that the dispatcher carries out either issues the next virtual handle,
  unused until then, for exactly one more raw session on the round-robin worker, or fails and
  leaves no session behind: whatever VLS opened has been closed again. No other worker changes and
  the dispatcher's invariant holds again.\<close>

theorem mode2_connect_issues_one_session:
  assumes "mode2_ok s" and "workers s \<noteq> []" and "length (workers s) < 2 ^ 32" and "nextHandle s + 1 \<noteq> 0"
    and "\<forall>s. F s = Answered" and "\<not> stopping s" and "appLive s"
    and "gives_new fst (mode3ConnectTCP4Start (V (fst (pickWorker s))) ip port) (workers s ! fst (pickWorker s))"
    and "mode2_connectTCP4Start V F ip port s = (r, s')"
  shows "issued (unat (rr s) mod length (workers s)) (map_sum id fst r) s s' \<and> rr s' = rr s + 1"
proof -
  let ?i = "fst (pickWorker s)" and ?s = "snd (pickWorker s)"
  let ?m = "mode3ConnectTCP4Start (V ?i) ip port"
  let ?x = "issue V ?i fst ?m ?s"
  have ok: "mode2_ok ?s" using assms(1) by (rule pick_ok)
  have keeps: "keeps_valid w (case fst (run_state ?m w) of Inl e \<Rightarrow> -1 | Inr x \<Rightarrow> fst x) (snd (run_state ?m w))" for w
    using connect_start_keeps(1) [of w "V ?i" ip port] by (simp add: result_handle1_case)
  have "issued ?i (map_sum id fst (fst ?x)) ?s (snd ?x)"
    using assms(2-4,8) by (intro issue_result [OF ok] keeps) (simp_all add: pickWorker_bound)
  moreover have rs: "(r, s') = (map_sum id (\<lambda>(p, x). (p, snd x)) (fst ?x), snd ?x)"
    using assms(5-7,9) by (simp add: mode2_connectTCP4Start_def createConnect_issue case_prod_beta submit_def)
  moreover have "rr (snd ?x) = rr s + 1"
    by (simp add: issue_rr)
  ultimately show ?thesis
    using pickWorker_fst [OF assms(3)] issued_pick by (simp add: map_sum_pair)
qed

lemma mode2_connect_issues_one_session_witness:
  "let (r, s') = mode2_connectTCP4Start (\<lambda>_. demo_cgo) (\<lambda>_. Answered) (10, 0, 0, 1) 80 demo_mode2
   in issued 0 (map_sum id fst r) demo_mode2 s'"
  using mode2_connect_issues_one_session [OF demo_mode2_ok _ _ _ _ _ _ _ surjective_pairing,
      where V = "\<lambda>_. demo_cgo" and F = "\<lambda>_. Answered" and ip = "(10, 0, 0, 1)" and port = 80]
  by (simp add: demo_parked_state demo_gives checkOwnership_ok pickWorker_def case_prod_beta)

text \<open>C10. Accepting on a Mode 2 session behaves the same: the connection VLS hands over gets the next
  virtual handle on the listener's own worker, or, when it cannot be registered, is closed again.\<close>

theorem mode2_accept_issues_one_session:
  assumes "mode2_ok s" and "nextHandle s + 1 \<noteq> 0" and "map_of (owners s) l = Some (SessionRef i raw)"
    and "\<forall>s. F s = Answered" and "\<not> stopping s" and "appLive s"
    and "gives_new fst (rawAcceptFull (V i) raw) (snd (checkOwnership (V i) raw (workers s ! i)))"
    and "accept_attempt V F l s = (r, s')"
  shows "issued i (map_sum id fst r) s s'"
proof -
  have i: "i < length (workers s)" and m: "map_of (sessions (workers s ! i)) l = Some raw"
    using mode2_okD(3) [OF assms(1,3)] by simp_all
  let ?o = "ownedRaw (V i) l raw (workers s ! i)"
  define s1 where "s1 = snd (at_worker i (ownedRaw (V i) l raw) s)"
  have s1: "workers s1 = (workers s)[i := snd ?o]" "owners s1 = owners s" "nextHandle s1 = nextHandle s"
    by (simp_all add: s1_def)
  note o = ownedRaw_ok [OF mode2_okD(1) [OF assms(1) i], where C = "V i" and h = l and raw = raw]
  have ok1: "mode2_ok s1" by (rule mode2_ok_worker [OF assms(1) i o(1) _ s1]) (simp add: o)
  have same: "issued i q s1 s2 \<longleftrightarrow> issued i q s s2" for q s2
    using i by (auto simp: issued_def s1 o split: sum.split)
  show ?thesis
  proof (cases "fst ?o")
    case (Inl e)
    then have "(r, s') = (Inl e, s1)"
      using assms(3-6,8) by (simp add: accept_attempt_def with_lookup_def lookup_def submit_def s1_def case_prod_beta)
    with ok1 s1 i o show ?thesis by (auto simp: issued_def)
  next
    case (Inr raw')
    with m have raw': "raw' = raw" by (auto simp: ownedRaw_run split: sum.splits)
    let ?x = "issue V i fst (rawAcceptFull (V i) raw) s1"
    have "accept_attempt V F l s = (map_sum id (\<lambda>(p, x). (p, snd x)) (fst ?x), snd ?x)"
      using assms(3-6) Inr raw'
      by (simp add: accept_attempt_def with_lookup_def lookup_def submit_def s1_def issue_def case_prod_beta split: sum.split)
    then have rs: "(r, s') = (map_sum id (\<lambda>(p, x). (p, snd x)) (fst ?x), snd ?x)" using assms(8) by metis
    have "keeps_valid w (case fst (run_state (rawAcceptFull (V i) raw) w) of Inl e \<Rightarrow> -1 | Inr x \<Rightarrow> fst x)
        (snd (run_state (rawAcceptFull (V i) raw) w))" for w
      by (simp add: result_handle1_case keeps_keeps_valid rawAcceptFull_keeps)
    moreover have "snd ?o = snd (checkOwnership (V i) raw (workers s ! i))" using m by (simp add: ownedRaw_run)
    ultimately have "issued i (map_sum id fst (fst ?x)) s1 (snd ?x)"
      using assms(2,7) i by (intro issue_result [OF ok1]) (simp_all add: s1)
    with rs same show ?thesis by (simp add: map_sum_pair)
  qed
qed

lemma mode2_accept_issues_one_session_witness:
  "let (r, s') = accept_attempt (\<lambda>_. demo_cgo) (\<lambda>_. Answered) 1 demo_mode2
   in issued 0 (map_sum id fst r) demo_mode2 s'"
  using mode2_accept_issues_one_session [OF demo_mode2_ok _ _ _ _ _ _ surjective_pairing,
      where V = "\<lambda>_. demo_cgo" and F = "\<lambda>_. Answered" and l = 1 and i = 0 and raw = 4]
  by (simp add: demo_parked_state demo_gives checkOwnership_ok pickWorker_def case_prod_beta)

text \<open>Work is spread evenly: any run of as many picks as there are workers uses every worker exactly
  once (while the 32-bit counter does not wrap).\<close>

theorem round_robin_covers_workers:
  assumes "workers s \<noteq> []" and "length (workers s) < 2 ^ 32" and "unat (rr s) + length (workers s) < 2 ^ 32"
  shows "distinct (picks (length (workers s)) s) \<and> set (picks (length (workers s)) s) = {0..<length (workers s)}"
proof -
  let ?L = "length (workers s)"
  note p = picks_eq [OF assms(2,3)]
  have inj: "inj_on (\<lambda>k. (unat (rr s) + k) mod ?L) {0..<?L}"
    by (auto intro!: inj_onI dest: mod_shift_inj)
  have "(\<lambda>k. (unat (rr s) + k) mod ?L) ` {0..<?L} \<subseteq> {0..<?L}"
    using assms(1) by auto
  then have "(\<lambda>k. (unat (rr s) + k) mod ?L) ` {0..<?L} = {0..<?L}"
    by (rule endo_inj_surj [OF finite_atLeastLessThan _ inj])
  with inj show ?thesis by (simp add: p distinct_map)
qed

lemma round_robin_covers_workers_witness: "set (picks (Suc (Suc 0)) demo_mode2) = {0..<Suc (Suc 0)}"
  using round_robin_covers_workers [of demo_mode2] by (simp del: picks.simps)

end
