(* ===== verification/ShardListener.thy ===== *)
theory ShardListener
  imports Mode2Laws "HOL-Library.Sublist"
begin

text \<open>
  The Mode 2 sharded listener (\<open>internal/vclpoll/shard_listener.go\<close>): one VLS listener per worker under one
  public handle. Here it is opened, asked for its address and torn down; the accept loops that run
  while it is open are in theory \<open>ShardLoops\<close>.
\<close>

section \<open>Opening\<close>

text \<open>\<open>closeShards\<close>: the errors of the closes that failed, with the worker's index.\<close>

fun closeShards :: "(nat \<Rightarrow> cgo) \<Rightarrow> (mode2 \<Rightarrow> submit_fate) \<Rightarrow> (nat \<times> handle) list \<Rightarrow> mode2
    \<Rightarrow> (nat \<times> vclpoll_error) list \<times> mode2" where
  "closeShards V F [] s = ([], s)"
| "closeShards V F ((i, raw) # shards) s =
     (let (r, s) = submit F (close_raw V i raw) s;
          (errs, s) = closeShards V F shards s
      in (case r of Inl e \<Rightarrow> (i, e) # errs | Inr _ \<Rightarrow> errs, s))"

definition createShard :: "(nat \<Rightarrow> cgo) \<Rightarrow> (cgo \<Rightarrow> (world, handle poll_result) state) \<Rightarrow> nat \<Rightarrow> mode2
    \<Rightarrow> handle poll_result \<times> mode2" where
  "createShard V createFn i s =
     (case at_worker i (on_worker (createFn (V i))) s of
        (Inl e, s) \<Rightarrow> (Inl e, s)
      | (Inr raw, s) \<Rightarrow>
          (case at_worker i (checkOwnership (V i) raw) s of
             (Inl e, s) \<Rightarrow> (Inl e, snd (close_raw V i raw s))
           | (Inr _, s) \<Rightarrow> (Inr raw, s)))"

fun createShards :: "(nat \<Rightarrow> cgo) \<Rightarrow> (mode2 \<Rightarrow> submit_fate) \<Rightarrow> (cgo \<Rightarrow> (world, handle poll_result) state)
    \<Rightarrow> nat list \<Rightarrow> (nat \<times> handle) list \<Rightarrow> mode2 \<Rightarrow> (nat \<times> handle) list poll_result \<times> mode2" where
  "createShards V F createFn [] shards s = (Inr shards, s)"
| "createShards V F createFn (i # is) shards s =
     (case submit F (createShard V createFn i) s of
        (Inl e, s) \<Rightarrow>
          (let (errs, s) = closeShards V F shards s
           in (Inl (if errs = [] then e else Wrapped ''cleanup of already-created shards also failed'' e), s))
      | (Inr raw, s) \<Rightarrow> createShards V F createFn is (shards @ [(i, raw)]) s)"

definition newShardedListener :: "(nat \<Rightarrow> cgo) \<Rightarrow> (mode2 \<Rightarrow> submit_fate)
    \<Rightarrow> (cgo \<Rightarrow> (world, handle poll_result) state) \<Rightarrow> mode2 \<Rightarrow> handle poll_result \<times> mode2" where
  "newShardedListener V F createFn s =
     (case createShards V F createFn [0..<length (workers s)] [] s of
        (Inl e, s) \<Rightarrow> (Inl e, s)
      | (Inr shards, s) \<Rightarrow>
          (let id = nextHandle s + 1;
               public = sint id;
               sl = \<lparr>sl_public = public, sl_shards = shards, sl_acceptC = [], sl_stopped = False\<rparr>
           in (Inr public, s\<lparr>nextHandle := id, listeners := listeners s @ [sl],
                 owners := AList.update public (ShardedRef (length (listeners s))) (owners s)\<rparr>)))"

definition mode2_listenTCP4 where
  "mode2_listenTCP4 V F ip port backlog = newShardedListener V F (\<lambda>C. mode3ListenTCP4 C ip port backlog)"

definition mode2_listenTCP6 where
  "mode2_listenTCP6 V F ip port backlog = newShardedListener V F (\<lambda>C. mode3ListenTCP6 C ip port backlog)"

definition mode2_listenTLS4 where
  "mode2_listenTLS4 V F ip port backlog ckp = newShardedListener V F (\<lambda>C. rawListenTLS4 C ip port backlog ckp)"

definition mode2_listenTLS6 where
  "mode2_listenTLS6 V F ip port backlog ckp = newShardedListener V F (\<lambda>C. rawListenTLS6 C ip port backlog ckp)"

text \<open>The four ways to listen.\<close>

datatype listen_call =
    ListenTCP4 ip4 u16 int
  | ListenTCP6 ip16 u16 int
  | ListenTLS4 ip4 u16 int u32
  | ListenTLS6 ip16 u16 int u32

fun mode2_listen :: "(nat \<Rightarrow> cgo) \<Rightarrow> (mode2 \<Rightarrow> submit_fate) \<Rightarrow> listen_call \<Rightarrow> mode2 \<Rightarrow> handle poll_result \<times> mode2" where
  "mode2_listen V F (ListenTCP4 a p b) s = mode2_listenTCP4 V F a p b s"
| "mode2_listen V F (ListenTCP6 a p b) s = mode2_listenTCP6 V F a p b s"
| "mode2_listen V F (ListenTLS4 a p b c) s = mode2_listenTLS4 V F a p b c s"
| "mode2_listen V F (ListenTLS6 a p b c) s = mode2_listenTLS6 V F a p b c s"

section \<open>Address calls on either kind of handle\<close>

definition mode2_getLocalAddr :: "(nat \<Rightarrow> cgo) \<Rightarrow> (mode2 \<Rightarrow> submit_fate) \<Rightarrow> handle \<Rightarrow> mode2
    \<Rightarrow> AddrInfo poll_result \<times> mode2" where
  "mode2_getLocalAddr V F h s =
     (case lookupShardedListener h s of
        Some n \<Rightarrow>
          (let (i, raw) = sl_shards (listeners s ! n) ! 0
           in submit F (at_worker i (on_worker (mode3GetLocalAddr (V i) raw))) s)
      | None \<Rightarrow> sessionCall V F h (\<lambda>C raw. on_worker (mode3GetLocalAddr C raw)) s)"

fun setShardsV6Only :: "(nat \<Rightarrow> cgo) \<Rightarrow> (mode2 \<Rightarrow> submit_fate) \<Rightarrow> bool \<Rightarrow> (nat \<times> handle) list \<Rightarrow> mode2
    \<Rightarrow> unit poll_result \<times> mode2" where
  "setShardsV6Only V F b [] s = (Inr (), s)"
| "setShardsV6Only V F b ((i, raw) # shards) s =
     (case submit F (at_worker i (on_worker (mode3SetV6Only (V i) raw b))) s of
        (Inl e, s) \<Rightarrow> (Inl e, s)
      | (Inr _, s) \<Rightarrow> setShardsV6Only V F b shards s)"

definition mode2_setV6Only :: "(nat \<Rightarrow> cgo) \<Rightarrow> (mode2 \<Rightarrow> submit_fate) \<Rightarrow> handle \<Rightarrow> bool \<Rightarrow> mode2
    \<Rightarrow> unit poll_result \<times> mode2" where
  "mode2_setV6Only V F h b s =
     (case lookupShardedListener h s of
        Some n \<Rightarrow> setShardsV6Only V F b (sl_shards (listeners s ! n)) s
      | None \<Rightarrow> sessionCall V F h (\<lambda>C raw. on_worker (mode3SetV6Only C raw b)) s)"

section \<open>Accepting and closing\<close>

definition set_sl :: "nat \<Rightarrow> (shardedListener \<Rightarrow> shardedListener) \<Rightarrow> mode2 \<Rightarrow> mode2" where
  "set_sl n f s = s\<lparr>listeners := (listeners s)[n := f (listeners s ! n)]\<rparr>"

text \<open>The connections among results: those without an error.\<close>

definition conns :: "shardAcceptResult list \<Rightarrow> handle list" where
  "conns rs = map sa_handle (filter (\<lambda>r. sa_err r = None) rs)"

text \<open>\<open>shardedAcceptFullContext\<close> when \<open>acceptC\<close> is ready; on \<open>stopCh\<close> or \<open>done\<close> it answers
  \<open>(invalidVLSH, AddrInfo{}, ErrClosed)\<close> and changes nothing.\<close>

fun accept_answer :: "shardAcceptResult option \<Rightarrow> handle \<times> AddrInfo \<times> vclpoll_error option" where
  "accept_answer (Some r) = (sa_handle r, sa_addr r, sa_err r)"
| "accept_answer None = (invalidVLSH, AddrInfo_zero, Some PollErrClosed)"

text \<open>The end of \<open>closeShardedListener\<close>, after \<open>wg.Wait\<close>: the queue is drained, then the raw
  listeners are closed, then the public handle is forgotten.\<close>

definition closeDrained :: "(nat \<Rightarrow> cgo) \<Rightarrow> (mode2 \<Rightarrow> submit_fate) \<Rightarrow> shardAcceptResult list \<Rightarrow> mode2 \<Rightarrow> mode2" where
  "closeDrained V F rs s = fold (\<lambda>h s. snd (closeSessionHandle V F h s)) (conns rs) s"

fun closeRawShards :: "(nat \<Rightarrow> cgo) \<Rightarrow> (mode2 \<Rightarrow> submit_fate) \<Rightarrow> (nat \<times> handle) list \<Rightarrow> mode2
    \<Rightarrow> vclpoll_error option \<times> mode2" where
  "closeRawShards V F [] s = (None, s)"
| "closeRawShards V F ((i, raw) # shards) s =
     (let (r, s) = submit F (\<lambda>s. close_raw V i raw
            (snd (at_worker i (\<lambda>w. ((), removeWaitersRaw (V i) raw w)) s))) s;
          (firstErr, s) = closeRawShards V F shards s
      in (case r of Inl e \<Rightarrow> Some e | Inr _ \<Rightarrow> firstErr, s))"

definition closeShardedListener_finish :: "(nat \<Rightarrow> cgo) \<Rightarrow> (mode2 \<Rightarrow> submit_fate) \<Rightarrow> nat \<Rightarrow> mode2
    \<Rightarrow> vclpoll_error option \<times> mode2" where
  "closeShardedListener_finish V F n s =
     (let rs = sl_acceptC (listeners s ! n);
          s = closeDrained V F rs (set_sl n (\<lambda>sl. sl\<lparr>sl_acceptC := []\<rparr>) s);
          (firstErr, s) = closeRawShards V F (sl_shards (listeners s ! n)) s
      in (firstErr, s\<lparr>owners := AList.delete (sl_public (listeners s ! n)) (owners s)\<rparr>))"

section \<open>What the operations leave alone\<close>

lemma submit_listeners:
  "listeners (snd (f s)) = listeners s \<Longrightarrow> listeners (snd (submit F f s)) = listeners s"
  by (rule submit_inv [where P = "\<lambda>s'. listeners s' = listeners s"]) simp_all

lemma registerSession_listeners [simp]: "listeners (snd (registerSession V i raw s)) = listeners s"
  by (simp add: registerSession_def case_prod_beta Let_def split: sum.split)

lemma closeSessionHandle_listeners [simp]: "listeners (snd (closeSessionHandle V F h s)) = listeners s"
  unfolding closeSessionHandle_def with_lookup_def
  by (auto simp: case_prod_beta Let_def unregisterSession_def split: option.split sum.split intro!: submit_listeners)

lemma closeDrained_listeners [simp]: "listeners (closeDrained V F rs s) = listeners s"
proof -
  have "listeners (fold (\<lambda>h s. snd (closeSessionHandle V F h s)) hs s) = listeners s" for hs
    by (induction hs arbitrary: s) simp_all
  then show ?thesis by (simp add: closeDrained_def)
qed

lemma closeRawShards_listeners [simp]: "listeners (snd (closeRawShards V F shards s)) = listeners s"
proof (induction shards arbitrary: s)
  case (Cons e shards)
  then show ?case by (cases e) (simp add: case_prod_beta submit_listeners)
qed simp

lemma finish_listeners:
  "listeners (snd (closeShardedListener_finish V F n s)) = (listeners s)[n := (listeners s ! n)\<lparr>sl_acceptC := []\<rparr>]"
  by (simp add: closeShardedListener_finish_def case_prod_beta Let_def set_sl_def)

section \<open>All shards or none\<close>

text \<open>What the opening and closing of shards leaves alone.\<close>

definition shard_frame :: "mode2 \<Rightarrow> mode2 \<Rightarrow> bool" where
  "shard_frame s s' \<longleftrightarrow> mode2_ok s' \<and> owners s' = owners s \<and> nextHandle s' = nextHandle s
     \<and> listeners s' = listeners s \<and> stopping s' = stopping s \<and> appLive s' = appLive s
     \<and> length (workers s') = length (workers s)
     \<and> (\<forall>j < length (workers s). pending (workers s' ! j) = pending (workers s ! j))"

lemma shard_frame_refl: "mode2_ok s \<Longrightarrow> shard_frame s s"
  by (simp add: shard_frame_def)

lemma shard_frame_trans: "shard_frame s s1 \<Longrightarrow> shard_frame s1 s2 \<Longrightarrow> shard_frame s s2"
  by (simp add: shard_frame_def)

lemma shard_frame_at_worker:
  assumes ok: "mode2_ok s" and i: "i < length (workers s)"
    and f: "worker_ok (snd (f (workers s ! i)))" "sessions (snd (f (workers s ! i))) = sessions (workers s ! i)"
      "pending (snd (f (workers s ! i))) = pending (workers s ! i)"
  shows "shard_frame s (snd (at_worker i f s))"
proof -
  have "mode2_ok (snd (at_worker i f s))"
    by (rule mode2_ok_worker [OF ok i f(1)]) (simp_all add: f(2))
  with f(3) i show ?thesis by (auto simp: shard_frame_def nth_list_update)
qed

text \<open>How many more handles each worker has open.\<close>

definition gained :: "nat \<Rightarrow> handle \<Rightarrow> mode2 \<Rightarrow> mode2 \<Rightarrow> int" where
  "gained j h s s' = balance h (hist (workers s' ! j)) - balance h (hist (workers s ! j))"

definition shard_bal :: "(nat \<times> handle) list \<Rightarrow> nat \<Rightarrow> handle \<Rightarrow> int" where
  "shard_bal shards j h = sum_list (map (\<lambda>(i, raw). if i = j then owns raw h else 0) shards)"

lemma shard_bal_simps [simp]:
  "shard_bal [] j h = 0"
  "shard_bal ((i, raw) # shards) j h = (if i = j then owns raw h else 0) + shard_bal shards j h"
  "shard_bal (shards @ shards') j h = shard_bal shards j h + shard_bal shards' j h"
  by (simp_all add: shard_bal_def)

lemma gained_refl [simp]: "gained j h s s = 0"
  by (simp add: gained_def)

lemma gained_trans: "gained j h s s2 = gained j h s s1 + gained j h s1 s2"
  by (simp add: gained_def)

lemma gained_at_worker:
  assumes "i < length (workers s)"
  shows "gained j h s (snd (at_worker i f s))
    = (if j = i then balance h (hist (snd (f (workers s ! i)))) - balance h (hist (workers s ! i)) else 0)"
  using assms by (simp add: gained_def)

lemma close_raw_shard:
  assumes "mode2_ok s" and "i < length (workers s)"
  shows "shard_frame s (snd (close_raw V i raw s))"
    "gained j h s (snd (close_raw V i raw s)) = (if j = i \<and> h = raw then -1 else 0)"
  unfolding close_raw_def
  using on_worker_ok [OF mode2_okD(1) [OF assms] rawClose_leaves] assms
  by (auto intro!: shard_frame_at_worker simp: gained_at_worker rawClose_balance)

lemma createShard_result:
  fixes V :: "nat \<Rightarrow> cgo" and i :: nat
  assumes ok: "mode2_ok s" and i: "i < length (workers s)"
    and leaves: "\<And>C ep. leaves_epoll (fn C) ep"
    and keeps: "\<And>C w. keeps_valid w (result_handle (fst (run_state (fn C) w))) (snd (run_state (fn C) w))"
    and h: "0 \<le> h"
  defines "res \<equiv> createShard V fn i s"
  shows "shard_frame s (snd res)"
    "gained j h s (snd res) = (case fst res of Inl e \<Rightarrow> 0 | Inr raw \<Rightarrow> if j = i then owns raw h else 0)"
proof -
  let ?m = "on_worker (fn (V i))"
  let ?s1 = "snd (at_worker i ?m s)"
  note w = on_worker_ok [OF mode2_okD(1) [OF ok i] leaves [of "V i"]]
  have f1: "shard_frame s ?s1" by (rule shard_frame_at_worker [OF ok i]) (simp_all add: w)
  have g1: "gained j h s ?s1 = (if j = i then owns (result_handle (fst (run_state (fn (V i)) (hist (workers s ! i))))) h else 0)"
    using keeps [of "hist (workers s ! i)" "V i"] h by (simp add: gained_at_worker [OF i] keeps_valid_def)
  have s1: "mode2_ok ?s1" "i < length (workers ?s1)" using f1 i by (simp_all add: shard_frame_def)
  have "shard_frame s (snd res) \<and> gained j h s (snd res)
      = (case fst res of Inl e \<Rightarrow> 0 | Inr raw \<Rightarrow> if j = i then owns raw h else 0)"
  proof (cases "fst (run_state (fn (V i)) (hist (workers s ! i)))")
    case (Inl e)
    then have "res = (Inl e, ?s1)" by (simp add: res_def createShard_def case_prod_beta)
    with f1 g1 Inl show ?thesis by simp
  next
    case (Inr raw)
    let ?c = "checkOwnership (V i) raw"
    let ?s2 = "snd (at_worker i ?c ?s1)"
    note c = checkOwnership_ok [OF mode2_okD(1) [OF s1], where C = "V i" and raw = raw]
    have f2: "shard_frame ?s1 ?s2" by (rule shard_frame_at_worker [OF s1]) (simp_all only: c)
    have g2: "gained j h ?s1 ?s2 = 0" by (simp only: gained_at_worker [OF s1(2)] c) simp
    have s2: "mode2_ok ?s2" "i < length (workers ?s2)" using f2 s1 by (simp_all add: shard_frame_def)
    note d = close_raw_shard [OF s2, where V = V and raw = raw]
    show ?thesis
    proof (cases "fst (at_worker i ?c ?s1)")
      case (Inl e)
      then have "res = (Inl e, snd (close_raw V i raw ?s2))"
        using Inr by (simp add: res_def createShard_def case_prod_beta)
      moreover have "shard_frame s (snd (close_raw V i raw ?s2))"
        by (rule shard_frame_trans [OF f1 shard_frame_trans [OF f2 d(1)]])
      moreover have "gained j h s (snd (close_raw V i raw ?s2)) = 0"
        using g1 g2 d(2) [of j h] Inr h gained_trans [of j h s "snd (close_raw V i raw ?s2)" ?s1]
          gained_trans [of j h ?s1 "snd (close_raw V i raw ?s2)" ?s2]
        by (simp add: owns_def split: if_splits)
      ultimately show ?thesis by simp
    next
      case (Inr u)
      then have "res = (Inr raw, ?s2)"
        using \<open>fst (run_state (fn (V i)) (hist (workers s ! i))) = Inr raw\<close>
        by (simp add: res_def createShard_def case_prod_beta)
      moreover have "gained j h s ?s2 = (if j = i then owns raw h else 0)"
        using g1 g2 \<open>fst (run_state (fn (V i)) (hist (workers s ! i))) = Inr raw\<close> gained_trans [of j h s ?s2 ?s1]
        by simp
      ultimately show ?thesis using shard_frame_trans [OF f1 f2] by simp
    qed
  qed
  then show "shard_frame s (snd res)"
    "gained j h s (snd res) = (case fst res of Inl e \<Rightarrow> 0 | Inr raw \<Rightarrow> if j = i then owns raw h else 0)"
    by simp_all
qed

text \<open>The shards \<open>xs\<close> are open in \<open>s'\<close> beyond those of \<open>s\<close>, and \<open>ys\<close> are no longer.\<close>

definition grew :: "(nat \<times> handle) list \<Rightarrow> (nat \<times> handle) list \<Rightarrow> mode2 \<Rightarrow> mode2 \<Rightarrow> bool" where
  "grew xs ys s s' \<longleftrightarrow> (\<forall>j h. 0 \<le> h \<longrightarrow> gained j h s s' = shard_bal xs j h - shard_bal ys j h)"

lemma grew_refl: "grew a a s s"
  by (simp add: grew_def)

lemma grew_trans: "grew a b s s1 \<Longrightarrow> grew c d s1 s2 \<Longrightarrow> grew (a @ c) (b @ d) s s2"
  by (simp add: grew_def gained_trans [of _ _ s s2 s1])

lemma grew_cancel: "grew (a @ c) (b @ a) s s' \<Longrightarrow> grew c b s s'" "grew (a @ c) a s s' \<Longrightarrow> grew c [] s s'"
  by (simp_all add: grew_def)

text \<open>Closing: what is left is what \<open>submit\<close> refused, and an error says so.\<close>

lemma close_submit:
  assumes ok: "mode2_ok s" and i: "i < length (workers s)"
  obtains k where "shard_frame s (snd (submit F (close_raw V i raw) s))" "subseq k [(i, raw)]"
    "grew k [(i, raw)] s (snd (submit F (close_raw V i raw) s))" "k \<noteq> [] \<longrightarrow> isl (fst (submit F (close_raw V i raw) s))"
proof -
  note c = close_raw_shard [OF ok i, where V = V and raw = raw]
  have closed: "grew [] [(i, raw)] s (snd (close_raw V i raw s))" by (simp add: grew_def c owns_def)
  show ?thesis
  proof (cases rule: submit_cases [of F "close_raw V i raw" s])
    case 1
    then show ?thesis by (intro that [of "[(i, raw)]"]) (simp_all add: shard_frame_refl [OF ok] grew_refl)
  next
    case 2
    then show ?thesis by (intro that [of "[]"]) (simp_all add: c closed)
  next
    case 3
    then show ?thesis by (intro that [of "[]"]) (simp_all add: c closed)
  qed
qed

lemma closeShards_result:
  assumes "mode2_ok s" and "\<forall>x \<in> set shards. fst x < length (workers s)"
  shows "\<exists>left. shard_frame s (snd (closeShards V F shards s)) \<and> grew left shards s (snd (closeShards V F shards s))
    \<and> subseq left shards \<and> (left \<noteq> [] \<longrightarrow> fst (closeShards V F shards s) \<noteq> [])"
  using assms
proof (induction shards arbitrary: s)
  case Nil
  then show ?case by (intro exI [of _ "[]"]) (simp add: shard_frame_refl grew_refl)
next
  case (Cons e shards)
  obtain i raw where e: "e = (i, raw)" by fastforce
  obtain r s1 where c: "submit F (close_raw V i raw) s = (r, s1)" by fastforce
  obtain k where k: "shard_frame s s1" "subseq k [e]" "grew k [e] s s1" "k \<noteq> [] \<longrightarrow> isl r"
    using close_submit [OF Cons.prems(1), of i F V raw] Cons.prems(2) by (auto simp: e c)
  then have "mode2_ok s1" "\<forall>x \<in> set shards. fst x < length (workers s1)" using Cons.prems(2) by (simp_all add: shard_frame_def)
  from Cons.IH [OF this] obtain left where l: "shard_frame s1 (snd (closeShards V F shards s1))"
    "grew left shards s1 (snd (closeShards V F shards s1))" "subseq left shards"
    "left \<noteq> [] \<longrightarrow> fst (closeShards V F shards s1) \<noteq> []" by blast
  have "snd (closeShards V F (e # shards) s) = snd (closeShards V F shards s1)"
    "k @ left \<noteq> [] \<longrightarrow> fst (closeShards V F (e # shards) s) \<noteq> []"
    using k(4) l(4) by (auto simp: e c case_prod_beta split: sum.split)
  with shard_frame_trans [OF k(1) l(1)] grew_trans [OF k(3) l(2)] list_emb_append_mono [OF k(2) l(3)] show ?case
    by (intro exI [of _ "k @ left"]) simp
qed

text \<open>Opening one shard: the listener exists exactly if the operation succeeded, whether or not its
  answer arrived.\<close>

lemma createShard_submit:
  fixes V :: "nat \<Rightarrow> cgo" and F :: "mode2 \<Rightarrow> submit_fate"
  assumes ok: "mode2_ok s" and i: "i < length (workers s)"
    and leaves: "\<And>C ep. leaves_epoll (fn C) ep"
    and keeps: "\<And>C w. keeps_valid w (result_handle (fst (run_state (fn C) w))) (snd (run_state (fn C) w))"
  defines "res \<equiv> submit F (createShard V fn i) s"
  shows "shard_frame s (snd res)" "fst res = Inr raw \<Longrightarrow> grew [(i, raw)] [] s (snd res)"
    "fst res = Inl e \<Longrightarrow> \<exists>k. subseq (map fst k) [i] \<and> grew k [] s (snd res) \<and> (k \<noteq> [] \<longrightarrow> F s = AnswerLost)"
proof -
  have c: "shard_frame s (snd (createShard V fn i s))" by (rule createShard_result(1) [OF ok i leaves keeps order_refl])
  have g: "grew (case fst (createShard V fn i s) of Inl e \<Rightarrow> [] | Inr raw \<Rightarrow> [(i, raw)]) [] s (snd (createShard V fn i s))"
    unfolding grew_def
  proof (intro allI impI)
    fix j h assume h: "0 \<le> (h :: handle)"
    show "gained j h s (snd (createShard V fn i s)) = shard_bal (case fst (createShard V fn i s) of Inl e \<Rightarrow> [] | Inr raw \<Rightarrow> [(i, raw)]) j h - shard_bal [] j h"
      using createShard_result(2) [where V = V and fn = fn and j = j, OF ok i leaves keeps h] by (auto split: sum.split)
  qed
  show "shard_frame s (snd res)"
    unfolding res_def using shard_frame_refl [OF ok] c by (rule submit_inv)
  show "grew [(i, raw)] [] s (snd res)" if "fst res = Inr raw"
    using g that submit_Inr [of F "createShard V fn i" s raw] unfolding res_def by simp
  show "\<exists>k. subseq (map fst k) [i] \<and> grew k [] s (snd res) \<and> (k \<noteq> [] \<longrightarrow> F s = AnswerLost)" if "fst res = Inl e"
  proof (cases rule: submit_cases [of F "createShard V fn i" s])
    case 1
    then show ?thesis by (intro exI [of _ "[]"]) (simp add: res_def grew_refl)
  next
    case 2
    with g show ?thesis
      by (intro exI [of _ "case fst (createShard V fn i s) of Inl e \<Rightarrow> [] | Inr raw \<Rightarrow> [(i, raw)]"]) (simp add: res_def split: sum.split)
  next
    case 3
    with g that show ?thesis by (intro exI [of _ "[]"]) (simp add: res_def)
  qed
qed

text \<open>A failed listen has closed what it created, but for shards whose close was refused, which the error
  tells, and one whose creation was not answered.\<close>

definition excused :: "(mode2 \<Rightarrow> submit_fate) \<Rightarrow> (nat \<times> handle) list \<Rightarrow> vclpoll_error \<Rightarrow> bool" where
  "excused F left e \<longleftrightarrow> left = [] \<or> (\<exists>e'. e = Wrapped ''cleanup of already-created shards also failed'' e') \<or> (\<exists>t. F t = AnswerLost)"

lemma createShards_result:
  fixes V :: "nat \<Rightarrow> cgo"
  assumes leaves: "\<And>C ep. leaves_epoll (fn C) ep"
    and keeps: "\<And>C w. keeps_valid w (result_handle (fst (run_state (fn C) w))) (snd (run_state (fn C) w))"
    and s: "mode2_ok s" "\<forall>i \<in> set js. i < length (workers s)" "\<forall>x \<in> set shards. fst x < length (workers s)"
  shows "shard_frame s (snd (createShards V F fn js shards s))
    \<and> (case fst (createShards V F fn js shards s) of
        Inl e \<Rightarrow> \<exists>left. grew left shards s (snd (createShards V F fn js shards s))
          \<and> subseq (map fst left) (map fst shards @ js) \<and> excused F left e
      | Inr shards' \<Rightarrow> grew shards' shards s (snd (createShards V F fn js shards s)) \<and> map fst shards' = map fst shards @ js)"
  using s
proof (induction js arbitrary: shards s)
  case Nil
  then show ?case by (simp add: shard_frame_refl grew_refl)
next
  case (Cons i js)
  obtain r s1 where c: "submit F (createShard V fn i) s = (r, s1)" by fastforce
  have i: "i < length (workers s)" using Cons.prems(2) by simp
  note one = createShard_submit [where V = V and F = F and fn = fn, OF Cons.prems(1) i leaves keeps, unfolded c fst_conv snd_conv]
  have s1: "mode2_ok s1" "length (workers s1) = length (workers s)" using one(1) by (simp_all add: shard_frame_def)
  show ?case
  proof (cases r)
    case (Inl e)
    from one(3) [OF this] obtain k where k: "subseq (map fst k) [i]" "grew k [] s s1" "k \<noteq> [] \<longrightarrow> F s = AnswerLost" by blast
    obtain errs s2 where d: "closeShards V F shards s1 = (errs, s2)" by fastforce
    have "\<forall>x \<in> set shards. fst x < length (workers s1)" using Cons.prems(3) s1(2) by simp
    from closeShards_result [OF s1(1) this, of V F, unfolded d fst_conv snd_conv] obtain left where
      l: "shard_frame s1 s2" "grew left shards s1 s2" "subseq left shards" "left \<noteq> [] \<longrightarrow> errs \<noteq> []" by blast
    have res: "createShards V F fn (i # js) shards s
        = (Inl (if errs = [] then e else Wrapped ''cleanup of already-created shards also failed'' e), s2)"
      by (simp add: c d Inl)
    have "grew (left @ k) shards s s2" using grew_trans [OF k(2) l(2)] by (simp add: grew_def algebra_simps)
    moreover have "subseq (map fst (left @ k)) (map fst shards @ i # js)"
      using list_emb_append_mono [OF subseq_map [OF l(3), of fst] list_emb_append_mono [OF k(1) list_emb_Nil [of _ js]]] by simp
    moreover have "excused F (left @ k) (if errs = [] then e else Wrapped ''cleanup of already-created shards also failed'' e)"
      using l(4) k(3) by (auto simp: excused_def)
    ultimately show ?thesis unfolding res fst_conv snd_conv sum.case using shard_frame_trans [OF one(1) l(1)] by blast
  next
    case (Inr raw)
    have "\<forall>x \<in> set (shards @ [(i, raw)]). fst x < length (workers s1)" "\<forall>i \<in> set js. i < length (workers s1)"
      using Cons.prems s1(2) by auto
    note ih = Cons.IH [OF s1(1) this(2,1)]
    have e: "createShards V F fn (i # js) shards s = createShards V F fn js (shards @ [(i, raw)]) s1"
      by (simp add: c Inr)
    have more: "grew x shards s t" if "grew x (shards @ [(i, raw)]) s1 t" for x t
      using grew_trans [OF one(2) [OF Inr] that] by (simp add: grew_def)
    show ?thesis
    proof (cases "fst (createShards V F fn js (shards @ [(i, raw)]) s1)")
      case (Inl e')
      with ih show ?thesis unfolding e by simp (blast intro: more shard_frame_trans [OF one(1)])
    next
      case (Inr shards')
      with ih show ?thesis unfolding e by simp (blast intro: more shard_frame_trans [OF one(1)])
    qed
  qed
qed

lemma leaves_listen_ops [simp]:
  "leaves_epoll (mode3ListenTCP4 V a4 p b) ep" "leaves_epoll (mode3ListenTCP6 V a6 p b) ep"
  "leaves_epoll (rawListenTLS4 V a4 p b c) ep" "leaves_epoll (rawListenTLS6 V a6 p b c) ep"
  by (auto simp: mode3ListenTCP4_def mode3ListenTCP6_def rawListenTLS4_def rawListenTLS6_def listen_defs
      bind_listen_def intro!: leaves_rules leaves_pin)

text \<open>A new listener's entry keeps the dispatcher's invariant while handles last.\<close>

lemma mode2_ok_new_listener:
  assumes ok: "mode2_ok s" and lt: "uint (nextHandle s) + 1 < 2 ^ 31"
    and s': "workers s' = workers s" "nextHandle s' = nextHandle s + 1"
      "map_of (owners s') = (map_of (owners s))(sint (nextHandle s + 1) \<mapsto> ShardedRef n)"
  shows "mode2_ok s' \<and> sint (nextHandle s + 1) = uint (nextHandle s) + 1
    \<and> map_of (owners s) (uint (nextHandle s) + 1) = None"
proof -
  have ge: "0 \<le> uint (nextHandle s)" by simp
  have u: "uint (nextHandle s + 1) = uint (nextHandle s) + 1"
    using lt ge by (simp add: uint_word_ariths mod_pos_pos_trivial)
  have nz: "nextHandle s + 1 \<noteq> 0" 
  proof
    assume "nextHandle s + 1 = 0"
    with u have "uint (nextHandle s) + 1 = 0" by simp
    with ge show False by linarith
  qed
  have "\<not> nextHandle s + 1 > maxVirtualHandle"
    using lt u by (simp add: word_less_def maxVirtualHandle_def push_bit_eq_mult)
  note id = id_bounds [OF nz this]
  have unused: "map_of (owners s) (uint (nextHandle s) + 1) = None"
    using mode2_okD(2) [OF ok, of "uint (nextHandle s) + 1"]
    by (cases "map_of (owners s) (uint (nextHandle s) + 1)") auto
  have "mode2_ok s'"
    unfolding mode2_ok_def s' id(1)
  proof (intro conjI allI impI)
    show "worker_ok (workers s ! j)" if "j < length (workers s)" for j by (rule mode2_okD(1) [OF ok that])
    show "\<forall>h \<in> dom ((map_of (owners s))(uint (nextHandle s) + 1 \<mapsto> ShardedRef n)). 0 < h \<and> h \<le> uint (nextHandle s + 1)"
    proof
      fix h assume "h \<in> dom ((map_of (owners s))(uint (nextHandle s) + 1 \<mapsto> ShardedRef n))"
      then consider "h = uint (nextHandle s) + 1" | x where "map_of (owners s) h = Some x" by (auto split: if_splits)
      then show "0 < h \<and> h \<le> uint (nextHandle s + 1)"
      proof cases
        case 1 with u ge show ?thesis by linarith
      next
        case 2 with mode2_okD(2) [OF ok 2] u show ?thesis by linarith
      qed
    qed
    show "(((map_of (owners s))(uint (nextHandle s) + 1 \<mapsto> ShardedRef n)) h = Some (SessionRef j raw))
        = (0 < h \<and> j < length (workers s) \<and> map_of (sessions (workers s ! j)) h = Some raw)" for h j raw
    proof (cases "h = uint (nextHandle s) + 1")
      case True
      have "map_of (sessions (workers s ! j)) (uint (nextHandle s) + 1) \<noteq> Some raw" if "j < length (workers s)"
        using mode2_okD(4) [OF ok _ that, of "uint (nextHandle s) + 1" raw] unused ge by auto
      with True show ?thesis by auto
    qed (use ok in \<open>simp add: mode2_ok_def\<close>)
  qed
  with id(1) unused show ?thesis by simp
qed


lemma newShardedListener_result:
  fixes V :: "nat \<Rightarrow> cgo"
  assumes leaves: "\<And>C ep. leaves_epoll (fn C) ep"
    and keeps: "\<And>C w. keeps_valid w (result_handle (fst (run_state (fn C) w))) (snd (run_state (fn C) w))"
    and s: "mode2_ok s" "uint (nextHandle s) + 1 < 2 ^ 31"
    and res: "newShardedListener V F fn s = (r, s')"
  shows "mode2_ok s' \<and> (case r of
      Inl e \<Rightarrow> owners s' = owners s \<and> listeners s' = listeners s
        \<and> (\<exists>left. subseq (map fst left) [0..<length (workers s)] \<and> grew left [] s s' \<and> excused F left e)
    | Inr public \<Rightarrow> public = uint (nextHandle s) + 1 \<and> map_of (owners s) public = None
        \<and> map_of (owners s') = (map_of (owners s))(public \<mapsto> ShardedRef (length (listeners s)))
        \<and> (\<exists>sl. listeners s' = listeners s @ [sl] \<and> sl_public sl = public \<and> \<not> sl_stopped sl \<and> sl_acceptC sl = []
             \<and> map fst (sl_shards sl) = [0..<length (workers s)] \<and> grew (sl_shards sl) [] s s'))"
proof -
  obtain q s1 where c: "createShards V F fn [0..<length (workers s)] [] s = (q, s1)" by fastforce
  have cr: "shard_frame s s1 \<and> (case q of
      Inl e \<Rightarrow> \<exists>left. grew left [] s s1 \<and> subseq (map fst left) [0..<length (workers s)] \<and> excused F left e
    | Inr shards \<Rightarrow> grew shards [] s s1 \<and> map fst shards = [0..<length (workers s)])"
    using createShards_result [where fn = fn and V = V and F = F and shards = "[]" and js = "[0..<length (workers s)]",
        OF leaves keeps s(1), unfolded c fst_conv snd_conv] by (simp split: sum.splits)
  then have f: "mode2_ok s1" "nextHandle s1 = nextHandle s" "owners s1 = owners s" "listeners s1 = listeners s"
    by (simp_all add: shard_frame_def)
  show ?thesis
  proof (cases q)
    case (Inl e)
    with res c have "r = Inl e" "s' = s1" by (simp_all add: newShardedListener_def)
    with cr f Inl show ?thesis by auto
  next
    case (Inr shards)
    define sl where "sl = \<lparr>sl_public = sint (nextHandle s + 1), sl_shards = shards, sl_acceptC = [], sl_stopped = False\<rparr>"
    have rs: "r = Inr (sint (nextHandle s + 1))" "s' = s1\<lparr>nextHandle := nextHandle s + 1, listeners := listeners s @ [sl],
        owners := AList.update (sint (nextHandle s + 1)) (ShardedRef (length (listeners s))) (owners s)\<rparr>"
      using res Inr c f by (simp_all add: newShardedListener_def Let_def sl_def)
    have n: "mode2_ok s' \<and> sint (nextHandle s1 + 1) = uint (nextHandle s1) + 1 \<and> map_of (owners s1) (uint (nextHandle s1) + 1) = None"
      by (rule mode2_ok_new_listener [OF f(1)]) (use s(2) f in \<open>simp_all add: rs update_conv'\<close>)
    have "grew shards [] s s'" using cr Inr by (simp add: grew_def gained_def rs)
    moreover have "map_of (owners s') = (map_of (owners s))(sint (nextHandle s + 1) \<mapsto> ShardedRef (length (listeners s)))"
      "listeners s' = listeners s @ [sl]"
      by (simp_all add: rs update_conv')
    ultimately show ?thesis using n f(2,3) cr Inr rs(1) by (simp add: sl_def)
  qed
qed

lemma listen_calls_keep:
  "keeps_valid w (result_handle (fst (run_state (mode3ListenTCP4 V a4 p b) w))) (snd (run_state (mode3ListenTCP4 V a4 p b) w))"
  "keeps_valid w (result_handle (fst (run_state (mode3ListenTCP6 V a6 p b) w))) (snd (run_state (mode3ListenTCP6 V a6 p b) w))"
  "keeps_valid w (result_handle (fst (run_state (rawListenTLS4 V a4 p b c) w))) (snd (run_state (rawListenTLS4 V a4 p b c) w))"
  "keeps_valid w (result_handle (fst (run_state (rawListenTLS6 V a6 p b c) w))) (snd (run_state (rawListenTLS6 V a6 p b c) w))"
  unfolding pinned_create_defs
  by (rule pin_keeps_valid, simp add: keeps_keeps_valid listen_keeps)+ (simp_all add: keeps_keeps_valid rawListenTLS_keeps)

text \<open>All four listen through one function; what makes a raw listener keeps the ledger.\<close>

lemma mode2_listen_sharded:
  obtains fn where "mode2_listen V F c s = newShardedListener V F fn s" "\<And>C ep. leaves_epoll (fn C) ep"
    "\<And>C w. keeps_valid w (result_handle (fst (run_state (fn C) w))) (snd (run_state (fn C) w))"
proof (cases c)
  case (ListenTCP4 a p b)
  then show ?thesis
    by (intro that [of "\<lambda>C. mode3ListenTCP4 C a p b"]) (simp_all add: mode2_listenTCP4_def listen_calls_keep)
next
  case (ListenTCP6 a p b)
  then show ?thesis
    by (intro that [of "\<lambda>C. mode3ListenTCP6 C a p b"]) (simp_all add: mode2_listenTCP6_def listen_calls_keep)
next
  case (ListenTLS4 a p b k)
  then show ?thesis
    by (intro that [of "\<lambda>C. rawListenTLS4 C a p b k"]) (simp_all add: mode2_listenTLS4_def listen_calls_keep)
next
  case (ListenTLS6 a p b k)
  then show ?thesis
    by (intro that [of "\<lambda>C. rawListenTLS6 C a p b k"]) (simp_all add: mode2_listenTLS6_def listen_calls_keep)
qed

section \<open>Properties\<close>


abbreviation "demo_V \<equiv> (\<lambda>_ :: nat. demo_cgo)"
abbreviation "demo_F \<equiv> (\<lambda>_ :: mode2. Answered)"


text \<open>The handle space check of sessions is missing for listeners: when the last positive handle has
  been issued every session is refused, but a listener is still created, under the public handle
  \<open>-2^31\<close>.\<close>

theorem listener_ignores_handle_exhaustion:
  assumes "mode2_ok s" and "nextHandle s = maxVirtualHandle" and "mode2_listen V F c s = (Inr public, s')"
  shows "public = - (2 ^ 31) \<and> isl (fst (registerSession V i raw s))"
proof -
  obtain fn where fn: "mode2_listen V F c s = newShardedListener V F fn s" "\<And>C ep. leaves_epoll (fn C) ep"
    "\<And>C w. keeps_valid w (result_handle (fst (run_state (fn C) w))) (snd (run_state (fn C) w))"
    using mode2_listen_sharded [of V F c s] by blast
  let ?c = "createShards V F fn [0..<length (workers s)] [] s"
  have "nextHandle (snd ?c) = nextHandle s"
    using createShards_result [where fn = fn and V = V and F = F and shards = "[]" and js = "[0..<length (workers s)]",
        OF fn(2,3) assms(1)] by (simp add: shard_frame_def)
  then have "public = sint (maxVirtualHandle + 1)"
    using assms(2,3) by (cases "fst ?c") (simp_all add: fn(1) newShardedListener_def case_prod_beta Let_def)
  then have "public = - (2 ^ 31)" by (simp add: maxVirtualHandle_def push_bit_eq_mult)
  moreover have "isl (fst (registerSession V i raw s))"
    using assms(2) by (simp add: registerSession_def case_prod_beta Let_def maxVirtualHandle_def push_bit_eq_mult split: sum.split)
  ultimately show ?thesis by simp
qed

lemma listener_ignores_handle_exhaustion_witness:
  "fst (mode2_listen demo_V demo_F (ListenTCP4 (10, 0, 0, 1) 80 16)
       (demo_mode2\<lparr>workers := [newWorker 0 True], owners := [], nextHandle := maxVirtualHandle\<rparr>))
     = Inr (- (2 ^ 31))"
proof -
  let ?s = "demo_mode2\<lparr>workers := [newWorker 0 True], owners := [], nextHandle := maxVirtualHandle\<rparr>"
  let ?r = "mode2_listen demo_V demo_F (ListenTCP4 (10, 0, 0, 1) 80 16) ?s"
  have ok: "mode2_ok ?s"
    unfolding mode2_ok_def
  proof (intro conjI allI impI)
    show "(map_of (owners ?s) h = Some (SessionRef i raw)) = (0 < h \<and> i < length (workers ?s)
        \<and> map_of (sessions (workers ?s ! i)) h = Some raw)" for h i raw
      by (cases i) (simp_all add: newWorker_def)
  qed (use newWorker_ok in simp_all)
  have "\<not> isl (fst ?r)"
    by (simp add: mode2_listenTCP4_def newShardedListener_def createShard_def case_prod_beta Let_def submit_def
        checkOwnership_def rawSessionWorker_def vclpoll_session_worker_def newWorker_def at_worker_def
        mode3ListenTCP4_def pin_def vclpoll_listen_tcp4_nb_def bind_listen_def)
  then obtain public where "fst ?r = Inr public" by (cases "fst ?r") simp_all
  then have "?r = (Inr public, snd ?r)" by (simp add: prod_eq_iff)
  from listener_ignores_handle_exhaustion [OF ok _ this] \<open>fst ?r = Inr public\<close> show ?thesis by simp
qed

end
