(* ===== verification/Mode2Wait.thy ===== *)
theory Mode2Wait
  imports ShardListener
begin

text \<open>
  The blocking side of the Mode 2 dispatcher (\<open>internal/vclpoll/mode2.go\<close>): waiting for readiness
  with cancellation (\<open>pollWaitContext\<close>), the loops that retry on \<open>EAGAIN\<close> after such a wait, and
  the operations built on them. What the other goroutines do while one is parked, and which case
  its \<open>select\<close> takes, is a parameter, an arbitrary function of the state. Loops take fuel, the
  number of rounds they may make.
\<close>

section \<open>The parked goroutine\<close>

datatype wait_outcome = WReady | WDone | WQuiesced

text \<open>\<open>we_park x i\<close>: the state and the case taken when the \<open>select\<close> of \<open>pollWaitContext\<close> returns, for the
  waiter \<open>x\<close> on worker \<open>i\<close>; \<open>we_done\<close>: whether \<open>done\<close> is closed; \<open>we_chan\<close>: the next channel made.\<close>

record wait_env =
  we_fate :: "mode2 \<Rightarrow> submit_fate"
  we_park :: "waiter \<Rightarrow> nat \<Rightarrow> mode2 \<Rightarrow> wait_outcome \<times> mode2"
  we_done :: "mode2 \<Rightarrow> bool"
  we_chan :: "mode2 \<Rightarrow> nat"

definition new_waiter :: "wait_env \<Rightarrow> handle \<Rightarrow> u32 \<Rightarrow> mode2 \<Rightarrow> waiter" where
  "new_waiter E h events s = \<lparr>wt_vlsh = h, wt_events = events, wt_ready = we_chan E s\<rparr>"

text \<open>The operation a cancelled wait submits.\<close>

definition cancel_op :: "cgo \<Rightarrow> handle \<Rightarrow> handle \<Rightarrow> waiter \<Rightarrow> worker \<Rightarrow> bool poll_result \<times> worker" where
  "cancel_op C h raw x w = map_prod Inr id (cancelWaiter C h raw x w)"

definition mode2_pollWaitContext :: "(nat \<Rightarrow> cgo) \<Rightarrow> wait_env \<Rightarrow> handle \<Rightarrow> u32 \<Rightarrow> mode2 \<Rightarrow> bool \<times> mode2" where
  "mode2_pollWaitContext V E h events s =
     (case lookup h s of
        None \<Rightarrow> (False, s\<lparr>d_panicked := True\<rparr>)
      | Some (Inl e) \<Rightarrow> (False, s)
      | Some (Inr (i, raw)) \<Rightarrow>
          (let x = new_waiter E h events s in
           case submit (we_fate E) (at_worker i (addWaiter (V i) h raw x)) s of
             (Inl e, s) \<Rightarrow> (False, s)
           | (Inr _, s) \<Rightarrow>
               (case we_park E x i s of
                  (WReady, s) \<Rightarrow> (True, s)
                | (WQuiesced, s) \<Rightarrow> (False, s)
                | (WDone, s) \<Rightarrow>
                    (case submit (we_fate E) (at_worker i (cancel_op (V i) h raw x)) s of
                       (Inl e, s) \<Rightarrow> (waiterIsReady x (workers s ! i), s)
                     | (Inr b, s) \<Rightarrow> (b, s)))))"

definition waitInterruptedError :: "wait_env \<Rightarrow> handle \<Rightarrow> mode2 \<Rightarrow> vclpoll_error \<times> mode2" where
  "waitInterruptedError E h s =
     (if we_done E s then (ErrWaitCanceled, s)
      else (case lookup h s of
              None \<Rightarrow> (ErrWaitCanceled, s\<lparr>d_panicked := True\<rparr>)
            | Some (Inl e) \<Rightarrow> (PollErrClosed, s)
            | Some (Inr ref) \<Rightarrow> (if stopping s then PollErrClosed else ErrWaitCanceled, s)))"

section \<open>Retrying\<close>

text \<open>The loop of \<open>readContext\<close>, \<open>writeContext\<close>, \<open>sendToContext\<close>, \<open>recvFromContext\<close> and
  \<open>acceptFullContext\<close>: an attempt; on \<open>EAGAIN\<close> a wait, then again. \<open>None\<close>: out of fuel.\<close>

fun m2_retry :: "(nat \<Rightarrow> cgo) \<Rightarrow> wait_env \<Rightarrow> (mode2 \<Rightarrow> 'a poll_result \<times> mode2) \<Rightarrow> handle \<Rightarrow> u32 \<Rightarrow> nat
    \<Rightarrow> mode2 \<Rightarrow> 'a poll_result option \<times> mode2" where
  "m2_retry V E attempt h events 0 s = (None, s)"
| "m2_retry V E attempt h events (Suc fuel) s =
     (case attempt s of
        (Inr x, s) \<Rightarrow> (Some (Inr x), s)
      | (Inl e, s) \<Rightarrow>
          if \<not> isAgainError e then (Some (Inl e), s)
          else
            (case mode2_pollWaitContext V E h events s of
               (True, s) \<Rightarrow> m2_retry V E attempt h events fuel s
             | (False, s) \<Rightarrow> map_prod (Some \<circ> Inl) id (waitInterruptedError E h s)))"

definition mode2_readContext where
  "mode2_readContext V E h n = m2_retry V E (read_attempt V (we_fate E) h n) h epollIn"

definition mode2_writeContext where
  "mode2_writeContext V E h p = m2_retry V E (write_attempt V (we_fate E) h p) h epollOut"

definition mode2_sendToContext where
  "mode2_sendToContext V E h p addr = m2_retry V E (sendTo_attempt V (we_fate E) h p addr) h epollOut"

definition mode2_recvFromContext where
  "mode2_recvFromContext V E h n = m2_retry V E (recvFrom_attempt V (we_fate E) h n) h epollIn"

section \<open>Accepting and closing, on either kind of listener\<close>

text \<open>The \<open>select\<close> of \<open>shardedAcceptFullContext\<close> takes a result, or \<open>stopCh\<close> or \<open>done\<close>; \<open>A\<close> says
  what happens until then, and whether it is a result.\<close>

definition sharded_accept :: "(nat \<Rightarrow> mode2 \<Rightarrow> bool \<times> mode2) \<Rightarrow> nat \<Rightarrow> mode2
    \<Rightarrow> (handle \<times> AddrInfo \<times> vclpoll_error option) \<times> mode2" where
  "sharded_accept A n s =
     (case A n s of
        (got, s) \<Rightarrow>
          (case sl_acceptC (listeners s ! n) of
             r # rs \<Rightarrow> if got then (accept_answer (Some r), set_sl n (\<lambda>sl. sl\<lparr>sl_acceptC := rs\<rparr>) s)
                        else (accept_answer None, s)
           | [] \<Rightarrow> (accept_answer None, s)))"

definition mode2_acceptFullContext :: "(nat \<Rightarrow> cgo) \<Rightarrow> wait_env \<Rightarrow> (nat \<Rightarrow> mode2 \<Rightarrow> bool \<times> mode2) \<Rightarrow> handle
    \<Rightarrow> nat \<Rightarrow> mode2 \<Rightarrow> (handle \<times> AddrInfo \<times> vclpoll_error option) option \<times> mode2" where
  "mode2_acceptFullContext V E A listener fuel s =
     (case lookupShardedListener listener s of
        Some n \<Rightarrow> map_prod Some id (sharded_accept A n s)
      | None \<Rightarrow>
          (case m2_retry V E (accept_attempt V (we_fate E) listener) listener epollIn fuel s of
             (None, s) \<Rightarrow> (None, s)
           | (Some (Inl e), s) \<Rightarrow> (Some (invalidVLSH, AddrInfo_zero, Some e), s)
           | (Some (Inr (h, addr)), s) \<Rightarrow> (Some (h, addr, None), s)))"

text \<open>\<open>W n\<close>: what happens until the accept loops of listener \<open>n\<close> have returned. Closing \<open>stopCh\<close> twice
  panics.\<close>

definition closeShardedListener :: "(nat \<Rightarrow> cgo) \<Rightarrow> (mode2 \<Rightarrow> submit_fate) \<Rightarrow> (nat \<Rightarrow> mode2 \<Rightarrow> mode2) \<Rightarrow> nat
    \<Rightarrow> mode2 \<Rightarrow> unit poll_result \<times> mode2" where
  "closeShardedListener V F W n s =
     (if sl_stopped (listeners s ! n) then
        (Inl (Errorf ''panic: close of closed channel''), s\<lparr>d_panicked := True\<rparr>)
      else
        (case closeShardedListener_finish V F n (W n (set_sl n (\<lambda>sl. sl\<lparr>sl_stopped := True\<rparr>) s)) of
           (None, s) \<Rightarrow> (Inr (), s)
         | (Some e, s) \<Rightarrow> (Inl e, s)))"

definition mode2_close :: "(nat \<Rightarrow> cgo) \<Rightarrow> (mode2 \<Rightarrow> submit_fate) \<Rightarrow> (nat \<Rightarrow> mode2 \<Rightarrow> mode2) \<Rightarrow> handle
    \<Rightarrow> mode2 \<Rightarrow> unit poll_result \<times> mode2" where
  "mode2_close V F W h s =
     (case lookupShardedListener h s of
        Some n \<Rightarrow> closeShardedListener V F W n s
      | None \<Rightarrow> closeSessionHandle V F h s)"

section \<open>The blocking dial\<close>

text \<open>\<open>done\<close> is the timer's channel.\<close>

definition finishLegacyConnect :: "(nat \<Rightarrow> cgo) \<Rightarrow> wait_env \<Rightarrow> (nat \<Rightarrow> mode2 \<Rightarrow> mode2) \<Rightarrow> connect_result
    \<Rightarrow> mode2 \<Rightarrow> handle poll_result \<times> mode2" where
  "finishLegacyConnect V E W r s =
     (case r of
        Inl e \<Rightarrow> (Inl e, s)
      | Inr (h, imm) \<Rightarrow>
          if imm then (Inr h, s)
          else
            (case mode2_pollWaitContext V E h epollOut s of
               (True, s) \<Rightarrow> (Inr h, s)
             | (False, s) \<Rightarrow>
                 (let s = snd (mode2_close V (we_fate E) W h s)
                  in (Inl (if stopping s then PollErrClosed else vpp_error ''connect_timeout'' (- ETIMEDOUT)), s))))"

definition mode2_dialTCP4 where
  "mode2_dialTCP4 V E W ip port s =
     (case mode2_connectTCP4Start V (we_fate E) ip port s of (r, s) \<Rightarrow> finishLegacyConnect V E W r s)"

definition mode2_dialTCP6 where
  "mode2_dialTCP6 V E W ip port s =
     (case mode2_connectTCP6Start V (we_fate E) ip port s of (r, s) \<Rightarrow> finishLegacyConnect V E W r s)"

section \<open>The wait\<close>

text \<open>What the other goroutines may do to worker \<open>i\<close> while \<open>x\<close> is parked on the session \<open>h\<close>: anything
  that keeps the invariant, closing the session included; \<open>select\<close> sees \<open>ready\<close> and \<open>quiesced\<close> only
  once they are closed, and a quiesced worker has no waiters.\<close>

definition parks_well :: "wait_env \<Rightarrow> waiter \<Rightarrow> nat \<Rightarrow> handle \<Rightarrow> handle \<Rightarrow> mode2 \<Rightarrow> bool" where
  "parks_well E x i h raw s \<longleftrightarrow> (mode2_ok s \<longrightarrow> map_of (owners s) h = Some (SessionRef i raw) \<longrightarrow> (case we_park E x i s of (oc, s') \<Rightarrow>
     mode2_ok s' \<and> i < length (workers s') \<and> map_of (sessions (workers s' ! i)) h \<in> {None, Some raw}
     \<and> (oc = WReady \<longrightarrow> waiterIsReady x (workers s' ! i))
     \<and> (oc = WQuiesced \<longrightarrow> pending (workers s' ! i) = {})))"

lemma cancelWaiter_none:
  assumes "worker_ok w" "map_of (sessions w) h = None"
  shows "cancelWaiter C h raw x w = (waiterIsReady x w, w)" "(h, x) \<notin> pending w"
proof -
  have "map_of (waiters w) h = None"
    using watch_okD(1) [OF worker_okD(2) [OF assms(1)], of h] assms(2) by (cases "map_of (waiters w) h") auto
  then show "cancelWaiter C h raw x w = (waiterIsReady x w, w)" "(h, x) \<notin> pending w"
    by (auto simp: cancelWaiter_def pending_def)
qed

lemma w_release_result_sessions: "w_release_result k r out w w' \<Longrightarrow> sessions w' = sessions w"
  by (auto simp: w_release_result_def w_released_def)

text \<open>The cancellation on the worker: the waiter is gone, and a wakeup that happened is reported.\<close>

lemma cancel_step:
  fixes C :: cgo and x :: waiter
  assumes ok: "worker_ok w" and s: "map_of (sessions w) h \<in> {None, Some raw}"
  defines "r \<equiv> cancelWaiter C h raw x w"
  shows "worker_ok (snd r)" "sessions (snd r) = sessions w" "(h, x) \<notin> pending (snd r)"
    "fst r \<Longrightarrow> waiterIsReady x (snd r)"
proof -
  have "worker_ok (snd r) \<and> sessions (snd r) = sessions w \<and> (h, x) \<notin> pending (snd r)
      \<and> (fst r \<longrightarrow> waiterIsReady x (snd r))"
  proof (cases "map_of (sessions w) h")
    case None
    with cancelWaiter_none [OF ok None] ok show ?thesis by (simp add: r_def)
  next
    case (Some q)
    with s have m: "map_of (sessions w) h = Some raw" by simp
    then have ref: "current_ref (h, raw) w" by (simp add: current_ref_def)
    note l = cancel_laws [OF ok ref, where V = C and x = x, unfolded fst_conv snd_conv]
    have "sessions (snd r) = sessions w"
      unfolding r_def by (rule w_release_result_sessions [OF cancelWaiter_result(1) [OF ok m]])
    moreover have "waiterIsReady x (snd r)" if "fst r"
      using that cancelWaiter_result(2) [OF ok m, of C x] l(4) by (simp add: r_def waiterIsReady_def)
    ultimately show ?thesis using l(1,3) by (simp add: r_def)
  qed
  then show "worker_ok (snd r)" "sessions (snd r) = sessions w" "(h, x) \<notin> pending (snd r)"
    "fst r \<Longrightarrow> waiterIsReady x (snd r)" by simp_all
qed

lemma fresh_not_pending: "fresh_waiter x w \<Longrightarrow> (h, x) \<notin> pending w"
  by (force simp: fresh_waiter_def)

text \<open>The three phases of the wait, from the state after each.\<close>

lemma add_step:
  assumes ok: "mode2_ok s" and i: "i < length (workers s)" and fresh: "fresh_waiter x (workers s ! i)"
  shows "mode2_ok (snd (at_worker i (addWaiter C h raw x) s))"
    "isl (fst (at_worker i (addWaiter C h raw x) s)) \<Longrightarrow>
       (h, x) \<notin> pending (workers (snd (at_worker i (addWaiter C h raw x) s)) ! i)"
proof -
  note j = addWaiter_result [OF mode2_okD(1) [OF ok i] fresh, where public = h and V = C and raw = raw]
  show "mode2_ok (snd (at_worker i (addWaiter C h raw x) s))"
    using j by (intro mode2_ok_worker [OF ok i, where w' = "snd (addWaiter C h raw x (workers s ! i))"])
      (simp_all add: join_result_def)
  show "(h, x) \<notin> pending (workers (snd (at_worker i (addWaiter C h raw x) s)) ! i)"
    if "isl (fst (at_worker i (addWaiter C h raw x) s))"
    using that j i fresh_not_pending [OF fresh, of h] by (auto simp: join_result_def split: sum.splits)
qed

lemma cancel_op_sel [simp]:
  "fst (cancel_op C h raw x w) = Inr (fst (cancelWaiter C h raw x w))"
  "snd (cancel_op C h raw x w) = snd (cancelWaiter C h raw x w)"
  by (simp_all add: cancel_op_def)

text \<open>What a wait leaves behind; \<open>lost\<close>: the answer to adding the waiter was.\<close>

definition wait_result :: "(mode2 \<Rightarrow> submit_fate) \<Rightarrow> nat \<Rightarrow> handle \<Rightarrow> waiter \<Rightarrow> bool \<Rightarrow> bool \<Rightarrow> mode2 \<Rightarrow> bool" where
  "wait_result F i h x lost b s' \<longleftrightarrow> mode2_ok s'
     \<and> (b \<longrightarrow> waiterIsReady x (workers s' ! i))
     \<and> (\<not> b \<longrightarrow> (h, x) \<notin> pending (workers s' ! i) \<or> lost \<or> stopping s' \<or> \<not> appLive s' \<or> F s' = Refused)"

lemma cancel_submit:
  assumes ok: "mode2_ok s" and i: "i < length (workers s)"
    and m: "map_of (sessions (workers s ! i)) h \<in> {None, Some raw}"
    and r: "(case submit F (at_worker i (cancel_op C h raw x)) s of
              (Inl e, s) \<Rightarrow> (waiterIsReady x (workers s ! i), s) | (Inr b, s) \<Rightarrow> (b, s)) = (b, s')"
  shows "wait_result F i h x lost b s'"
proof -
  note c = cancel_step [OF mode2_okD(1) [OF ok i] m, where C = C and x = x]
  let ?s1 = "snd (at_worker i (cancel_op C h raw x) s)"
  have ok1: "mode2_ok ?s1" by (rule mode2_ok_worker [OF ok i c(1)]) (simp_all add: c(2))
  show ?thesis
  proof (cases rule: submit_cases [of F "at_worker i (cancel_op C h raw x)" s])
    case 1
    then have b: "b = waiterIsReady x (workers s ! i)" "s' = s" using r by (auto simp: case_prod_beta)
    have "stopping s \<or> \<not> appLive s \<or> F s = Refused \<or> ?s1 = s"
      using 1 by (auto simp: submit_def split: if_splits submit_fate.splits)
    moreover have "workers ?s1 ! i = snd (cancelWaiter C h raw x (workers s ! i))" using i by simp
    ultimately have "stopping s \<or> \<not> appLive s \<or> F s = Refused \<or> (h, x) \<notin> pending (workers s ! i)"
      using c(3) by metis
    with b ok show ?thesis by (auto simp: wait_result_def)
  next
    case 2
    then have "b = waiterIsReady x (workers ?s1 ! i)" "s' = ?s1" using r by (auto simp: case_prod_beta simp del: at_worker_sel)
    with ok1 c(3) i show ?thesis by (simp add: wait_result_def)
  next
    case 3
    then have "b = fst (cancelWaiter C h raw x (workers s ! i))" "s' = ?s1" using r by (simp_all add: case_prod_beta)
    with ok1 c(3,4) i show ?thesis by (simp add: wait_result_def)
  qed
qed

text \<open>A waiter's channel is new: neither closed nor another waiter's.\<close>

lemma pollWait_result:
  assumes ok: "mode2_ok s"
    and own: "map_of (owners s) h = Some (SessionRef i raw)"
    and fresh: "fresh_waiter (new_waiter E h ev s) (workers s ! i)"
    and env: "\<And>s1. parks_well E (new_waiter E h ev s) i h raw s1"
    and r: "mode2_pollWaitContext V E h ev s = (b, s')"
  shows "wait_result (we_fate E) i h (new_waiter E h ev s) (we_fate E s = AnswerLost) b s'"
proof -
  let ?x = "new_waiter E h ev s"
  have i: "i < length (workers s)" using mode2_okD(3) [OF ok own] by simp
  let ?a = "submit (we_fate E) (at_worker i (addWaiter (V i) h raw ?x)) s"
  have e: "mode2_pollWaitContext V E h ev s =
      (case ?a of (Inl e, s) \<Rightarrow> (False, s)
       | (Inr _, s) \<Rightarrow>
          (case we_park E ?x i s of
             (WReady, s) \<Rightarrow> (True, s)
           | (WQuiesced, s) \<Rightarrow> (False, s)
           | (WDone, s) \<Rightarrow> (case submit (we_fate E) (at_worker i (cancel_op (V i) h raw ?x)) s of
                (Inl e, s) \<Rightarrow> (waiterIsReady ?x (workers s ! i), s) | (Inr b, s) \<Rightarrow> (b, s))))"
    using own by (simp add: mode2_pollWaitContext_def lookup_def Let_def)
  have a: "mode2_ok (snd ?a)"
    "isl (fst ?a) \<Longrightarrow> (h, ?x) \<notin> pending (workers (snd ?a) ! i) \<or> we_fate E s = AnswerLost"
    "map_of (owners (snd ?a)) h = Some (SessionRef i raw)"
  proof -
    show "map_of (owners (snd ?a)) h = Some (SessionRef i raw)"
      by (rule submit_inv) (simp_all add: own)
    show "mode2_ok (snd ?a)"
      using ok add_step(1) [OF ok i fresh] by (rule submit_inv)
    show "(h, ?x) \<notin> pending (workers (snd ?a) ! i) \<or> we_fate E s = AnswerLost" if "isl (fst ?a)"
      using that add_step(2) [OF ok i fresh, of "V i" h raw] fresh_not_pending [OF fresh, of h]
      by (auto simp: submit_def split: if_splits submit_fate.splits)
  qed
  show ?thesis
  proof (cases "fst ?a")
    case (Inl er)
    with r e a show ?thesis by (auto simp: wait_result_def case_prod_beta)
  next
    case (Inr u)
    obtain oc s1 where p: "we_park E ?x i (snd ?a) = (oc, s1)" by fastforce
    have w: "mode2_ok s1" "i < length (workers s1)" "map_of (sessions (workers s1 ! i)) h \<in> {None, Some raw}"
      "oc = WReady \<Longrightarrow> waiterIsReady ?x (workers s1 ! i)" "oc = WQuiesced \<Longrightarrow> pending (workers s1 ! i) = {}"
      using env [of "snd ?a"] a(1,3) p by (simp_all add: parks_well_def)
    have r': "(b, s') = (case oc of WReady \<Rightarrow> (True, s1) | WQuiesced \<Rightarrow> (False, s1)
        | WDone \<Rightarrow> (case submit (we_fate E) (at_worker i (cancel_op (V i) h raw ?x)) s1 of
                (Inl e, s) \<Rightarrow> (waiterIsReady ?x (workers s ! i), s) | (Inr b, s) \<Rightarrow> (b, s)))"
      using r Inr p unfolding e by (cases oc) (simp_all add: case_prod_beta)
    show ?thesis
    proof (cases oc)
      case WReady with r' w show ?thesis by (simp add: wait_result_def)
    next
      case WQuiesced with r' w show ?thesis by (simp add: wait_result_def)
    next
      case WDone
      show ?thesis
        by (rule cancel_submit [OF w(1-3)]) (use r' WDone in simp)
    qed
  qed
qed

section \<open>A concrete environment\<close>

text \<open>A parked goroutine is cancelled at once.\<close>

definition demo_env :: wait_env where
  "demo_env = \<lparr>we_fate = (\<lambda>_. Answered), we_park = (\<lambda>_ _ s. (WDone, s)), we_done = (\<lambda>_. True), we_chan = (\<lambda>_. 5)\<rparr>"

lemma demo_env_sel [simp]:
  "we_fate demo_env = (\<lambda>_. Answered)" "we_park demo_env x i s = (WDone, s)" "we_done demo_env s" "we_chan demo_env s = 5"
  by (simp_all add: demo_env_def)

section \<open>Properties\<close>

text \<open>C26. A wait for readiness is precise. \<open>true\<close> means its waiter was woken. After \<open>false\<close> no waiter of this
  call is left on the worker, but in the cases where the worker cannot be asked to remove it: the dispatcher
  is stopping or no longer live, or its worker had quiesced, when the removal was submitted or before it could answer that
  the waiter was added; there it is left to the worker's \<open>quiesce\<close>, which wakes every waiter. This holds whatever happens while the goroutine is parked, the session
  being closed included, if it keeps the dispatcher's invariant (\<open>parks_well\<close>).\<close>

theorem poll_wait_is_precise:
  assumes "mode2_ok s" and "map_of (owners s) h = Some (SessionRef i raw)"
    and "fresh_waiter (new_waiter E h ev s) (workers s ! i)"
    and "\<forall>s1. parks_well E (new_waiter E h ev s) i h raw s1"
    and "mode2_pollWaitContext V E h ev s = (b, s')"
  shows "mode2_ok s' \<and> (b \<longrightarrow> waiterIsReady (new_waiter E h ev s) (workers s' ! i))
    \<and> (\<not> b \<longrightarrow> (h, new_waiter E h ev s) \<notin> pending (workers s' ! i) \<or> stopping s' \<or> \<not> appLive s'
         \<or> we_fate E s = AnswerLost \<or> we_fate E s' = Refused)"
  using pollWait_result [OF assms(1-3) _ assms(5)] assms(4) by (auto simp: wait_result_def)

lemma poll_wait_is_precise_witness:
  "mode2_ok (snd (mode2_pollWaitContext demo_V demo_env 1 epollOut demo_mode2))"
proof -
  have fr: "fresh_waiter (new_waiter demo_env 1 epollOut demo_mode2) demo_parked"
    by (auto simp: fresh_waiter_def demo_parked_state new_waiter_def)
  have "parks_well demo_env x 0 1 4 s1" for x s1
    using mode2_okD(3) [of s1 1 0 4] by (auto simp: parks_well_def)
  then show ?thesis
    using poll_wait_is_precise [OF demo_mode2_ok _ _ _ surjective_pairing, where E = demo_env and V = demo_V
        and h = 1 and i = 0 and raw = 4 and ev = epollOut] fr
    by simp
qed

text \<open>Nothing blocks on a closed session or a stopping dispatcher: reads, writes, datagrams and accepts
  return \<open>ErrClosed\<close> in their first round, having changed nothing.\<close>

theorem closed_or_stopping_calls_return:
  assumes "map_of (owners s) h = None \<or> (stopping s \<or> \<not> appLive s) \<and> map_of (owners s) h = Some (SessionRef i raw)"
  shows "mode2_readContext V E h n (Suc k) s = (Some (Inl PollErrClosed), s)
    \<and> mode2_writeContext V E h p (Suc k) s = (Some (Inl PollErrClosed), s)
    \<and> mode2_sendToContext V E h p addr (Suc k) s = (Some (Inl PollErrClosed), s)
    \<and> mode2_recvFromContext V E h n (Suc k) s = (Some (Inl PollErrClosed), s)
    \<and> mode2_acceptFullContext V E A h (Suc k) s = (Some (invalidVLSH, AddrInfo_zero, Some PollErrClosed), s)
    \<and> mode2_pollWaitContext V E h ev s = (False, s)"
  using assms
  by (auto simp: mode2_readContext_def mode2_writeContext_def mode2_sendToContext_def mode2_recvFromContext_def
      mode2_acceptFullContext_def session_op_defs accept_attempt_def sessionCall_def with_lookup_def lookup_def
      lookupShardedListener_def submit_def mode2_pollWaitContext_def Let_def isAgainError_def)

lemma closed_or_stopping_calls_return_witness:
  "mode2_readContext demo_V demo_env 77 10 1 demo_mode2 = (Some (Inl PollErrClosed), demo_mode2)"
  using closed_or_stopping_calls_return [of demo_mode2 77 0 0 demo_V demo_env 10 0] by simp

text \<open>\<open>n\<close> rounds of a retry loop that all found \<open>EAGAIN\<close> and were woken, and the state after them; \<open>None\<close>: one of
  them was not such a round.\<close>

fun m2_rounds :: "(nat \<Rightarrow> cgo) \<Rightarrow> wait_env \<Rightarrow> (mode2 \<Rightarrow> 'a poll_result \<times> mode2) \<Rightarrow> handle \<Rightarrow> u32 \<Rightarrow> nat
    \<Rightarrow> mode2 \<Rightarrow> mode2 option" where
  "m2_rounds V E attempt h events 0 s = Some s"
| "m2_rounds V E attempt h events (Suc n) s =
     (case attempt s of
        (Inr x, s) \<Rightarrow> None
      | (Inl e, s) \<Rightarrow>
          if \<not> isAgainError e then None
          else
            (case mode2_pollWaitContext V E h events s of
               (True, s) \<Rightarrow> m2_rounds V E attempt h events n s
             | (False, s) \<Rightarrow> None))"

text \<open>A retry loop returns within \<open>n\<close> rounds, and not with \<open>EAGAIN\<close>, or all of them were such rounds; and then, if by now
  the session is closed or the dispatcher stops, the next round ends it, in \<open>ErrClosed\<close>.\<close>

definition retries_end :: "(nat \<Rightarrow> cgo) \<Rightarrow> wait_env \<Rightarrow> (mode2 \<Rightarrow> 'a poll_result \<times> mode2) \<Rightarrow> handle \<Rightarrow> u32 \<Rightarrow> nat \<Rightarrow> mode2 \<Rightarrow> bool" where
  "retries_end V E attempt h events n s \<longleftrightarrow> (case m2_rounds V E attempt h events n s of
       None \<Rightarrow> \<exists>r s'. m2_retry V E attempt h events n s = (Some r, s') \<and> (case r of Inl e \<Rightarrow> \<not> isAgainError e | Inr x \<Rightarrow> True)
     | Some s' \<Rightarrow> lookupShardedListener h s' = None \<and> (map_of (owners s') h = None \<or> stopping s' \<or> \<not> appLive s') \<longrightarrow>
         m2_retry V E attempt h events (Suc n) s = (Some (Inl PollErrClosed), s'))"

lemma retries_endI:
  assumes "\<And>s. lookupShardedListener h s = None \<Longrightarrow> map_of (owners s) h = None \<or> stopping s \<or> \<not> appLive s \<Longrightarrow>
    attempt s = (Inl PollErrClosed, s)"
  shows "retries_end V E attempt h events n s"
proof (induction n arbitrary: s)
  case 0
  then show ?case using assms [of s] by (simp add: retries_end_def isAgainError_def)
next
  case (Suc n)
  obtain q s1 where a: "attempt s = (q, s1)" by fastforce
  show ?case
  proof (cases "\<exists>e. q = Inl e \<and> isAgainError e")
    case False
    with a show ?thesis by (cases q) (auto simp: retries_end_def)
  next
    case True
    then obtain e where q: "q = Inl e" "isAgainError e" by blast
    obtain b s2 where w: "mode2_pollWaitContext V E h events s1 = (b, s2)" by fastforce
    show ?thesis
    proof (cases b)
      case True
      have step: "m2_retry V E attempt h events (Suc k) s = m2_retry V E attempt h events k s2"
        "m2_rounds V E attempt h events (Suc k) s = m2_rounds V E attempt h events k s2" for k
        using a q w True by simp_all
      show ?thesis using Suc.IH [of s2] unfolding retries_end_def step .
    next
      case False
      with a q w show ?thesis
        by (auto simp: retries_end_def waitInterruptedError_def isAgainError_def split: option.split sum.split prod.split)
    qed
  qed
qed

lemma attempts_refused:
  assumes "lookupShardedListener h s = None" "map_of (owners s) h = None \<or> stopping s \<or> \<not> appLive s"
  shows "sessionCall V F h fn s = (Inl PollErrClosed, s)" "accept_attempt V F h s = (Inl PollErrClosed, s)"
  using assms by (auto simp: sessionCall_def accept_attempt_def with_lookup_def lookup_def lookupShardedListener_def submit_def
      split: option.splits owner.splits)


text \<open>A blocking dial that times out leaves no half-open session: the session it had started is closed
  exactly once, its public handle is forgotten, and the error is a timeout to Go's \<open>net.Error\<close>.\<close>

theorem dial_timeout_closes_session:
  assumes "mode2_pollWaitContext V E h epollOut s = (False, s1)"
    and "mode2_ok s1" and "map_of (owners s1) h = Some (SessionRef i raw)"
    and "fst (checkOwnership (V i) raw (workers s1 ! i)) = Inr ()"
    and "\<not> stopping s1" and "appLive s1" and "we_fate E s1 = Answered"
    and "finishLegacyConnect V E W (Inr (h, False)) s = (r, s')"
  shows "\<exists>e. r = Inl e \<and> VCLError_Timeout e \<and> map_of (owners s') h = None \<and> mode2_ok s'
    \<and> balance k (hist (workers s' ! i)) = balance k (hist (workers s1 ! i)) - (if k = raw then 1 else 0)"
proof -
  have i: "i < length (workers s1)" using mode2_okD(3) [OF assms(2,3)] by simp
  obtain f where f: "closeSessionHandle V (we_fate E) h s1 = submit (we_fate E) f s1" "snd (f s1) = close_effect V i h raw s1"
    using closeSessionHandle_eq [OF assms(3) i, where V = V and F = "we_fate E"] by metis
  have c: "snd (mode2_close V (we_fate E) W h s1) = close_effect V i h raw s1"
    using f assms(3,5-7) by (simp add: mode2_close_def lookupShardedListener_def submit_def)
  note r = close_effect_result [where V = V, OF assms(2-4)]
  have "stopping (close_effect V i h raw s1) = stopping s1"
    by (simp add: close_effect_def case_prod_beta Let_def split: sum.split)
  then have "r = Inl (vpp_error ''connect_timeout'' (- ETIMEDOUT))" "s' = close_effect V i h raw s1"
    using assms(1,5,8) c by (simp_all add: finishLegacyConnect_def Let_def)
  with r show ?thesis by (simp add: vpp_error_def AList.delete_conv')
qed

lemma dial_timeout_closes_session_witness:
  "\<exists>r s'. finishLegacyConnect demo_V (demo_env\<lparr>we_park := (\<lambda>_ _ _. (WQuiesced, demo_mode2))\<rparr>) (\<lambda>_ s. s)
     (Inr (1, False)) demo_mode2 = (r, s') \<and> map_of (owners s') 1 = None"
proof -
  let ?E = "demo_env\<lparr>we_park := (\<lambda>_ _ _. (WQuiesced, demo_mode2))\<rparr>"
  have add: "\<not> isl (fst (addWaiter demo_cgo 1 4 (new_waiter ?E 1 epollOut demo_mode2) demo_parked))"
  proof -
    have "fst (worker_add demo_cgo r q ev w) = Inr ()" "fst (worker_mod demo_cgo r q ev w) = Inr ()" for r q ev w
      by (simp_all add: worker_bridge_defs rawEpollAdd_def rawEpollMod_def rawEpollCtl_def vclpoll_epoll_ctl_def)
    then have "\<not> isl (fst (joinWaitSet demo_cgo 1 4 x w))" for x w
      by (simp add: joinWaitSet_def case_prod_beta Let_def split: option.split sum.split)
    then show ?thesis
      by (simp add: addWaiter_def ownedRaw_def demo_owned demo_parked_state case_prod_beta)
  qed
  have p: "mode2_pollWaitContext demo_V ?E 1 epollOut demo_mode2 = (False, demo_mode2)"
    using add by (auto simp: mode2_pollWaitContext_def lookup_def submit_def at_worker_def Let_def case_prod_beta
        split: sum.split)
  obtain r s' where f: "finishLegacyConnect demo_V ?E (\<lambda>_ s. s) (Inr (1, False)) demo_mode2 = (r, s')" by fastforce
  from dial_timeout_closes_session [OF p demo_mode2_ok _ _ _ _ _ f, of 0 4 0] f show ?thesis
    by (auto simp: demo_owned)
qed

end
