(* ===== verification/Mode2Life.thy ===== *)
theory Mode2Life
  imports Mode2Wait
begin

text \<open>
  Start and end of the Mode 2 dispatcher (\<open>internal/vclpoll/mode2.go\<close>): \<open>appInit\<close> registers the
  workers one after the other and then lets them open their epoll handles, \<open>stop\<close> quiesces all of
  them, \<open>appDestroy\<close> ends the bootstrap worker. The workers run their parts on their own histories,
  so the order among them does not matter; which of them had seen \<open>startCh\<close> when an initialisation
  fails is the parameter \<open>late\<close>, and how often a quiescing worker polls is \<open>polls\<close>.
\<close>

section \<open>Stopping\<close>

definition quiesce_worker :: "(nat \<Rightarrow> cgo) \<Rightarrow> (nat \<Rightarrow> nat) \<Rightarrow> nat \<Rightarrow> mode2 \<Rightarrow> mode2" where
  "quiesce_worker V polls i s =
     (let (publics, w) = quiesce (V i) (appCreated s) (polls i) (workers s ! i)
      in s\<lparr>workers := (workers s)[i := w], owners := fold AList.delete publics (owners s)\<rparr>)"

definition mode2_stop :: "(nat \<Rightarrow> cgo) \<Rightarrow> (nat \<Rightarrow> nat) \<Rightarrow> mode2 \<Rightarrow> mode2" where
  "mode2_stop V polls s =
     (if stopping s then s
      else fold (quiesce_worker V polls) [0..<length (workers s)] (s\<lparr>stopping := True\<rparr>))"

definition mode2_beginShutdown :: "mode2 \<Rightarrow> mode2" where
  "mode2_beginShutdown s = s\<lparr>appLive := False\<rparr>"

definition mode2_appDestroy :: "(nat \<Rightarrow> cgo) \<Rightarrow> (nat \<Rightarrow> nat) \<Rightarrow> mode2 \<Rightarrow> mode2" where
  "mode2_appDestroy V polls s =
     (if destroyed s then s
      else
        (let s = mode2_stop V polls (s\<lparr>destroyed := True\<rparr>)
         in if workers s = [] then s
            else (snd (at_worker 0 (\<lambda>w. ((), worker_destroy (V 0) w)) s))\<lparr>appCreated := False\<rparr>))"

section \<open>Starting\<close>

fun register_workers :: "(nat \<Rightarrow> cgo) \<Rightarrow> string \<Rightarrow> nat list \<Rightarrow> mode2 \<Rightarrow> unit poll_result \<times> mode2" where
  "register_workers V appName [] s = (Inr (), s)"
| "register_workers V appName (i # js) s =
     (case worker_register (V i) appName (newWorker i (i = 0)) of
        (Inl e, w) \<Rightarrow> (Inl (Wrapped ''vclpoll: initialize mode-2 worker'' e), s)
      | (Inr _, w) \<Rightarrow> register_workers V appName js (s\<lparr>workers := workers s @ [w]\<rparr>))"

definition open_late :: "(nat \<Rightarrow> cgo) \<Rightarrow> (nat \<Rightarrow> bool) \<Rightarrow> nat list \<Rightarrow> mode2 \<Rightarrow> mode2" where
  "open_late V late js s = fold (\<lambda>i s. snd (at_worker i (worker_open_epoll (V i)) s)) (filter late js) s"

fun open_workers :: "(nat \<Rightarrow> cgo) \<Rightarrow> (nat \<Rightarrow> bool) \<Rightarrow> nat list \<Rightarrow> mode2 \<Rightarrow> unit poll_result \<times> mode2" where
  "open_workers V late [] s = (Inr (), s)"
| "open_workers V late (i # js) s =
     (case at_worker i (worker_open_epoll (V i)) s of
        (Inl e, s) \<Rightarrow> (Inl (Wrapped ''vclpoll: initialize mode-2 worker epoll'' e), open_late V late js s)
      | (Inr _, s) \<Rightarrow> open_workers V late js s)"

definition mode2_appInit :: "(nat \<Rightarrow> cgo) \<Rightarrow> (nat \<Rightarrow> bool) \<Rightarrow> (nat \<Rightarrow> nat) \<Rightarrow> int \<Rightarrow> string \<Rightarrow> mode2
    \<Rightarrow> unit poll_result \<times> mode2" where
  "mode2_appInit V late polls workerCount appName s =
     (if workerCount < 1 then (Inl (Errorf ''vclpoll: mode 2 requires at least one worker''), s)
      else
        (case register_workers V appName [0..<nat workerCount] s of
           (Inl e, s) \<Rightarrow>
             (let s = open_late V late [0..<length (workers s)] s;
                  s = mode2_stop V polls s
              in (Inl e, mode2_appDestroy V polls s))
         | (Inr _, s) \<Rightarrow>
             (case open_workers V late [0..<length (workers s)] s of
                (Inl e, s) \<Rightarrow> (Inl e, mode2_appDestroy V polls (mode2_stop V polls s))
              | (Inr _, s) \<Rightarrow> (Inr (), s\<lparr>appCreated := True, appLive := True\<rparr>))))"

section \<open>A worker that starts\<close>

lemma leaves_start_ops [simp]:
  "leaves_epoll (rawAppCreate V n) ep" "leaves_epoll (rawMode2Enabled V) ep" "leaves_epoll (rawAppDestroy V) ep"
  "leaves_epoll (rawRegisterWorker V) ep" "leaves_epoll (markCurrentThreadRegistered V) ep"
  "leaves_epoll (rawWorkerIndex V) ep" "leaves_epoll (rawEpollCreate V) ep"
  by (auto simp: rawAppCreate_def rawMode2Enabled_def rawAppDestroy_def rawRegisterWorker_def
      markCurrentThreadRegistered_def rawWorkerIndex_def rawEpollCreate_def vclpoll_app_create_def
      vclpoll_mode2_enabled_def vclpoll_app_destroy_def vclpoll_register_worker_def vclpoll_worker_index_def
      vclpoll_epoll_create_def intro!: leaves_rules)

text \<open>A worker that has done nothing but, perhaps, open its epoll handle.\<close>

definition idle :: "worker \<Rightarrow> bool" where
  "idle w \<longleftrightarrow> waiters w = [] \<and> sessions w = [] \<and> ready_closed w = [] \<and> \<not> panicked w
     \<and> (\<forall>ep h. interest ep (hist w) h = None) \<and> (\<forall>h \<ge> 0. balance h (hist w) = owns (epVLSH w) h)"

lemma idle_ok: "idle w \<Longrightarrow> worker_ok w \<and> pending w = {} \<and> (0 \<le> epVLSH w \<or> waiters w = [])"
  by (simp add: idle_def worker_ok_def tab_ok_empty watch_ok_def pending_def)

lemma idle_new: "idle (newWorker i b)"
  by (simp add: idle_def newWorker_def)

lemma idle_on_worker:
  assumes "idle w" "\<And>ep. leaves_epoll m ep" "\<And>w. quiet_run w (snd (run_state m w))"
  shows "idle (snd (on_worker m w))"
  using assms by (simp add: idle_def leaves_epoll_def keeps_def)

lemma quiet_start_ops [quiet_simps]:
  "quiet_run w (snd (run_state (rawRegisterWorker V) w))"
  "quiet_run w (snd (run_state (markCurrentThreadRegistered V) w))"
  by (simp_all add: keeps_def rawRegisterWorker_def rawWorkerIndex_def vclpoll_register_worker_def
      vclpoll_worker_index_def markCurrentThreadRegistered_def)

lemma idle_cong:
  "waiters w' = waiters w \<Longrightarrow> sessions w' = sessions w \<Longrightarrow> ready_closed w' = ready_closed w \<Longrightarrow> panicked w' = panicked w
    \<Longrightarrow> hist w' = hist w \<Longrightarrow> epVLSH w' = epVLSH w \<Longrightarrow> idle w' = idle w"
  by (simp add: idle_def)

text \<open>The registration: a chain of calls that leave an idle worker idle.\<close>

lemma idle_register: 
  assumes "idle w"
  shows "idle (snd (worker_register V appName w))"
    "epVLSH (snd (worker_register V appName w)) = epVLSH w"
proof -
  have calls: "idle (snd (on_worker (rawAppCreate V appName) u))" "idle (snd (on_worker (rawMode2Enabled V) u))"
    "idle (snd (on_worker (rawAppDestroy V) u))" "idle (snd (on_worker (rawRegisterWorker V) u))"
    "idle (snd (on_worker (markCurrentThreadRegistered V) u))" "idle (snd (on_worker (rawWorkerIndex V) u))"
    if "idle u" for u
    by (rule idle_on_worker [OF that]; simp add: quiet_simps)+
  have flag: "idle (u\<lparr>exited_closed := True\<rparr>) = idle u" "idle (u\<lparr>vclIndex := k\<rparr>) = idle u" for u k
    by (simp_all add: idle_def)
  show "idle (snd (worker_register V appName w))" "epVLSH (snd (worker_register V appName w)) = epVLSH w"
    using assms by (simp_all add: worker_register_def case_prod_beta Let_def flag calls split: sum.split)
qed

lemma idle_open:
  assumes "idle w" "epVLSH w < 0"
  shows "idle (snd (worker_open_epoll V w))"
    "fst (worker_open_epoll V w) = Inr u \<Longrightarrow> 0 \<le> epVLSH (snd (worker_open_epoll V w))"
  using assms by (auto simp: worker_open_epoll_def idle_def case_prod_beta rawEpollCreate_def vclpoll_epoll_create_def
      owns_def rv_result_Inl rv_result_Inr split: sum.splits)

section \<open>All workers idle\<close>

definition starting :: "mode2 \<Rightarrow> bool" where
  "starting s \<longleftrightarrow> (\<forall>i < length (workers s). idle (workers s ! i)) \<and> owners s = []"

lemma starting_ok: "starting s \<Longrightarrow> mode2_ok s"
  by (auto simp: starting_def mode2_ok_def idle_ok) (simp add: idle_def)

text \<open>What starting changes besides the workers: nothing.\<close>

definition same_flags :: "mode2 \<Rightarrow> mode2 \<Rightarrow> bool" where
  "same_flags s s' \<longleftrightarrow> owners s' = owners s \<and> stopping s' = stopping s \<and> appLive s' = appLive s
     \<and> appCreated s' = appCreated s \<and> destroyed s' = destroyed s \<and> listeners s' = listeners s
     \<and> nextHandle s' = nextHandle s \<and> rr s' = rr s"

lemma same_flags_refl [simp]: "same_flags s s"
  by (simp add: same_flags_def)

lemma same_flags_trans: "same_flags s s1 \<Longrightarrow> same_flags s1 s2 \<Longrightarrow> same_flags s s2"
  by (simp add: same_flags_def)

lemma same_flags_at_worker [simp]: "same_flags s (snd (at_worker i f s))"
  by (simp add: same_flags_def at_worker_def case_prod_beta)

lemma register_workers_result:
  assumes "starting s" and "\<And>i. i < length (workers s) \<Longrightarrow> epVLSH (workers s ! i) < 0"
    and "register_workers V appName js s = (r, s')"
  shows "starting s' \<and> same_flags s s' \<and> (\<forall>i < length (workers s'). epVLSH (workers s' ! i) < 0)
    \<and> (r = Inr () \<longrightarrow> length (workers s') = length (workers s) + length js)"
  using assms
proof (induction js arbitrary: s)
  case (Cons i js)
  obtain q w where w: "worker_register (V i) appName (newWorker i (i = 0)) = (q, w)" by fastforce
  note wi = idle_register [OF idle_new [of i "i = 0"], of "V i" appName, unfolded w snd_conv]
  show ?case
  proof (cases q)
    case (Inl e)
    with w Cons.prems show ?thesis by auto
  next
    case (Inr u)
    let ?s = "s\<lparr>workers := workers s @ [w]\<rparr>"
    have ep: "epVLSH w < 0" using wi(2) by (simp add: newWorker_def)
    have "starting ?s" using Cons.prems(1) wi(1) by (auto simp: starting_def nth_append less_Suc_eq)
    moreover have "epVLSH (workers ?s ! k) < 0" if "k < length (workers ?s)" for k
      using that ep Cons.prems(2) by (auto simp: nth_append less_Suc_eq)
    moreover have "register_workers V appName js ?s = (r, s')" using Cons.prems(3) w Inr by simp
    ultimately have "starting s' \<and> same_flags ?s s' \<and> (\<forall>i < length (workers s'). epVLSH (workers s' ! i) < 0)
        \<and> (r = Inr () \<longrightarrow> length (workers s') = length (workers ?s) + length js)"
      by (rule Cons.IH)
    then show ?thesis by (simp add: same_flags_def)
  qed
qed simp

lemma open_step:
  assumes "starting s" "i < length (workers s)" "epVLSH (workers s ! i) < 0"
  shows "starting (snd (at_worker i (worker_open_epoll (V i)) s))"
  using assms idle_open(1) [of "workers s ! i" "V i"] by (auto simp: starting_def nth_list_update)

lemma open_late_result:
  assumes "starting s" "distinct js" "\<And>i. i \<in> set js \<Longrightarrow> i < length (workers s) \<and> epVLSH (workers s ! i) < 0"
  shows "starting (open_late V late js s) \<and> same_flags s (open_late V late js s)
    \<and> length (workers (open_late V late js s)) = length (workers s)"
  using assms
proof (induction js arbitrary: s)
  case (Cons i js)
  let ?s = "snd (at_worker i (worker_open_epoll (V i)) s)"
  have i: "i < length (workers s)" "epVLSH (workers s ! i) < 0" "i \<notin> set js"
    using Cons.prems(2,3) by auto
  have k: "j < length (workers s)" "epVLSH (workers s ! j) < 0" "workers ?s ! j = workers s ! j" if "j \<in> set js" for j
    using Cons.prems(3) [of j] that i(3) by (cases "i = j"; auto)+
  show ?case
  proof (cases "late i")
    case True
    have "starting (open_late V late js ?s) \<and> same_flags ?s (open_late V late js ?s)
        \<and> length (workers (open_late V late js ?s)) = length (workers ?s)"
      using open_step [OF Cons.prems(1) i(1,2)] Cons.prems(2) k
      by (intro Cons.IH) (simp_all del: at_worker_sel(9), simp)
    with True show ?thesis
      using same_flags_trans [of s ?s] same_flags_at_worker by (simp add: open_late_def del: at_worker_sel(9)) simp
  next
    case False
    have "open_late V late (i # js) s = open_late V late js s" using False by (simp add: open_late_def)
    moreover have "starting (open_late V late js s) \<and> same_flags s (open_late V late js s)
        \<and> length (workers (open_late V late js s)) = length (workers s)"
      using Cons.prems k by (intro Cons.IH) auto
    ultimately show ?thesis by simp
  qed
qed (simp add: open_late_def)

lemma open_late_other: "j \<notin> set js \<Longrightarrow> workers (open_late V late js s) ! j = workers s ! j"
  by (induction js arbitrary: s) (simp_all add: open_late_def)

lemma open_workers_result:
  assumes "starting s" "distinct js" "\<And>i. i \<in> set js \<Longrightarrow> i < length (workers s) \<and> epVLSH (workers s ! i) < 0"
    and "open_workers V late js s = (r, s')"
  shows "starting s' \<and> same_flags s s' \<and> length (workers s') = length (workers s)
    \<and> (r = Inr () \<longrightarrow> (\<forall>i \<in> set js. 0 \<le> epVLSH (workers s' ! i)))
    \<and> (\<forall>i. i \<notin> set js \<longrightarrow> workers s' ! i = workers s ! i)"
  using assms
proof (induction js arbitrary: s)
  case (Cons i js)
  let ?s = "snd (at_worker i (worker_open_epoll (V i)) s)"
  have i: "i < length (workers s)" "epVLSH (workers s ! i) < 0" "i \<notin> set js"
    using Cons.prems(2,3) by auto
  have k: "j < length (workers s)" "epVLSH (workers s ! j) < 0" "workers ?s ! j = workers s ! j" if "j \<in> set js" for j
    using Cons.prems(3) [of j] that i(3) by (cases "i = j"; auto)+
  have st: "starting ?s" by (rule open_step [OF Cons.prems(1) i(1,2)])
  have len: "length (workers ?s) = length (workers s)" by simp
  have neq: "workers ?s ! j = workers s ! j" if "j \<noteq> i" for j using that by simp
  show ?case
  proof (cases "fst (at_worker i (worker_open_epoll (V i)) s)")
    case (Inl e)
    then have rs: "r = Inl (Wrapped ''vclpoll: initialize mode-2 worker epoll'' e)" "s' = open_late V late js ?s"
      using Cons.prems(4) by (auto simp: case_prod_beta)
    have "starting (open_late V late js ?s) \<and> same_flags ?s (open_late V late js ?s)
        \<and> length (workers (open_late V late js ?s)) = length (workers ?s)"
      using st Cons.prems(2) k len by (intro open_late_result) (simp_all del: at_worker_sel(9))
    moreover have "workers (open_late V late js ?s) ! j = workers s ! j" if "j \<notin> set (i # js)" for j
      using that open_late_other [of j js V late ?s] neq [of j] by simp
    ultimately show ?thesis
      using same_flags_trans [OF same_flags_at_worker [of s i "worker_open_epoll (V i)"]] rs len by auto
  next
    case (Inr u)
    then have r: "open_workers V late js ?s = (r, s')"
      using Cons.prems(4) by (simp add: case_prod_beta)
    have ih: "starting s' \<and> same_flags ?s s' \<and> length (workers s') = length (workers ?s)
        \<and> (r = Inr () \<longrightarrow> (\<forall>i \<in> set js. 0 \<le> epVLSH (workers s' ! i)))
        \<and> (\<forall>i. i \<notin> set js \<longrightarrow> workers s' ! i = workers ?s ! i)"
      using st Cons.prems(2) k len by (intro Cons.IH r) (simp_all del: at_worker_sel(9))
    have "0 \<le> epVLSH (workers ?s ! i)"
      using Inr i idle_open(2) [of "workers s ! i" "V i" u] Cons.prems(1) by (simp add: starting_def)
    with ih i(3) neq show ?thesis
      using same_flags_trans [OF same_flags_at_worker [of s i "worker_open_epoll (V i)"]] len by auto
  qed
qed simp

section \<open>Stopping: proofs\<close>

lemma fold_delete: "map_of (fold AList.delete ks al) h = (if h \<in> set ks then None else map_of al h)"
  by (induction ks arbitrary: al) (simp_all add: AList.delete_conv')

definition quiesced_worker :: "(nat \<Rightarrow> cgo) \<Rightarrow> (nat \<Rightarrow> nat) \<Rightarrow> mode2 \<Rightarrow> nat \<Rightarrow> handle list \<times> worker" where
  "quiesced_worker V polls s j = quiesce (V j) (appCreated s) (polls j) (workers s ! j)"

lemma fold_quiesce:
  assumes "n \<le> length (workers s)"
  shows "length (workers (fold (quiesce_worker V polls) [0..<n] s)) = length (workers s)
    \<and> (\<forall>j. workers (fold (quiesce_worker V polls) [0..<n] s) ! j
         = (if j < n then snd (quiesced_worker V polls s j) else workers s ! j))
    \<and> (\<forall>h. map_of (owners (fold (quiesce_worker V polls) [0..<n] s)) h
         = (if \<exists>j < n. h \<in> set (fst (quiesced_worker V polls s j)) then None else map_of (owners s) h))
    \<and> stopping (fold (quiesce_worker V polls) [0..<n] s) = stopping s
    \<and> appLive (fold (quiesce_worker V polls) [0..<n] s) = appLive s
    \<and> appCreated (fold (quiesce_worker V polls) [0..<n] s) = appCreated s
    \<and> destroyed (fold (quiesce_worker V polls) [0..<n] s) = destroyed s
    \<and> listeners (fold (quiesce_worker V polls) [0..<n] s) = listeners s"
  using assms
proof (induction n)
  case (Suc n)
  let ?t = "fold (quiesce_worker V polls) [0..<n] s"
  have q: "quiesce (V n) (appCreated ?t) (polls n) (workers ?t ! n) = quiesced_worker V polls s n"
    using Suc by (simp add: quiesced_worker_def)
  have e: "fold (quiesce_worker V polls) [0..<Suc n] s = quiesce_worker V polls n ?t" by simp
  define u where "u = quiesce_worker V polls n ?t"
  have u: "workers u = (workers ?t)[n := snd (quiesced_worker V polls s n)]"
    "owners u = fold AList.delete (fst (quiesced_worker V polls s n)) (owners ?t)"
    "stopping u = stopping ?t" "appLive u = appLive ?t" "appCreated u = appCreated ?t" "destroyed u = destroyed ?t"
    "listeners u = listeners ?t"
    unfolding u_def quiesce_worker_def q by (simp_all add: case_prod_beta)
  from Suc have t: "length (workers ?t) = length (workers s)"
    "\<And>j. workers ?t ! j = (if j < n then snd (quiesced_worker V polls s j) else workers s ! j)"
    "\<And>h. map_of (owners ?t) h = (if \<exists>j < n. h \<in> set (fst (quiesced_worker V polls s j)) then None else map_of (owners s) h)"
    by simp_all
  have "workers u ! j = (if j < Suc n then snd (quiesced_worker V polls s j) else workers s ! j)" for j
    using Suc.prems t(1,2) by (cases "j = n") (auto simp: u(1) less_Suc_eq)
  moreover have "map_of (owners u) h
      = (if \<exists>j < Suc n. h \<in> set (fst (quiesced_worker V polls s j)) then None else map_of (owners s) h)" for h
    by (auto simp: u(2) fold_delete t(3) less_Suc_eq)
  ultimately show ?case
    unfolding e u_def [symmetric] using Suc u(3-) t(1) by (simp add: u(1))
qed simp

lemma mode2_stop_eq:
  assumes "\<not> stopping s"
  shows "mode2_stop V polls s = fold (quiesce_worker V polls) [0..<length (workers s)] (s\<lparr>stopping := True\<rparr>)"
  using assms by (simp add: mode2_stop_def)

lemma stop_workers:
  fixes V :: "nat \<Rightarrow> cgo" and polls :: "nat \<Rightarrow> nat"
  assumes "\<not> stopping s"
  defines "s' \<equiv> mode2_stop V polls s"
  shows "length (workers s') = length (workers s)" "stopping s'" "appLive s' = appLive s" "destroyed s' = destroyed s"
    "j < length (workers s) \<Longrightarrow> workers s' ! j = snd (quiesce (V j) (appCreated s) (polls j) (workers s ! j))"
    "map_of (owners s') h = (if \<exists>j < length (workers s).
       h \<in> set (fst (quiesce (V j) (appCreated s) (polls j) (workers s ! j))) then None else map_of (owners s) h)"
  using fold_quiesce [of "length (workers s)" "s\<lparr>stopping := True\<rparr>" V polls]
  by (auto simp: s'_def mode2_stop_eq [OF assms(1)] quiesced_worker_def)

text \<open>A worker that has waiters has its epoll handle.\<close>

definition can_stop :: "mode2 \<Rightarrow> bool" where
  "can_stop s \<longleftrightarrow> mode2_ok s \<and> (\<forall>i < length (workers s). 0 \<le> epVLSH (workers s ! i) \<or> waiters (workers s ! i) = [])"

lemma starting_can_stop: "starting s \<Longrightarrow> can_stop s"
  by (simp add: can_stop_def starting_ok) (simp add: starting_def idle_ok)

lemma appDestroy_stopped:
  assumes "stopping u"
  shows "workers (mode2_appDestroy V polls u) = (if destroyed u \<or> workers u = [] then workers u
      else (workers u)[0 := worker_destroy (V 0) (workers u ! 0)])"
    "appLive (mode2_appDestroy V polls u) = appLive u" "owners (mode2_appDestroy V polls u) = owners u"
  using assms by (simp_all add: mode2_appDestroy_def mode2_stop_def Let_def at_worker_def)

text \<open>Destroying a dispatcher that was stopped while its workers were idle.\<close>

lemma stopped_clean:
  fixes V :: "nat \<Rightarrow> cgo" and polls :: "nat \<Rightarrow> nat"
  assumes st: "starting t" and ns: "\<not> stopping t"
  defines "s \<equiv> mode2_appDestroy V polls (mode2_stop V polls t)"
  shows "appLive s = appLive t" "owners t = [] \<Longrightarrow> owners s = []"
    "i < length (workers s) \<Longrightarrow> quiesced_closed (workers s ! i) \<and> sessions (workers s ! i) = []
       \<and> (0 \<le> h \<longrightarrow> balance h (hist (workers s ! i)) = 0)"
proof -
  let ?s1 = "mode2_stop V polls t"
  note sw = stop_workers [OF ns, where V = V and polls = polls]
  have q: "quiesced_closed (workers ?s1 ! j) \<and> sessions (workers ?s1 ! j) = []
      \<and> (0 \<le> h \<longrightarrow> balance h (hist (workers ?s1 ! j)) = 0)" if j: "j < length (workers t)" for j h
  proof -
    have idl: "idle (workers t ! j)" using st j by (simp add: starting_def)
    note i = idle_ok [OF idl]
    note q = quiesce_result [where V = "V j" and live = "appCreated t" and polls = "polls j" and w = "workers t ! j"]
    have "map_of (sessions (workers ?s1 ! j)) = Map.empty"
      by (rule ext) (use q(1) i in \<open>auto simp: sw(5) [OF j]\<close>)
    then have "sessions (workers ?s1 ! j) = []" by simp
    moreover have "balance h (hist (workers ?s1 ! j)) = 0" if "0 \<le> h"
      using q(6) [of h] i idl that by (auto simp: sw(5) [OF j] idle_def owns_def)
    ultimately show ?thesis by (simp add: sw(5) [OF j] quiesce_rest)
  qed
  have dest: "workers s = (if destroyed ?s1 \<or> workers ?s1 = [] then workers ?s1
      else (workers ?s1)[0 := worker_destroy (V 0) (workers ?s1 ! 0)])"
    "appLive s = appLive ?s1" "owners s = owners ?s1"
    by (simp_all add: s_def appDestroy_stopped [OF sw(2)])
  show "appLive s = appLive t" by (simp add: dest sw)
  show "owners s = []" if "owners t = []"
  proof -
    have "map_of (owners s) = Map.empty" using that by (simp add: fun_eq_iff dest sw)
    then show ?thesis by simp
  qed
  have "balance h (hist (worker_destroy (V 0) w)) = balance h (hist w)" for w
    unfolding worker_destroy_def by (rule quiet_on_worker) (rule quiet_simps)
  moreover have "quiesced_closed (worker_destroy (V 0) w) = quiesced_closed w" "sessions (worker_destroy (V 0) w) = sessions w" for w
    by (simp_all add: worker_destroy_def)
  moreover have "workers s ! i = workers ?s1 ! i \<or> workers s ! i = worker_destroy (V 0) (workers ?s1 ! i)"
    by (cases "i = 0") (auto simp: dest(1) nth_list_update)
  moreover have "i < length (workers t)" if "i < length (workers s)"
    using that sw(1) by (simp add: dest(1) split: if_splits)
  ultimately show "quiesced_closed (workers s ! i) \<and> sessions (workers s ! i) = []
       \<and> (0 \<le> h \<longrightarrow> balance h (hist (workers s ! i)) = 0)" if "i < length (workers s)"
    using that q [of i h] by metis
qed

section \<open>Properties\<close>

text \<open>After a stop no session has an owner and nothing is submitted, so every call that needs a worker fails.\<close>

lemma stopped_calls:
  assumes "stopping s" "0 < length (workers s)"
  shows "fst (create V F fc s) = Inl PollErrClosed" "fst (createConnect V F fd s) = Inl PollErrClosed"
    "fst (mode2_listen V F c s) = Inl PollErrClosed"
    "lookupShardedListener k s = None \<Longrightarrow> sessionCall V F k fs s = (Inl PollErrClosed, s)"
    "lookupShardedListener k s = None \<Longrightarrow> accept_attempt V F k s = (Inl PollErrClosed, s)"
    "lookupShardedListener k s = None \<Longrightarrow> closeSessionHandle V F k s = (Inl PollErrClosed, s)"
proof -
  obtain n where n: "length (workers s) = Suc n" using assms(2) by (cases "length (workers s)") auto
  have up: "[0..<Suc n] = 0 # [1..<Suc n]" by (simp add: upt_rec)
  show "fst (create V F fc s) = Inl PollErrClosed" "fst (createConnect V F fd s) = Inl PollErrClosed"
    using assms(1) by (simp_all add: create_def createConnect_def case_prod_beta submit_def)
  obtain fn where "mode2_listen V F c s = newShardedListener V F fn s" by (rule mode2_listen_sharded)
  then show "fst (mode2_listen V F c s) = Inl PollErrClosed"
    using assms(1) by (simp add: newShardedListener_def n up submit_def del: upt_Suc)
  show "lookupShardedListener k s = None \<Longrightarrow> sessionCall V F k fs s = (Inl PollErrClosed, s)"
    "lookupShardedListener k s = None \<Longrightarrow> accept_attempt V F k s = (Inl PollErrClosed, s)"
    using assms(1) attempts_refused by blast+
  show "lookupShardedListener k s = None \<Longrightarrow> closeSessionHandle V F k s = (Inl PollErrClosed, s)"
    using assms(1) by (auto simp: closeSessionHandle_def with_lookup_def lookup_def lookupShardedListener_def submit_def
        split: option.splits owner.splits)
qed

text \<open>C7. Stopping the dispatcher releases everything: every worker is quiesced, every parked goroutine is
  woken, every session and the epoll handle is closed exactly once, and no public handle of a session is
  left. From then on nothing is submitted to a worker: opening a session or a listener, and every call, accept or close on a
  handle that is not a sharded listener's, answers \<open>ErrClosed\<close> and leaves VLS alone. (A sharded listener that was not closed before
  stays in the table, and its accept, which submits nothing, still hands out what is queued.) Stopping
  again changes nothing.\<close>

theorem mode2_stop_releases_everything:
  assumes "can_stop s" and "\<not> stopping s" and "i < length (workers s)" and "s' = mode2_stop V polls s"
  shows "quiesced_closed (workers s' ! i) \<and> pending (workers s' ! i) = {}
    \<and> wt_ready ` snd ` pending (workers s ! i) \<subseteq> set (ready_closed (workers s' ! i)) \<and> \<not> panicked (workers s' ! i)
    \<and> map_of (sessions (workers s' ! i)) k = None
    \<and> balance h (hist (workers s' ! i)) = balance h (hist (workers s ! i))
         - (if h \<in> ran (map_of (sessions (workers s ! i))) then 1 else 0)
         - (if 0 \<le> epVLSH (workers s ! i) \<and> h = epVLSH (workers s ! i) then 1 else 0)
    \<and> map_of (owners s') k \<noteq> Some (SessionRef i raw)
    \<and> mode2_stop V polls s' = s' \<and> submit F f s' = (Inl PollErrClosed, s')
    \<and> fst (create V F fc s') = Inl PollErrClosed \<and> fst (createConnect V F fd s') = Inl PollErrClosed
    \<and> fst (mode2_listen V F c s') = Inl PollErrClosed
    \<and> (lookupShardedListener k s' = None \<longrightarrow> sessionCall V F k fs s' = (Inl PollErrClosed, s')
         \<and> accept_attempt V F k s' = (Inl PollErrClosed, s') \<and> closeSessionHandle V F k s' = (Inl PollErrClosed, s'))"
proof -
  let ?w = "workers s ! i"
  have ok: "mode2_ok s" and ep: "0 \<le> epVLSH ?w \<or> waiters ?w = []"
    using assms(1,3) by (simp_all add: can_stop_def)
  note st = stop_workers [OF assms(2), where V = V and polls = polls, folded assms(4)]
  note w = st(5) [OF assms(3)]
  note q = quiesce_result [OF mode2_okD(1) [OF ok assms(3)] ep, where V = "V i" and live = "appCreated s" and polls = "polls i"]
  have "map_of (owners s') k \<noteq> Some (SessionRef i raw)"
  proof
    assume a: "map_of (owners s') k = Some (SessionRef i raw)"
    then have "map_of (owners s) k = Some (SessionRef i raw)" by (simp add: st(6) split: if_splits)
    then have "k \<in> dom (map_of (sessions ?w))" using mode2_okD(3) [OF ok] by blast
    then have "k \<in> set (fst (quiesce (V i) (appCreated s) (polls i) ?w))" by (simp add: q(2))
    then show False using a assms(3) by (auto simp: st(6) split: if_splits)
  qed
  moreover have "mode2_stop V polls s' = s'" "submit F f s' = (Inl PollErrClosed, s')"
    using st(2) by (simp_all add: mode2_stop_def submit_def)
  moreover have "quiesced_closed (workers s' ! i)" by (simp add: w quiesce_rest)
  moreover have some: "0 < length (workers s')" using assms(3) st(1) by linarith
  ultimately show ?thesis using q by (simp add: w stopped_calls [OF st(2) some])
qed

text \<open>As \<open>demo_cgo\<close>, but creating the application succeeds with 0.\<close>

definition demo_boot :: cgo where
  "demo_boot = \<lparr>tid = 7, vls = (\<lambda>w c. case c of VlsAppCreate n \<Rightarrow> ok_reply 0 | _ \<Rightarrow> ok_reply 1)\<rparr>"

lemma demo_can_stop: "can_stop demo_mode2"
  unfolding can_stop_def demo_mode2_sel
proof (intro conjI demo_mode2_ok allI impI)
  show "0 \<le> epVLSH ([demo_parked, newWorker 1 False] ! i) \<or> waiters ([demo_parked, newWorker 1 False] ! i) = []"
    if "i < length [demo_parked, newWorker 1 False]" for i
    using that by (cases i) (simp_all add: demo_parked_state newWorker_def)
qed

lemma mode2_stop_releases_everything_witness:
  "pending (workers (mode2_stop demo_V (\<lambda>_. 2) demo_mode2) ! 0) = {}
   \<and> balance 4 (hist (workers (mode2_stop demo_V (\<lambda>_. 2) demo_mode2) ! 0)) = -1"
  using mode2_stop_releases_everything [OF demo_can_stop _ _ refl, where i = 0 and V = demo_V and polls = "\<lambda>_. 2" and k = 0
      and h = 4 and raw = 0 and F = demo_F and f = "\<lambda>s. (Inr (), s)" and c = "ListenTCP4 (0, 0, 0, 0) 0 0"
      and fc = "\<lambda>C. mode3BindUDP4 C (0, 0, 0, 0) 0" and fd = "\<lambda>C. mode3ConnectTCP4Start C (0, 0, 0, 0) 0"
      and fs = "\<lambda>C raw. on_worker (rawRead C raw 1)"]
  by (simp add: demo_parked_state)

text \<open>A successful initialisation establishes the dispatcher's invariant: one worker per configured
  count, each with its own epoll handle, no session, no waiter, no public handle; the dispatcher
  is live and accepts operations.\<close>

theorem mode2_init_establishes_invariant:
  assumes "mode2_appInit V late polls workerCount appName newMode2Dispatcher = (Inr (), s)"
  shows "mode2_ok s \<and> can_stop s \<and> int (length (workers s)) = workerCount \<and> 0 < length (workers s)
    \<and> (\<forall>i < length (workers s). 0 \<le> epVLSH (workers s ! i) \<and> sessions (workers s ! i) = [] \<and> pending (workers s ! i) = {})
    \<and> owners s = [] \<and> appLive s \<and> appCreated s \<and> \<not> stopping s"
proof -
  let ?d = newMode2Dispatcher
  have c: "\<not> workerCount < 1" using assms by (auto simp: mode2_appInit_def)
  have d: "starting ?d" "workers ?d = []" "\<not> stopping ?d" by (simp_all add: starting_def newMode2Dispatcher_def)
  obtain r1 s1 where r1: "register_workers V appName [0..<nat workerCount] ?d = (r1, s1)" by fastforce
  have reg: "starting s1 \<and> same_flags ?d s1 \<and> (\<forall>i < length (workers s1). epVLSH (workers s1 ! i) < 0)
      \<and> (r1 = Inr () \<longrightarrow> length (workers s1) = length (workers ?d) + length [0..<nat workerCount])"
    by (rule register_workers_result [OF d(1) _ r1]) (simp add: d)
  have r1r: "r1 = Inr ()" using assms c r1 by (cases r1) (auto simp: mode2_appInit_def)
  obtain r2 s2 where r2: "open_workers V late [0..<length (workers s1)] s1 = (r2, s2)" by fastforce
  have r2r: "r2 = Inr ()" using assms c r1 r1r r2 by (cases r2) (auto simp: mode2_appInit_def)
  have op: "starting s2 \<and> same_flags s1 s2 \<and> length (workers s2) = length (workers s1)
      \<and> (r2 = Inr () \<longrightarrow> (\<forall>i \<in> set [0..<length (workers s1)]. 0 \<le> epVLSH (workers s2 ! i)))
      \<and> (\<forall>i. i \<notin> set [0..<length (workers s1)] \<longrightarrow> workers s2 ! i = workers s1 ! i)"
    using reg by (intro open_workers_result [OF _ _ _ r2]) auto
  have s: "s = s2\<lparr>appCreated := True, appLive := True\<rparr>"
    using assms c r1 r1r r2 r2r by (simp add: mode2_appInit_def)
  have "starting s" using op by (simp add: s starting_def)
  moreover have "owners s = [] \<and> \<not> stopping s"
    using op reg d by (simp add: s same_flags_def newMode2Dispatcher_def)
  moreover have "length (workers s) = nat workerCount" using op reg d r1r by (simp add: s)
  moreover have "0 \<le> epVLSH (workers s ! i)" if "i < length (workers s)" for i
    using that op r2r by (simp add: s)
  ultimately show ?thesis
    using c by (auto simp: starting_ok starting_can_stop s) (auto simp: starting_def idle_def idle_ok)
qed

lemma mode2_init_establishes_invariant_witness:
  "mode2_ok (snd (mode2_appInit (\<lambda>_. demo_boot) (\<lambda>_. True) (\<lambda>_. 2) 2 ''app'' newMode2Dispatcher))"
proof -
  have "fst (mode2_appInit (\<lambda>_. demo_boot) (\<lambda>_. True) (\<lambda>_. 2) 2 ''app'' newMode2Dispatcher) = Inr ()"
  proof -
    have reg: "\<exists>w. worker_register demo_boot n u = (Inr (), w)" for n u
      by (simp add: worker_register_def rawAppCreate_def vclpoll_app_create_def rawMode2Enabled_def
          vclpoll_mode2_enabled_def rawRegisterWorker_def rawWorkerIndex_def vclpoll_worker_index_def
          case_prod_beta Let_def demo_boot_def ok_reply_def prod_eq_iff split: sum.split)
    have "fst (register_workers (\<lambda>_. demo_boot) n js s) = Inr ()" for n js s
    proof (induction js arbitrary: s)
      case (Cons i js)
      then show ?case using reg [of n "newWorker i (i = 0)"] by auto
    qed simp
    moreover have "fst (open_workers (\<lambda>_. demo_boot) l js s) = Inr ()" for l js s
    proof (induction js arbitrary: s)
      case (Cons i js)
      have "fst (at_worker i (worker_open_epoll demo_boot) s) = Inr ()"
        by (simp add: worker_open_epoll_def rawEpollCreate_def vclpoll_epoll_create_def demo_boot_def case_prod_beta)
      with Cons show ?case by (simp add: case_prod_beta)
    qed simp
    ultimately show ?thesis by (simp add: mode2_appInit_def case_prod_beta)
  qed
  then show ?thesis
    using mode2_init_establishes_invariant [of "\<lambda>_. demo_boot" "\<lambda>_. True" "\<lambda>_. 2" 2 "''app''"] by (metis prod.collapse)
qed

text \<open>C35. A failed initialisation leaks nothing: whichever worker fails at whichever step, afterwards every
  worker is quiesced and no VLS handle is open on any of them, and the dispatcher never goes live.\<close>

theorem mode2_init_failure_leaks_nothing:
  assumes "mode2_appInit V late polls workerCount appName newMode2Dispatcher = (Inl e, s)"
  shows "\<not> appLive s \<and> owners s = [] \<and> (\<forall>i < length (workers s). quiesced_closed (workers s ! i)
      \<and> sessions (workers s ! i) = [] \<and> (\<forall>h \<ge> 0. balance h (hist (workers s ! i)) = 0))"
proof -
  let ?d = newMode2Dispatcher
  have d: "starting ?d" "workers ?d = []" "\<not> stopping ?d" "\<not> appLive ?d" "owners ?d = []" "\<not> destroyed ?d"
    by (simp_all add: starting_def newMode2Dispatcher_def)
  show ?thesis
  proof (cases "workerCount < 1")
    case True
    with assms d show ?thesis by (auto simp: mode2_appInit_def)
  next
    case c: False
    obtain r1 s1 where r1: "register_workers V appName [0..<nat workerCount] ?d = (r1, s1)" by fastforce
    have reg: "starting s1 \<and> same_flags ?d s1 \<and> (\<forall>i < length (workers s1). epVLSH (workers s1 ! i) < 0)
        \<and> (r1 = Inr () \<longrightarrow> length (workers s1) = length (workers ?d) + length [0..<nat workerCount])"
      by (rule register_workers_result [OF d(1) _ r1]) (simp add: d)
    obtain r2 s2 where r2: "open_workers V late [0..<length (workers s1)] s1 = (r2, s2)" by fastforce
    have op: "starting s2 \<and> same_flags s1 s2 \<and> length (workers s2) = length (workers s1)
        \<and> (r2 = Inr () \<longrightarrow> (\<forall>i \<in> set [0..<length (workers s1)]. 0 \<le> epVLSH (workers s2 ! i)))
        \<and> (\<forall>i. i \<notin> set [0..<length (workers s1)] \<longrightarrow> workers s2 ! i = workers s1 ! i)"
      using reg by (intro open_workers_result [OF _ _ _ r2]) auto
    let ?l = "open_late V late [0..<length (workers s1)] s1"
    have la: "starting ?l \<and> same_flags s1 ?l \<and> length (workers ?l) = length (workers s1)"
      using reg by (intro open_late_result) auto
    obtain t where t: "starting t" "same_flags ?d t" "s = mode2_appDestroy V polls (mode2_stop V polls t)"
    proof (cases r1)
      case (Inl e1)
      have "s = mode2_appDestroy V polls (mode2_stop V polls ?l)"
        using assms c r1 Inl by (simp add: mode2_appInit_def Let_def)
      with that [of ?l] la reg same_flags_trans show ?thesis by blast
    next
      case (Inr u)
      then have "s = mode2_appDestroy V polls (mode2_stop V polls s2)"
        using assms c r1 r2 by (cases r2) (auto simp: mode2_appInit_def)
      with that [of s2] op reg same_flags_trans show ?thesis by blast
    qed
    have ns: "\<not> stopping t" "\<not> appLive t" "owners t = []" "\<not> destroyed t"
      using t(2) d by (simp_all add: same_flags_def)
    show ?thesis using stopped_clean [OF t(1) ns(1)] ns t(3) by auto
  qed
qed

lemma mode2_init_failure_leaks_nothing_witness:
  "\<not> appLive (snd (mode2_appInit demo_V (\<lambda>_. True) (\<lambda>_. 2) 2 ''app'' newMode2Dispatcher))"
proof -
  have "\<exists>e s. mode2_appInit demo_V (\<lambda>_. True) (\<lambda>_. 2) 2 ''app'' newMode2Dispatcher = (Inl e, s)"
    by (simp add: mode2_appInit_def upt_conv_Cons worker_register_def rawAppCreate_def vclpoll_app_create_def
        newWorker_def case_prod_beta Let_def)
  then show ?thesis
    using mode2_init_failure_leaks_nothing [of demo_V "\<lambda>_. True" "\<lambda>_. 2" 2 "''app''"] by auto
qed

end
