(* ===== verification/Dispatch.thy ===== *)
theory Dispatch
  imports PollerSteps Mode2Life
begin

text \<open>
  The package boundary of \<open>vclpoll\<close> (\<open>internal/vclpoll/dispatch.go\<close>): the \<open>dispatcher\<close> interface
  as a record of operations, its two implementations, \<open>AppInitWithOptions\<close> which selects one,
  and the package functions, which forward to the selected one. The operations are those of
  \<open>Mode3Ops\<close> and \<open>Mode2\<close>; the layer above sees only the record \<open>dispatcher\<close>.
\<close>

section \<open>The interface\<close>

text \<open>A \<open>done\<close> argument is the channel's number, or \<open>None\<close> for \<open>nil\<close>. A call that may block for ever
  returns an option.\<close>

type_synonym done_chan = "nat option"

record 's dispatcher =
  d_listenTCP4 :: "ip4 \<Rightarrow> u16 \<Rightarrow> int \<Rightarrow> 's \<Rightarrow> handle poll_result \<times> 's"
  d_listenTCP6 :: "ip16 \<Rightarrow> u16 \<Rightarrow> int \<Rightarrow> 's \<Rightarrow> handle poll_result \<times> 's"
  d_dialTCP4 :: "ip4 \<Rightarrow> u16 \<Rightarrow> 's \<Rightarrow> handle poll_result \<times> 's"
  d_dialTCP6 :: "ip16 \<Rightarrow> u16 \<Rightarrow> 's \<Rightarrow> handle poll_result \<times> 's"
  d_connectTCP4Start :: "ip4 \<Rightarrow> u16 \<Rightarrow> 's \<Rightarrow> connect_result \<times> 's"
  d_connectTCP6Start :: "ip16 \<Rightarrow> u16 \<Rightarrow> 's \<Rightarrow> connect_result \<times> 's"
  d_addCertKeyPair :: "u8 list \<Rightarrow> u8 list \<Rightarrow> 's \<Rightarrow> u32 poll_result \<times> 's"
  d_delCertKeyPair :: "u32 \<Rightarrow> 's \<Rightarrow> unit poll_result \<times> 's"
  d_listenTLS4 :: "ip4 \<Rightarrow> u16 \<Rightarrow> int \<Rightarrow> u32 \<Rightarrow> 's \<Rightarrow> handle poll_result \<times> 's"
  d_listenTLS6 :: "ip16 \<Rightarrow> u16 \<Rightarrow> int \<Rightarrow> u32 \<Rightarrow> 's \<Rightarrow> handle poll_result \<times> 's"
  d_connectTLS4Start :: "ip4 \<Rightarrow> u16 \<Rightarrow> u32 \<Rightarrow> bool \<Rightarrow> 's \<Rightarrow> connect_result \<times> 's"
  d_connectTLS6Start :: "ip16 \<Rightarrow> u16 \<Rightarrow> u32 \<Rightarrow> bool \<Rightarrow> 's \<Rightarrow> connect_result \<times> 's"
  d_accept :: "handle \<Rightarrow> 's \<Rightarrow> (handle \<times> ip4 \<times> u16 \<times> vclpoll_error option) option \<times> 's"
  d_acceptFullContext :: "handle \<Rightarrow> done_chan \<Rightarrow> 's \<Rightarrow> (handle \<times> AddrInfo \<times> vclpoll_error option) option \<times> 's"
  d_readContext :: "handle \<Rightarrow> nat \<Rightarrow> done_chan \<Rightarrow> 's \<Rightarrow> u8 list poll_result option \<times> 's"
  d_writeContext :: "handle \<Rightarrow> u8 list \<Rightarrow> done_chan \<Rightarrow> 's \<Rightarrow> nat poll_result option \<times> 's"
  d_shutdown :: "handle \<Rightarrow> int \<Rightarrow> 's \<Rightarrow> unit poll_result \<times> 's"
  d_sessionConnectError :: "handle \<Rightarrow> 's \<Rightarrow> unit poll_result \<times> 's"
  d_close :: "handle \<Rightarrow> 's \<Rightarrow> unit poll_result \<times> 's"
  d_getLocalAddr :: "handle \<Rightarrow> 's \<Rightarrow> AddrInfo poll_result \<times> 's"
  d_getPeerAddr :: "handle \<Rightarrow> 's \<Rightarrow> AddrInfo poll_result \<times> 's"
  d_setV6Only :: "handle \<Rightarrow> bool \<Rightarrow> 's \<Rightarrow> unit poll_result \<times> 's"
  d_bindUDP4 :: "ip4 \<Rightarrow> u16 \<Rightarrow> 's \<Rightarrow> handle poll_result \<times> 's"
  d_bindUDP6 :: "ip16 \<Rightarrow> u16 \<Rightarrow> 's \<Rightarrow> handle poll_result \<times> 's"
  d_connectUDP4Start :: "ip4 \<Rightarrow> u16 \<Rightarrow> 's \<Rightarrow> connect_result \<times> 's"
  d_connectUDP6Start :: "ip16 \<Rightarrow> u16 \<Rightarrow> 's \<Rightarrow> connect_result \<times> 's"
  d_sendToContext :: "handle \<Rightarrow> u8 list \<Rightarrow> AddrInfo \<Rightarrow> done_chan \<Rightarrow> 's \<Rightarrow> nat poll_result option \<times> 's"
  d_recvFromContext :: "handle \<Rightarrow> nat \<Rightarrow> done_chan \<Rightarrow> 's \<Rightarrow> (u8 list \<times> AddrInfo) poll_result option \<times> 's"
  d_pollWaitContext :: "handle \<Rightarrow> u32 \<Rightarrow> done_chan \<Rightarrow> 's \<Rightarrow> bool \<times> 's"
  d_wakeVLSH :: "handle \<Rightarrow> 's \<Rightarrow> 's"

section \<open>The process state\<close>

text \<open>
  \<open>ps_hist\<close> is the history of the goroutines that call the package (Mode 3 enters VLS on their own
  threads), \<open>ps_poller\<close> the \<open>defaultPoller\<close>, \<open>ps_m2\<close> the Mode 2 dispatcher once there is one. The
  flags are the package variables \<open>appOnce\<close>, \<open>appErr\<close>, \<open>appCreated\<close>, \<open>appLive\<close> as Mode 3 uses
  them, and \<open>dispatchInitOnce\<close>, \<open>dispatchInitErr\<close> and \<open>activeDispatcher\<close>.
\<close>

datatype selected = Mode3Selected | Mode2Selected

record proc_state =
  ps_hist :: world
  ps_poller :: poller
  ps_appOnce :: bool
  ps_appErr :: "vclpoll_error option"
  ps_appCreated :: bool
  ps_appLive :: bool
  ps_m2 :: mode2
  ps_initOnce :: bool
  ps_initErr :: "vclpoll_error option"
  ps_active :: selected

text \<open>The variables as \<open>init\<close> leaves them.\<close>

definition proc_init :: proc_state where
  "proc_init = \<lparr>ps_hist = [], ps_poller = new_poller, ps_appOnce = False, ps_appErr = None,
     ps_appCreated = False, ps_appLive = False, ps_m2 = newMode2Dispatcher,
     ps_initOnce = False, ps_initErr = None, ps_active = Mode3Selected\<rparr>"

text \<open>
  What the environment does: VLS for the calling thread and for each worker's thread, the outcomes
  of Mode 2 waits (\<open>de_dial\<close> with the timer of a dial as \<open>done\<close>), and what the poller's goroutine does until it has acknowledged an
  unregistration or has stopped. \<open>de_fuel\<close> bounds the rounds of the retry loops.
\<close>

record disp_env =
  de_thread :: cgo
  de_workers :: "nat \<Rightarrow> cgo"
  de_wait :: "done_chan \<Rightarrow> wait_env"
  de_dial :: wait_env
  de_accept :: "done_chan \<Rightarrow> nat \<Rightarrow> mode2 \<Rightarrow> bool \<times> mode2"
  de_loops :: "nat \<Rightarrow> mode2 \<Rightarrow> mode2"
  de_late :: "nat \<Rightarrow> bool"
  de_polls :: "nat \<Rightarrow> nat"
  de_unreg :: "unregisterRequest \<Rightarrow> poller \<Rightarrow> poller"
  de_stopped :: "poller \<Rightarrow> poller"
  de_fuel :: nat

definition de_fate :: "disp_env \<Rightarrow> mode2 \<Rightarrow> submit_fate" where
  "de_fate X = we_fate (de_wait X None)"

text \<open>Running a Mode 3 operation on the calling thread, and one of Mode 2 on the dispatcher.\<close>

definition on_thread :: "(world, 'a) state \<Rightarrow> proc_state \<Rightarrow> 'a \<times> proc_state" where
  "on_thread m s = (let (x, w) = run_state m (ps_hist s) in (x, s\<lparr>ps_hist := w\<rparr>))"

definition on_mode2 :: "(mode2 \<Rightarrow> 'a \<times> mode2) \<Rightarrow> proc_state \<Rightarrow> 'a \<times> proc_state" where
  "on_mode2 f s = (let (x, d) = f (ps_m2 s) in (x, s\<lparr>ps_m2 := d\<rparr>))"

section \<open>Mode 3 and its poller\<close>

text \<open>\<open>pollUnregister\<close>: nothing when the poller does not run, else a request and the wait for its
  acknowledgement. \<open>fresh\<close> numbers the new \<open>done\<close> channel.\<close>

definition pollUnregister :: "disp_env \<Rightarrow> handle \<Rightarrow> poller \<Rightarrow> poller" where
  "pollUnregister X vlsh p =
     (if disabled p \<or> \<not> running p then p
      else
        (let req = \<lparr>ur_vlsh = vlsh, ur_done = Suc (Max (set (0 # map ur_done (unregCh p) @ done_closed p)))\<rparr>
         in de_unreg X req (p\<lparr>unregCh := unregCh p @ [req]\<rparr>)))"

definition poller_stop :: "disp_env \<Rightarrow> poller \<Rightarrow> poller" where
  "poller_stop X p =
     (let p = p\<lparr>disabled := True\<rparr>
      in if started_closed p then de_stopped X (p\<lparr>stopCh_closed := True\<rparr>) else p)"

definition mode3AppInit :: "cgo \<Rightarrow> string \<Rightarrow> proc_state \<Rightarrow> vclpoll_error option \<times> proc_state" where
  "mode3AppInit V appName s =
     (if ps_appOnce s then (ps_appErr s, s)
      else
        (case on_thread (mode3AppInit_once V appName) (s\<lparr>ps_appOnce := True\<rparr>) of
           (Inl e, s) \<Rightarrow> (Some e, s\<lparr>ps_appErr := Some e\<rparr>)
         | (Inr _, s) \<Rightarrow> (ps_appErr s, s\<lparr>ps_appCreated := True, ps_appLive := True\<rparr>)))"

definition mode3Close :: "disp_env \<Rightarrow> handle \<Rightarrow> proc_state \<Rightarrow> unit poll_result \<times> proc_state" where
  "mode3Close X vlsh s =
     on_thread (mode3Close_vls (de_thread X) vlsh) (s\<lparr>ps_poller := pollUnregister X vlsh (ps_poller s)\<rparr>)"

text \<open>The four results of \<open>acceptFullContext\<close> and \<open>accept\<close> from the model's sums.\<close>

definition accept_full_reply :: "(handle \<times> AddrInfo) poll_result \<Rightarrow> handle \<times> AddrInfo \<times> vclpoll_error option" where
  "accept_full_reply r = (case r of Inl e \<Rightarrow> (invalidVLSH, AddrInfo_zero, Some e)
     | Inr (h, addr) \<Rightarrow> (h, addr, None))"

definition accept_reply :: "(handle \<times> ip4 \<times> u16) poll_result \<Rightarrow> handle \<times> ip4 \<times> u16 \<times> vclpoll_error option" where
  "accept_reply r = (case r of Inl e \<Rightarrow> (invalidVLSH, (0, 0, 0, 0), 0, Some e)
     | Inr (h, ip, port) \<Rightarrow> (h, ip, port, None))"

definition m2_accept_reply :: "handle \<times> AddrInfo \<times> vclpoll_error option
    \<Rightarrow> handle \<times> ip4 \<times> u16 \<times> vclpoll_error option" where
  "m2_accept_reply r = (case r of (h, info, e) \<Rightarrow>
     (h, (ai_IP info ! 0, ai_IP info ! 1, ai_IP info ! 2, ai_IP info ! 3), ai_Port info, e))"

definition mode3Dispatcher :: "disp_env \<Rightarrow> proc_state dispatcher" where
  "mode3Dispatcher X = (let V = de_thread X; n = de_fuel X in
     \<lparr>d_listenTCP4 = \<lambda>ip p b. on_thread (mode3ListenTCP4 V ip p b),
      d_listenTCP6 = \<lambda>ip p b. on_thread (mode3ListenTCP6 V ip p b),
      d_dialTCP4 = \<lambda>ip p. on_thread (mode3DialTCP4 V ip p),
      d_dialTCP6 = \<lambda>ip p. on_thread (mode3DialTCP6 V ip p),
      d_connectTCP4Start = \<lambda>ip p. on_thread (mode3ConnectTCP4Start V ip p),
      d_connectTCP6Start = \<lambda>ip p. on_thread (mode3ConnectTCP6Start V ip p),
      d_addCertKeyPair = \<lambda>cert key. on_thread (mode3AddCertKeyPair V cert key),
      d_delCertKeyPair = \<lambda>idx. on_thread (mode3DelCertKeyPair V idx),
      d_listenTLS4 = \<lambda>ip p b ckp. on_thread (mode3ListenTLS4 V ip p b ckp),
      d_listenTLS6 = \<lambda>ip p b ckp. on_thread (mode3ListenTLS6 V ip p b ckp),
      d_connectTLS4Start = \<lambda>ip p ckp valid. on_thread (mode3ConnectTLS4Start V ip p ckp valid),
      d_connectTLS6Start = \<lambda>ip p ckp valid. on_thread (mode3ConnectTLS6Start V ip p ckp valid),
      d_accept = \<lambda>h. map_prod (map_option accept_reply) id \<circ> on_thread (mode3Accept V n h),
      d_acceptFullContext = \<lambda>h ch. map_prod (map_option accept_full_reply) id
        \<circ> on_thread (mode3AcceptFullContext V n h),
      d_readContext = \<lambda>h len ch. on_thread (mode3ReadContext V n h len),
      d_writeContext = \<lambda>h p ch. on_thread (mode3WriteContext V n h p),
      d_shutdown = \<lambda>h how. on_thread (mode3Shutdown V h how),
      d_sessionConnectError = \<lambda>h. on_thread (mode3SessionConnectError V h),
      d_close = mode3Close X,
      d_getLocalAddr = \<lambda>h. on_thread (mode3GetLocalAddr V h),
      d_getPeerAddr = \<lambda>h. on_thread (mode3GetPeerAddr V h),
      d_setV6Only = \<lambda>h b. on_thread (mode3SetV6Only V h b),
      d_bindUDP4 = \<lambda>ip p. on_thread (mode3BindUDP4 V ip p),
      d_bindUDP6 = \<lambda>ip p. on_thread (mode3BindUDP6 V ip p),
      d_connectUDP4Start = \<lambda>ip p. on_thread (mode3ConnectUDP4Start V ip p),
      d_connectUDP6Start = \<lambda>ip p. on_thread (mode3ConnectUDP6Start V ip p),
      d_sendToContext = \<lambda>h p a ch. on_thread (mode3SendToContext V n h p a),
      d_recvFromContext = \<lambda>h len ch. on_thread (mode3RecvFromContext V n h len),
      d_pollWaitContext = \<lambda>h ev ch. map_prod (\<lambda>r. r \<noteq> 0) id \<circ> on_thread (vcall_rv V (GoEvent (PollWait h ev))),
      d_wakeVLSH = \<lambda>h s. s\<lparr>ps_poller := pollUnregister X h (ps_poller s)\<rparr>\<rparr>)"

definition mode2Dispatcher :: "disp_env \<Rightarrow> proc_state dispatcher" where
  "mode2Dispatcher X = (let V = de_workers X; F = de_fate X; E = de_wait X; n = de_fuel X; W = de_loops X in
     \<lparr>d_listenTCP4 = \<lambda>ip p b. on_mode2 (mode2_listenTCP4 V F ip p b),
      d_listenTCP6 = \<lambda>ip p b. on_mode2 (mode2_listenTCP6 V F ip p b),
      d_dialTCP4 = \<lambda>ip p. on_mode2 (mode2_dialTCP4 V (de_dial X) W ip p),
      d_dialTCP6 = \<lambda>ip p. on_mode2 (mode2_dialTCP6 V (de_dial X) W ip p),
      d_connectTCP4Start = \<lambda>ip p. on_mode2 (mode2_connectTCP4Start V F ip p),
      d_connectTCP6Start = \<lambda>ip p. on_mode2 (mode2_connectTCP6Start V F ip p),
      d_addCertKeyPair = \<lambda>cert key. on_mode2 (mode2_addCertKeyPair V F cert key),
      d_delCertKeyPair = \<lambda>idx. on_mode2 (mode2_delCertKeyPair V F idx),
      d_listenTLS4 = \<lambda>ip p b ckp. on_mode2 (mode2_listenTLS4 V F ip p b ckp),
      d_listenTLS6 = \<lambda>ip p b ckp. on_mode2 (mode2_listenTLS6 V F ip p b ckp),
      d_connectTLS4Start = \<lambda>ip p ckp valid. on_mode2 (mode2_connectTLS4Start V F ip p ckp valid),
      d_connectTLS6Start = \<lambda>ip p ckp valid. on_mode2 (mode2_connectTLS6Start V F ip p ckp valid),
      d_accept = \<lambda>h. map_prod (map_option m2_accept_reply) id
        \<circ> on_mode2 (mode2_acceptFullContext V (E None) (de_accept X None) h n),
      d_acceptFullContext = \<lambda>h ch. on_mode2 (mode2_acceptFullContext V (E ch) (de_accept X ch) h n),
      d_readContext = \<lambda>h len ch. on_mode2 (mode2_readContext V (E ch) h len n),
      d_writeContext = \<lambda>h p ch. on_mode2 (mode2_writeContext V (E ch) h p n),
      d_shutdown = \<lambda>h how. on_mode2 (mode2_shutdown V F h how),
      d_sessionConnectError = \<lambda>h. on_mode2 (mode2_sessionConnectError V F h),
      d_close = \<lambda>h. on_mode2 (mode2_close V F W h),
      d_getLocalAddr = \<lambda>h. on_mode2 (mode2_getLocalAddr V F h),
      d_getPeerAddr = \<lambda>h. on_mode2 (mode2_getPeerAddr V F h),
      d_setV6Only = \<lambda>h b. on_mode2 (mode2_setV6Only V F h b),
      d_bindUDP4 = \<lambda>ip p. on_mode2 (mode2_bindUDP4 V F ip p),
      d_bindUDP6 = \<lambda>ip p. on_mode2 (mode2_bindUDP6 V F ip p),
      d_connectUDP4Start = \<lambda>ip p. on_mode2 (mode2_connectUDP4Start V F ip p),
      d_connectUDP6Start = \<lambda>ip p. on_mode2 (mode2_connectUDP6Start V F ip p),
      d_sendToContext = \<lambda>h p a ch. on_mode2 (mode2_sendToContext V (E ch) h p a n),
      d_recvFromContext = \<lambda>h len ch. on_mode2 (mode2_recvFromContext V (E ch) h len n),
      d_pollWaitContext = \<lambda>h ev ch. on_mode2 (mode2_pollWaitContext V (E ch) h ev),
      d_wakeVLSH = \<lambda>h s. snd (on_mode2 (wakeVLSH V F h) s)\<rparr>)"

section \<open>Selecting a dispatcher\<close>

definition currentDispatcher :: "disp_env \<Rightarrow> proc_state \<Rightarrow> proc_state dispatcher" where
  "currentDispatcher X s = (case ps_active s of Mode3Selected \<Rightarrow> mode3Dispatcher X
     | Mode2Selected \<Rightarrow> mode2Dispatcher X)"

text \<open>The body of \<open>dispatchInitOnce.Do\<close>: the error it stores, if any.\<close>

definition selectDispatcher :: "disp_env \<Rightarrow> string \<Rightarrow> int \<Rightarrow> int \<Rightarrow> proc_state
    \<Rightarrow> vclpoll_error option \<times> proc_state" where
  "selectDispatcher X appName mode nworkers s =
     (if mode = 3 then
        (case mode3AppInit (de_thread X) appName s of
           (Some e, s) \<Rightarrow> (Some e, s)
         | (None, s) \<Rightarrow> (None, s\<lparr>ps_active := Mode3Selected\<rparr>))
      else if mode = 2 then
        (if nworkers < 1 then (Some (Errorf ''vclpoll: mode 2 requires Workers >= 1''), s)
         else
           (case on_mode2 (mode2_appInit (de_workers X) (de_late X) (de_polls X) nworkers appName)
                   (s\<lparr>ps_m2 := newMode2Dispatcher\<rparr>) of
              (Inl e, s) \<Rightarrow> (Some e, s)
            | (Inr _, s) \<Rightarrow> (None, s\<lparr>ps_active := Mode2Selected\<rparr>)))
      else (Some (Errorf ''vclpoll: unsupported VLS mode''), s))"

definition AppInitWithOptions :: "disp_env \<Rightarrow> string \<Rightarrow> int \<Rightarrow> int \<Rightarrow> proc_state
    \<Rightarrow> vclpoll_error option \<times> proc_state" where
  "AppInitWithOptions X appName mode nworkers s =
     (if ps_initOnce s then (ps_initErr s, s)
      else
        (case selectDispatcher X appName mode nworkers (s\<lparr>ps_initOnce := True\<rparr>) of
           (Some e, s) \<Rightarrow> (Some e, s\<lparr>ps_initErr := Some e\<rparr>)
         | (None, s) \<Rightarrow> (ps_initErr s, s)))"

definition AppInit :: "disp_env \<Rightarrow> string \<Rightarrow> proc_state \<Rightarrow> vclpoll_error option \<times> proc_state" where
  "AppInit X appName = AppInitWithOptions X appName 3 1"

definition CurrentMode :: "proc_state \<Rightarrow> int" where
  "CurrentMode s = (if ps_active s = Mode2Selected then 2 else 3)"

text \<open>The counters are kept per worker.\<close>

definition Mode2OwnershipViolations :: "proc_state \<Rightarrow> nat" where
  "Mode2OwnershipViolations s =
     (if ps_active s = Mode2Selected then sum_list (map violations (workers (ps_m2 s))) else 0)"

definition Mode2UnregisterFailures :: "proc_state \<Rightarrow> nat" where
  "Mode2UnregisterFailures s =
     (if ps_active s = Mode2Selected then sum_list (map unregister_failures (workers (ps_m2 s))) else 0)"

definition BeginShutdown :: "proc_state \<Rightarrow> proc_state" where
  "BeginShutdown s = (case ps_active s of Mode3Selected \<Rightarrow> s\<lparr>ps_appLive := False\<rparr>
     | Mode2Selected \<Rightarrow> s\<lparr>ps_m2 := mode2_beginShutdown (ps_m2 s)\<rparr>)"

definition StopPoller :: "disp_env \<Rightarrow> proc_state \<Rightarrow> proc_state" where
  "StopPoller X s = (case ps_active s of Mode3Selected \<Rightarrow> s\<lparr>ps_poller := poller_stop X (ps_poller s)\<rparr>
     | Mode2Selected \<Rightarrow> s\<lparr>ps_m2 := mode2_stop (de_workers X) (de_polls X) (ps_m2 s)\<rparr>)"

definition AppDestroy :: "disp_env \<Rightarrow> proc_state \<Rightarrow> proc_state" where
  "AppDestroy X s = (case ps_active s of
       Mode3Selected \<Rightarrow>
         (let (created, s) = on_thread (mode3AppDestroy (de_thread X) (ps_appCreated s)) s
          in s\<lparr>ps_appCreated := created\<rparr>)
     | Mode2Selected \<Rightarrow> s\<lparr>ps_m2 := mode2_appDestroy (de_workers X) (de_polls X) (ps_m2 s)\<rparr>)"

section \<open>The package functions\<close>

text \<open>Each asks \<open>currentDispatcher\<close> when it is called.\<close>

definition vclpoll :: "disp_env \<Rightarrow> proc_state dispatcher" where
  "vclpoll X = (let cur = currentDispatcher X in
     \<lparr>d_listenTCP4 = \<lambda>ip p b s. d_listenTCP4 (cur s) ip p b s,
      d_listenTCP6 = \<lambda>ip p b s. d_listenTCP6 (cur s) ip p b s,
      d_dialTCP4 = \<lambda>ip p s. d_dialTCP4 (cur s) ip p s,
      d_dialTCP6 = \<lambda>ip p s. d_dialTCP6 (cur s) ip p s,
      d_connectTCP4Start = \<lambda>ip p s. d_connectTCP4Start (cur s) ip p s,
      d_connectTCP6Start = \<lambda>ip p s. d_connectTCP6Start (cur s) ip p s,
      d_addCertKeyPair = \<lambda>cert key s. d_addCertKeyPair (cur s) cert key s,
      d_delCertKeyPair = \<lambda>idx s. d_delCertKeyPair (cur s) idx s,
      d_listenTLS4 = \<lambda>ip p b ckp s. d_listenTLS4 (cur s) ip p b ckp s,
      d_listenTLS6 = \<lambda>ip p b ckp s. d_listenTLS6 (cur s) ip p b ckp s,
      d_connectTLS4Start = \<lambda>ip p ckp valid s. d_connectTLS4Start (cur s) ip p ckp valid s,
      d_connectTLS6Start = \<lambda>ip p ckp valid s. d_connectTLS6Start (cur s) ip p ckp valid s,
      d_accept = \<lambda>h s. d_accept (cur s) h s,
      d_acceptFullContext = \<lambda>h ch s. d_acceptFullContext (cur s) h ch s,
      d_readContext = \<lambda>h len ch s. d_readContext (cur s) h len ch s,
      d_writeContext = \<lambda>h p ch s. d_writeContext (cur s) h p ch s,
      d_shutdown = \<lambda>h how s. d_shutdown (cur s) h how s,
      d_sessionConnectError = \<lambda>h s. d_sessionConnectError (cur s) h s,
      d_close = \<lambda>h s. d_close (cur s) h s,
      d_getLocalAddr = \<lambda>h s. d_getLocalAddr (cur s) h s,
      d_getPeerAddr = \<lambda>h s. d_getPeerAddr (cur s) h s,
      d_setV6Only = \<lambda>h b s. d_setV6Only (cur s) h b s,
      d_bindUDP4 = \<lambda>ip p s. d_bindUDP4 (cur s) ip p s,
      d_bindUDP6 = \<lambda>ip p s. d_bindUDP6 (cur s) ip p s,
      d_connectUDP4Start = \<lambda>ip p s. d_connectUDP4Start (cur s) ip p s,
      d_connectUDP6Start = \<lambda>ip p s. d_connectUDP6Start (cur s) ip p s,
      d_sendToContext = \<lambda>h p a ch s. d_sendToContext (cur s) h p a ch s,
      d_recvFromContext = \<lambda>h len ch s. d_recvFromContext (cur s) h len ch s,
      d_pollWaitContext = \<lambda>h ev ch s. d_pollWaitContext (cur s) h ev ch s,
      d_wakeVLSH = \<lambda>h s. d_wakeVLSH (cur s) h s\<rparr>)"

section \<open>A call, whichever it is\<close>

text \<open>One call of a dispatcher's client, from its start to its return. A call that has not returned
  (out of fuel) is not a step.\<close>

inductive api_step :: "'s dispatcher \<Rightarrow> 's \<Rightarrow> 's \<Rightarrow> bool" for d where
  "d_listenTCP4 d ip p b s = (r, s') \<Longrightarrow> api_step d s s'"
| "d_listenTCP6 d ip6 p b s = (r, s') \<Longrightarrow> api_step d s s'"
| "d_dialTCP4 d ip p s = (r, s') \<Longrightarrow> api_step d s s'"
| "d_dialTCP6 d ip6 p s = (r, s') \<Longrightarrow> api_step d s s'"
| "d_connectTCP4Start d ip p s = (rc, s') \<Longrightarrow> api_step d s s'"
| "d_connectTCP6Start d ip6 p s = (rc, s') \<Longrightarrow> api_step d s s'"
| "d_addCertKeyPair d cert key s = (ri, s') \<Longrightarrow> api_step d s s'"
| "d_delCertKeyPair d idx s = (ru, s') \<Longrightarrow> api_step d s s'"
| "d_listenTLS4 d ip p b ckp s = (r, s') \<Longrightarrow> api_step d s s'"
| "d_listenTLS6 d ip6 p b ckp s = (r, s') \<Longrightarrow> api_step d s s'"
| "d_connectTLS4Start d ip p ckp valid s = (rc, s') \<Longrightarrow> api_step d s s'"
| "d_connectTLS6Start d ip6 p ckp valid s = (rc, s') \<Longrightarrow> api_step d s s'"
| "d_accept d h s = (Some ra, s') \<Longrightarrow> api_step d s s'"
| "d_acceptFullContext d h ch s = (Some rf, s') \<Longrightarrow> api_step d s s'"
| "d_readContext d h len ch s = (Some ro, s') \<Longrightarrow> api_step d s s'"
| "d_writeContext d h bs ch s = (Some rw, s') \<Longrightarrow> api_step d s s'"
| "d_shutdown d h how s = (ru, s') \<Longrightarrow> api_step d s s'"
| "d_sessionConnectError d h s = (ru, s') \<Longrightarrow> api_step d s s'"
| "d_close d h s = (ru, s') \<Longrightarrow> api_step d s s'"
| "d_getLocalAddr d h s = (rd, s') \<Longrightarrow> api_step d s s'"
| "d_getPeerAddr d h s = (rd, s') \<Longrightarrow> api_step d s s'"
| "d_setV6Only d h v s = (ru, s') \<Longrightarrow> api_step d s s'"
| "d_bindUDP4 d ip p s = (r, s') \<Longrightarrow> api_step d s s'"
| "d_bindUDP6 d ip6 p s = (r, s') \<Longrightarrow> api_step d s s'"
| "d_connectUDP4Start d ip p s = (rc, s') \<Longrightarrow> api_step d s s'"
| "d_connectUDP6Start d ip6 p s = (rc, s') \<Longrightarrow> api_step d s s'"
| "d_sendToContext d h bs a ch s = (Some rw, s') \<Longrightarrow> api_step d s s'"
| "d_recvFromContext d h len ch s = (Some rx, s') \<Longrightarrow> api_step d s s'"
| "d_pollWaitContext d h ev ch s = (rb, s') \<Longrightarrow> api_step d s s'"
| "api_step d s (d_wakeVLSH d h s)"

text \<open>What a call leaves alone, and the lock it gives back.\<close>

lemma on_thread_step: "on_thread m s = (x, s') \<Longrightarrow> ps_m2 s' = ps_m2 s \<and> ps_active s' = ps_active s \<and>
    ps_hist s' = snd (run_state m (ps_hist s)) \<and> x = fst (run_state m (ps_hist s))"
  by (auto simp: on_thread_def case_prod_beta)

lemma on_mode2_step: "on_mode2 f s = (x, s') \<Longrightarrow> ps_hist s' = ps_hist s \<and> ps_poller s' = ps_poller s
    \<and> ps_active s' = ps_active s"
  by (auto simp: on_mode2_def case_prod_beta)

definition mode3_frame :: "proc_state \<Rightarrow> proc_state \<Rightarrow> bool" where
  "mode3_frame s s' \<longleftrightarrow> ps_m2 s' = ps_m2 s \<and> ps_active s' = ps_active s
     \<and> (lock_of (ps_hist s) = Some Unlocked \<longrightarrow> lock_of (ps_hist s') = Some Unlocked)"

lemma locked_call:
  assumes "on_thread m s = (x, s')" "locks Unlocked m Unlocked"
  shows "mode3_frame s s'"
  using on_thread_step [OF assms(1)] locksD [OF assms(2), of "ps_hist s"] by (simp add: mode3_frame_def)

lemma blocking_call:
  assumes "on_thread m s = (Some x, s')"
    and "\<And>w. lock_of w = Some Unlocked \<Longrightarrow>
      fst (run_state m w) = None \<or> lock_of (snd (run_state m w)) = Some Unlocked"
  shows "mode3_frame s s'"
  using on_thread_step [OF assms(1)] assms(2) [of "ps_hist s"] by (auto simp: mode3_frame_def)

lemma poll_wait_locks: "locks Unlocked (vcall_rv V (GoEvent (PollWait h ev))) Unlocked"
  by (simp add: locks_def)

lemmas mode3_sel = mode3Dispatcher_def [unfolded Let_def]

lemma map_prod_eq_pair: "map_prod f id p = (x, s') \<longleftrightarrow> (\<exists>y. p = (y, s') \<and> x = f y)"
  by (cases p) auto

lemma blocking_frames:
  "on_thread (mode3ReadContext V n h len) s = (Some rd, s') \<Longrightarrow> mode3_frame s s'"
  "on_thread (mode3WriteContext V n h bs) s = (Some wr, s') \<Longrightarrow> mode3_frame s s'"
  "on_thread (mode3SendToContext V n h bs a) s = (Some wr, s') \<Longrightarrow> mode3_frame s s'"
  "on_thread (mode3RecvFromContext V n h len) s = (Some rx, s') \<Longrightarrow> mode3_frame s s'"
  "on_thread (mode3AcceptFullContext V n h) s = (Some rf, s') \<Longrightarrow> mode3_frame s s'"
  "on_thread (mode3Accept V n h) s = (Some ra, s') \<Longrightarrow> mode3_frame s s'"
  by (erule blocking_call, erule blocking_ops_locks)+

lemmas mode3_frames = mode3_ops_locks [THEN locked_call [rotated]] blocking_frames
  poll_wait_locks [THEN locked_call [rotated]]

lemma mode3_step_frame: "api_step (mode3Dispatcher X) s s' \<Longrightarrow> mode3_frame s s'"
proof (induction rule: api_step.induct)
  case (19 h s ru s')
  then have "mode3_frame (s\<lparr>ps_poller := pollUnregister X h (ps_poller s)\<rparr>) s'"
    by (simp add: mode3_sel mode3Close_def) (erule locked_call, rule mode3_ops_locks)
  then show ?case by (simp add: mode3_frame_def)
next
  case (30 s h)
  then show ?case by (simp add: mode3_frame_def mode3_sel)
qed (auto simp: mode3_sel map_prod_eq_pair map_option_case split: option.splits dest: mode3_frames)

text \<open>Mode 2 never runs VLS on a calling thread, and never uses the shared poller.\<close>

definition mode2_frame :: "proc_state \<Rightarrow> proc_state \<Rightarrow> bool" where
  "mode2_frame s s' \<longleftrightarrow> ps_hist s' = ps_hist s \<and> ps_poller s' = ps_poller s \<and> ps_active s' = ps_active s"

lemmas mode2_sel = mode2Dispatcher_def [unfolded Let_def]

lemma on_mode2_frame: "on_mode2 f s = (x, s') \<Longrightarrow> mode2_frame s s'"
  by (simp add: mode2_frame_def on_mode2_step)

lemma mode2_step_frame: "api_step (mode2Dispatcher X) s s' \<Longrightarrow> mode2_frame s s'"
proof (induction rule: api_step.induct)
  case (30 s h)
  have "on_mode2 (wakeVLSH (de_workers X) (de_fate X) h) s
      = (fst (on_mode2 (wakeVLSH (de_workers X) (de_fate X) h) s), d_wakeVLSH (mode2Dispatcher X) h s)"
    by (simp add: mode2_sel)
  then show ?case by (rule on_mode2_frame)
qed (auto simp: mode2_sel map_prod_eq_pair dest: on_mode2_frame)

text \<open>A package call is a call of the selected dispatcher.\<close>

lemma vclpoll_step: "api_step (vclpoll X) s s' \<Longrightarrow> api_step (currentDispatcher X s) s s'"
  by (induction rule: api_step.induct) (auto simp: vclpoll_def Let_def intro: api_step.intros)

text \<open>What holds between the state \<open>s\<close> and any later one, while clients only call the package.\<close>

definition package_frame :: "proc_state \<Rightarrow> proc_state \<Rightarrow> bool" where
  "package_frame s s' \<longleftrightarrow> ps_active s' = ps_active s
     \<and> (if ps_active s = Mode3Selected then mode3_frame s s' else mode2_frame s s')"

lemma package_step: "api_step (vclpoll X) s s' \<Longrightarrow> package_frame s s'"
  using vclpoll_step [of X s s'] mode3_step_frame [of X s s'] mode2_step_frame [of X s s']
  by (cases "ps_active s") (auto simp: package_frame_def currentDispatcher_def mode3_frame_def mode2_frame_def)

lemma package_steps: "(api_step (vclpoll X))\<^sup>*\<^sup>* s s' \<Longrightarrow> package_frame s s'"
proof (induction rule: rtranclp_induct)
  case base
  show ?case by (simp add: package_frame_def mode3_frame_def mode2_frame_def)
next
  case (step s1 s2)
  from package_step [OF step.hyps(2)] step.IH show ?case
    by (auto simp: package_frame_def mode3_frame_def mode2_frame_def split: if_splits)
qed

section \<open>Initialisation\<close>

lemma mode3AppInit_flags:
  assumes "mode3AppInit V nm s = (r, s')"
  shows "ps_active s' = ps_active s" "ps_m2 s' = ps_m2 s" "ps_initOnce s' = ps_initOnce s"
    "ps_initErr s' = ps_initErr s"
  using assms by (auto simp: mode3AppInit_def on_thread_def case_prod_beta split: if_splits sum.splits)

lemma on_mode2_flags:
  assumes "on_mode2 f s = (r, s')"
  shows "ps_initOnce s' = ps_initOnce s" "ps_initErr s' = ps_initErr s"
  using assms by (auto simp: on_mode2_def case_prod_beta)

lemma selectDispatcher_result:
  assumes "selectDispatcher X nm mode n s = (r, s')"
  shows "ps_initOnce s' = ps_initOnce s" "ps_initErr s' = ps_initErr s"
    "r = None \<Longrightarrow> CurrentMode s' = mode" "r \<noteq> None \<Longrightarrow> ps_active s' = ps_active s"
    "mode \<noteq> 2 \<and> mode \<noteq> 3 \<or> mode = 2 \<and> n < 1 \<Longrightarrow> r \<noteq> None \<and> s' = s"
  using assms
  by (auto simp: selectDispatcher_def CurrentMode_def split: if_splits prod.splits option.splits sum.splits
      dest: mode3AppInit_flags on_mode2_flags on_mode2_step)

lemma selectDispatcher_mode2:
  assumes "selectDispatcher X nm 2 n s = (None, s')"
  shows "mode2_appInit (de_workers X) (de_late X) (de_polls X) n nm newMode2Dispatcher = (Inr (), ps_m2 s')"
  using assms by (auto simp: selectDispatcher_def on_mode2_def case_prod_beta prod_eq_iff split: if_splits sum.splits)

text \<open>A concrete environment: VLS of \<open>demo_boot\<close> on every thread, waits as in \<open>demo_env\<close>.\<close>

definition demo_disp :: disp_env where
  "demo_disp = \<lparr>de_thread = demo_boot, de_workers = (\<lambda>_. demo_boot), de_wait = (\<lambda>_. demo_env), de_dial = demo_env,
     de_accept = (\<lambda>_ _ s. (False, s)), de_loops = (\<lambda>_ s. s), de_late = (\<lambda>_. True), de_polls = (\<lambda>_. 2),
     de_unreg = (\<lambda>r p. handleUnregistration demo_boot r p), de_stopped = loop_stop demo_boot, de_fuel = 5\<rparr>"

text \<open>The process is initialised once: whatever options a later call of \<open>AppInitWithOptions\<close> has, it
  returns the first call's error and changes nothing. The selected mode is the one asked for if
  the call succeeded and otherwise stays Mode 3; an unsupported mode, or Mode 2 without workers, is
  refused before VLS is entered.\<close>

theorem init_selects_once:
  assumes "AppInitWithOptions X nm mode n proc_init = (r, s)"
  shows "AppInitWithOptions X' nm' mode' n' s = (r, s)
    \<and> CurrentMode s = (if r = None then mode else 3)
    \<and> (mode \<noteq> 2 \<and> mode \<noteq> 3 \<or> mode = 2 \<and> n < 1 \<longrightarrow> r \<noteq> None \<and> ps_hist s = [] \<and> workers (ps_m2 s) = [])"
proof -
  let ?s0 = "proc_init\<lparr>ps_initOnce := True\<rparr>"
  obtain r1 s1 where sel: "selectDispatcher X nm mode n ?s0 = (r1, s1)" by fastforce
  note res = selectDispatcher_result [OF sel]
  have s: "r = r1" "s = s1\<lparr>ps_initErr := r1\<rparr>" "ps_initOnce s" "ps_initErr s = r1"
    using assms sel res(1,2) by (auto simp: AppInitWithOptions_def proc_init_def split: option.splits)
  have "CurrentMode s = (if r = None then mode else 3)"
    using res(3,4) by (auto simp: s(1,2) CurrentMode_def proc_init_def)
  moreover have "mode \<noteq> 2 \<and> mode \<noteq> 3 \<or> mode = 2 \<and> n < 1 \<Longrightarrow> r \<noteq> None \<and> ps_hist s = [] \<and> workers (ps_m2 s) = []"
    using res(5) by (auto simp: s(1,2) proc_init_def newMode2Dispatcher_def)
  ultimately show ?thesis using s(1,3,4) by (auto simp: AppInitWithOptions_def)
qed

lemma demo_boot_init:
  "AppInitWithOptions demo_disp ''app'' 3 1 proc_init =
     (None, proc_init\<lparr>ps_hist := snd (run_state (mode3AppInit_once demo_boot ''app'') []), ps_appOnce := True,
        ps_appCreated := True, ps_appLive := True, ps_initOnce := True\<rparr>)"
  by (simp add: AppInitWithOptions_def selectDispatcher_def mode3AppInit_def on_thread_def proc_init_def
      mode3AppInit_once_def vclpoll_app_create_def demo_boot_def demo_disp_def)

lemma init_selects_once_witness:
  "fst (AppInitWithOptions demo_disp ''other'' 2 4 (snd (AppInitWithOptions demo_disp ''app'' 3 1 proc_init))) = None"
  using init_selects_once [of demo_disp "''app''" 3 1 None _ demo_disp "''other''" 2 4]
  by (simp add: demo_boot_init)

text \<open>C29. Only the selected dispatcher decides which thread enters VLS. Whatever calls clients make of
  the package, in any order: in Mode 2 no VLS call is made on a calling thread and the shared
  poller is not used; in Mode 3 no worker is, and every call that has returned left \<open>vlsMu\<close> free
  and never called VLS without the lock the call needs.\<close>

theorem only_selected_dispatcher_enters_vls:
  assumes "(api_step (vclpoll X))\<^sup>*\<^sup>* s s'"
  shows "CurrentMode s' = CurrentMode s
    \<and> (CurrentMode s = 2 \<longrightarrow> ps_hist s' = ps_hist s \<and> ps_poller s' = ps_poller s)
    \<and> (CurrentMode s = 3 \<longrightarrow> ps_m2 s' = ps_m2 s
        \<and> (lock_of (ps_hist s) = Some Unlocked \<longrightarrow> lock_of (ps_hist s') = Some Unlocked))"
  using package_steps [OF assms]
  by (cases "ps_active s") (auto simp: package_frame_def mode3_frame_def mode2_frame_def CurrentMode_def)

lemma only_selected_dispatcher_enters_vls_witness:
  "lock_of (ps_hist (snd (d_bindUDP4 (vclpoll demo_disp) (10, 0, 0, 1) 80 proc_init))) = Some Unlocked"
proof -
  let ?r = "d_bindUDP4 (vclpoll demo_disp) (10, 0, 0, 1) 80 proc_init"
  have "(api_step (vclpoll demo_disp))\<^sup>*\<^sup>* proc_init (snd ?r)"
    by (rule r_into_rtranclp, rule api_step.intros(23) [where r = "fst ?r"], simp)
  from only_selected_dispatcher_enters_vls [OF this] show ?thesis
    by (simp add: CurrentMode_def proc_init_def)
qed

section \<open>What the interface promises its clients\<close>

text \<open>The blocking calls wait for readiness themselves: they never answer \<open>EAGAIN\<close>.\<close>

locale blocking_io =
  fixes D :: "'s dispatcher"
  assumes read_again: "d_readContext D h n ch p = (Some (Inl e), p') \<Longrightarrow> \<not> isAgainError e"
    and write_again: "d_writeContext D h bs ch p = (Some (Inl e), p') \<Longrightarrow> \<not> isAgainError e"
    and send_again: "d_sendToContext D h bs a ch p = (Some (Inl e), p') \<Longrightarrow> \<not> isAgainError e"
    and recv_again: "d_recvFromContext D h n ch p = (Some (Inl e), p') \<Longrightarrow> \<not> isAgainError e"

text \<open>The sink of a connection's bytes: a write that answers \<open>n\<close> has put the first \<open>n\<close> bytes into the
  stream, one that fails none, and asking for the peer's address none.\<close>

locale byte_sink =
  fixes D :: "'s dispatcher" and sent :: "handle \<Rightarrow> 's \<Rightarrow> u8 list"
  assumes write_ok: "d_writeContext D h bs ch p = (Some (Inr n), p') \<Longrightarrow> sent h p' = sent h p @ take n bs"
    and write_failed: "d_writeContext D h bs ch p = (Some (Inl e), p') \<Longrightarrow> sent h p' = sent h p"
    and peer_quiet: "sent h (snd (d_getPeerAddr D h' p)) = sent h p"

subsection \<open>No \<open>EAGAIN\<close>\<close>

lemma m3_loop_not_again:
  assumes "on_thread (m \<bind> (\<lambda>_. m3_retry V n att h ev (Some e0))) s = (Some (Inl e), s')" "\<not> isAgainError e0"
  shows "\<not> isAgainError e"
  using assms m3_retry_no_again [of V n att h ev "Some e0" "snd (run_state m (ps_hist s))" e]
  by (auto simp: on_thread_def case_prod_beta)

lemma mode3_not_again:
  "on_thread (mode3ReadContext V n h len) s = (Some (Inl e), s') \<Longrightarrow> \<not> isAgainError e"
  "on_thread (mode3WriteContext V n h bs) s = (Some (Inl e), s') \<Longrightarrow> \<not> isAgainError e"
  "on_thread (mode3SendToContext V n h bs a) s = (Some (Inl e), s') \<Longrightarrow> \<not> isAgainError e"
  "on_thread (mode3RecvFromContext V n h len) s = (Some (Inl e), s') \<Longrightarrow> \<not> isAgainError e"
  unfolding mode3ReadContext_def mode3WriteContext_def mode3SendToContext_def mode3RecvFromContext_def
  by (auto split: if_splits dest!: m3_loop_not_again) (auto simp: on_thread_def)

lemma on_mode2_result: "on_mode2 f s = (x, s') \<longleftrightarrow> (\<exists>d. f (ps_m2 s) = (x, d) \<and> s' = s\<lparr>ps_m2 := d\<rparr>)"
  by (auto simp: on_mode2_def split: prod.split)

lemma m2_retry_not_again:
  "m2_retry V E attempt h events fuel s = (Some (Inl e), s') \<Longrightarrow> \<not> isAgainError e"
proof (induction fuel arbitrary: s)
  case (Suc fuel)
  then show ?case
    by (auto simp: waitInterruptedError_def split: prod.splits sum.splits if_splits option.splits bool.splits)
qed simp

interpretation package: blocking_io "vclpoll X" for X
proof
  fix h n ch p e p' bs a
  show "d_readContext (vclpoll X) h n ch p = (Some (Inl e), p') \<Longrightarrow> \<not> isAgainError e"
    "d_writeContext (vclpoll X) h bs ch p = (Some (Inl e), p') \<Longrightarrow> \<not> isAgainError e"
    "d_sendToContext (vclpoll X) h bs a ch p = (Some (Inl e), p') \<Longrightarrow> \<not> isAgainError e"
    "d_recvFromContext (vclpoll X) h n ch p = (Some (Inl e), p') \<Longrightarrow> \<not> isAgainError e"
    by (auto simp: vclpoll_def currentDispatcher_def mode3_sel mode2_sel on_mode2_result
        mode2_readContext_def mode2_writeContext_def mode2_sendToContext_def mode2_recvFromContext_def
        split: selected.splits dest: mode3_not_again m2_retry_not_again)
qed

subsection \<open>Mode 3 as a byte sink\<close>

text \<open>What VLS took of a session's writes, according to the calling thread's history.\<close>

fun sent_bytes :: "handle \<Rightarrow> world \<Rightarrow> u8 list" where
  "sent_bytes h [] = []"
| "sent_bytes h ((VlsWrite h' bs, r) # w) =
     (if h' = h \<and> 0 \<le> rv r then sent_bytes h w @ take (nat (rv r)) bs else sent_bytes h w)"
| "sent_bytes h (_ # w) = sent_bytes h w"

definition ps_sent :: "handle \<Rightarrow> proc_state \<Rightarrow> u8 list" where
  "ps_sent h s = sent_bytes h (ps_hist s)"

lemma sent_enter [simp]: "sent_bytes h (snd (run_state (enterVLS V) w)) = sent_bytes h w"
  by (simp add: enterVLS_def registerThisThread_def vclpoll_register_worker_def)

lemma sent_exit [simp]: "sent_bytes h (snd (run_state (exitVLS V) w)) = sent_bytes h w"
  by (simp add: exitVLS_def)

lemma sent_write_loop:
  assumes att: "\<And>w. sent_bytes h (snd (run_state att w))
      = (case fst (run_state att w) of Inl e \<Rightarrow> sent_bytes h w | Inr k \<Rightarrow> sent_bytes h w @ take k p)"
    and "fst (run_state (m3_retry V n att h' ev (Some e0)) w) = Some r"
  shows "sent_bytes h (snd (run_state (m3_retry V n att h' ev (Some e0)) w))
    = (case r of Inl e \<Rightarrow> sent_bytes h w | Inr k \<Rightarrow> sent_bytes h w @ take k p)"
  using assms(2)
proof (induction n arbitrary: w)
  case (Suc n)
  let ?w = "(GoEvent LoadAppLive, vls V w (GoEvent LoadAppLive)) # w"
  obtain q w' where a: "run_state att ?w = (q, w')" by fastforce
  show ?case
    using Suc.prems att [of ?w] a by (cases q) (auto simp: Suc.IH split: if_splits sum.splits)
qed simp

lemma sent_write_attempt:
  "sent_bytes h (snd (run_state (do { r \<leftarrow> vclpoll_write V h p; State_Monad.return (rv_result ''write'' r (nat r)) }) w))
    = (case fst (run_state (do { r \<leftarrow> vclpoll_write V h p; State_Monad.return (rv_result ''write'' r (nat r)) }) w) of
         Inl e \<Rightarrow> sent_bytes h w | Inr k \<Rightarrow> sent_bytes h w @ take k p)"
  by (cases "0 \<le> rv (vls V w (VlsWrite h p))") (simp_all add: vclpoll_write_def)

lemma sent_write:
  assumes "fst (run_state (mode3WriteContext V n h p) w) = Some r"
  shows "sent_bytes h (snd (run_state (mode3WriteContext V n h p) w))
    = (case r of Inl e \<Rightarrow> sent_bytes h w | Inr k \<Rightarrow> sent_bytes h w @ take k p)"
  using assms sent_write_loop [OF sent_write_attempt, where h' = h and w = "snd (run_state (enterVLS V) w)"]
  by (cases r) (auto simp: mode3WriteContext_def split: if_splits)

interpretation mode3_sink: byte_sink "mode3Dispatcher X" ps_sent for X
proof
  fix h bs ch p n p' e h'
  show "d_writeContext (mode3Dispatcher X) h bs ch p = (Some (Inr n), p') \<Longrightarrow> ps_sent h p' = ps_sent h p @ take n bs"
    by (auto simp: mode3_sel on_thread_def case_prod_beta ps_sent_def sent_write)
  show "d_writeContext (mode3Dispatcher X) h bs ch p = (Some (Inl e), p') \<Longrightarrow> ps_sent h p' = ps_sent h p"
    by (auto simp: mode3_sel on_thread_def case_prod_beta ps_sent_def sent_write)
  show "ps_sent h (snd (d_getPeerAddr (mode3Dispatcher X) h' p)) = ps_sent h p"
    by (simp add: mode3_sel on_thread_def case_prod_beta mode3GetPeerAddr_def pin_def vclpoll_get_peer_addr_def ps_sent_def)
qed

end
