(* ===== verification/NetErrors.thy ===== *)
theory NetErrors
  imports PollErrors
begin

text \<open>
  The errors of the net-compatible layer (\<open>errors.go\<close>, the sentinels of the other files,
  \<open>timeoutError\<close>), the addresses they carry, and Go's error protocol on them: \<open>errors.Is\<close>,
  \<open>errors.As\<close> for \<open>net.Error\<close>, and the \<open>Timeout\<close> method of \<open>net.OpError\<close>, which asks the error it
  wraps directly and does not unwrap further.
\<close>

section \<open>Addresses\<close>

text \<open>\<open>net.IP\<close> is a byte slice (of length 4 or 16 when valid); \<open>net.TCPAddr\<close> and \<open>net.UDPAddr\<close> have
  the same fields, the port being an \<open>int\<close>.\<close>

record inetAddr =
  ia_IP :: "u8 list"
  ia_Port :: int

datatype net_addr =
    TCPAddr inetAddr
  | UDPAddr inetAddr
  | UnresolvedAddr string string
  | ForeignAddr string string

fun Network :: "net_addr \<Rightarrow> string" where
  "Network (TCPAddr a) = ''tcp''"
| "Network (UDPAddr a) = ''udp''"
| "Network (UnresolvedAddr network address) = network"
| "Network (ForeignAddr network address) = network"

section \<open>Errors\<close>

text \<open>\<open>PollError\<close> is an error of \<open>vclpoll\<close> passed on; \<open>DNSError\<close> carries its \<open>IsTimeout\<close> field. A \<open>net.AddrError\<close> has its
  \<open>Addr\<close> as text, or, with \<open>AddrErrorOf\<close>, as the \<open>String()\<close> of an address.\<close>

datatype net_error =
    ErrClosed
  | StdErrClosed
  | EOF
  | TimeoutError
  | ErrUnexpectedZeroWrite
  | ErrWriteToConnected
  | ErrMissingPeer
  | ErrUnknownPeer
  | ErrTLSMissingCert
  | ErrTLSPartialCert
  | CtxCanceled
  | CtxDeadlineExceeded
  | AddrError string string
  | AddrErrorOf string net_addr
  | DNSError string string bool
  | UnknownNetworkError string
  | NetErrorf string
  | PollError vclpoll_error
  | OpError string string "net_addr option" net_error

definition opError :: "string \<Rightarrow> string \<Rightarrow> string \<Rightarrow> net_error \<Rightarrow> net_error" where
  "opError op network addr err =
     OpError op network (if addr \<noteq> [] then Some (UnresolvedAddr network addr) else None) err"

definition opErrorAddr :: "string \<Rightarrow> net_addr option \<Rightarrow> net_error \<Rightarrow> net_error" where
  "opErrorAddr op addr err = OpError op (case addr of None \<Rightarrow> [] | Some a \<Rightarrow> Network a) addr err"

section \<open>The error protocol\<close>

fun net_Is :: "net_error \<Rightarrow> net_error \<Rightarrow> bool" where
  "net_Is (OpError op n a e) t = (OpError op n a e = t \<or> net_Is e t)"
| "net_Is (PollError e) (PollError t) = errors_Is e t"
| "net_Is e t = (e = t)"

text \<open>What \<open>Timeout()\<close> answers, for the errors of \<open>vclpoll\<close> that have the method.\<close>

fun poll_timeout :: "vclpoll_error \<Rightarrow> bool option" where
  "poll_timeout (VCLError op n) = Some (VCLError_Timeout (VCLError op n))"
| "poll_timeout (Errno n) = Some (n = EAGAIN \<or> n = EWOULDBLOCK \<or> n = ETIMEDOUT)"
| "poll_timeout _ = None"

fun timeout_method :: "net_error \<Rightarrow> bool option" where
  "timeout_method TimeoutError = Some True"
| "timeout_method CtxDeadlineExceeded = Some True"
| "timeout_method (AddrError e a) = Some False"
| "timeout_method (AddrErrorOf e a) = Some False"
| "timeout_method (DNSError e n t) = Some t"
| "timeout_method (UnknownNetworkError n) = Some False"
| "timeout_method (PollError e) = poll_timeout e"
| "timeout_method (OpError op n a e) = Some (timeout_method e = Some True)"
| "timeout_method _ = None"

text \<open>\<open>errors.As(err, &netErr)\<close>: the first error of the chain that is a \<open>net.Error\<close>; its \<open>Timeout()\<close>.\<close>

fun poll_As :: "vclpoll_error \<Rightarrow> bool option" and polls_As :: "vclpoll_error list \<Rightarrow> bool option" where
  "poll_As (VCLError op n) = poll_timeout (VCLError op n)"
| "poll_As (Errno n) = poll_timeout (Errno n)"
| "poll_As (Wrapped m e) = poll_As e"
| "poll_As (JoinedErr es) = polls_As es"
| "poll_As _ = None"
| "polls_As [] = None"
| "polls_As (e # es) = (case poll_As e of None \<Rightarrow> polls_As es | Some b \<Rightarrow> Some b)"

fun net_As :: "net_error \<Rightarrow> bool option" where
  "net_As (PollError e) = poll_As e"
| "net_As e = timeout_method e"

definition IsTimeout :: "net_error \<Rightarrow> bool" where
  "IsTimeout err = (case net_As err of Some b \<Rightarrow> b | None \<Rightarrow> net_Is err (PollError (Errno ETIMEDOUT)))"

definition IsConnectionRefused :: "net_error \<Rightarrow> bool" where
  "IsConnectionRefused err = net_Is err (PollError (Errno ECONNREFUSED))"

definition IsConnectionReset :: "net_error \<Rightarrow> bool" where
  "IsConnectionReset err = net_Is err (PollError (Errno ECONNRESET))"

section \<open>Mapping the errors of vclpoll\<close>

text \<open>\<open>mapIOError\<close>: whether to retry, and the error otherwise. \<open>None\<close> as argument is no error.\<close>

definition mapIOError :: "vclpoll_error option \<Rightarrow> bool \<times> net_error option" where
  "mapIOError err = (case err of
       None \<Rightarrow> (False, None)
     | Some e \<Rightarrow> if errors_Is e ErrWaitCanceled then (True, None)
                 else if errors_Is e PollErrClosed then (False, Some ErrClosed)
                 else (False, Some (PollError e)))"

lemma mapIOError_None [simp]: "mapIOError None = (False, None)"
  by (simp add: mapIOError_def)

lemma mapIOError_cases:
  obtains (ok) "err = None" "mapIOError err = (False, None)"
  | (retry) "mapIOError err = (True, None)"
  | (failed) e where "mapIOError err = (False, Some e)"
  by (cases err; cases "errors_Is (the err) ErrWaitCanceled"; cases "errors_Is (the err) PollErrClosed")
    (auto simp: mapIOError_def)

text \<open>A wrapped error is what it wraps.\<close>

lemma net_Is_opErrorAddr [simp]: "net_Is (opErrorAddr op addr e) t \<longleftrightarrow> opErrorAddr op addr e = t \<or> net_Is e t"
  by (simp add: opErrorAddr_def)

lemma IsTimeout_opErrorAddr [simp]: "IsTimeout (opErrorAddr op addr e) \<longleftrightarrow> timeout_method e = Some True"
  by (simp add: IsTimeout_def opErrorAddr_def)

lemma IsTimeout_opError [simp]: "IsTimeout (opError op n addr e) \<longleftrightarrow> timeout_method e = Some True"
  by (simp add: IsTimeout_def opError_def)

lemma net_Is_refl: "net_Is e e"
  by (cases e) (auto simp: errors_Is_refl)

end
