(* ===== verification/NetAddr.thy ===== *)
theory NetAddr
  imports NetErrors Codec "HOL-Library.Multiset"
begin

text \<open>
  Addresses of the net-compatible layer: \<open>addr.go\<close> (networks, literals, resolution) and
  \<open>interleaveAddrs\<close> of \<open>dialer.go\<close>. The resolver (\<open>net.SplitHostPort\<close>, \<open>net.ParseIP\<close> and
  \<open>net.DefaultResolver\<close>, which asks DNS) is a parameter; what the code relies on is that
  \<open>ParseIP\<close> answers the 16-byte form.
\<close>

section \<open>net.IP\<close>

definition To4 :: "u8 list \<Rightarrow> u8 list option" where
  "To4 ip = (if length ip = 4 then Some ip
     else if length ip = 16 \<and> take 10 ip = replicate 10 0 \<and> ip ! 10 = 0xff \<and> ip ! 11 = 0xff then Some (drop 12 ip)
     else None)"

definition To16 :: "u8 list \<Rightarrow> u8 list option" where
  "To16 ip = (if length ip = 4 then Some (replicate 10 0 @ [0xff, 0xff] @ ip)
     else if length ip = 16 then Some ip else None)"

definition IPv4zero :: "u8 list" where
  "IPv4zero = replicate 10 0 @ [0xff, 0xff] @ replicate 4 0"

definition IPv6zero :: "u8 list" where
  "IPv6zero = replicate 16 0"

lemma To4_length: "To4 ip = Some ip4 \<Longrightarrow> length ip4 = 4"
  by (auto simp: To4_def split: if_splits)

lemma To4_To4: "To4 ip = Some ip4 \<Longrightarrow> To4 ip4 = Some ip4"
  by (auto simp: To4_def split: if_splits)

lemma To4_To16: "length ip = 4 \<Longrightarrow> To16 ip \<noteq> None \<and> To4 (the (To16 ip)) = Some ip"
  by (auto simp: To4_def To16_def nth_append)

text \<open>The array \<open>[4]byte\<close> after \<open>copy(ip4[:], addr.IP.To4())\<close>.\<close>

definition array4 :: "u8 list \<Rightarrow> ip4" where
  "array4 ip = (let a = copy_into 4 ip in (a ! 0, a ! 1, a ! 2, a ! 3))"

section \<open>From vclpoll\<close>

definition ipPortFromInfo :: "AddrInfo \<Rightarrow> u8 list \<times> int" where
  "ipPortFromInfo info =
     (if ai_IsV4 info then (take 4 (ai_IP info), uint (ai_Port info))
      else (take 16 (ai_IP info), uint (ai_Port info)))"

definition addrFromInfo :: "AddrInfo \<Rightarrow> inetAddr" where
  "addrFromInfo info = (let (ip, port) = ipPortFromInfo info in \<lparr>ia_IP = ip, ia_Port = port\<rparr>)"

definition udpAddrFromInfo :: "AddrInfo \<Rightarrow> inetAddr" where
  "udpAddrFromInfo info = (let (ip, port) = ipPortFromInfo info in \<lparr>ia_IP = ip, ia_Port = port\<rparr>)"

section \<open>Networks\<close>

definition parseNetwork :: "string \<Rightarrow> net_error + bool \<times> bool" where
  "parseNetwork network =
     (if network \<in> {''tcp'', ''tcp4'', ''tcp6'', ''udp'', ''udp4'', ''udp6''} then
        Inr (network = ''tcp4'' \<or> network = ''udp4'', network = ''tcp6'' \<or> network = ''udp6'')
      else Inl (UnknownNetworkError network))"

definition isUDP :: "string \<Rightarrow> bool" where
  "isUDP network \<longleftrightarrow> network = ''udp'' \<or> network = ''udp4'' \<or> network = ''udp6''"

definition networkBase :: "string \<Rightarrow> string" where
  "networkBase network = (if isUDP network then ''udp'' else ''tcp'')"

section \<open>Resolving\<close>

record resolver =
  SplitHostPort :: "string \<Rightarrow> net_error + string \<times> string"
  ParseIP :: "string \<Rightarrow> u8 list option"
  LookupPort :: "string \<Rightarrow> string \<Rightarrow> net_error + int"
  LookupHost :: "string \<Rightarrow> net_error + string list"

definition literalAddr :: "resolver \<Rightarrow> string \<Rightarrow> int \<Rightarrow> string \<Rightarrow> net_error + inetAddr" where
  "literalAddr R host port network =
     (if host = [] then
        (if network = ''tcp6'' \<or> network = ''udp6'' then Inr \<lparr>ia_IP = IPv6zero, ia_Port = port\<rparr>
         else Inr \<lparr>ia_IP = IPv4zero, ia_Port = port\<rparr>)
      else
        (case ParseIP R host of
           None \<Rightarrow> Inl (DNSError ''no such host'' host False)
         | Some ip \<Rightarrow>
             (case To4 ip of
                Some ip4 \<Rightarrow>
                  if network = ''tcp6'' \<or> network = ''udp6'' then Inl (AddrError ''IPv4 address not allowed'' host)
                  else Inr \<lparr>ia_IP = ip4, ia_Port = port\<rparr>
              | None \<Rightarrow>
                  if network = ''tcp4'' \<or> network = ''udp4'' then Inl (AddrError ''IPv6 address not allowed'' host)
                  else Inr \<lparr>ia_IP = ip, ia_Port = port\<rparr>)))"

text \<open>The loop of \<open>resolveAddrContext\<close> over the host's addresses.\<close>

fun pickAddr :: "resolver \<Rightarrow> bool \<Rightarrow> bool \<Rightarrow> int \<Rightarrow> string \<Rightarrow> u8 list option \<Rightarrow> string list \<Rightarrow> net_error + inetAddr" where
  "pickAddr R ipv4Only ipv6Only port host firstV6 [] =
     (case firstV6 of Some ip \<Rightarrow> Inr \<lparr>ia_IP = ip, ia_Port = port\<rparr>
      | None \<Rightarrow> Inl (DNSError ''no suitable address found'' host False))"
| "pickAddr R ipv4Only ipv6Only port host firstV6 (value # rest) =
     (case ParseIP R value of
        None \<Rightarrow> pickAddr R ipv4Only ipv6Only port host firstV6 rest
      | Some ip \<Rightarrow>
          (case To4 ip of
             Some ip4 \<Rightarrow>
               if \<not> ipv6Only then Inr \<lparr>ia_IP = ip4, ia_Port = port\<rparr>
               else pickAddr R ipv4Only ipv6Only port host firstV6 rest
           | None \<Rightarrow>
               pickAddr R ipv4Only ipv6Only port host
                 (if \<not> ipv4Only \<and> firstV6 = None then Some ip else firstV6) rest))"

definition resolveAddrContext :: "resolver \<Rightarrow> string \<Rightarrow> string \<Rightarrow> net_error + inetAddr" where
  "resolveAddrContext R network address =
     (case SplitHostPort R address of
        Inl e \<Rightarrow> Inl e
      | Inr (host, portStr) \<Rightarrow>
          (case LookupPort R (networkBase network) portStr of
             Inl e \<Rightarrow> Inl e
           | Inr port \<Rightarrow>
               if host = [] then literalAddr R [] port network
               else if ParseIP R host \<noteq> None then literalAddr R host port network
               else
                 (case LookupHost R host of
                    Inl e \<Rightarrow> Inl e
                  | Inr hostAddrs \<Rightarrow>
                      pickAddr R (network = ''tcp4'' \<or> network = ''udp4'') (network = ''tcp6'' \<or> network = ''udp6'')
                        port host None hostAddrs)))"

definition resolveAddr :: "resolver \<Rightarrow> string \<Rightarrow> string \<Rightarrow> net_error + inetAddr" where
  "resolveAddr R network address = resolveAddrContext R network address"

definition resolveUDPAddr :: "resolver \<Rightarrow> string \<Rightarrow> string \<Rightarrow> net_error + inetAddr" where
  "resolveUDPAddr R network address =
     (case resolveAddrContext R network address of
        Inl e \<Rightarrow> Inl e
      | Inr tcpAddr \<Rightarrow> Inr \<lparr>ia_IP = ia_IP tcpAddr, ia_Port = ia_Port tcpAddr\<rparr>)"

text \<open>The loop of \<open>resolveAddrs\<close>, the accumulator being \<open>results\<close>.\<close>

fun collectAddrs :: "resolver \<Rightarrow> bool \<Rightarrow> bool \<Rightarrow> int \<Rightarrow> inetAddr list \<Rightarrow> string list \<Rightarrow> inetAddr list" where
  "collectAddrs R ipv4Only ipv6Only port results [] = results"
| "collectAddrs R ipv4Only ipv6Only port results (value # rest) =
     (case ParseIP R value of
        None \<Rightarrow> collectAddrs R ipv4Only ipv6Only port results rest
      | Some ip \<Rightarrow>
          (case To4 ip of
             Some ip4 \<Rightarrow>
               collectAddrs R ipv4Only ipv6Only port
                 (if \<not> ipv6Only then results @ [\<lparr>ia_IP = ip4, ia_Port = port\<rparr>] else results) rest
           | None \<Rightarrow>
               collectAddrs R ipv4Only ipv6Only port
                 (if \<not> ipv4Only then results @ [\<lparr>ia_IP = ip, ia_Port = port\<rparr>] else results) rest))"

definition resolveAddrs :: "resolver \<Rightarrow> string \<Rightarrow> string \<Rightarrow> net_error + inetAddr list" where
  "resolveAddrs R network address =
     (case SplitHostPort R address of
        Inl e \<Rightarrow> Inl e
      | Inr (host, portStr) \<Rightarrow>
          (case LookupPort R ''tcp'' portStr of
             Inl e \<Rightarrow> Inl e
           | Inr port \<Rightarrow>
               if host = [] \<or> ParseIP R host \<noteq> None then map_sum id (\<lambda>a. [a]) (literalAddr R host port network)
               else
                 (case LookupHost R host of
                    Inl e \<Rightarrow> Inl e
                  | Inr hostAddrs \<Rightarrow>
                      (let results = collectAddrs R (network = ''tcp4'') (network = ''tcp6'') port [] hostAddrs
                       in if length results = 0 then Inl (DNSError ''no suitable address found'' host False)
                          else Inr results))))"

section \<open>Interleaving the families\<close>

text \<open>The loop of \<open>interleaveAddrs\<close>; \<open>i\<close> and \<open>j\<close> index \<open>v6\<close> and \<open>v4\<close>.\<close>

function interleave_loop :: "'a list \<Rightarrow> 'a list \<Rightarrow> nat \<Rightarrow> nat \<Rightarrow> bool \<Rightarrow> 'a list \<Rightarrow> 'a list" where
  "interleave_loop v6 v4 i j preferV6 result =
     (if i < length v6 \<or> j < length v4 then
        (if preferV6 \<and> i < length v6 then interleave_loop v6 v4 (Suc i) j (\<not> preferV6) (result @ [v6 ! i])
         else if j < length v4 then interleave_loop v6 v4 i (Suc j) (\<not> preferV6) (result @ [v4 ! j])
         else if i < length v6 then interleave_loop v6 v4 (Suc i) j (\<not> preferV6) (result @ [v6 ! i])
         else interleave_loop v6 v4 i j (\<not> preferV6) result)
      else result)"
  by pat_completeness auto
termination
  by (relation "measure (\<lambda>(v6, v4, i, j, p, r). (length v6 - i) + (length v4 - j))") auto

declare interleave_loop.simps [simp del]

definition interleaveAddrs :: "inetAddr list \<Rightarrow> inetAddr list" where
  "interleaveAddrs addrs =
     (let v4 = filter (\<lambda>a. To4 (ia_IP a) \<noteq> None) addrs;
          v6 = filter (\<lambda>a. To4 (ia_IP a) = None) addrs
      in interleave_loop v6 v4 0 0 True [])"

section \<open>Interleaving: proofs\<close>

text \<open>The reference: one of each family in turn, and the rest of the longer one.\<close>

fun alternate :: "bool \<Rightarrow> 'a list \<Rightarrow> 'a list \<Rightarrow> 'a list" where
  "alternate True (x # v6) v4 = x # alternate False v6 v4"
| "alternate False v6 (y # v4) = y # alternate True v6 v4"
| "alternate True [] v4 = v4"
| "alternate False v6 [] = v6"

lemma alternate_Nil [simp]: "alternate p [] v4 = v4" "alternate p v6 [] = v6"
proof -
  show "alternate p [] v4 = v4" by (cases p; cases v4) auto
  show "alternate p v6 [] = v6" by (cases p; cases v6) auto
qed

lemma alternate_True: "alternate True (x # v6) v4 = x # alternate False v6 v4"
  by simp

lemma interleave_loop_alternate:
  "interleave_loop v6 v4 i j p r = r @ alternate p (drop i v6) (drop j v4)"
proof (induction v6 v4 i j p r rule: interleave_loop.induct)
  case (1 v6 v4 i j p r)
  have d6: "drop i v6 = v6 ! i # drop (Suc i) v6" if "i < length v6" using that by (rule Cons_nth_drop_Suc [symmetric])
  have d4: "drop j v4 = v4 ! j # drop (Suc j) v4" if "j < length v4" using that by (rule Cons_nth_drop_Suc [symmetric])
  show ?case
    using 1 d6 d4 by (subst interleave_loop.simps) (cases p; cases "i < length v6"; cases "j < length v4"; simp)
qed

lemma mset_alternate: "mset (alternate p v6 v4) = mset v6 + mset v4"
  by (induction p v6 v4 rule: alternate.induct) auto

lemma filter_alternate:
  assumes "\<forall>x \<in> set v6. \<not> P x" "\<forall>y \<in> set v4. P y"
  shows "filter P (alternate p v6 v4) = v4" "filter (\<lambda>x. \<not> P x) (alternate p v6 v4) = v6"
  using assms by (induction p v6 v4 rule: alternate.induct) (auto simp: filter_id_conv filter_empty_conv)

text \<open>C39. \<open>interleaveAddrs\<close> is the alternation RFC 8305 asks for: IPv6 first, the families in turn while
  both last, each family in the resolver's order, and every address kept exactly once.\<close>

theorem interleave_alternates:
  "interleaveAddrs addrs = alternate True (filter (\<lambda>a. To4 (ia_IP a) = None) addrs) (filter (\<lambda>a. To4 (ia_IP a) \<noteq> None) addrs)
    \<and> mset (interleaveAddrs addrs) = mset addrs
    \<and> filter (\<lambda>a. To4 (ia_IP a) \<noteq> None) (interleaveAddrs addrs) = filter (\<lambda>a. To4 (ia_IP a) \<noteq> None) addrs
    \<and> filter (\<lambda>a. To4 (ia_IP a) = None) (interleaveAddrs addrs) = filter (\<lambda>a. To4 (ia_IP a) = None) addrs"
proof -
  let ?P = "\<lambda>a. To4 (ia_IP a) \<noteq> None"
  have e: "interleaveAddrs addrs = alternate True (filter (\<lambda>a. \<not> ?P a) addrs) (filter ?P addrs)"
    by (simp add: interleaveAddrs_def interleave_loop_alternate)
  have "mset (interleaveAddrs addrs) = mset addrs"
    unfolding e mset_alternate mset_filter by (metis add.commute multiset_partition)
  moreover have "filter ?P (interleaveAddrs addrs) = filter ?P addrs"
    unfolding e by (rule filter_alternate) auto
  moreover have "filter (\<lambda>a. \<not> ?P a) (interleaveAddrs addrs) = filter (\<lambda>a. \<not> ?P a) addrs"
    unfolding e by (rule filter_alternate) auto
  ultimately show ?thesis using e by simp
qed

section \<open>Resolution: proofs\<close>

text \<open>\<open>net.ParseIP\<close> answers the 16-byte form.\<close>

definition parses16 :: "resolver \<Rightarrow> bool" where
  "parses16 R \<longleftrightarrow> (\<forall>s ip. ParseIP R s = Some ip \<longrightarrow> length ip = 16)"

text \<open>An address of the family a network allows, in a form the bind and connect calls copy whole.\<close>

definition fits :: "bool \<Rightarrow> bool \<Rightarrow> inetAddr \<Rightarrow> bool" where
  "fits ipv4Only ipv6Only a \<longleftrightarrow> To16 (ia_IP a) \<noteq> None
     \<and> (ipv4Only \<longrightarrow> To4 (ia_IP a) \<noteq> None) \<and> (ipv6Only \<longrightarrow> To4 (ia_IP a) = None)"

lemma fits_v4: "To4 ip = Some ip4 \<Longrightarrow> \<not> b6 \<Longrightarrow> fits b4 b6 \<lparr>ia_IP = ip4, ia_Port = p\<rparr>"
  using To4_length [of ip ip4] To4_To4 [of ip ip4] by (simp add: fits_def To16_def)

lemma fits_v6: "To4 ip = None \<Longrightarrow> length ip = 16 \<Longrightarrow> \<not> b4 \<Longrightarrow> fits b4 b6 \<lparr>ia_IP = ip, ia_Port = p\<rparr>"
  by (simp add: fits_def To16_def)

lemma zero_families: "To4 IPv6zero = None" "To4 IPv4zero = Some [0, 0, 0, 0]" "length IPv4zero = 16" "length IPv6zero = 16"
  by code_simp+

lemma literalAddr_fits:
  assumes "parses16 R" "literalAddr R host port network = Inr a"
  shows "fits (network = ''tcp4'' \<or> network = ''udp4'') (network = ''tcp6'' \<or> network = ''udp6'') a \<and> ia_Port a = port"
  using assms zero_families
  by (auto simp: literalAddr_def parses16_def fits_def To16_def split: if_splits option.splits
      dest: To4_length To4_To4)

lemma parses16D: "parses16 R \<Longrightarrow> ParseIP R s = Some ip \<Longrightarrow> length ip = 16"
  by (simp add: parses16_def)

text \<open>What one of the host's addresses contributes.\<close>

definition candidate :: "resolver \<Rightarrow> bool \<Rightarrow> bool \<Rightarrow> int \<Rightarrow> string \<Rightarrow> inetAddr option" where
  "candidate R b4 b6 port v =
     (case ParseIP R v of None \<Rightarrow> None
      | Some ip \<Rightarrow> (case To4 ip of Some ip4 \<Rightarrow> if b6 then None else Some \<lparr>ia_IP = ip4, ia_Port = port\<rparr>
                    | None \<Rightarrow> if b4 then None else Some \<lparr>ia_IP = ip, ia_Port = port\<rparr>))"

lemma candidate_fits: "parses16 R \<Longrightarrow> candidate R b4 b6 port v = Some a \<Longrightarrow> fits b4 b6 a \<and> ia_Port a = port"
  by (auto simp: candidate_def split: option.splits if_splits intro: fits_v4 fits_v6 dest: parses16D)

lemma collectAddrs_candidates:
  "collectAddrs R b4 b6 port results values = results @ List.map_filter (candidate R b4 b6 port) values"
proof (induction R b4 b6 port results "values" rule: collectAddrs.induct)
  case (2 R b4 b6 port results v rest)
  then show ?case by (cases "ParseIP R v") (auto simp: candidate_def List.map_filter_def split: option.splits)
qed (simp add: List.map_filter_def)

text \<open>The first IPv4 candidate, else the first IPv6 one.\<close>

definition prefer_v4 :: "inetAddr list \<Rightarrow> inetAddr option" where
  "prefer_v4 cs = (case filter (\<lambda>a. To4 (ia_IP a) \<noteq> None) cs of a # _ \<Rightarrow> Some a
     | [] \<Rightarrow> (case cs of a # _ \<Rightarrow> Some a | [] \<Rightarrow> None))"

lemma pickAddr_prefers:
  assumes "\<And>ip. first = Some ip \<Longrightarrow> To4 ip = None"
  shows "pickAddr R b4 b6 port host first values =
    (case prefer_v4 ((case first of None \<Rightarrow> [] | Some ip \<Rightarrow> [\<lparr>ia_IP = ip, ia_Port = port\<rparr>])
                     @ List.map_filter (candidate R b4 b6 port) values) of
       Some a \<Rightarrow> Inr a
     | None \<Rightarrow> Inl (DNSError ''no suitable address found'' host False))"
  using assms
proof (induction R b4 b6 port host first "values" rule: pickAddr.induct)
  case (1 R b4 b6 port host first)
  then show ?case by (cases first) (auto simp: prefer_v4_def List.map_filter_def)
next
  case (2 R b4 b6 port host first v rest)
  show ?case
  proof (cases "ParseIP R v")
    case None
    with 2 show ?thesis by (simp add: candidate_def List.map_filter_def)
  next
    case (Some ip)
    show ?thesis
    proof (cases "To4 ip")
      case None
      with Some 2 show ?thesis
        by (cases first; cases b4) (auto simp: candidate_def List.map_filter_def prefer_v4_def split: list.splits)
    next
      case (Some ip4)
      with \<open>ParseIP R v = Some ip\<close> 2 To4_To4 [OF Some] show ?thesis
        by (cases first; cases b6) (auto simp: candidate_def List.map_filter_def prefer_v4_def split: list.splits)
    qed
  qed
qed

lemma prefer_v4_member: "prefer_v4 cs = Some a \<Longrightarrow> a \<in> set cs"
proof -
  assume a: "prefer_v4 cs = Some a"
  show ?thesis
  proof (cases "filter (\<lambda>a. To4 (ia_IP a) \<noteq> None) cs")
    case Nil
    with a show ?thesis by (cases cs) (auto simp: prefer_v4_def)
  next
    case (Cons x xs)
    then have "x \<in> set cs" by (auto simp: filter_eq_Cons_iff)
    with a Cons show ?thesis by (simp add: prefer_v4_def)
  qed
qed

lemma pickAddr_None: "pickAddr R b4 b6 port host None values =
    (case prefer_v4 (List.map_filter (candidate R b4 b6 port) values) of
       Some a \<Rightarrow> Inr a | None \<Rightarrow> Inl (DNSError ''no suitable address found'' host False))"
  using pickAddr_prefers [of None R b4 b6 port host "values"] by simp

lemma map_filter_fits:
  "parses16 R \<Longrightarrow> a \<in> set (List.map_filter (candidate R b4 b6 port) vs) \<Longrightarrow> fits b4 b6 a \<and> ia_Port a = port"
  by (auto simp: List.map_filter_def dest: candidate_fits)

text \<open>C40. Resolution respects the network. \<open>resolveAddrContext\<close> answers an address of the family the
  network names, with the port the resolver has for that network's base (\<open>tcp\<close> or \<open>udp\<close>), in a form that is copied
  whole into the arrays handed to VLS; among the host's addresses it takes the first IPv4 one of that family, else the first
  IPv6 one. \<open>resolveAddrs\<close>, which always looks the port up for \<open>tcp\<close>, answers the candidates of the family in the
  resolver's order, and at least one, so that \<open>dialTCP\<close> may index the list.\<close>

theorem resolution_respects_network:
  assumes "parses16 R" and "SplitHostPort R address = Inr (host, portStr)"
  shows "(\<forall>a. resolveAddrContext R network address = Inr a \<longrightarrow>
        fits (network = ''tcp4'' \<or> network = ''udp4'') (network = ''tcp6'' \<or> network = ''udp6'') a
        \<and> LookupPort R (networkBase network) portStr = Inr (ia_Port a))
    \<and> (\<forall>as. resolveAddrs R network address = Inr as \<longrightarrow>
        as \<noteq> [] \<and> (\<forall>a \<in> set as. fits (network = ''tcp4'') (network = ''tcp6'') a \<and> LookupPort R ''tcp'' portStr = Inr (ia_Port a)))
    \<and> (\<forall>vs port. host \<noteq> [] \<and> ParseIP R host = None \<and> LookupHost R host = Inr vs
          \<and> LookupPort R (networkBase network) portStr = Inr port \<longrightarrow>
        resolveAddrContext R network address =
          (case prefer_v4 (List.map_filter (candidate R (network = ''tcp4'' \<or> network = ''udp4'') (network = ''tcp6'' \<or> network = ''udp6'') port) vs) of
             Some a \<Rightarrow> Inr a | None \<Rightarrow> Inl (DNSError ''no suitable address found'' host False)))
    \<and> (\<forall>vs port. host \<noteq> [] \<and> ParseIP R host = None \<and> LookupHost R host = Inr vs \<and> LookupPort R ''tcp'' portStr = Inr port \<longrightarrow>
        resolveAddrs R network address =
          (case List.map_filter (candidate R (network = ''tcp4'') (network = ''tcp6'') port) vs of
             [] \<Rightarrow> Inl (DNSError ''no suitable address found'' host False) | as \<Rightarrow> Inr as))"
proof (intro conjI allI impI)
  fix a assume "resolveAddrContext R network address = Inr a"
  then show "fits (network = ''tcp4'' \<or> network = ''udp4'') (network = ''tcp6'' \<or> network = ''udp6'') a"
    "LookupPort R (networkBase network) portStr = Inr (ia_Port a)"
    using assms
    by (auto simp: resolveAddrContext_def pickAddr_None split: if_splits sum.splits option.splits
        dest: literalAddr_fits map_filter_fits prefer_v4_member)
next
  fix as assume as: "resolveAddrs R network address = Inr as"
  then obtain port where port: "LookupPort R ''tcp'' portStr = Inr port"
    using assms(2) by (auto simp: resolveAddrs_def split: sum.splits)
  have "as \<noteq> [] \<and> (\<forall>a \<in> set as. fits (network = ''tcp4'') (network = ''tcp6'') a \<and> ia_Port a = port)"
  proof (cases "host = [] \<or> ParseIP R host \<noteq> None")
    case True
    then obtain a where "literalAddr R host port network = Inr a" "as = [a]"
      using as assms port by (auto simp: resolveAddrs_def map_sum_def split: sum.splits)
    with literalAddr_fits [OF assms(1) this(1)] show ?thesis by (auto simp: fits_def)
  next
    case False
    then show ?thesis
      using as assms port map_filter_fits [OF assms(1), of _ "network = ''tcp4''" "network = ''tcp6''" port]
      by (auto simp: resolveAddrs_def collectAddrs_candidates Let_def split: sum.splits if_splits)
  qed
  then show "as \<noteq> []"
    "\<forall>a \<in> set as. fits (network = ''tcp4'') (network = ''tcp6'') a \<and> LookupPort R ''tcp'' portStr = Inr (ia_Port a)"
    using port by auto
next
  fix vs port assume "host \<noteq> [] \<and> ParseIP R host = None \<and> LookupHost R host = Inr vs
      \<and> LookupPort R (networkBase network) portStr = Inr port"
  then show "resolveAddrContext R network address =
      (case prefer_v4 (List.map_filter (candidate R (network = ''tcp4'' \<or> network = ''udp4'') (network = ''tcp6'' \<or> network = ''udp6'') port) vs) of
         Some a \<Rightarrow> Inr a | None \<Rightarrow> Inl (DNSError ''no suitable address found'' host False))"
    using assms by (simp add: resolveAddrContext_def pickAddr_None)
next
  fix vs port assume "host \<noteq> [] \<and> ParseIP R host = None \<and> LookupHost R host = Inr vs \<and> LookupPort R ''tcp'' portStr = Inr port"
  then show "resolveAddrs R network address =
      (case List.map_filter (candidate R (network = ''tcp4'') (network = ''tcp6'') port) vs of
         [] \<Rightarrow> Inl (DNSError ''no suitable address found'' host False) | as \<Rightarrow> Inr as)"
    using assms by (simp add: resolveAddrs_def collectAddrs_candidates split: list.split)
qed

text \<open>A host with one address of each family.\<close>

definition demo_resolver :: resolver where
  "demo_resolver = \<lparr>SplitHostPort = (\<lambda>s. Inr (''h'', ''80'')),
     ParseIP = (\<lambda>s. if s = ''::1'' then Some (replicate 15 0 @ [1])
                    else if s = ''10.0.0.1'' then Some (replicate 10 0 @ [0xff, 0xff, 10, 0, 0, 1]) else None),
     LookupPort = (\<lambda>n s. Inr 80), LookupHost = (\<lambda>h. Inr [''::1'', ''10.0.0.1''])\<rparr>"

lemma demo_resolver_v4: "resolveAddrContext demo_resolver ''tcp'' ''h:80'' = Inr \<lparr>ia_IP = [10, 0, 0, 1], ia_Port = 80\<rparr>"
  by code_simp

lemma resolution_respects_network_witness:
  "fits False False \<lparr>ia_IP = [10, 0, 0, 1], ia_Port = 80\<rparr> \<and> LookupPort demo_resolver ''tcp'' ''80'' = Inr 80"
proof -
  have "parses16 demo_resolver" by (simp add: parses16_def demo_resolver_def)
  moreover have "SplitHostPort demo_resolver ''h:80'' = Inr (''h'', ''80'')" by (simp add: demo_resolver_def)
  ultimately show ?thesis
    using resolution_respects_network [of demo_resolver "''h:80''" "''h''" "''80''" "''tcp''"] demo_resolver_v4
    by (simp add: networkBase_def isUDP_def)
qed

end
