(* ===== verification/Deadline.thy ===== *)
theory Deadline
  imports Prelude
begin

text \<open>
  \<open>deadlineState\<close> of \<open>conn.go\<close>: a resettable deadline whose channel wakes the goroutines that wait
  under it. Channels are numbers in a heap shared by all objects (\<open>chan_heap\<close>), with those closed
  and those whose \<open>AfterFunc\<close> callback may still run; closing a closed channel panics. Every
  operation holds \<open>d.mu\<close>, so it is one step.
\<close>

section \<open>Channels\<close>

record chan_heap =
  next_chan :: nat
  closed_chans :: "nat list"
  armed :: "nat list"
  chan_panic :: bool

definition new_chan :: "chan_heap \<Rightarrow> nat \<times> chan_heap" where
  "new_chan H = (next_chan H, H\<lparr>next_chan := Suc (next_chan H)\<rparr>)"

definition close_chan :: "nat \<Rightarrow> chan_heap \<Rightarrow> chan_heap" where
  "close_chan c H = (if c \<in> set (closed_chans H) then H\<lparr>chan_panic := True\<rparr>
     else H\<lparr>closed_chans := c # closed_chans H\<rparr>)"

section \<open>The operations\<close>

text \<open>Times are integers; \<open>None\<close> is the zero time. \<open>dl_timer\<close> is the channel the timer's callback captured.\<close>

record deadlineState =
  dl_when :: "int option"
  dl_ch :: nat
  dl_closed :: bool
  dl_timer :: "nat option"

definition newDeadlineState :: "chan_heap \<Rightarrow> deadlineState \<times> chan_heap" where
  "newDeadlineState H =
     (let (c, H) = new_chan H in (\<lparr>dl_when = None, dl_ch = c, dl_closed = False, dl_timer = None\<rparr>, H))"

definition closeCurrentLocked :: "deadlineState \<Rightarrow> chan_heap \<Rightarrow> deadlineState \<times> chan_heap" where
  "closeCurrentLocked d H =
     (if \<not> dl_closed d then (d\<lparr>dl_closed := True\<rparr>, close_chan (dl_ch d) H) else (d, H))"

text \<open>\<open>Stop\<close> does not wait for a callback that has begun, so a stopped callback may still run: its
  channel stays in \<open>armed\<close>.\<close>

definition dl_stop_timer :: "deadlineState \<Rightarrow> deadlineState" where
  "dl_stop_timer d = (if dl_timer d \<noteq> None then d\<lparr>dl_timer := None\<rparr> else d)"

definition dl_set :: "int option \<Rightarrow> int \<Rightarrow> deadlineState \<Rightarrow> chan_heap \<Rightarrow> deadlineState \<times> chan_heap" where
  "dl_set t now d H =
     (let d = dl_stop_timer d;
          (d, H) = closeCurrentLocked d H;
          (c, H) = new_chan H;
          d = d\<lparr>dl_when := t, dl_ch := c, dl_closed := False\<rparr>
      in case t of
           None \<Rightarrow> (d, H)
         | Some w \<Rightarrow>
             if w - now \<le> 0 then closeCurrentLocked d H
             else (d\<lparr>dl_timer := Some c\<rparr>, H\<lparr>armed := c # armed H\<rparr>))"

text \<open>The callback of \<open>AfterFunc\<close>.\<close>

definition dl_fire :: "nat \<Rightarrow> deadlineState \<Rightarrow> chan_heap \<Rightarrow> deadlineState \<times> chan_heap" where
  "dl_fire c d H =
     (let H = H\<lparr>armed := removeAll c (armed H)\<rparr>
      in if dl_ch d = c then (let (d, H) = closeCurrentLocked d H in (d\<lparr>dl_timer := None\<rparr>, H)) else (d, H))"

definition waitChannel :: "deadlineState \<Rightarrow> nat" where
  "waitChannel d = dl_ch d"

definition expired :: "int \<Rightarrow> deadlineState \<Rightarrow> bool" where
  "expired now d \<longleftrightarrow> dl_when d \<noteq> None \<and> \<not> now < the (dl_when d)"

definition dl_value :: "deadlineState \<Rightarrow> int option" where
  "dl_value d = dl_when d"

definition interrupt :: "deadlineState \<Rightarrow> chan_heap \<Rightarrow> deadlineState \<times> chan_heap" where
  "interrupt d H = closeCurrentLocked (dl_stop_timer d) H"

section \<open>All histories of one deadline\<close>

text \<open>One deadline among the other users of the heap; \<open>ds_had\<close> are the channels it has had, \<open>ds_now\<close>
  the clock. \<open>Foreign\<close> is anything the others do: they make channels and close their own.\<close>

record dsys =
  ds_d :: deadlineState
  ds_heap :: chan_heap
  ds_had :: "nat list"
  ds_now :: int

definition foreign :: "nat list \<Rightarrow> chan_heap \<Rightarrow> chan_heap \<Rightarrow> bool" where
  "foreign own H H' \<longleftrightarrow> next_chan H \<le> next_chan H' \<and> set own \<inter> set (closed_chans H') = set own \<inter> set (closed_chans H)
     \<and> set own \<inter> set (armed H') = set own \<inter> set (armed H) \<and> chan_panic H' = chan_panic H
     \<and> (\<forall>c \<in> set (closed_chans H') \<union> set (armed H'). c < next_chan H')"

inductive dl_step :: "dsys \<Rightarrow> dsys \<Rightarrow> bool" where
  Set: "dl_set t (ds_now s) (ds_d s) (ds_heap s) = (d, H) \<Longrightarrow>
    dl_step s (s\<lparr>ds_d := d, ds_heap := H, ds_had := dl_ch d # ds_had s\<rparr>)"
| Interrupt: "interrupt (ds_d s) (ds_heap s) = (d, H) \<Longrightarrow> dl_step s (s\<lparr>ds_d := d, ds_heap := H\<rparr>)"
| Fire: "c \<in> set (armed (ds_heap s)) \<Longrightarrow> c \<in> set (ds_had s) \<Longrightarrow> dl_fire c (ds_d s) (ds_heap s) = (d, H) \<Longrightarrow>
    dl_step s (s\<lparr>ds_d := d, ds_heap := H\<rparr>)"
| Tick: "ds_now s \<le> now \<Longrightarrow> dl_step s (s\<lparr>ds_now := now\<rparr>)"
| Foreign: "foreign (ds_had s) (ds_heap s) H \<Longrightarrow> dl_step s (s\<lparr>ds_heap := H\<rparr>)"

definition heap_ok :: "chan_heap \<Rightarrow> bool" where
  "heap_ok H \<longleftrightarrow> (\<forall>c \<in> set (closed_chans H) \<union> set (armed H). c < next_chan H)"

definition dl_start :: "chan_heap \<Rightarrow> int \<Rightarrow> dsys" where
  "dl_start H now = (let (d, H) = newDeadlineState H
     in \<lparr>ds_d = d, ds_heap = H, ds_had = [dl_ch d], ds_now = now\<rparr>)"

section \<open>The invariant\<close>

text \<open>Every channel the deadline has had but the current one is closed, and the current one is closed
  exactly when the flag says so; \<open>p0\<close>: the heap had panicked before.\<close>

definition dl_core :: "bool \<Rightarrow> nat list \<Rightarrow> deadlineState \<Rightarrow> chan_heap \<Rightarrow> bool" where
  "dl_core p0 had d H \<longleftrightarrow> heap_ok H \<and> chan_panic H = p0 \<and> dl_ch d \<in> set had
     \<and> (\<forall>c \<in> set had. c < next_chan H) \<and> set had - {dl_ch d} \<subseteq> set (closed_chans H)
     \<and> (dl_closed d \<longleftrightarrow> dl_ch d \<in> set (closed_chans H))"

text \<open>A pending deadline has its timer.\<close>

definition dl_timed :: "deadlineState \<Rightarrow> chan_heap \<Rightarrow> bool" where
  "dl_timed d H \<longleftrightarrow> (dl_when d \<noteq> None \<and> \<not> dl_closed d \<longrightarrow> dl_timer d = Some (dl_ch d) \<and> dl_ch d \<in> set (armed H))"

definition dl_inv :: "bool \<Rightarrow> dsys \<Rightarrow> bool" where
  "dl_inv p0 s \<longleftrightarrow> dl_core p0 (ds_had s) (ds_d s) (ds_heap s) \<and> dl_timed (ds_d s) (ds_heap s)"

lemma heap_ok_new: "heap_ok H \<Longrightarrow> new_chan H = (c, H') \<Longrightarrow> heap_ok H'"
  by (auto simp: heap_ok_def new_chan_def ball_Un less_Suc_eq)

lemma dl_core_close:
  assumes "dl_core p0 had d H" "closeCurrentLocked d H = (d', H')"
  shows "dl_core p0 had d' H'" "dl_closed d'" "dl_ch d' = dl_ch d" "dl_when d' = dl_when d" "dl_timer d' = dl_timer d"
    "armed H' = armed H"
  using assms by (auto simp: closeCurrentLocked_def close_chan_def dl_core_def heap_ok_def split: if_splits)

lemma dl_core_stop: "dl_core p0 had (dl_stop_timer d) H = dl_core p0 had d H"
  by (simp add: dl_core_def dl_stop_timer_def)

lemma dl_core_timer: "dl_core p0 had (d\<lparr>dl_timer := x\<rparr>) H = dl_core p0 had d H"
  by (simp add: dl_core_def)

lemma dl_core_arm:
  "dl_core p0 had d H \<Longrightarrow> dl_ch d = c \<Longrightarrow> dl_core p0 had d (H\<lparr>armed := c # armed H\<rparr>)"
  "dl_core p0 had d H \<Longrightarrow> dl_core p0 had d (H\<lparr>armed := removeAll c (armed H)\<rparr>)"
  by (auto simp: dl_core_def heap_ok_def)

text \<open>Replacing a closed channel by a new one.\<close>

lemma dl_core_renew:
  assumes "dl_core p0 had d H" "dl_closed d" "new_chan H = (c, H')"
  shows "dl_core p0 (c # had) (d\<lparr>dl_when := t, dl_ch := c, dl_closed := False\<rparr>) H'"
proof -
  have "c \<notin> set (closed_chans H)" using assms(1,3) by (auto simp: dl_core_def heap_ok_def new_chan_def)
  then show ?thesis
    using assms heap_ok_new [OF _ assms(3)] by (auto simp: dl_core_def new_chan_def)
qed

lemma dl_set_result:
  assumes core: "dl_core p0 had d H" and set: "dl_set t now d H = (d', H')"
  shows "dl_core p0 (dl_ch d' # had) d' H'" "dl_timed d' H'" "dl_when d' = t" "dl_ch d \<in> set (closed_chans H')"
    "dl_closed d' \<longleftrightarrow> t \<noteq> None \<and> the t \<le> now"
proof -
  obtain d1 H1 where c1: "closeCurrentLocked (dl_stop_timer d) H = (d1, H1)" by fastforce
  obtain c H2 where c2: "new_chan H1 = (c, H2)" by fastforce
  let ?d2 = "d1\<lparr>dl_when := t, dl_ch := c, dl_closed := False\<rparr>"
  note k1 = dl_core_close [OF core [folded dl_core_stop [of p0 had d]] c1]
  have core2: "dl_core p0 (c # had) ?d2 H2" by (rule dl_core_renew [OF k1(1,2) c2])
  have "dl_ch d1 = dl_ch d" using k1(3) by (simp add: dl_stop_timer_def)
  then have old: "dl_ch d \<in> set (closed_chans H2)"
    using k1(1,2) c2 by (auto simp: dl_core_def new_chan_def)
  have "dl_core p0 (dl_ch d' # had) d' H' \<and> dl_timed d' H' \<and> dl_when d' = t \<and> dl_ch d \<in> set (closed_chans H')
    \<and> (dl_closed d' \<longleftrightarrow> t \<noteq> None \<and> the t \<le> now)"
  proof (cases t)
    case None
    with set c1 c2 core2 old show ?thesis by (auto simp: dl_set_def dl_timed_def)
  next
    case (Some w)
    show ?thesis
    proof (cases "w - now \<le> 0")
      case True
      with set c1 c2 Some have cl: "closeCurrentLocked ?d2 H2 = (d', H')" by (simp add: dl_set_def)
      from dl_core_close [OF core2 this] True Some old cl show ?thesis
        by (auto simp: dl_timed_def closeCurrentLocked_def close_chan_def)
    next
      case False
      with set c1 c2 Some have "d' = ?d2\<lparr>dl_timer := Some c\<rparr>" "H' = H2\<lparr>armed := c # armed H2\<rparr>"
        by (auto simp: dl_set_def)
      with dl_core_arm(1) [OF core2, of c] False Some old show ?thesis
        by (simp add: dl_timed_def dl_core_timer)
    qed
  qed
  then show "dl_core p0 (dl_ch d' # had) d' H'" "dl_timed d' H'" "dl_when d' = t" "dl_ch d \<in> set (closed_chans H')"
    "dl_closed d' \<longleftrightarrow> t \<noteq> None \<and> the t \<le> now"
    by blast+
qed

lemma interrupt_result:
  assumes "dl_core p0 had d H" "interrupt d H = (d', H')"
  shows "dl_core p0 had d' H'" "dl_timed d' H'" "dl_closed d'" "dl_ch d' = dl_ch d" "dl_when d' = dl_when d"
  using dl_core_close [OF assms(1) [folded dl_core_stop [of p0 had d]] assms(2) [unfolded interrupt_def]]
  by (simp_all add: dl_timed_def) (simp_all add: dl_stop_timer_def)

text \<open>A callback closes the channel it was made for if that is still current, and none otherwise.\<close>

lemma dl_fire_result:
  assumes core: "dl_core p0 had d H" and timed: "dl_timed d H" and fire: "dl_fire c d H = (d', H')"
  shows "dl_core p0 had d' H'" "dl_timed d' H'" "dl_when d' = dl_when d" "dl_ch d' = dl_ch d"
    "dl_closed d' \<longleftrightarrow> dl_closed d \<or> c = dl_ch d"
proof -
  let ?H = "H\<lparr>armed := removeAll c (armed H)\<rparr>"
  have core': "dl_core p0 had d ?H" by (rule dl_core_arm(2) [OF core])
  have "dl_core p0 had d' H' \<and> dl_timed d' H' \<and> dl_when d' = dl_when d \<and> dl_ch d' = dl_ch d
    \<and> (dl_closed d' \<longleftrightarrow> dl_closed d \<or> c = dl_ch d)"
  proof (cases "dl_ch d = c")
    case True
    obtain d1 H1 where c1: "closeCurrentLocked d ?H = (d1, H1)" by fastforce
    with fire True have "d' = d1\<lparr>dl_timer := None\<rparr>" "H' = H1" by (auto simp: dl_fire_def)
    with dl_core_close [OF core' c1] True show ?thesis by (simp add: dl_core_timer dl_timed_def)
  next
    case False
    with fire have "d' = d" "H' = ?H" by (auto simp: dl_fire_def)
    with core' timed False show ?thesis by (auto simp: dl_timed_def)
  qed
  then show "dl_core p0 had d' H'" "dl_timed d' H'" "dl_when d' = dl_when d" "dl_ch d' = dl_ch d"
    "dl_closed d' \<longleftrightarrow> dl_closed d \<or> c = dl_ch d" by blast+
qed

lemma foreign_result:
  assumes "foreign had H H'" "dl_core p0 had d H" "dl_timed d H"
  shows "dl_core p0 had d H'" "dl_timed d H'"
proof -
  have m: "c \<in> set (closed_chans H') \<longleftrightarrow> c \<in> set (closed_chans H)" "c \<in> set (armed H') \<longleftrightarrow> c \<in> set (armed H)"
    if "c \<in> set had" for c
    using assms(1) that by (auto simp: foreign_def)
  show "dl_core p0 had d H'"
    using assms(1,2) m by (auto simp: dl_core_def foreign_def heap_ok_def)
  show "dl_timed d H'" using assms(2,3) m by (auto simp: dl_timed_def dl_core_def)
qed

lemma dl_start_inv: "heap_ok H \<Longrightarrow> dl_inv (chan_panic H) (dl_start H now)"
  by (auto simp: dl_inv_def dl_core_def dl_timed_def dl_start_def newDeadlineState_def new_chan_def heap_ok_def
      ball_Un less_Suc_eq)

lemma dl_step_inv:
  assumes "dl_step s s'" "dl_inv p0 s"
  shows "dl_inv p0 s'"
  using assms
  by (induction rule: dl_step.induct)
    (auto simp: dl_inv_def dest: dl_set_result interrupt_result dl_fire_result foreign_result)

lemma dl_steps_inv: "dl_step\<^sup>*\<^sup>* s s' \<Longrightarrow> dl_inv p0 s \<Longrightarrow> dl_inv p0 s'"
  by (induction rule: rtranclp_induct) (auto intro: dl_step_inv)

lemma waits_closed: "dl_core p0 had d H \<Longrightarrow> dl_closed d \<longleftrightarrow> waitChannel d \<in> set (closed_chans H)"
  by (simp add: dl_core_def waitChannel_def)

text \<open>C31. A deadline never loses a waiter and never closes a channel twice, whatever sets, interrupts and
  timer callbacks (late ones included) happen in whatever order. Every channel handed out before
  the current one is closed. Setting a deadline wakes whoever waits now, and the new channel is
  closed at once exactly when the new deadline has passed; interrupting wakes them too. While a
  deadline is pending its callback is armed for the current channel and closes it.\<close>

theorem deadline_wakes_waiters:
  assumes "heap_ok H0" "\<not> chan_panic H0" and run: "dl_step\<^sup>*\<^sup>* (dl_start H0 now0) s"
  shows "\<not> chan_panic (ds_heap s)
    \<and> set (ds_had s) - {waitChannel (ds_d s)} \<subseteq> set (closed_chans (ds_heap s))
    \<and> (\<forall>t d' H'. dl_set t (ds_now s) (ds_d s) (ds_heap s) = (d', H') \<longrightarrow>
        waitChannel (ds_d s) \<in> set (closed_chans H')
        \<and> (waitChannel d' \<in> set (closed_chans H') \<longleftrightarrow> expired (ds_now s) d'))
    \<and> (\<forall>d' H'. interrupt (ds_d s) (ds_heap s) = (d', H') \<longrightarrow> waitChannel (ds_d s) \<in> set (closed_chans H'))
    \<and> (dl_when (ds_d s) \<noteq> None \<and> waitChannel (ds_d s) \<notin> set (closed_chans (ds_heap s)) \<longrightarrow>
        waitChannel (ds_d s) \<in> set (armed (ds_heap s))
        \<and> (\<forall>d' H'. dl_fire (waitChannel (ds_d s)) (ds_d s) (ds_heap s) = (d', H') \<longrightarrow>
            waitChannel d' = waitChannel (ds_d s) \<and> waitChannel d' \<in> set (closed_chans H')))"
proof -
  from dl_steps_inv [OF run] dl_start_inv [OF assms(1), of now0] assms(2)
  have inv: "dl_core False (ds_had s) (ds_d s) (ds_heap s)" "dl_timed (ds_d s) (ds_heap s)"
    by (auto simp: dl_inv_def)
  have "waitChannel (ds_d s) \<in> set (closed_chans H') \<and> (waitChannel d' \<in> set (closed_chans H') \<longleftrightarrow> expired (ds_now s) d')"
    if "dl_set t (ds_now s) (ds_d s) (ds_heap s) = (d', H')" for t d' H'
    using dl_set_result [OF inv(1) that] waits_closed [OF dl_set_result(1) [OF inv(1) that]]
    by (auto simp: expired_def) (auto simp: waitChannel_def)
  moreover have "waitChannel (ds_d s) \<in> set (closed_chans H')"
    if "interrupt (ds_d s) (ds_heap s) = (d', H')" for d' H'
    using interrupt_result [OF inv(1) that] by (simp add: waitChannel_def dl_core_def)
  moreover have "waitChannel d' = waitChannel (ds_d s) \<and> waitChannel d' \<in> set (closed_chans H')"
    if "dl_fire (waitChannel (ds_d s)) (ds_d s) (ds_heap s) = (d', H')" for d' H'
    using dl_fire_result [OF inv that] waits_closed [OF dl_fire_result(1) [OF inv that]]
    by (simp add: waitChannel_def)
  ultimately show ?thesis
    using inv by (auto simp: waitChannel_def dl_core_def dl_timed_def)
qed

definition demo_heap :: chan_heap where
  "demo_heap = \<lparr>next_chan = 3, closed_chans = [], armed = [], chan_panic = False\<rparr>"

lemma deadline_wakes_waiters_witness:
  "\<not> chan_panic (snd (dl_fire 4 (fst (dl_set (Some 9) 5 (ds_d (dl_start demo_heap 5)) (ds_heap (dl_start demo_heap 5))))
      (snd (dl_set (Some 9) 5 (ds_d (dl_start demo_heap 5)) (ds_heap (dl_start demo_heap 5))))))"
proof -
  let ?s = "dl_start demo_heap 5"
  let ?r = "dl_set (Some 9) 5 (ds_d ?s) (ds_heap ?s)"
  let ?s1 = "?s\<lparr>ds_d := fst ?r, ds_heap := snd ?r, ds_had := dl_ch (fst ?r) # ds_had ?s\<rparr>"
  let ?f = "dl_fire 4 (ds_d ?s1) (ds_heap ?s1)"
  have now: "ds_now ?s = 5" by (simp add: dl_start_def case_prod_beta Let_def)
  have one: "dl_step ?s ?s1" by (rule dl_step.Set [of "Some 9"]) (simp add: now)
  have two: "dl_step ?s1 (?s1\<lparr>ds_d := fst ?f, ds_heap := snd ?f\<rparr>)"
    by (rule dl_step.Fire [of 4]) (simp_all add: dl_start_def newDeadlineState_def dl_set_def dl_stop_timer_def
        closeCurrentLocked_def new_chan_def close_chan_def demo_heap_def)
  have "dl_step\<^sup>*\<^sup>* ?s (?s1\<lparr>ds_d := fst ?f, ds_heap := snd ?f\<rparr>)"
    using one two by (meson converse_rtranclp_into_rtranclp r_into_rtranclp)
  from deadline_wakes_waiters [OF _ _ this] show ?thesis by (simp add: demo_heap_def heap_ok_def)
qed

end
