(* ===== verification/Lifecycle.thy ===== *)
theory Lifecycle
  imports Deadline
begin

text \<open>
  The registry of live objects (\<open>lifecycle.go\<close>): listeners, connections, packet connections and
  pending dials, and \<open>waitDrain\<close>, which \<open>Shutdown\<close> uses to wait for them. Objects are numbers
  (pointers). The second part interleaves any number of goroutines that add, remove, dial and
  wait: each critical section of \<open>r.mu\<close> and each atomic operation is one step.
\<close>

section \<open>The registry\<close>

record liveRegistry =
  lr_listeners :: "nat list"
  lr_conns :: "nat list"
  lr_packetConns :: "nat list"
  pendingDials :: int
  drainedCh :: "nat option"

definition newLiveRegistry :: liveRegistry where
  "newLiveRegistry = \<lparr>lr_listeners = [], lr_conns = [], lr_packetConns = [], pendingDials = 0, drainedCh = None\<rparr>"

definition drainedLocked :: "liveRegistry \<Rightarrow> bool" where
  "drainedLocked r \<longleftrightarrow> length (lr_listeners r) = 0 \<and> length (lr_conns r) = 0 \<and> length (lr_packetConns r) = 0
     \<and> pendingDials r = 0"

definition notifyIfDrained :: "liveRegistry \<Rightarrow> chan_heap \<Rightarrow> liveRegistry \<times> chan_heap" where
  "notifyIfDrained r H =
     (if \<not> drainedLocked r then (r, H)
      else (case drainedCh r of
              Some c \<Rightarrow> (r\<lparr>drainedCh := None\<rparr>, close_chan c H)
            | None \<Rightarrow> (r, H)))"

definition addListener :: "nat \<Rightarrow> liveRegistry \<Rightarrow> liveRegistry" where
  "addListener l r = r\<lparr>lr_listeners := List.insert l (lr_listeners r)\<rparr>"

definition addConn :: "nat \<Rightarrow> liveRegistry \<Rightarrow> liveRegistry" where
  "addConn c r = r\<lparr>lr_conns := List.insert c (lr_conns r)\<rparr>"

definition addPacketConn :: "nat \<Rightarrow> liveRegistry \<Rightarrow> liveRegistry" where
  "addPacketConn pc r = r\<lparr>lr_packetConns := List.insert pc (lr_packetConns r)\<rparr>"

text \<open>The removals up to the unlock; \<open>notifyIfDrained\<close> takes the lock again.\<close>

definition deleteListener :: "nat \<Rightarrow> liveRegistry \<Rightarrow> liveRegistry" where
  "deleteListener l r = r\<lparr>lr_listeners := removeAll l (lr_listeners r)\<rparr>"

definition deleteConn :: "nat \<Rightarrow> liveRegistry \<Rightarrow> liveRegistry" where
  "deleteConn c r = r\<lparr>lr_conns := removeAll c (lr_conns r)\<rparr>"

definition deletePacketConn :: "nat \<Rightarrow> liveRegistry \<Rightarrow> liveRegistry" where
  "deletePacketConn pc r = r\<lparr>lr_packetConns := removeAll pc (lr_packetConns r)\<rparr>"

definition removeListener :: "nat \<Rightarrow> liveRegistry \<Rightarrow> chan_heap \<Rightarrow> liveRegistry \<times> chan_heap" where
  "removeListener l r = notifyIfDrained (deleteListener l r)"

definition removeConn :: "nat \<Rightarrow> liveRegistry \<Rightarrow> chan_heap \<Rightarrow> liveRegistry \<times> chan_heap" where
  "removeConn c r = notifyIfDrained (deleteConn c r)"

definition removePacketConn :: "nat \<Rightarrow> liveRegistry \<Rightarrow> chan_heap \<Rightarrow> liveRegistry \<times> chan_heap" where
  "removePacketConn pc r = notifyIfDrained (deletePacketConn pc r)"

definition beginDial :: "liveRegistry \<Rightarrow> liveRegistry" where
  "beginDial r = r\<lparr>pendingDials := pendingDials r + 1\<rparr>"

definition dialCount :: "liveRegistry \<Rightarrow> liveRegistry" where
  "dialCount r = r\<lparr>pendingDials := pendingDials r - 1\<rparr>"

definition endDial :: "liveRegistry \<Rightarrow> chan_heap \<Rightarrow> liveRegistry \<times> chan_heap" where
  "endDial r = notifyIfDrained (dialCount r)"

definition lr_counts :: "liveRegistry \<Rightarrow> nat \<times> nat \<times> nat \<times> int" where
  "lr_counts r = (length (lr_listeners r), length (lr_conns r), length (lr_packetConns r), pendingDials r)"

definition isDrained :: "liveRegistry \<Rightarrow> bool" where
  "isDrained r = (let (ln, cn, pcn, dials) = lr_counts r in ln = 0 \<and> cn = 0 \<and> pcn = 0 \<and> dials = 0)"

text \<open>\<open>waitDrain\<close> up to its \<open>select\<close>: \<open>None\<close> means it returns \<open>true\<close> at once.\<close>

definition waitDrain_begin :: "liveRegistry \<Rightarrow> chan_heap \<Rightarrow> nat option \<times> liveRegistry \<times> chan_heap" where
  "waitDrain_begin r H =
     (if drainedLocked r then (None, r, H)
      else (case drainedCh r of
              Some c \<Rightarrow> (Some c, r, H)
            | None \<Rightarrow> (let (c, H) = new_chan H in (Some c, r\<lparr>drainedCh := Some c\<rparr>, H))))"

lemma isDrained_locked [simp]: "isDrained r = drainedLocked r"
  by (simp add: isDrained_def lr_counts_def drainedLocked_def)

section \<open>Many goroutines\<close>

text \<open>\<open>lr_open\<close>: the functions \<open>beginDial\<close> returned that have not been called, each exactly once.
  A goroutine is between two calls, about to call \<open>notifyIfDrained\<close>, in the \<open>select\<close> of \<open>waitDrain\<close>, or returned from it.\<close>

datatype lr_pc = LIdle | LNotify | LWaiting nat | LReturned bool

record lrsys =
  lr_reg :: liveRegistry
  lr_heap :: chan_heap
  lr_pcs :: "nat \<Rightarrow> lr_pc"
  lr_open :: nat

definition at_pc :: "nat \<Rightarrow> lr_pc \<Rightarrow> lrsys \<Rightarrow> lrsys" where
  "at_pc i p s = s\<lparr>lr_pcs := (lr_pcs s)(i := p)\<rparr>"

inductive lr_step :: "lrsys \<Rightarrow> lrsys \<Rightarrow> bool" where
  add_listener: "lr_pcs s i = LIdle \<Longrightarrow> lr_step s (s\<lparr>lr_reg := addListener x (lr_reg s)\<rparr>)"
| add_conn: "lr_pcs s i = LIdle \<Longrightarrow> lr_step s (s\<lparr>lr_reg := addConn x (lr_reg s)\<rparr>)"
| add_packetConn: "lr_pcs s i = LIdle \<Longrightarrow> lr_step s (s\<lparr>lr_reg := addPacketConn x (lr_reg s)\<rparr>)"
| begin_dial: "lr_pcs s i = LIdle \<Longrightarrow> lr_step s (s\<lparr>lr_reg := beginDial (lr_reg s), lr_open := Suc (lr_open s)\<rparr>)"
| remove_listener: "lr_pcs s i = LIdle \<Longrightarrow> lr_step s (at_pc i LNotify (s\<lparr>lr_reg := deleteListener x (lr_reg s)\<rparr>))"
| remove_conn: "lr_pcs s i = LIdle \<Longrightarrow> lr_step s (at_pc i LNotify (s\<lparr>lr_reg := deleteConn x (lr_reg s)\<rparr>))"
| remove_packetConn: "lr_pcs s i = LIdle \<Longrightarrow> lr_step s (at_pc i LNotify (s\<lparr>lr_reg := deletePacketConn x (lr_reg s)\<rparr>))"
| end_dial: "lr_pcs s i = LIdle \<Longrightarrow> lr_open s = Suc n \<Longrightarrow>
    lr_step s (at_pc i LNotify (s\<lparr>lr_reg := dialCount (lr_reg s), lr_open := n\<rparr>))"
| notify: "lr_pcs s i = LNotify \<Longrightarrow> notifyIfDrained (lr_reg s) (lr_heap s) = (r, H) \<Longrightarrow>
    lr_step s (at_pc i LIdle (s\<lparr>lr_reg := r, lr_heap := H\<rparr>))"
| wait_now: "lr_pcs s i = LIdle \<Longrightarrow> waitDrain_begin (lr_reg s) (lr_heap s) = (None, r, H) \<Longrightarrow>
    lr_step s (at_pc i (LReturned True) (s\<lparr>lr_reg := r, lr_heap := H\<rparr>))"
| wait_begin: "lr_pcs s i = LIdle \<Longrightarrow> waitDrain_begin (lr_reg s) (lr_heap s) = (Some c, r, H) \<Longrightarrow>
    lr_step s (at_pc i (LWaiting c) (s\<lparr>lr_reg := r, lr_heap := H\<rparr>))"
| wait_woken: "lr_pcs s i = LWaiting c \<Longrightarrow> c \<in> set (closed_chans (lr_heap s)) \<Longrightarrow>
    lr_step s (at_pc i (LReturned (isDrained (lr_reg s))) s)"
| wait_timeout: "lr_pcs s i = LWaiting c \<Longrightarrow> lr_step s (at_pc i (LReturned (isDrained (lr_reg s))) s)"

definition lr_start :: lrsys where
  "lr_start = \<lparr>lr_reg = newLiveRegistry, lr_heap = \<lparr>next_chan = 0, closed_chans = [], armed = [], chan_panic = False\<rparr>,
     lr_pcs = (\<lambda>_. LIdle), lr_open = 0\<rparr>"

text \<open>Nobody waits on a channel that nobody will close: a waiter's channel is closed or the installed
  one, and if the registry is drained while one is installed, a goroutine is about to notify.\<close>

definition lr_inv :: "lrsys \<Rightarrow> bool" where
  "lr_inv s \<longleftrightarrow> \<not> chan_panic (lr_heap s) \<and> pendingDials (lr_reg s) = int (lr_open s)
     \<and> (\<forall>c \<in> set (closed_chans (lr_heap s)). c < next_chan (lr_heap s))
     \<and> (\<forall>c. drainedCh (lr_reg s) = Some c \<longrightarrow> c < next_chan (lr_heap s) \<and> c \<notin> set (closed_chans (lr_heap s)))
     \<and> (\<forall>i c. lr_pcs s i = LWaiting c \<longrightarrow> c \<in> set (closed_chans (lr_heap s)) \<or> drainedCh (lr_reg s) = Some c)
     \<and> (drainedLocked (lr_reg s) \<and> drainedCh (lr_reg s) \<noteq> None \<longrightarrow> (\<exists>i. lr_pcs s i = LNotify))"

lemma lr_inv_start: "lr_inv lr_start"
  by (simp add: lr_inv_def lr_start_def newLiveRegistry_def)

lemma registry_update_sel [simp]:
  "drainedCh (addListener x r) = drainedCh r" "drainedCh (addConn x r) = drainedCh r"
  "drainedCh (addPacketConn x r) = drainedCh r" "drainedCh (beginDial r) = drainedCh r"
  "drainedCh (deleteListener x r) = drainedCh r" "drainedCh (deleteConn x r) = drainedCh r"
  "drainedCh (deletePacketConn x r) = drainedCh r" "drainedCh (dialCount r) = drainedCh r"
  by (simp_all add: addListener_def addConn_def addPacketConn_def beginDial_def deleteListener_def
      deleteConn_def deletePacketConn_def dialCount_def)

lemma added_not_drained [simp]:
  "\<not> drainedLocked (addListener x r)" "\<not> drainedLocked (addConn x r)" "\<not> drainedLocked (addPacketConn x r)"
  by (auto simp: drainedLocked_def addListener_def addConn_def addPacketConn_def List.insert_def)

lemma registry_update_dials [simp]:
  "pendingDials (addListener x r) = pendingDials r" "pendingDials (addConn x r) = pendingDials r"
  "pendingDials (addPacketConn x r) = pendingDials r" "pendingDials (beginDial r) = pendingDials r + 1"
  "pendingDials (deleteListener x r) = pendingDials r" "pendingDials (deleteConn x r) = pendingDials r"
  "pendingDials (deletePacketConn x r) = pendingDials r" "pendingDials (dialCount r) = pendingDials r - 1"
  by (simp_all add: addListener_def addConn_def addPacketConn_def beginDial_def deleteListener_def
      deleteConn_def deletePacketConn_def dialCount_def)

lemma dialing_not_drained: "0 < pendingDials r \<Longrightarrow> \<not> drainedLocked r"
  by (simp add: drainedLocked_def)

text \<open>What notifying does: afterwards no channel is installed if the registry is drained.\<close>

lemma notify_result:
  assumes "notifyIfDrained r H = (r', H')" "\<forall>c. drainedCh r = Some c \<longrightarrow> c \<notin> set (closed_chans H)"
  shows "pendingDials r' = pendingDials r" "drainedLocked r' = drainedLocked r" "next_chan H' = next_chan H"
    "chan_panic H' = chan_panic H"
    "set (closed_chans H') = set (closed_chans H) \<union> (if drainedLocked r then set_option (drainedCh r) else {})"
    "drainedCh r' = (if drainedLocked r then None else drainedCh r)"
  using assms by (auto simp: notifyIfDrained_def close_chan_def drainedLocked_def split: if_splits option.splits)

lemma wait_begin_result:
  assumes "waitDrain_begin r H = (x, r', H')"
  shows "pendingDials r' = pendingDials r" "closed_chans H' = closed_chans H" "chan_panic H' = chan_panic H"
    "x = None \<Longrightarrow> drainedLocked r \<and> r' = r \<and> H' = H"
    "x = Some c \<Longrightarrow> \<not> drainedLocked r' \<and> drainedCh r' = Some c \<and> next_chan H \<le> next_chan H'
       \<and> (drainedCh r = Some c \<or> drainedCh r = None \<and> c = next_chan H \<and> c < next_chan H')"
  using assms by (auto simp: waitDrain_begin_def new_chan_def drainedLocked_def split: if_splits option.splits)

lemma at_pc_sel [simp]:
  "lr_reg (at_pc i p s) = lr_reg s" "lr_heap (at_pc i p s) = lr_heap s" "lr_open (at_pc i p s) = lr_open s"
  "lr_pcs (at_pc i p s) j = (if j = i then p else lr_pcs s j)"
  by (simp_all add: at_pc_def)

lemma lr_step_inv:
  assumes "lr_step s s'" "lr_inv s"
  shows "lr_inv s'"
  using assms
proof (induction rule: lr_step.induct)
  case (notify s i r H)
  then have "\<forall>c. drainedCh (lr_reg s) = Some c \<longrightarrow> c \<notin> set (closed_chans (lr_heap s))"
    by (simp add: lr_inv_def)
  note res = notify_result [OF notify(2) this]
  show ?case
    using notify by (auto simp: lr_inv_def res)
next
  case (wait_begin s i c r H)
  note res = wait_begin_result [OF wait_begin(2)]
  show ?case using wait_begin res by (auto simp: lr_inv_def split: if_splits) blast+
next
  case (wait_now s i r H)
  note res = wait_begin_result [OF wait_now(2)]
  show ?case using wait_now res by (auto simp: lr_inv_def) (metis lr_pc.distinct(1))
next
  case (wait_woken s i c)
  then show ?case by (auto simp: lr_inv_def) (metis lr_pc.distinct(7))
next
  case (wait_timeout s i c)
  then show ?case by (auto simp: lr_inv_def) (metis lr_pc.distinct(7))
qed (auto simp: lr_inv_def dialing_not_drained intro: exI)

lemma lr_steps_inv: "lr_step\<^sup>*\<^sup>* s s' \<Longrightarrow> lr_inv s \<Longrightarrow> lr_inv s'"
  by (induction rule: rtranclp_induct) (auto intro: lr_step_inv)

text \<open>C32. \<open>waitDrain\<close> cannot miss the last removal. In every interleaving of goroutines that add, remove,
  dial and wait, no channel is closed twice; and when a goroutine waits on a channel that is still
  open although the registry is empty, some goroutine is about to notify, and its notification
  closes that channel. A \<open>waitDrain\<close> that returns \<open>true\<close> saw the registry empty.\<close>

theorem drain_wakeup_not_lost:
  assumes "lr_step\<^sup>*\<^sup>* lr_start s" and "lr_pcs s i = LWaiting c"
    and "c \<notin> set (closed_chans (lr_heap s))" and "isDrained (lr_reg s)"
  shows "\<not> chan_panic (lr_heap s) \<and> (\<exists>j. lr_pcs s j = LNotify)
    \<and> (\<forall>j r H. lr_pcs s j = LNotify \<and> notifyIfDrained (lr_reg s) (lr_heap s) = (r, H) \<longrightarrow>
        lr_step s (at_pc j LIdle (s\<lparr>lr_reg := r, lr_heap := H\<rparr>)) \<and> c \<in> set (closed_chans H) \<and> isDrained r)"
proof -
  have inv: "lr_inv s" using assms(1) lr_inv_start by (rule lr_steps_inv)
  then have ch: "drainedCh (lr_reg s) = Some c" "\<forall>c. drainedCh (lr_reg s) = Some c \<longrightarrow> c \<notin> set (closed_chans (lr_heap s))"
    using assms(2,3) by (auto simp: lr_inv_def)
  have "c \<in> set (closed_chans H) \<and> isDrained r" if "notifyIfDrained (lr_reg s) (lr_heap s) = (r, H)" for r H
    using notify_result [OF that ch(2)] ch(1) assms(4) by simp
  moreover have "\<exists>j. lr_pcs s j = LNotify" using inv ch(1) assms(4) by (auto simp: lr_inv_def)
  ultimately show ?thesis
    using inv by (auto simp: lr_inv_def intro: lr_step.notify)
qed

text \<open>A connection is added, a goroutine waits, the connection is removed: the state in which the
  remover has not notified yet.\<close>

definition demo_drain :: lrsys where
  "demo_drain = at_pc 0 LNotify (at_pc 1 (LWaiting 0) (lr_start\<lparr>lr_reg := newLiveRegistry\<lparr>drainedCh := Some 0\<rparr>,
     lr_heap := \<lparr>next_chan = 1, closed_chans = [], armed = [], chan_panic = False\<rparr>\<rparr>))"

lemma demo_drain_reachable: "lr_step\<^sup>*\<^sup>* lr_start demo_drain"
proof -
  let ?H = "\<lparr>next_chan = 1, closed_chans = [], armed = [], chan_panic = False\<rparr>"
  let ?s1 = "lr_start\<lparr>lr_reg := addConn 5 newLiveRegistry\<rparr>"
  let ?s2 = "at_pc 1 (LWaiting 0) (?s1\<lparr>lr_reg := (addConn 5 newLiveRegistry)\<lparr>drainedCh := Some 0\<rparr>, lr_heap := ?H\<rparr>)"
  have 1: "lr_step lr_start ?s1"
    using lr_step.add_conn [of lr_start 0 5] by (simp add: lr_start_def)
  have 2: "lr_step ?s1 ?s2"
    by (rule lr_step.wait_begin)
      (simp_all add: lr_start_def waitDrain_begin_def new_chan_def newLiveRegistry_def addConn_def drainedLocked_def List.insert_def)
  have 3: "lr_step ?s2 (at_pc 0 LNotify (?s2\<lparr>lr_reg := deleteConn 5 (lr_reg ?s2)\<rparr>))"
    by (rule lr_step.remove_conn) (simp add: lr_start_def)
  have eq: "at_pc 0 LNotify (?s2\<lparr>lr_reg := deleteConn 5 (lr_reg ?s2)\<rparr>) = demo_drain"
    by (simp add: demo_drain_def at_pc_def lr_start_def newLiveRegistry_def addConn_def deleteConn_def List.insert_def)
  show ?thesis
    using converse_rtranclp_into_rtranclp [where r = lr_step, OF 1 converse_rtranclp_into_rtranclp [where r = lr_step,
      OF 2 r_into_rtranclp [where r = lr_step, OF 3 [unfolded eq]]]] .
qed

lemma drain_wakeup_not_lost_witness:
  "lr_pcs demo_drain 0 = LNotify \<and> 0 \<in> set (closed_chans (snd (notifyIfDrained (lr_reg demo_drain) (lr_heap demo_drain))))"
proof -
  have pcs: "lr_pcs demo_drain 1 = LWaiting 0" "lr_pcs demo_drain 0 = LNotify" by (simp_all add: demo_drain_def)
  have st: "0 \<notin> set (closed_chans (lr_heap demo_drain))" "isDrained (lr_reg demo_drain)"
    by (simp_all add: demo_drain_def newLiveRegistry_def drainedLocked_def)
  obtain r H where "notifyIfDrained (lr_reg demo_drain) (lr_heap demo_drain) = (r, H)" by fastforce
  with drain_wakeup_not_lost [OF demo_drain_reachable pcs(1) st] pcs(2) show ?thesis by auto
qed

end
