(* ===== verification/NetIO.thy ===== *)
theory NetIO
  imports Dispatch NetAddr Lifecycle
begin

text \<open>
  What the connections of the net layer share: the state they work on, the checks
  \<open>ioStateError\<close> and \<open>closedStateError\<close> of \<open>conn.go\<close>, and the loop of their blocking calls. They
  reach VLS only through the interface \<open>dispatcher\<close> of \<open>vclpoll\<close>; what they rely on are the locales
  \<open>blocking_io\<close> and \<open>byte_sink\<close> of theory \<open>Dispatch\<close>, interpreted there.
\<close>

section \<open>State\<close>

text \<open>\<open>n_poll\<close> is the state of \<open>vclpoll\<close>; \<open>n_heap\<close> the channels of deadlines; \<open>n_now\<close> the clock;
  \<open>n_shutdown\<close> is \<open>shutdownStarted\<close>; \<open>n_live\<close> the registry.\<close>

record 's net =
  n_poll :: 's
  n_heap :: chan_heap
  n_now :: int
  n_shutdown :: bool
  n_live :: liveRegistry

text \<open>Running a call of the interface, a deadline operation, a registry operation.\<close>

definition on_poll :: "('s \<Rightarrow> 'a \<times> 's) \<Rightarrow> 's net \<Rightarrow> 'a \<times> 's net" where
  "on_poll f s = (let (x, p) = f (n_poll s) in (x, s\<lparr>n_poll := p\<rparr>))"

definition on_deadline :: "(deadlineState \<Rightarrow> chan_heap \<Rightarrow> deadlineState \<times> chan_heap) \<Rightarrow> deadlineState
    \<Rightarrow> 's net \<Rightarrow> deadlineState \<times> 's net" where
  "on_deadline f d s = (let (d, H) = f d (n_heap s) in (d, s\<lparr>n_heap := H\<rparr>))"

definition on_live :: "(liveRegistry \<Rightarrow> chan_heap \<Rightarrow> liveRegistry \<times> chan_heap) \<Rightarrow> 's net \<Rightarrow> 's net" where
  "on_live f s = (let (r, H) = f (n_live s) (n_heap s) in s\<lparr>n_live := r, n_heap := H\<rparr>)"

lemma on_poll_sel [simp]:
  "n_heap (snd (on_poll f s)) = n_heap s" "n_now (snd (on_poll f s)) = n_now s"
  "n_shutdown (snd (on_poll f s)) = n_shutdown s" "n_live (snd (on_poll f s)) = n_live s"
  "n_poll (snd (on_poll f s)) = snd (f (n_poll s))" "fst (on_poll f s) = fst (f (n_poll s))"
  by (simp_all add: on_poll_def case_prod_beta)

lemma on_deadline_sel [simp]:
  "n_poll (snd (on_deadline f d s)) = n_poll s" "n_now (snd (on_deadline f d s)) = n_now s"
  "n_shutdown (snd (on_deadline f d s)) = n_shutdown s" "n_live (snd (on_deadline f d s)) = n_live s"
  "n_heap (snd (on_deadline f d s)) = snd (f d (n_heap s))" "fst (on_deadline f d s) = fst (f d (n_heap s))"
  by (simp_all add: on_deadline_def case_prod_beta)

lemma on_live_sel [simp]:
  "n_poll (on_live f s) = n_poll s" "n_now (on_live f s) = n_now s" "n_shutdown (on_live f s) = n_shutdown s"
  "n_heap (on_live f s) = snd (f (n_live s) (n_heap s))" "n_live (on_live f s) = fst (f (n_live s) (n_heap s))"
  by (simp_all add: on_live_def case_prod_beta)

section \<open>State checks\<close>

definition ioStateError :: "bool \<Rightarrow> deadlineState \<Rightarrow> 's net \<Rightarrow> net_error option" where
  "ioStateError isClosed dl s =
     (if isClosed \<or> n_shutdown s then Some ErrClosed
      else if expired (n_now s) dl then Some TimeoutError
      else None)"

definition closedStateError :: "bool \<Rightarrow> 's net \<Rightarrow> net_error option" where
  "closedStateError isClosed s = (if isClosed \<or> n_shutdown s then Some ErrClosed else None)"

section \<open>The loop of a blocking call\<close>

definition poll_err :: "'a poll_result \<Rightarrow> vclpoll_error option" where
  "poll_err r = (case r of Inl e \<Rightarrow> Some e | Inr _ \<Rightarrow> None)"

text \<open>
  \<open>for { check the state; call vclpoll with the deadline's channel; mapIOError; retry or return }\<close>
  over an object \<open>'o\<close>. \<open>I\<close> is what the other goroutines have done to the object and the rest when
  the call returns. The outer option: the fuel ran out, or the call has not returned.
\<close>

fun io_loop :: "('o \<times> 's net \<Rightarrow> net_error option) \<Rightarrow> ('o \<Rightarrow> 's \<Rightarrow> 'a poll_result option \<times> 's)
    \<Rightarrow> ('o \<times> 's net \<Rightarrow> 'o \<times> 's net) \<Rightarrow> nat \<Rightarrow> 'o \<times> 's net \<Rightarrow> (net_error + 'a) option \<times> 'o \<times> 's net" where
  "io_loop check call I 0 x = (None, x)"
| "io_loop check call I (Suc fuel) x =
     (case check x of
        Some e \<Rightarrow> (Some (Inl e), x)
      | None \<Rightarrow>
          (let (q, s) = on_poll (call (fst x)) (snd x)
           in case q of
                None \<Rightarrow> (None, fst x, s)
              | Some r \<Rightarrow>
                  (let x = I (fst x, s)
                   in case mapIOError (poll_err r) of
                        (True, _) \<Rightarrow> io_loop check call I fuel x
                      | (False, Some e) \<Rightarrow> (Some (Inl e), x)
                      | (False, None) \<Rightarrow> (Some (Inr (projr r)), x))))"

lemma mapIOError_Inr [simp]: "mapIOError (poll_err (Inr a)) = (False, None)"
  by (simp add: poll_err_def)

lemma mapIOError_not_None: "mapIOError (poll_err (Inl e)) \<noteq> (False, None)"
  by (simp add: poll_err_def mapIOError_def)

text \<open>The result of the loop comes from a check or from a call that was made on an open object.\<close>

lemma io_loop_outcome:
  assumes "io_loop check call I fuel x = (Some r, x')"
  shows "(\<exists>e. r = Inl e \<and> check x' = Some e)
    \<or> (\<exists>x1 q p. check x1 = None \<and> call (fst x1) (n_poll (snd x1)) = (Some q, p)
        \<and> x' = I (fst x1, (snd x1)\<lparr>n_poll := p\<rparr>)
        \<and> (case r of Inl e \<Rightarrow> (\<exists>pe. q = Inl pe \<and> mapIOError (Some pe) = (False, Some e)) | Inr a \<Rightarrow> q = Inr a))"
  using assms
proof (induction fuel arbitrary: x)
  case (Suc fuel)
  obtain q p where c: "call (fst x) (n_poll (snd x)) = (q, p)" by fastforce
  show ?case
  proof (cases "check x")
    case (Some e)
    with Suc.prems show ?thesis by auto
  next
    case None
    show ?thesis
    proof (cases q)
      case None
      with \<open>check x = None\<close> Suc.prems c show ?thesis by (simp add: on_poll_def)
    next
      case (Some r1)
      let ?x = "I (fst x, (snd x)\<lparr>n_poll := p\<rparr>)"
      show ?thesis
      proof (cases "mapIOError (poll_err r1)" rule: prod.exhaust)
        case (Pair again me)
        show ?thesis
        proof (cases again)
          case True
          with None Some Suc.prems c Pair have "io_loop check call I fuel ?x = (Some r, x')" by (simp add: on_poll_def)
          then show ?thesis by (rule Suc.IH)
        next
          case False
          with \<open>check x = None\<close> Some Suc.prems c Pair
          have "x' = ?x \<and> (case r of Inl e \<Rightarrow> (\<exists>pe. r1 = Inl pe \<and> mapIOError (Some pe) = (False, Some e)) | Inr a \<Rightarrow> r1 = Inr a)"
            by (cases r1; cases me) (auto simp: on_poll_def poll_err_def mapIOError_def split: if_splits)
          with \<open>check x = None\<close> Some c show ?thesis
            by (intro disjI2 exI [of _ x] exI [of _ r1] exI [of _ p]) simp
        qed
      qed
    qed
  qed
qed simp

text \<open>It returns when the calls do and each wait that is cut short brings some measure down.\<close>

lemma io_loop_returns:
  assumes call: "\<And>o' p. fst (call o' p) \<noteq> None"
    and again: "\<And>x r p. check x = None \<Longrightarrow> call (fst x) (n_poll (snd x)) = (Some r, p)
      \<Longrightarrow> fst (mapIOError (poll_err r)) \<Longrightarrow> M (I (fst x, (snd x)\<lparr>n_poll := p\<rparr>)) < (M x :: nat)"
    and "M x < fuel"
  shows "fst (io_loop check call I fuel x) \<noteq> None"
  using assms(3)
proof (induction fuel arbitrary: x)
  case (Suc fuel)
  obtain r p where c: "call (fst x) (n_poll (snd x)) = (Some r, p)"
    using call [of "fst x" "n_poll (snd x)"] by (cases "call (fst x) (n_poll (snd x))") auto
  obtain b me where m: "mapIOError (poll_err r) = (b, me)" by fastforce
  show ?case
  proof (cases "check x = None \<and> fst (mapIOError (poll_err r))")
    case True
    with again [OF _ c] have "M (I (fst x, (snd x)\<lparr>n_poll := p\<rparr>)) < M x" by simp
    with Suc.prems have "M (I (fst x, (snd x)\<lparr>n_poll := p\<rparr>)) < fuel" by simp
    from Suc.IH [OF this] True c m show ?thesis by (simp add: on_poll_def Let_def)
  next
    case False
    with c m show ?thesis by (cases "check x"; cases b; cases me) (auto simp: on_poll_def Let_def)
  qed
qed simp

section \<open>Errors that are not passed on\<close>

context blocking_io begin

lemma io_loop_not_again:
  assumes "io_loop check call I fuel x = (Some (Inl e), x')"
    and "\<And>o' p pe p'. call o' p = (Some (Inl pe), p') \<Longrightarrow> \<not> isAgainError pe"
    and "\<And>y. check y \<noteq> Some (PollError pe)" "e = PollError pe"
  shows "\<not> isAgainError pe"
proof -
  from io_loop_outcome [OF assms(1)] assms(3,4) obtain o1 q p pe' where
    "call o1 q = (Some (Inl pe'), p)" "mapIOError (Some pe') = (False, Some e)"
    by auto
  with assms(2,4) show ?thesis by (auto simp: mapIOError_def split: if_splits)
qed

end

end
