(* ===== verification/TcpConn.thy ===== *)
theory TcpConn
  imports NetIO
begin

text \<open>
  \<open>tcpConn\<close> of \<open>conn.go\<close>, a \<open>net.Conn\<close> over a VLS session: reads and writes with deadlines and
  half-close, \<open>Close\<close>, the cached addresses. An operation takes the connection and the state of
  the layer and returns both; \<open>D\<close> is the interface of \<open>vclpoll\<close>, \<open>I\<close> what other goroutines have done
  when a blocking call returns (they may close the connection or move its deadlines).
\<close>

section \<open>State\<close>

record tcpConn =
  tc_id :: nat
  tc_vlsh :: handle
  tc_localAddr :: "inetAddr option"
  tc_peerAddr :: "inetAddr option"
  tc_closed :: bool
  tc_closeOnce :: bool
  tc_tracked :: bool
  tc_readShutdown :: bool
  tc_writeShutdown :: bool
  tc_readShutOnce :: bool
  tc_writeShutOnce :: bool
  tc_readDeadline :: deadlineState
  tc_writeDeadline :: deadlineState

text \<open>\<open>i\<close> is the new object's address.\<close>

definition newTCPConn :: "nat \<Rightarrow> handle \<Rightarrow> 's net \<Rightarrow> tcpConn \<times> 's net" where
  "newTCPConn i h s =
     (let (rd, H) = newDeadlineState (n_heap s);
          (wd, H) = newDeadlineState H
      in (\<lparr>tc_id = i, tc_vlsh = h, tc_localAddr = None, tc_peerAddr = None, tc_closed = False, tc_closeOnce = False,
           tc_tracked = False, tc_readShutdown = False, tc_writeShutdown = False, tc_readShutOnce = False,
           tc_writeShutOnce = False, tc_readDeadline = rd, tc_writeDeadline = wd\<rparr>, s\<lparr>n_heap := H\<rparr>))"

section \<open>Addresses\<close>

definition zeroAddr :: inetAddr where
  "zeroAddr = \<lparr>ia_IP = [], ia_Port = 0\<rparr>"

definition tcp_LocalAddr :: "'s dispatcher \<Rightarrow> tcpConn \<times> 's net \<Rightarrow> net_addr \<times> tcpConn \<times> 's net" where
  "tcp_LocalAddr D x = (case x of (c, s) \<Rightarrow>
     (case tc_localAddr c of
        Some a \<Rightarrow> (TCPAddr a, c, s)
      | None \<Rightarrow>
          if tc_closed c \<or> n_shutdown s then (TCPAddr zeroAddr, c, s)
          else
            (case on_poll (d_getLocalAddr D (tc_vlsh c)) s of
               (Inl e, s) \<Rightarrow> (TCPAddr zeroAddr, c, s)
             | (Inr info, s) \<Rightarrow> (TCPAddr (addrFromInfo info), c\<lparr>tc_localAddr := Some (addrFromInfo info)\<rparr>, s))))"

definition tcp_RemoteAddr :: "'s dispatcher \<Rightarrow> tcpConn \<times> 's net \<Rightarrow> net_addr \<times> tcpConn \<times> 's net" where
  "tcp_RemoteAddr D x = (case x of (c, s) \<Rightarrow>
     (case tc_peerAddr c of
        Some a \<Rightarrow> (TCPAddr a, c, s)
      | None \<Rightarrow>
          if tc_closed c \<or> n_shutdown s then (TCPAddr zeroAddr, c, s)
          else
            (case on_poll (d_getPeerAddr D (tc_vlsh c)) s of
               (Inl e, s) \<Rightarrow> (TCPAddr zeroAddr, c, s)
             | (Inr info, s) \<Rightarrow> (TCPAddr (addrFromInfo info), c\<lparr>tc_peerAddr := Some (addrFromInfo info)\<rparr>, s))))"

text \<open>\<open>opErrorAddr(op, c.RemoteAddr(), err)\<close>.\<close>

definition tcp_opError :: "'s dispatcher \<Rightarrow> string \<Rightarrow> net_error \<Rightarrow> tcpConn \<times> 's net \<Rightarrow> net_error \<times> tcpConn \<times> 's net" where
  "tcp_opError D op e x = (case tcp_RemoteAddr D x of (a, x) \<Rightarrow> (opErrorAddr op (Some a) e, x))"

section \<open>Reading\<close>

definition readStateError :: "tcpConn \<times> 's net \<Rightarrow> net_error option" where
  "readStateError x = ioStateError (tc_closed (fst x)) (tc_readDeadline (fst x)) (snd x)"

definition writeStateError :: "tcpConn \<times> 's net \<Rightarrow> net_error option" where
  "writeStateError x = ioStateError (tc_closed (fst x)) (tc_writeDeadline (fst x)) (snd x)"

text \<open>The checks before each call; \<open>io.EOF\<close> is returned unwrapped.\<close>

definition read_check :: "tcpConn \<times> 's net \<Rightarrow> net_error option" where
  "read_check x = (if tc_readShutdown (fst x) then Some EOF else readStateError x)"

definition tcp_readError :: "'s dispatcher \<Rightarrow> net_error \<Rightarrow> tcpConn \<times> 's net \<Rightarrow> net_error \<times> tcpConn \<times> 's net" where
  "tcp_readError D e x = (if e = EOF then (EOF, x) else tcp_opError D ''read'' e x)"

definition tcp_Read :: "'s dispatcher \<Rightarrow> (tcpConn \<times> 's net \<Rightarrow> tcpConn \<times> 's net) \<Rightarrow> nat \<Rightarrow> nat
    \<Rightarrow> tcpConn \<times> 's net \<Rightarrow> (net_error + u8 list) option \<times> tcpConn \<times> 's net" where
  "tcp_Read D I fuel len x =
     (case read_check x of
        Some e \<Rightarrow> map_prod (Some \<circ> Inl) id (tcp_readError D e x)
      | None \<Rightarrow>
          if len = 0 then (Some (Inr []), x)
          else
            (case io_loop read_check
                    (\<lambda>c. d_readContext D (tc_vlsh c) len (Some (waitChannel (tc_readDeadline c)))) I fuel x of
               (None, x) \<Rightarrow> (None, x)
             | (Some (Inl e), x) \<Rightarrow> map_prod (Some \<circ> Inl) id (tcp_readError D e x)
             | (Some (Inr bs), x) \<Rightarrow> if length bs = 0 then (Some (Inl EOF), x) else (Some (Inr bs), x)))"

section \<open>Writing\<close>

definition write_check :: "tcpConn \<times> 's net \<Rightarrow> net_error option" where
  "write_check x = (if tc_writeShutdown (fst x) then Some StdErrClosed else writeStateError x)"

text \<open>The loop of \<open>Write\<close>: the number of bytes written so far, and the error.\<close>

fun tcp_write_loop :: "'s dispatcher \<Rightarrow> (tcpConn \<times> 's net \<Rightarrow> tcpConn \<times> 's net) \<Rightarrow> nat \<Rightarrow> u8 list \<Rightarrow> nat
    \<Rightarrow> tcpConn \<times> 's net \<Rightarrow> (nat \<times> net_error option) option \<times> tcpConn \<times> 's net" where
  "tcp_write_loop D I 0 b written x = (None, x)"
| "tcp_write_loop D I (Suc fuel) b written x =
     (if \<not> written < length b then (Some (written, None), x)
      else
        (case write_check x of
           Some e \<Rightarrow> map_prod (\<lambda>e. Some (written, Some e)) id (tcp_opError D ''write'' e x)
         | None \<Rightarrow>
             (case on_poll (d_writeContext D (tc_vlsh (fst x)) (drop written b)
                     (Some (waitChannel (tc_writeDeadline (fst x))))) (snd x) of
                (None, s) \<Rightarrow> (None, fst x, s)
              | (Some r, s) \<Rightarrow>
                  (let x = I (fst x, s)
                   in case mapIOError (poll_err r) of
                        (True, _) \<Rightarrow> tcp_write_loop D I fuel b written x
                      | (False, Some e) \<Rightarrow> map_prod (\<lambda>e. Some (written, Some e)) id (tcp_opError D ''write'' e x)
                      | (False, None) \<Rightarrow>
                          if projr r = 0 then
                            map_prod (\<lambda>e. Some (written, Some e)) id (tcp_opError D ''write'' ErrUnexpectedZeroWrite x)
                          else tcp_write_loop D I fuel b (written + projr r) x))))"

definition tcp_Write :: "'s dispatcher \<Rightarrow> (tcpConn \<times> 's net \<Rightarrow> tcpConn \<times> 's net) \<Rightarrow> nat \<Rightarrow> u8 list
    \<Rightarrow> tcpConn \<times> 's net \<Rightarrow> (nat \<times> net_error option) option \<times> tcpConn \<times> 's net" where
  "tcp_Write D I fuel b x =
     (case write_check x of
        Some e \<Rightarrow> map_prod (\<lambda>e. Some (0, Some e)) id (tcp_opError D ''write'' e x)
      | None \<Rightarrow> if length b = 0 then (Some (0, None), x) else tcp_write_loop D I fuel b 0 x)"

section \<open>Half-close and close\<close>

text \<open>The result of \<open>if err != nil return opErrorAddr(\"close\", ...)\<close>.\<close>

definition tcp_closeResult :: "'s dispatcher \<Rightarrow> unit poll_result \<Rightarrow> tcpConn \<times> 's net
    \<Rightarrow> net_error option \<times> tcpConn \<times> 's net" where
  "tcp_closeResult D r x = (case r of Inr _ \<Rightarrow> (None, x)
     | Inl e \<Rightarrow> map_prod Some id (tcp_opError D ''close'' (PollError e) x))"

definition tcp_CloseRead :: "'s dispatcher \<Rightarrow> tcpConn \<times> 's net \<Rightarrow> net_error option \<times> tcpConn \<times> 's net" where
  "tcp_CloseRead D x = (case x of (c, s) \<Rightarrow>
     if tc_closed c then map_prod Some id (tcp_opError D ''close'' StdErrClosed (c, s))
     else if tc_readShutOnce c then (None, c, s)
     else
       (let c = c\<lparr>tc_readShutOnce := True, tc_readShutdown := True\<rparr>;
            (d, s) = on_deadline interrupt (tc_readDeadline c) s;
            c = c\<lparr>tc_readDeadline := d\<rparr>
        in if n_shutdown s then (None, c, s)
           else (let (r, s) = on_poll (d_shutdown D (tc_vlsh c) 0) s in tcp_closeResult D r (c, s))))"

definition tcp_CloseWrite :: "'s dispatcher \<Rightarrow> tcpConn \<times> 's net \<Rightarrow> net_error option \<times> tcpConn \<times> 's net" where
  "tcp_CloseWrite D x = (case x of (c, s) \<Rightarrow>
     if tc_closed c then map_prod Some id (tcp_opError D ''close'' StdErrClosed (c, s))
     else if tc_writeShutOnce c then (None, c, s)
     else
       (let c = c\<lparr>tc_writeShutOnce := True, tc_writeShutdown := True\<rparr>;
            (d, s) = on_deadline interrupt (tc_writeDeadline c) s;
            c = c\<lparr>tc_writeDeadline := d\<rparr>
        in if n_shutdown s then (None, c, s)
           else (let (r, s) = on_poll (d_shutdown D (tc_vlsh c) 1) s in tcp_closeResult D r (c, s))))"

definition tcp_Close :: "'s dispatcher \<Rightarrow> tcpConn \<times> 's net \<Rightarrow> net_error option \<times> tcpConn \<times> 's net" where
  "tcp_Close D x = (case x of (c, s) \<Rightarrow>
     if tc_closeOnce c then (None, c, s)
     else
       (let c = c\<lparr>tc_closeOnce := True, tc_closed := True\<rparr>;
            (d, s) = on_deadline interrupt (tc_readDeadline c) s;
            c = c\<lparr>tc_readDeadline := d\<rparr>;
            (d, s) = on_deadline interrupt (tc_writeDeadline c) s;
            c = c\<lparr>tc_writeDeadline := d\<rparr>;
            (r, s) = (if \<not> n_shutdown s then on_poll (d_close D (tc_vlsh c)) s else (Inr (), s));
            s = (if tc_tracked c then on_live (removeConn (tc_id c)) s else s)
        in tcp_closeResult D r (c, s)))"

section \<open>Deadlines\<close>

definition tcp_SetDeadline :: "'s dispatcher \<Rightarrow> int option \<Rightarrow> tcpConn \<times> 's net
    \<Rightarrow> net_error option \<times> tcpConn \<times> 's net" where
  "tcp_SetDeadline D t x = (case x of (c, s) \<Rightarrow>
     (case closedStateError (tc_closed c) s of
        Some e \<Rightarrow> map_prod Some id (tcp_opError D ''set'' e (c, s))
      | None \<Rightarrow>
          (let (d, s) = on_deadline (dl_set t (n_now s)) (tc_readDeadline c) s;
               (d', s) = on_deadline (dl_set t (n_now s)) (tc_writeDeadline c) s
           in (None, c\<lparr>tc_readDeadline := d, tc_writeDeadline := d'\<rparr>, s))))"

definition tcp_SetReadDeadline :: "'s dispatcher \<Rightarrow> int option \<Rightarrow> tcpConn \<times> 's net
    \<Rightarrow> net_error option \<times> tcpConn \<times> 's net" where
  "tcp_SetReadDeadline D t x = (case x of (c, s) \<Rightarrow>
     (case closedStateError (tc_closed c) s of
        Some e \<Rightarrow> map_prod Some id (tcp_opError D ''set'' e (c, s))
      | None \<Rightarrow>
          (let (d, s) = on_deadline (dl_set t (n_now s)) (tc_readDeadline c) s
           in (None, c\<lparr>tc_readDeadline := d\<rparr>, s))))"

definition tcp_SetWriteDeadline :: "'s dispatcher \<Rightarrow> int option \<Rightarrow> tcpConn \<times> 's net
    \<Rightarrow> net_error option \<times> tcpConn \<times> 's net" where
  "tcp_SetWriteDeadline D t x = (case x of (c, s) \<Rightarrow>
     (case closedStateError (tc_closed c) s of
        Some e \<Rightarrow> map_prod Some id (tcp_opError D ''set'' e (c, s))
      | None \<Rightarrow>
          (let (d, s) = on_deadline (dl_set t (n_now s)) (tc_writeDeadline c) s
           in (None, c\<lparr>tc_writeDeadline := d\<rparr>, s))))"

section \<open>What a write sends\<close>

lemma tcp_RemoteAddr_sel:
  "tc_vlsh (fst (snd (tcp_RemoteAddr D x))) = tc_vlsh (fst x)"
  "n_shutdown (snd (snd (tcp_RemoteAddr D x))) = n_shutdown (snd x)"
  "n_heap (snd (snd (tcp_RemoteAddr D x))) = n_heap (snd x)"
  by (auto simp: tcp_RemoteAddr_def on_poll_def split: prod.splits option.splits sum.splits)

context byte_sink begin

lemma remote_quiet: "sent h (n_poll (snd (snd (tcp_RemoteAddr D x)))) = sent h (n_poll (snd x))"
  using peer_quiet
  by (auto simp: tcp_RemoteAddr_def on_poll_def case_prod_beta split: option.splits sum.splits)

lemma opError_quiet: "sent h (n_poll (snd (snd (tcp_opError D op e x)))) = sent h (n_poll (snd x))"
  using remote_quiet by (simp add: tcp_opError_def case_prod_beta)

text \<open>One round of the loop: it ends and adds nothing, or goes on having added the bytes it counts.\<close>

lemma write_turn:
  assumes I: "\<And>x. sent h (n_poll (snd (I x))) = sent h (n_poll (snd x))" "\<And>x. tc_vlsh (fst (I x)) = tc_vlsh (fst x)"
    and run: "tcp_write_loop D I (Suc fuel) b written x = (Some (n, e), x')" and h: "tc_vlsh (fst x) = h"
  shows "n = written \<and> (e = None \<longrightarrow> length b \<le> n) \<and> sent h (n_poll (snd x')) = sent h (n_poll (snd x))
    \<or> (\<exists>k y. tcp_write_loop D I fuel b (written + k) y = (Some (n, e), x') \<and> tc_vlsh (fst y) = h
        \<and> sent h (n_poll (snd y)) = sent h (n_poll (snd x)) @ take k (drop written b))"
proof -
  have fails: "n = written \<and> e \<noteq> None \<and> sent h (n_poll (snd x')) = sent h (n_poll (snd x))"
    if "map_prod (\<lambda>e. Some (written, Some e)) id (tcp_opError D ''write'' e0 y) = (Some (n, e), x')"
    and "sent h (n_poll (snd y)) = sent h (n_poll (snd x))" for e0 y
    using that opError_quiet [of h "''write''" e0 y] by (cases "tcp_opError D ''write'' e0 y") auto
  show ?thesis
  proof (cases "written < length b \<and> write_check x = None")
    case False
    with run fails [of "the (write_check x)" x] show ?thesis by (auto split: if_splits option.splits)
  next
    case go: True
    let ?call = "d_writeContext D h (drop written b) (Some (waitChannel (tc_writeDeadline (fst x))))"
    obtain q p where q: "?call (n_poll (snd x)) = (q, p)" by fastforce
    let ?x = "I (fst x, (snd x)\<lparr>n_poll := p\<rparr>)"
    have vl: "tc_vlsh (fst ?x) = h" using I(2) h by simp
    consider (blocked) "q = None" | (failed) pe where "q = Some (Inl pe)" | (wrote) k where "q = Some (Inr k)"
      by (metis option.exhaust sum.exhaust)
    then show ?thesis
    proof cases
      case blocked
      with run go q h show ?thesis by (simp add: on_poll_def)
    next
      case (failed pe)
      then have same: "sent h (n_poll (snd ?x)) = sent h (n_poll (snd x))"
        using write_failed [of h "drop written b"] q I(1) by fastforce
      show ?thesis
      proof (cases "poll_err (Inl pe :: nat poll_result)" rule: mapIOError_cases)
        case ok
        then show ?thesis by (simp add: poll_err_def)
      next
        case retry
        with run go q failed h have "tcp_write_loop D I fuel b (written + 0) ?x = (Some (n, e), x')" by (simp add: on_poll_def)
        with vl same show ?thesis by (metis append_Nil2 take_0)
      next
        case (failed e1)
        with run go q \<open>q = Some (Inl pe)\<close> h fails [of e1 ?x] same show ?thesis by (simp add: on_poll_def)
      qed
    next
      case (wrote k)
      then have more: "sent h (n_poll (snd ?x)) = sent h (n_poll (snd x)) @ take k (drop written b)"
        using write_ok [of h "drop written b"] q I(1) by fastforce
      show ?thesis
      proof (cases "k = 0")
        case True
        with run go q wrote h fails [of ErrUnexpectedZeroWrite ?x] more show ?thesis by (simp add: on_poll_def)
      next
        case False
        with run go q wrote h have "tcp_write_loop D I fuel b (written + k) ?x = (Some (n, e), x')" by (simp add: on_poll_def)
        with vl more show ?thesis by blast
      qed
    qed
  qed
qed

lemma write_loop_sends:
  assumes I: "\<And>x. sent h (n_poll (snd (I x))) = sent h (n_poll (snd x))" "\<And>x. tc_vlsh (fst (I x)) = tc_vlsh (fst x)"
    and "tcp_write_loop D I fuel b written x = (Some (n, e), x')" "tc_vlsh (fst x) = h"
  shows "written \<le> n \<and> sent h (n_poll (snd x')) = sent h (n_poll (snd x)) @ take (n - written) (drop written b)
    \<and> (e = None \<longrightarrow> length b \<le> n)"
  using assms(3,4)
proof (induction fuel arbitrary: written x)
  case (Suc fuel)
  from write_turn [OF I Suc.prems] show ?case
  proof (elim disjE exE conjE)
    fix k y assume y: "tcp_write_loop D I fuel b (written + k) y = (Some (n, e), x')" "tc_vlsh (fst y) = h"
      and more: "sent h (n_poll (snd y)) = sent h (n_poll (snd x)) @ take k (drop written b)"
    note ih = Suc.IH [OF y]
    moreover have "take k (drop written b) @ take (n - (written + k)) (drop (written + k) b) = take (n - written) (drop written b)"
      using ih take_add [of k "n - (written + k)" "drop written b"] by (simp add: add.commute)
    ultimately show ?thesis using more by simp
  qed simp
qed simp

lemma write_sends:
  assumes "\<And>x. sent (tc_vlsh c) (n_poll (snd (I x))) = sent (tc_vlsh c) (n_poll (snd x))"
    and "\<And>x. tc_vlsh (fst (I x)) = tc_vlsh (fst x)"
    and run: "tcp_Write D I fuel b (c, s) = (Some (n, e), c', s')"
  shows "sent (tc_vlsh c) (n_poll s') = sent (tc_vlsh c) (n_poll s) @ take n b \<and> (e = None \<longrightarrow> length b \<le> n)"
proof (cases "write_check (c, s)")
  case (Some e0)
  with run opError_quiet [of "tc_vlsh c" "''write''" e0 "(c, s)"] show ?thesis
    by (cases "tcp_opError D ''write'' e0 (c, s)") (auto simp: tcp_Write_def)
next
  case None
  show ?thesis
  proof (cases "b = []")
    case True
    with None run show ?thesis by (simp add: tcp_Write_def)
  next
    case False
    with None run have "tcp_write_loop D I fuel b 0 (c, s) = (Some (n, e), c', s')" by (simp add: tcp_Write_def)
    from write_loop_sends [OF assms(1,2) this] show ?thesis by simp
  qed
qed

end

text \<open>C22. \<open>Write\<close> sends a prefix and says which. Whatever VLS answers, however often deadlines cut a wait
  short, in Mode 3 the bytes VLS took for the session during \<open>Write(b)\<close> are exactly the first
  \<open>n\<close> bytes of \<open>b\<close>, in order and once each, where \<open>n\<close> is the count returned; without an error all
  of \<open>b\<close> was sent. \<open>I\<close>, the other goroutines, must not write to this connection.\<close>

theorem tcp_write_sends_prefix:
  assumes "\<And>x. ps_sent (tc_vlsh c) (n_poll (snd (I x))) = ps_sent (tc_vlsh c) (n_poll (snd x))"
    and "\<And>x. tc_vlsh (fst (I x)) = tc_vlsh (fst x)"
    and "tcp_Write (mode3Dispatcher X) I fuel b (c, s) = (Some (n, e), c', s')"
  shows "ps_sent (tc_vlsh c) (n_poll s') = ps_sent (tc_vlsh c) (n_poll s) @ take n b \<and> (e = None \<longrightarrow> length b \<le> n)"
  by (rule mode3_sink.write_sends [OF assms])

definition demo_net :: "proc_state net" where
  "demo_net = \<lparr>n_poll = proc_init, n_heap = demo_heap, n_now = 5, n_shutdown = False, n_live = newLiveRegistry\<rparr>"

definition demo_tcp :: tcpConn where
  "demo_tcp = (fst (newTCPConn 1 6 demo_net))\<lparr>tc_peerAddr := Some zeroAddr, tc_tracked := True\<rparr>"

lemma demo_tcp_sel [simp]:
  "tc_id demo_tcp = 1" "tc_vlsh demo_tcp = 6" "tc_peerAddr demo_tcp = Some zeroAddr" "tc_closed demo_tcp = False"
  "tc_closeOnce demo_tcp = False" "tc_tracked demo_tcp = True" "tc_readShutdown demo_tcp = False"
  "tc_writeShutdown demo_tcp = False" "tc_readShutOnce demo_tcp = False" "tc_writeShutOnce demo_tcp = False"
  "tc_readDeadline demo_tcp = \<lparr>dl_when = None, dl_ch = 3, dl_closed = False, dl_timer = None\<rparr>"
  "tc_writeDeadline demo_tcp = \<lparr>dl_when = None, dl_ch = 4, dl_closed = False, dl_timer = None\<rparr>"
  by (simp_all add: demo_tcp_def newTCPConn_def newDeadlineState_def new_chan_def demo_heap_def demo_net_def)

lemma demo_net_sel [simp]:
  "n_poll demo_net = proc_init" "n_heap demo_net = demo_heap" "n_now demo_net = 5" "n_shutdown demo_net = False"
  "n_live demo_net = newLiveRegistry"
  by (simp_all add: demo_net_def)

lemma demo_write_once:
  "fst (d_writeContext (mode3Dispatcher demo_disp) 6 [7] ch proc_init) = Some (Inr 1)"
  by (simp add: mode3_sel on_thread_def case_prod_beta mode3WriteContext_def demo_disp_def proc_init_def
      enterVLS_def registerThisThread_def registered_def exitVLS_def vclpoll_write_def vclpoll_register_worker_def
      demo_boot_def eval_nat_numeral)

lemma tcp_write_sends_prefix_witness:
  "ps_sent 6 (n_poll (snd (snd (tcp_Write (mode3Dispatcher demo_disp) id 3 [7] (demo_tcp, demo_net))))) = [7]"
proof -
  obtain p where p: "d_writeContext (mode3Dispatcher demo_disp) 6 [7] (Some 4) proc_init = (Some (Inr 1), p)"
    using demo_write_once [of "Some 4"] by (cases "d_writeContext (mode3Dispatcher demo_disp) 6 [7] (Some 4) proc_init") auto
  have "tcp_Write (mode3Dispatcher demo_disp) id 3 [7] (demo_tcp, demo_net) = (Some (1, None), demo_tcp, demo_net\<lparr>n_poll := p\<rparr>)"
    using p by (simp add: tcp_Write_def write_check_def writeStateError_def ioStateError_def expired_def
        on_poll_def waitChannel_def eval_nat_numeral)
  from tcp_write_sends_prefix [OF _ _ this] this show ?thesis
    by (simp add: ps_sent_def proc_init_def)
qed

section \<open>What a read returns\<close>

text \<open>C37. What \<open>Read\<close> may return, in either mode and whatever happens meanwhile: data VLS delivered to a
  call made while the connection was open, unexpired and not half-closed; \<open>io.EOF\<close>; or an error
  that is \<open>ErrClosed\<close>, a timeout (\<open>IsTimeout\<close> says so), or VLS's own error. It is never \<open>EAGAIN\<close> and
  never the cancellation that deadlines use internally.\<close>

theorem tcp_read_result:
  assumes "tcp_Read (vclpoll X) I fuel len x = (Some r, x')" and "0 < len"
  shows "(\<exists>bs x1 p. r = Inr bs \<and> bs \<noteq> [] \<and> read_check x1 = None \<and> d_readContext (vclpoll X) (tc_vlsh (fst x1)) len
        (Some (waitChannel (tc_readDeadline (fst x1)))) (n_poll (snd x1)) = (Some (Inr bs), p))
    \<or> r = Inl EOF
    \<or> (\<exists>a e. r = Inl (opErrorAddr ''read'' (Some a) e)
        \<and> (e = ErrClosed \<or> e = TimeoutError \<and> IsTimeout (opErrorAddr ''read'' (Some a) e)
           \<or> (\<exists>pe. e = PollError pe \<and> \<not> isAgainError pe \<and> \<not> errors_Is pe ErrWaitCanceled \<and> \<not> errors_Is pe PollErrClosed)))"
proof -
  let ?call = "\<lambda>c. d_readContext (vclpoll X) (tc_vlsh c) len (Some (waitChannel (tc_readDeadline c)))"
  have chk: "e = EOF \<or> e = ErrClosed \<or> e = TimeoutError" if "read_check y = Some e" for y e
    using that by (auto simp: read_check_def readStateError_def ioStateError_def split: if_splits)
  have wrap: "?thesis" if "map_prod (Some \<circ> Inl) id (tcp_readError (vclpoll X) e y) = (Some r, x')"
      "e = EOF \<or> e = ErrClosed \<or> e = TimeoutError \<or> (\<exists>pe. e = PollError pe \<and> \<not> isAgainError pe
         \<and> \<not> errors_Is pe ErrWaitCanceled \<and> \<not> errors_Is pe PollErrClosed)" for e y
    using that by (auto simp: tcp_readError_def tcp_opError_def opErrorAddr_def IsTimeout_def split: prod.splits if_splits)
  show ?thesis
  proof (cases "read_check x")
    case (Some e)
    with assms(1) have "map_prod (Some \<circ> Inl) id (tcp_readError (vclpoll X) e x) = (Some r, x')"
      by (simp add: tcp_Read_def)
    then show ?thesis by (rule wrap) (use chk [OF Some] in auto)
  next
    case None
    obtain q y where q: "io_loop read_check ?call I fuel x = (q, y)"
      by (rule that [OF prod.collapse [symmetric]])
    with assms None obtain r1 where r1: "q = Some r1" by (cases q) (auto simp: tcp_Read_def)
    show ?thesis
    proof (cases r1)
      case (Inl e)
      have "e = EOF \<or> e = ErrClosed \<or> e = TimeoutError \<or> (\<exists>pe. e = PollError pe \<and> \<not> isAgainError pe
         \<and> \<not> errors_Is pe ErrWaitCanceled \<and> \<not> errors_Is pe PollErrClosed)"
        using io_loop_outcome [OF q [unfolded r1]] Inl package.read_again
        by (auto simp: mapIOError_def dest!: chk split: if_splits)
      moreover have "map_prod (Some \<circ> Inl) id (tcp_readError (vclpoll X) e y) = (Some r, x')"
        using assms None q r1 Inl by (simp add: tcp_Read_def)
      ultimately show ?thesis by (intro wrap)
    next
      case (Inr bs)
      then have "r = (if bs = [] then Inl EOF else Inr bs)"
        using assms None q r1 by (auto simp: tcp_Read_def split: if_splits)
      with io_loop_outcome [OF q [unfolded r1]] Inr show ?thesis by auto
    qed
  qed
qed

lemma demo_read_eof:
  "fst (tcp_Read (vclpoll demo_disp) id 3 10 (demo_tcp\<lparr>tc_readShutdown := True\<rparr>, demo_net)) = Some (Inl EOF)"
  by (simp add: tcp_Read_def read_check_def tcp_readError_def)

lemma tcp_read_result_witness:
  "\<exists>e. fst (tcp_Read (vclpoll demo_disp) id 3 10 (demo_tcp, demo_net\<lparr>n_shutdown := True\<rparr>)) = Some (Inl e) \<and> e \<noteq> EOF"
proof -
  let ?r = "tcp_Read (vclpoll demo_disp) id 3 10 (demo_tcp, demo_net\<lparr>n_shutdown := True\<rparr>)"
  obtain r x' where r: "?r = (Some r, x')" and "r = Inl (opErrorAddr ''read'' (Some (TCPAddr zeroAddr)) ErrClosed)"
    by (simp add: tcp_Read_def read_check_def readStateError_def ioStateError_def tcp_readError_def tcp_opError_def
        tcp_RemoteAddr_def)
  with tcp_read_result [OF r] show ?thesis by (auto simp: opErrorAddr_def)
qed

section \<open>Closing\<close>

text \<open>On a closed connection \<open>RemoteAddr\<close> is what is cached, and calls nothing.\<close>

definition peerOrZero :: "tcpConn \<Rightarrow> inetAddr" where
  "peerOrZero c = (case tc_peerAddr c of Some a \<Rightarrow> a | None \<Rightarrow> zeroAddr)"

lemma closed_opError [simp]:
  "tc_closed c \<Longrightarrow> tcp_opError D op e (c, s) = (opErrorAddr op (Some (TCPAddr (peerOrZero c))) e, c, s)"
  by (simp add: tcp_opError_def tcp_RemoteAddr_def peerOrZero_def split: option.split)

lemma closeResult_closed: "tc_closed c \<Longrightarrow> snd (tcp_closeResult D q (c, s)) = (c, s)"
  by (cases q) (simp_all add: tcp_closeResult_def)

lemma interrupt_closes:
  assumes "dl_core p0 had d H"
  shows "waitChannel d \<in> set (closed_chans (snd (interrupt d H)))" "chan_panic (snd (interrupt d H)) = p0"
  using interrupt_result [OF assms prod.collapse [symmetric]] by (simp_all add: dl_core_def waitChannel_def)

lemma interrupt_mono: "set (closed_chans H) \<subseteq> set (closed_chans (snd (interrupt d H)))"
  by (auto simp: interrupt_def closeCurrentLocked_def close_chan_def)

text \<open>The deadlines of a connection are in order, and apart.\<close>

definition deadlines_ok :: "tcpConn \<Rightarrow> chan_heap \<Rightarrow> bool" where
  "deadlines_ok c H \<longleftrightarrow> (\<exists>had had'. dl_core False had (tc_readDeadline c) H \<and> dl_core False had' (tc_writeDeadline c) H
     \<and> set had \<inter> set had' = {})"

lemma interrupt_other:
  assumes "dl_core False had d H" "dl_core False had' d' H" "set had \<inter> set had' = {}"
  shows "dl_core False had' d' (snd (interrupt d H))"
proof -
  have "foreign had' H (snd (interrupt d H))"
    using assms interrupt_result(1) [OF assms(1) prod.collapse [symmetric]]
    by (auto simp: foreign_def interrupt_def closeCurrentLocked_def close_chan_def dl_core_def heap_ok_def dl_stop_timer_def
        split: if_splits)
  then show ?thesis using assms(2) by (auto simp: foreign_def dl_core_def heap_ok_def)
qed

lemma notify_conns: "lr_conns (fst (notifyIfDrained r H)) = lr_conns r"
  "set (closed_chans H) \<subseteq> set (closed_chans (snd (notifyIfDrained r H)))"
  by (auto simp: notifyIfDrained_def close_chan_def split: option.splits)

lemma removeConn_result:
  "c \<notin> set (lr_conns (fst (removeConn c r H)))" "set (closed_chans H) \<subseteq> set (closed_chans (snd (removeConn c r H)))"
  using notify_conns(2) by (auto simp: removeConn_def notify_conns(1) deleteConn_def)

text \<open>Every operation on a closed connection fails without calling VLS.\<close>

lemma closed_operations:
  assumes "tc_closed c"
  shows "\<exists>e. tcp_Read D I fuel len (c, s) = (Some (Inl e), c, s) \<and> (if tc_readShutdown c then e = EOF else net_Is e ErrClosed)"
    and "\<exists>e. tcp_Write D I fuel b (c, s) = (Some (0, Some e), c, s)
      \<and> (if tc_writeShutdown c then net_Is e StdErrClosed else net_Is e ErrClosed)"
    and "\<exists>e. tcp_SetDeadline D t (c, s) = (Some e, c, s) \<and> net_Is e ErrClosed"
  using assms
  by (simp_all add: tcp_Read_def read_check_def readStateError_def ioStateError_def tcp_readError_def
      tcp_Write_def write_check_def writeStateError_def tcp_SetDeadline_def closedStateError_def)

text \<open>\<open>Close\<close> releases the connection once. It closes the VLS session exactly once (not at all when
  the process is shutting down, where the application is destroyed as a whole), wakes the parked
  reader and the parked writer, and leaves the registry; a second \<open>Close\<close> does nothing, and every
  later operation fails without touching VLS.\<close>

theorem tcp_close_releases:
  assumes "\<not> tc_closeOnce c" and ok: "deadlines_ok c (n_heap s)" and run: "tcp_Close D (c, s) = (r, c', s')"
  shows "n_poll s' = (if n_shutdown s then n_poll s else snd (d_close D (tc_vlsh c) (n_poll s)))
    \<and> {waitChannel (tc_readDeadline c), waitChannel (tc_writeDeadline c)} \<subseteq> set (closed_chans (n_heap s'))
    \<and> (tc_tracked c \<longrightarrow> tc_id c \<notin> set (lr_conns (n_live s')))
    \<and> tcp_Close D (c', s') = (None, c', s')
    \<and> (\<forall>I fuel len s2. \<exists>e. tcp_Read D I fuel len (c', s2) = (Some (Inl e), c', s2)
        \<and> (if tc_readShutdown c then e = EOF else net_Is e ErrClosed))
    \<and> (\<forall>I fuel b s2. \<exists>e. tcp_Write D I fuel b (c', s2) = (Some (0, Some e), c', s2)
        \<and> (if tc_writeShutdown c then net_Is e StdErrClosed else net_Is e ErrClosed))
    \<and> (\<forall>t s2. \<exists>e. tcp_SetDeadline D t (c', s2) = (Some e, c', s2) \<and> net_Is e ErrClosed)"
proof -
  obtain had had' where core: "dl_core False had (tc_readDeadline c) (n_heap s)" "dl_core False had' (tc_writeDeadline c) (n_heap s)"
    "set had \<inter> set had' = {}" using ok by (auto simp: deadlines_ok_def)
  let ?H1 = "snd (interrupt (tc_readDeadline c) (n_heap s))"
  let ?H2 = "snd (interrupt (tc_writeDeadline c) ?H1)"
  have w: "waitChannel (tc_readDeadline c) \<in> set (closed_chans ?H2)" "waitChannel (tc_writeDeadline c) \<in> set (closed_chans ?H2)"
    using interrupt_closes(1) [OF core(1)] interrupt_closes(1) [OF interrupt_other [OF core]] interrupt_mono by blast+
  let ?c = "c\<lparr>tc_closeOnce := True, tc_closed := True, tc_readDeadline := fst (interrupt (tc_readDeadline c) (n_heap s)),
     tc_writeDeadline := fst (interrupt (tc_writeDeadline c) ?H1)\<rparr>"
  let ?s2 = "s\<lparr>n_heap := ?H2, n_poll := (if n_shutdown s then n_poll s else snd (d_close D (tc_vlsh c) (n_poll s)))\<rparr>"
  let ?s3 = "if tc_tracked c then on_live (removeConn (tc_id c)) ?s2 else ?s2"
  let ?q = "if n_shutdown s then Inr () else fst (d_close D (tc_vlsh c) (n_poll s))"
  have "(r, c', s') = tcp_closeResult D ?q (?c, ?s3)"
    using run assms(1)
    by (cases "n_shutdown s"; cases "tc_tracked c")
      (simp_all add: tcp_Close_def on_deadline_def on_poll_def case_prod_beta Let_def)
  from arg_cong [OF this, of snd] have "(c', s') = snd (tcp_closeResult D ?q (?c, ?s3))" by simp
  also have "\<dots> = (?c, ?s3)" by (rule closeResult_closed) simp
  finally have "(c', s') = (?c, ?s3)" .
  then have c': "c' = ?c" and s': "s' = ?s3" by simp_all
  have cl: "tc_closed c'" "tc_readShutdown c' = tc_readShutdown c" "tc_writeShutdown c' = tc_writeShutdown c"
    by (simp_all add: c')
  have "n_poll s' = (if n_shutdown s then n_poll s else snd (d_close D (tc_vlsh c) (n_poll s)))" by (simp add: s')
  moreover have "{waitChannel (tc_readDeadline c), waitChannel (tc_writeDeadline c)} \<subseteq> set (closed_chans (n_heap s'))"
    using w removeConn_result(2) [of ?H2 "tc_id c" "n_live s"] by (auto simp: s')
  moreover have "tc_tracked c \<longrightarrow> tc_id c \<notin> set (lr_conns (n_live s'))"
    using removeConn_result(1) by (simp add: s')
  moreover have "tcp_Close D (c', s') = (None, c', s')" by (simp add: tcp_Close_def c')
  ultimately show ?thesis
    using closed_operations [OF cl(1), unfolded cl(2,3)] by (intro conjI allI)
qed

lemma demo_deadlines: "deadlines_ok demo_tcp (snd (newDeadlineState (snd (newDeadlineState demo_heap))))"
  unfolding deadlines_ok_def
  by (rule exI [of _ "[3]"], rule exI [of _ "[4]"])
    (simp add: dl_core_def heap_ok_def newDeadlineState_def new_chan_def demo_heap_def)

lemma tcp_close_releases_witness:
  "waitChannel (tc_readDeadline demo_tcp) \<in> set (closed_chans (n_heap (snd (snd (tcp_Close (vclpoll demo_disp)
     (demo_tcp, demo_net\<lparr>n_heap := snd (newDeadlineState (snd (newDeadlineState demo_heap)))\<rparr>))))))"
proof -
  obtain r c' s' where run: "tcp_Close (vclpoll demo_disp)
     (demo_tcp, demo_net\<lparr>n_heap := snd (newDeadlineState (snd (newDeadlineState demo_heap)))\<rparr>) = (r, c', s')"
    by (rule prod_cases3)
  from tcp_close_releases [OF _ _ run] demo_deadlines run show ?thesis by simp
qed

end
