(* ===== verification/UdpConn.thy ===== *)
theory UdpConn
  imports TcpConn
begin

text \<open>
  \<open>udpConn\<close> of \<open>udpconn.go\<close>: a UDP socket, connected (made by \<open>Dial\<close>) or not. The operations are
  built like those of \<open>TcpConn\<close>; \<open>WriteTo\<close> checks the destination and encodes it for VLS.
\<close>

section \<open>State\<close>

record udpConn =
  uc_id :: nat
  uc_vlsh :: handle
  uc_localAddr :: "inetAddr option"
  uc_peerAddr :: "inetAddr option"
  uc_connected :: bool
  uc_closed :: bool
  uc_closeOnce :: bool
  uc_tracked :: bool
  uc_readDeadline :: deadlineState
  uc_writeDeadline :: deadlineState

definition newUDPConn :: "nat \<Rightarrow> handle \<Rightarrow> inetAddr option \<Rightarrow> bool \<Rightarrow> 's net \<Rightarrow> udpConn \<times> 's net" where
  "newUDPConn i h addr conn s =
     (let (rd, H) = newDeadlineState (n_heap s);
          (wd, H) = newDeadlineState H
      in (\<lparr>uc_id = i, uc_vlsh = h, uc_localAddr = addr, uc_peerAddr = None, uc_connected = conn,
           uc_closed = False, uc_closeOnce = False, uc_tracked = False, uc_readDeadline = rd, uc_writeDeadline = wd\<rparr>,
          s\<lparr>n_heap := H\<rparr>))"

definition localAddrSafe :: "udpConn \<Rightarrow> net_addr" where
  "localAddrSafe c = UDPAddr (case uc_localAddr c of Some a \<Rightarrow> a | None \<Rightarrow> zeroAddr)"

definition remoteAddrSafe :: "udpConn \<Rightarrow> net_addr" where
  "remoteAddrSafe c = UDPAddr (case uc_peerAddr c of Some a \<Rightarrow> a | None \<Rightarrow> zeroAddr)"

definition udp_readStateError :: "udpConn \<times> 's net \<Rightarrow> net_error option" where
  "udp_readStateError x = ioStateError (uc_closed (fst x)) (uc_readDeadline (fst x)) (snd x)"

definition udp_writeStateError :: "udpConn \<times> 's net \<Rightarrow> net_error option" where
  "udp_writeStateError x = ioStateError (uc_closed (fst x)) (uc_writeDeadline (fst x)) (snd x)"

text \<open>\<open>opErrorAddr(op, addr, err)\<close> on the error branch of a result.\<close>

definition udp_result :: "string \<Rightarrow> (udpConn \<Rightarrow> net_addr) \<Rightarrow> ('b \<Rightarrow> 'c)
    \<Rightarrow> (net_error + 'b) option \<times> udpConn \<times> 's net \<Rightarrow> (net_error + 'c) option \<times> udpConn \<times> 's net" where
  "udp_result op addr f r = (case r of
       (None, x) \<Rightarrow> (None, x)
     | (Some (Inl e), x) \<Rightarrow> (Some (Inl (opErrorAddr op (Some (addr (fst x))) e)), x)
     | (Some (Inr a), x) \<Rightarrow> (Some (Inr (f a)), x))"

section \<open>net.PacketConn\<close>

definition udp_ReadFrom :: "'s dispatcher \<Rightarrow> (udpConn \<times> 's net \<Rightarrow> udpConn \<times> 's net) \<Rightarrow> nat \<Rightarrow> nat
    \<Rightarrow> udpConn \<times> 's net \<Rightarrow> (net_error + u8 list \<times> net_addr) option \<times> udpConn \<times> 's net" where
  "udp_ReadFrom D I fuel len x =
     udp_result ''read'' localAddrSafe (\<lambda>(bs, info). (bs, UDPAddr (udpAddrFromInfo info)))
       (io_loop udp_readStateError
         (\<lambda>c. d_recvFromContext D (uc_vlsh c) len (Some (waitChannel (uc_readDeadline c)))) I fuel x)"

text \<open>The destination as VLS takes it: the checks of \<open>WriteTo\<close> from \<open>addr == nil\<close> on.\<close>

definition destInfo :: "net_addr option \<Rightarrow> net_error + AddrInfo" where
  "destInfo addr = (case addr of
       None \<Rightarrow> Inl (AddrError ''nil UDP address'' ''<nil>'')
     | Some (UDPAddr a) \<Rightarrow>
         if ia_Port a < 0 \<or> ia_Port a > 65535 then Inl (AddrErrorOf ''invalid port'' (UDPAddr a))
         else
           (let info = AddrInfo_zero\<lparr>ai_Port := word_of_int (ia_Port a)\<rparr>
            in case To4 (ia_IP a) of
                 Some ip4 \<Rightarrow> Inr (info\<lparr>ai_IsV4 := True, ai_IP := ip4 @ drop 4 (ai_IP info)\<rparr>)
               | None \<Rightarrow>
                   (case To16 (ia_IP a) of
                      Some ip6 \<Rightarrow> Inr (info\<lparr>ai_IP := ip6 @ drop 16 (ai_IP info)\<rparr>)
                    | None \<Rightarrow> Inl (AddrErrorOf ''invalid IP address'' (UDPAddr a))))
     | Some a \<Rightarrow> Inl (AddrErrorOf ''non-UDP address'' a))"

definition udp_WriteTo :: "'s dispatcher \<Rightarrow> (udpConn \<times> 's net \<Rightarrow> udpConn \<times> 's net) \<Rightarrow> nat \<Rightarrow> u8 list
    \<Rightarrow> net_addr option \<Rightarrow> udpConn \<times> 's net \<Rightarrow> (net_error + nat) option \<times> udpConn \<times> 's net" where
  "udp_WriteTo D I fuel p addr x =
     udp_result ''write'' localAddrSafe id
       (case udp_writeStateError x of
          Some e \<Rightarrow> (Some (Inl e), x)
        | None \<Rightarrow>
            if uc_connected (fst x) then (Some (Inl ErrWriteToConnected), x)
            else
              (case destInfo addr of
                 Inl e \<Rightarrow> (Some (Inl e), x)
               | Inr info \<Rightarrow>
                   io_loop udp_writeStateError
                     (\<lambda>c. d_sendToContext D (uc_vlsh c) p info (Some (waitChannel (uc_writeDeadline c)))) I fuel x))"

section \<open>net.Conn\<close>

definition udp_Read :: "'s dispatcher \<Rightarrow> (udpConn \<times> 's net \<Rightarrow> udpConn \<times> 's net) \<Rightarrow> nat \<Rightarrow> nat
    \<Rightarrow> udpConn \<times> 's net \<Rightarrow> (net_error + u8 list) option \<times> udpConn \<times> 's net" where
  "udp_Read D I fuel len x =
     udp_result ''read'' remoteAddrSafe id
       (io_loop udp_readStateError
         (\<lambda>c. d_readContext D (uc_vlsh c) len (Some (waitChannel (uc_readDeadline c)))) I fuel x)"

definition udp_Write :: "'s dispatcher \<Rightarrow> (udpConn \<times> 's net \<Rightarrow> udpConn \<times> 's net) \<Rightarrow> nat \<Rightarrow> u8 list
    \<Rightarrow> udpConn \<times> 's net \<Rightarrow> (net_error + nat) option \<times> udpConn \<times> 's net" where
  "udp_Write D I fuel p x =
     (if udp_writeStateError x = None \<and> \<not> uc_connected (fst x) then
        (Some (Inl (opErrorAddr ''write'' (Some (localAddrSafe (fst x))) ErrMissingPeer)), x)
      else
        udp_result ''write'' remoteAddrSafe id
          (io_loop udp_writeStateError
            (\<lambda>c. d_writeContext D (uc_vlsh c) p (Some (waitChannel (uc_writeDeadline c)))) I fuel x))"

section \<open>Close, addresses, deadlines\<close>

definition udp_Close :: "'s dispatcher \<Rightarrow> udpConn \<times> 's net \<Rightarrow> net_error option \<times> udpConn \<times> 's net" where
  "udp_Close D x = (case x of (c, s) \<Rightarrow>
     if uc_closeOnce c then (None, c, s)
     else
       (let c = c\<lparr>uc_closeOnce := True, uc_closed := True\<rparr>;
            (d, s) = on_deadline interrupt (uc_readDeadline c) s;
            c = c\<lparr>uc_readDeadline := d\<rparr>;
            (d, s) = on_deadline interrupt (uc_writeDeadline c) s;
            c = c\<lparr>uc_writeDeadline := d\<rparr>;
            (r, s) = (if \<not> n_shutdown s then on_poll (d_close D (uc_vlsh c)) s else (Inr (), s));
            s = (if uc_tracked c then on_live (removeConn (uc_id c)) s else s)
        in (case r of Inl e \<Rightarrow> Some (opErrorAddr ''close'' (Some (localAddrSafe c)) (PollError e)) | Inr _ \<Rightarrow> None, c, s)))"

definition udp_LocalAddr :: "'s dispatcher \<Rightarrow> udpConn \<times> 's net \<Rightarrow> net_addr \<times> udpConn \<times> 's net" where
  "udp_LocalAddr D x = (case x of (c, s) \<Rightarrow>
     (case uc_localAddr c of
        Some a \<Rightarrow> (UDPAddr a, c, s)
      | None \<Rightarrow>
          if uc_closed c \<or> n_shutdown s then (UDPAddr zeroAddr, c, s)
          else
            (case on_poll (d_getLocalAddr D (uc_vlsh c)) s of
               (Inl e, s) \<Rightarrow> (UDPAddr zeroAddr, c, s)
             | (Inr info, s) \<Rightarrow> (UDPAddr (udpAddrFromInfo info), c\<lparr>uc_localAddr := Some (udpAddrFromInfo info)\<rparr>, s))))"

definition udp_RemoteAddr :: "udpConn \<Rightarrow> net_addr option" where
  "udp_RemoteAddr c = map_option UDPAddr (uc_peerAddr c)"

text \<open>\<open>SetDeadline\<close> for the deadlines \<open>setR\<close> and \<open>setW\<close> select.\<close>

definition udp_setDeadlines :: "bool \<Rightarrow> bool \<Rightarrow> int option \<Rightarrow> udpConn \<times> 's net \<Rightarrow> net_error option \<times> udpConn \<times> 's net" where
  "udp_setDeadlines setR setW t x = (case x of (c, s) \<Rightarrow>
     (case closedStateError (uc_closed c) s of
        Some e \<Rightarrow> (Some (opErrorAddr ''set'' (Some (remoteAddrSafe c)) e), c, s)
      | None \<Rightarrow>
          (let (d, s) = (if setR then on_deadline (dl_set t (n_now s)) (uc_readDeadline c) s else (uc_readDeadline c, s));
               (d', s) = (if setW then on_deadline (dl_set t (n_now s)) (uc_writeDeadline c) s else (uc_writeDeadline c, s))
           in (None, c\<lparr>uc_readDeadline := d, uc_writeDeadline := d'\<rparr>, s))))"

definition udp_SetDeadline :: "int option \<Rightarrow> udpConn \<times> 's net \<Rightarrow> net_error option \<times> udpConn \<times> 's net" where
  "udp_SetDeadline = udp_setDeadlines True True"

definition udp_SetReadDeadline :: "int option \<Rightarrow> udpConn \<times> 's net \<Rightarrow> net_error option \<times> udpConn \<times> 's net" where
  "udp_SetReadDeadline = udp_setDeadlines True False"

definition udp_SetWriteDeadline :: "int option \<Rightarrow> udpConn \<times> 's net \<Rightarrow> net_error option \<times> udpConn \<times> 's net" where
  "udp_SetWriteDeadline = udp_setDeadlines False True"

section \<open>Where a datagram goes\<close>

lemma destInfo_error: "destInfo addr = Inl e \<Longrightarrow> \<exists>m. e = (case addr of None \<Rightarrow> AddrError m ''<nil>'' | Some a \<Rightarrow> AddrErrorOf m a)"
  by (auto simp: destInfo_def Let_def split: option.splits net_addr.splits if_splits)

text \<open>A destination VLS is given is the one asked for.\<close>

lemma destInfo_roundtrip:
  assumes "destInfo addr = Inr info"
  obtains a where "addr = Some (UDPAddr a)" "0 \<le> ia_Port a" "ia_Port a \<le> 65535"
    "udpAddrFromInfo info = \<lparr>ia_IP = (case To4 (ia_IP a) of Some ip4 \<Rightarrow> ip4 | None \<Rightarrow> ia_IP a), ia_Port = ia_Port a\<rparr>"
    "length (ai_IP info) = 16"
proof -
  from assms obtain a where a: "addr = Some (UDPAddr a)" "0 \<le> ia_Port a" "ia_Port a \<le> 65535"
    by (auto simp: destInfo_def split: option.splits net_addr.splits if_splits)
  have port: "uint (word_of_int (ia_Port a) :: u16) = ia_Port a"
    using a by (simp add: uint_word_of_int)
  have "udpAddrFromInfo info = \<lparr>ia_IP = (case To4 (ia_IP a) of Some ip4 \<Rightarrow> ip4 | None \<Rightarrow> ia_IP a), ia_Port = ia_Port a\<rparr>
    \<and> length (ai_IP info) = 16"
  proof (cases "To4 (ia_IP a)")
    case None
    with assms a have "length (ia_IP a) = 16" "info = AddrInfo_zero\<lparr>ai_Port := word_of_int (ia_Port a), ai_IP := ia_IP a\<rparr>"
      by (auto simp: destInfo_def To16_def To4_def Let_def AddrInfo_zero_def split: if_splits option.splits)
    with None port show ?thesis by (simp add: udpAddrFromInfo_def ipPortFromInfo_def AddrInfo_zero_def)
  next
    case (Some ip4)
    with assms a To4_length [OF Some] port show ?thesis
      by (auto simp: destInfo_def Let_def udpAddrFromInfo_def ipPortFromInfo_def AddrInfo_zero_def)
  qed
  with a that show ?thesis by blast
qed

text \<open>The address VLS reports for one it was given.\<close>

definition normalAddr :: "inetAddr \<Rightarrow> inetAddr" where
  "normalAddr a = \<lparr>ia_IP = (case To4 (ia_IP a) of Some ip4 \<Rightarrow> ip4 | None \<Rightarrow> ia_IP a), ia_Port = ia_Port a\<rparr>"

text \<open>C38. \<open>WriteTo\<close> sends to the address it was given or to none. A destination that is missing, is no UDP
  address, has a port outside \<open>0..65535\<close> or an invalid IP is refused before VLS is called, with an error that names it, as is a
  connected socket; otherwise the datagram goes to VLS with an address that decodes to the one
  given, port included: no truncation.\<close>

theorem udp_writeTo_destination:
  assumes "udp_WriteTo D I fuel p addr (c, s) = (Some r, c', s')" and "udp_writeStateError (c, s) = None"
  shows "(r = Inl (opErrorAddr ''write'' (Some (localAddrSafe c)) ErrWriteToConnected) \<and> (c', s') = (c, s) \<and> uc_connected c)
    \<or> (\<exists>e m. r = Inl (opErrorAddr ''write'' (Some (localAddrSafe c)) e) \<and> e = (case addr of None \<Rightarrow> AddrError m ''<nil>'' | Some a \<Rightarrow> AddrErrorOf m a)
        \<and> destInfo addr = Inl e \<and> (c', s') = (c, s))
    \<or> (\<exists>a info. addr = Some (UDPAddr a) \<and> 0 \<le> ia_Port a \<and> ia_Port a \<le> 65535 \<and> destInfo addr = Inr info
        \<and> udpAddrFromInfo info = normalAddr a \<and> \<not> uc_connected c
        \<and> (\<forall>n. r = Inr n \<longrightarrow> (\<exists>x1 q. udp_writeStateError x1 = None \<and> d_sendToContext D (uc_vlsh (fst x1)) p info
              (Some (waitChannel (uc_writeDeadline (fst x1)))) (n_poll (snd x1)) = (Some (Inr n), q))))"
proof (cases "uc_connected c")
  case True
  with assms show ?thesis by (auto simp: udp_WriteTo_def udp_result_def)
next
  case nc: False
  show ?thesis
  proof (cases "destInfo addr")
    case (Inl e)
    with assms nc destInfo_error [OF Inl] show ?thesis by (auto simp: udp_WriteTo_def udp_result_def)
  next
    case (Inr info)
    let ?call = "\<lambda>c. d_sendToContext D (uc_vlsh c) p info (Some (waitChannel (uc_writeDeadline c)))"
    obtain q y where q: "io_loop udp_writeStateError ?call I fuel (c, s) = (q, y)"
      by (rule that [OF prod.collapse [symmetric]])
    with assms nc Inr have qr: "udp_result ''write'' localAddrSafe id (q, y) = (Some r, c', s')"
      by (simp add: udp_WriteTo_def)
    then obtain r1 where r1: "q = Some r1" by (cases q) (auto simp: udp_result_def)
    have "\<exists>x1 z. udp_writeStateError x1 = None \<and> ?call (fst x1) (n_poll (snd x1)) = (Some (Inr n), z)" if "r = Inr n" for n
      using io_loop_outcome [OF q [unfolded r1]] qr r1 that by (cases r1) (auto simp: udp_result_def)
    then show ?thesis
      using destInfo_roundtrip [OF Inr] Inr nc by (auto simp: normalAddr_def)
  qed
qed

definition demo_udp :: udpConn where
  "demo_udp = fst (newUDPConn 2 6 (Some zeroAddr) False demo_net)"

lemma udp_writeTo_destination_witness:
  "fst (udp_WriteTo (vclpoll demo_disp) id 3 [7] (Some (UDPAddr \<lparr>ia_IP = [10, 0, 0, 1], ia_Port = 65616\<rparr>)) (demo_udp, demo_net))
     = Some (Inl (opErrorAddr ''write'' (Some (UDPAddr zeroAddr)) (AddrErrorOf ''invalid port'' (UDPAddr \<lparr>ia_IP = [10, 0, 0, 1], ia_Port = 65616\<rparr>))))"
proof -
  let ?a = "Some (UDPAddr \<lparr>ia_IP = [10, 0, 0, 1], ia_Port = 65616\<rparr>)"
  have st: "udp_writeStateError (demo_udp, demo_net) = None" "\<not> uc_connected demo_udp" "localAddrSafe demo_udp = UDPAddr zeroAddr"
    by (simp_all add: udp_writeStateError_def ioStateError_def demo_udp_def newUDPConn_def newDeadlineState_def expired_def
        localAddrSafe_def case_prod_beta)
  have dest: "destInfo ?a = Inl (AddrErrorOf ''invalid port'' (the ?a))" by (simp add: destInfo_def)
  obtain q y where q: "udp_WriteTo (vclpoll demo_disp) id 3 [7] ?a (demo_udp, demo_net) = (q, y)"
    by (rule that [OF prod.collapse [symmetric]])
  moreover have "q \<noteq> None" using q st dest by (auto simp: udp_WriteTo_def udp_result_def)
  ultimately obtain r c' s' where "udp_WriteTo (vclpoll demo_disp) id 3 [7] ?a (demo_udp, demo_net) = (Some r, c', s')"
    by (cases y) auto
  from udp_writeTo_destination [OF this st(1)] this st dest show ?thesis by auto
qed

end
