(* ===== verification/PacketConn.thy ===== *)
theory PacketConn
  imports UdpConn "HOL-Library.AList"
begin

text \<open>
  \<open>packetConn\<close> of \<open>packetconn.go\<close>: a \<open>net.PacketConn\<close> over VPP's session-based UDP. The accept loop
  makes a session per peer, each session has a read loop, and both feed the bounded channel
  \<open>incoming\<close> that \<open>ReadFrom\<close> empties. The loops, the readers and \<open>Close\<close> are a step relation; \<open>WriteTo\<close>
  and the deadline setters are functions, as for the other connections.
\<close>

section \<open>Peers\<close>

type_synonym peerKey = "u8 list \<times> u16"

definition addrToKey :: "inetAddr \<Rightarrow> peerKey" where
  "addrToKey a =
     (case To4 (ia_IP a) of
        Some ip4 \<Rightarrow> copy_into 16 ip4
      | None \<Rightarrow> (case To16 (ia_IP a) of Some ip6 \<Rightarrow> copy_into 16 ip6 | None \<Rightarrow> replicate 16 0),
      word_of_int (ia_Port a))"

record peerSession =
  pe_vlsh :: handle
  pe_addr :: inetAddr

record incomingDatagram =
  dg_data :: "u8 list"
  dg_addr :: "inetAddr option"
  dg_err :: "vclpoll_error option"

section \<open>The socket and its goroutines\<close>

text \<open>The accept loop: at the top of its loop, in \<open>AcceptFullContext\<close>, in the send of an error, returned.\<close>

datatype accept_pc = ATop | ACall | ASendErr vclpoll_error | ADone

text \<open>A peer's read loop: at the top, in \<open>ReadContext\<close>, sending an error, about to run \<open>removePeer\<close>,
  sending a datagram, returned.\<close>

datatype peer_pc = RTop | RCall | RSendErr vclpoll_error | RRemove | RSend "u8 list" | RDone

text \<open>\<open>Close\<close>: not called, in \<open>wg.Wait()\<close>, returned.\<close>

datatype close_pc = NotClosing | AwaitLoops | CloseDone

text \<open>\<open>pc_loops\<close>: the sessions accepted, with their read loops; the position stands for the pointer, and
  \<open>pc_peers\<close> maps keys to positions. \<open>pc_reading\<close>: the goroutines in the \<open>select\<close> of \<open>ReadFrom\<close>, by the deadline channel each took;
  \<open>pc_shut\<close> is the ghost list of the positions whose session was handed to \<open>vclpoll.Close\<close>.\<close>

record packetConn =
  pc_id :: nat
  pc_listenerVLSH :: handle
  pc_localAddr :: inetAddr
  pc_closed :: bool
  pc_tracked :: bool
  pc_stopCh :: nat
  pc_peers :: "(peerKey \<times> nat) list"
  pc_incoming :: "incomingDatagram list"
  pc_readDeadline :: deadlineState
  pc_writeDeadline :: deadlineState
  pc_accept :: accept_pc
  pc_loops :: "(peerSession \<times> peer_pc) list"
  pc_close :: close_pc
  pc_reading :: "nat list"
  pc_shut :: "nat list"

abbreviation incoming_cap :: nat where "incoming_cap \<equiv> 64"

definition newPacketConn :: "nat \<Rightarrow> handle \<Rightarrow> inetAddr \<Rightarrow> 's net \<Rightarrow> packetConn \<times> 's net" where
  "newPacketConn i h addr s =
     (let (ch, H) = new_chan (n_heap s);
          (rd, H) = newDeadlineState H;
          (wd, H) = newDeadlineState H
      in (\<lparr>pc_id = i, pc_listenerVLSH = h, pc_localAddr = addr, pc_closed = False, pc_tracked = False, pc_stopCh = ch,
           pc_peers = [], pc_incoming = [], pc_readDeadline = rd, pc_writeDeadline = wd, pc_accept = ATop,
           pc_loops = [], pc_close = NotClosing, pc_reading = [], pc_shut = []\<rparr>, s\<lparr>n_heap := H\<rparr>))"

definition stopped_ch :: "packetConn \<Rightarrow> 's net \<Rightarrow> bool" where
  "stopped_ch c s \<longleftrightarrow> pc_stopCh c \<in> set (closed_chans (n_heap s))"

definition peer_of :: "packetConn \<Rightarrow> nat \<Rightarrow> peerSession" where
  "peer_of c i = fst (pc_loops c ! i)"

definition peer_at :: "packetConn \<Rightarrow> nat \<Rightarrow> peer_pc \<Rightarrow> bool" where
  "peer_at c i q \<longleftrightarrow> i < length (pc_loops c) \<and> snd (pc_loops c ! i) = q"

definition set_peer :: "nat \<Rightarrow> peer_pc \<Rightarrow> packetConn \<Rightarrow> packetConn" where
  "set_peer i q c = c\<lparr>pc_loops := (pc_loops c)[i := (peer_of c i, q)]\<rparr>"

definition send_incoming :: "incomingDatagram \<Rightarrow> packetConn \<Rightarrow> packetConn" where
  "send_incoming dg c = c\<lparr>pc_incoming := pc_incoming c @ [dg]\<rparr>"

definition error_datagram :: "vclpoll_error \<Rightarrow> incomingDatagram" where
  "error_datagram e = \<lparr>dg_data = [], dg_addr = None, dg_err = Some e\<rparr>"

text \<open>\<open>AcceptFullContext\<close> answered a session: it goes into \<open>peers\<close>, and its read loop starts.\<close>

definition add_peer :: "handle \<Rightarrow> AddrInfo \<Rightarrow> packetConn \<Rightarrow> packetConn" where
  "add_peer h info c =
     (let peerAddr = udpAddrFromInfo info;
          key = addrToKey peerAddr;
          ps = \<lparr>pe_vlsh = h, pe_addr = peerAddr\<rparr>
      in c\<lparr>pc_peers := AList.update key (length (pc_loops c)) (pc_peers c),
           pc_loops := pc_loops c @ [(ps, RTop)], pc_accept := ATop\<rparr>)"

text \<open>What both loops do with an error: silent when stopping or closed, sent to the readers otherwise.\<close>

definition reports_error :: "vclpoll_error \<Rightarrow> packetConn \<Rightarrow> 's net \<Rightarrow> bool" where
  "reports_error e c s \<longleftrightarrow> \<not> stopped_ch c s \<and> \<not> errors_Is e PollErrClosed"

definition close_peer :: "'s dispatcher \<Rightarrow> nat \<Rightarrow> packetConn \<times> 's net \<Rightarrow> packetConn \<times> 's net" where
  "close_peer D i x = (case x of (c, s) \<Rightarrow>
     (c\<lparr>pc_shut := i # pc_shut c\<rparr>, snd (on_poll (d_close D (pe_vlsh (peer_of c i))) s)))"

definition removePeer :: "'s dispatcher \<Rightarrow> nat \<Rightarrow> packetConn \<times> 's net \<Rightarrow> packetConn \<times> 's net" where
  "removePeer D i x = (case x of (c, s) \<Rightarrow>
     (let key = addrToKey (pe_addr (peer_of c i));
          c = (if map_of (pc_peers c) key = Some i then c\<lparr>pc_peers := AList.delete key (pc_peers c)\<rparr> else c)
      in close_peer D i (c, s)))"

text \<open>\<open>Close\<close> up to \<open>wg.Wait()\<close>, and from there.\<close>

definition packet_Close_begin :: "packetConn \<times> 's net \<Rightarrow> packetConn \<times> 's net" where
  "packet_Close_begin x = (case x of (c, s) \<Rightarrow>
     (let c = c\<lparr>pc_closed := True, pc_close := AwaitLoops\<rparr>;
          s = s\<lparr>n_heap := close_chan (pc_stopCh c) (n_heap s)\<rparr>;
          (d, s) = on_deadline interrupt (pc_readDeadline c) s;
          c = c\<lparr>pc_readDeadline := d\<rparr>;
          (d, s) = on_deadline interrupt (pc_writeDeadline c) s
      in (c\<lparr>pc_writeDeadline := d\<rparr>, s)))"

definition packet_Close_finish :: "'s dispatcher \<Rightarrow> packetConn \<times> 's net \<Rightarrow> net_error option \<times> packetConn \<times> 's net" where
  "packet_Close_finish D x =
     (let (c, s) = fold (close_peer D) (map snd (pc_peers (fst x))) x;
          c = c\<lparr>pc_peers := []\<rparr>;
          (r, s) = (if \<not> n_shutdown s then on_poll (d_close D (pc_listenerVLSH c)) s else (Inr (), s));
          s = (if pc_tracked c then on_live (removePacketConn (pc_id c)) s else s)
      in (case r of Inl e \<Rightarrow> Some (opErrorAddr ''close'' (Some (UDPAddr (pc_localAddr c))) (PollError e)) | Inr _ \<Rightarrow> None,
          c\<lparr>pc_close := CloseDone\<rparr>, s))"

text \<open>\<open>ReadFrom\<close>: the checks of its loop, and what a reader makes of a datagram.\<close>

definition packet_read_check :: "packetConn \<times> 's net \<Rightarrow> net_error option" where
  "packet_read_check x = ioStateError (pc_closed (fst x)) (pc_readDeadline (fst x)) (snd x)"

definition packet_read_error :: "packetConn \<times> 's net \<Rightarrow> net_error \<Rightarrow> net_error" where
  "packet_read_error x e = opErrorAddr ''read'' (Some (UDPAddr (pc_localAddr (fst x)))) e"

definition packet_deliver :: "packetConn \<Rightarrow> nat \<Rightarrow> incomingDatagram \<Rightarrow> net_error + u8 list \<times> inetAddr option" where
  "packet_deliver c len dg = (case dg_err dg of
       Some e \<Rightarrow> Inl (opErrorAddr ''read'' (Some (UDPAddr (pc_localAddr c))) (PollError e))
     | None \<Rightarrow> Inr (take len (dg_data dg), dg_addr dg))"

text \<open>One reader by itself: \<open>I\<close> is what the others did while it was in the \<open>select\<close>, \<open>ready\<close> the case that was
  chosen, one that cannot proceed leaving it there. Below, readers are steps among the others.\<close>

datatype read_case = FromIncoming | FromDeadline | FromStop

fun packet_ReadFrom :: "(packetConn \<times> 's net \<Rightarrow> packetConn \<times> 's net) \<Rightarrow> (packetConn \<times> 's net \<Rightarrow> read_case) \<Rightarrow> nat \<Rightarrow> nat
    \<Rightarrow> packetConn \<times> 's net \<Rightarrow> (net_error + u8 list \<times> inetAddr option) option \<times> packetConn \<times> 's net" where
  "packet_ReadFrom I ready 0 len x = (None, x)"
| "packet_ReadFrom I ready (Suc fuel) len x =
     (case packet_read_check x of
        Some e \<Rightarrow> (Some (Inl (packet_read_error x e)), x)
      | None \<Rightarrow>
          (let waitCh = waitChannel (pc_readDeadline (fst x));
               (c, s) = I x
           in case ready (c, s) of
                FromIncoming \<Rightarrow>
                  (case pc_incoming c of
                     [] \<Rightarrow> (None, c, s)
                   | dg # q \<Rightarrow> (Some (packet_deliver c len dg), c\<lparr>pc_incoming := q\<rparr>, s))
              | FromDeadline \<Rightarrow>
                  if waitCh \<notin> set (closed_chans (n_heap s)) then (None, c, s)
                  else if expired (n_now s) (pc_readDeadline c)
                    then (Some (Inl (packet_read_error (c, s) TimeoutError)), c, s)
                  else packet_ReadFrom I ready fuel len (c, s)
              | FromStop \<Rightarrow>
                  if stopped_ch c s then (Some (Inl (packet_read_error (c, s) ErrClosed)), c, s) else (None, c, s)))"

text \<open>What a read ends with: a datagram, cut to the buffer, or an error the reader was sent; a timeout of a
  deadline that has passed; or \<open>ErrClosed\<close> of a socket that is closed or shut down.\<close>

lemma packet_ReadFrom_result:
  assumes "packet_ReadFrom I ready fuel len x = (Some r, c, s)"
  shows "(\<exists>dg c0. c = c0\<lparr>pc_incoming := pc_incoming c\<rparr> \<and> pc_incoming c0 = dg # pc_incoming c \<and> r = packet_deliver c0 len dg)
    \<or> r = Inl (packet_read_error (c, s) TimeoutError) \<and> expired (n_now s) (pc_readDeadline c)
    \<or> r = Inl (packet_read_error (c, s) ErrClosed) \<and> (pc_closed c \<or> n_shutdown s \<or> stopped_ch c s)"
  using assms
proof (induction fuel arbitrary: x)
  case (Suc fuel)
  obtain c1 s1 where I: "I x = (c1, s1)" by fastforce
  show ?case
  proof (cases "packet_read_check x")
    case (Some e)
    with Suc.prems show ?thesis by (auto simp: packet_read_check_def ioStateError_def split: if_splits)
  next
    case None
    show ?thesis
    proof (cases "ready (c1, s1)")
      case FromIncoming
      with Suc.prems None I obtain dg q where "pc_incoming c1 = dg # q" "r = packet_deliver c1 len dg" "c = c1\<lparr>pc_incoming := q\<rparr>"
        by (cases "pc_incoming c1") auto
      then show ?thesis by (intro disjI1 exI [of _ dg] exI [of _ c1]) simp
    next
      case FromDeadline
      with Suc.prems None I Suc.IH [of "(c1, s1)"] show ?thesis by (auto simp: Let_def split: if_splits)
    next
      case FromStop
      with Suc.prems None I show ?thesis by (auto simp: Let_def split: if_splits)
    qed
  qed
qed simp

text \<open>One step of the accept loop, a peer's read loop, a reader, \<open>Close\<close>, or of anything else in the
  process, which never clears \<open>shutdownStarted\<close> nor opens a closed channel.\<close>

inductive pk_step :: "'s dispatcher \<Rightarrow> packetConn \<times> 's net \<Rightarrow> packetConn \<times> 's net \<Rightarrow> bool" for D where
  acc_stop: "pc_accept c = ATop \<Longrightarrow> stopped_ch c s \<Longrightarrow> pk_step D (c, s) (c\<lparr>pc_accept := ADone\<rparr>, s)"
| acc_go: "pc_accept c = ATop \<Longrightarrow> \<not> stopped_ch c s \<Longrightarrow> pk_step D (c, s) (c\<lparr>pc_accept := ACall\<rparr>, s)"
| acc_ok: "pc_accept c = ACall \<Longrightarrow>
    on_poll (d_acceptFullContext D (pc_listenerVLSH c) (Some (pc_stopCh c))) s = (Some (h, info, None), s') \<Longrightarrow>
    pk_step D (c, s) (add_peer h info c, s')"
| acc_err: "pc_accept c = ACall \<Longrightarrow>
    on_poll (d_acceptFullContext D (pc_listenerVLSH c) (Some (pc_stopCh c))) s = (Some (h, info, Some e), s') \<Longrightarrow>
    pk_step D (c, s) (c\<lparr>pc_accept := (if reports_error e c s' then ASendErr e else ADone)\<rparr>, s')"
| acc_send: "pc_accept c = ASendErr e \<Longrightarrow> length (pc_incoming c) < incoming_cap \<Longrightarrow>
    pk_step D (c, s) (send_incoming (error_datagram e) (c\<lparr>pc_accept := ADone\<rparr>), s)"
| peer_stop: "peer_at c i RTop \<Longrightarrow> stopped_ch c s \<Longrightarrow> pk_step D (c, s) (set_peer i RDone c, s)"
| peer_go: "peer_at c i RTop \<Longrightarrow> \<not> stopped_ch c s \<Longrightarrow> pk_step D (c, s) (set_peer i RCall c, s)"
| peer_data: "peer_at c i RCall \<Longrightarrow>
    on_poll (d_readContext D (pe_vlsh (peer_of c i)) 65536 (Some (pc_stopCh c))) s = (Some (Inr bs), s') \<Longrightarrow>
    pk_step D (c, s) (set_peer i (RSend bs) c, s')"
| peer_err: "peer_at c i RCall \<Longrightarrow>
    on_poll (d_readContext D (pe_vlsh (peer_of c i)) 65536 (Some (pc_stopCh c))) s = (Some (Inl e), s') \<Longrightarrow>
    pk_step D (c, s) (set_peer i (if reports_error e c s' then RSendErr e else RRemove) c, s')"
| peer_send_err: "peer_at c i (RSendErr e) \<Longrightarrow> length (pc_incoming c) < incoming_cap \<Longrightarrow>
    pk_step D (c, s) (set_peer i RRemove (send_incoming (error_datagram e) c), s)"
| peer_remove: "peer_at c i RRemove \<Longrightarrow> removePeer D i (c, s) = (c', s') \<Longrightarrow> pk_step D (c, s) (set_peer i RDone c', s')"
| peer_send: "peer_at c i (RSend bs) \<Longrightarrow> length (pc_incoming c) < incoming_cap \<Longrightarrow>
    pk_step D (c, s) (set_peer i RTop (send_incoming
      \<lparr>dg_data = bs, dg_addr = Some (pe_addr (peer_of c i)), dg_err = None\<rparr> c), s)"
| peer_send_stop: "peer_at c i (RSend bs) \<Longrightarrow> stopped_ch c s \<Longrightarrow> pk_step D (c, s) (set_peer i RDone c, s)"
| read_begin: "packet_read_check (c, s) = None \<Longrightarrow>
    pk_step D (c, s) (c\<lparr>pc_reading := waitChannel (pc_readDeadline c) # pc_reading c\<rparr>, s)"
| read_take: "ch \<in> set (pc_reading c) \<Longrightarrow> pc_incoming c = dg # q \<Longrightarrow>
    pk_step D (c, s) (c\<lparr>pc_reading := remove1 ch (pc_reading c), pc_incoming := q\<rparr>, s)"
| read_leave: "ch \<in> set (pc_reading c) \<Longrightarrow> stopped_ch c s \<or> ch \<in> set (closed_chans (n_heap s)) \<Longrightarrow>
    pk_step D (c, s) (c\<lparr>pc_reading := remove1 ch (pc_reading c)\<rparr>, s)"
| close_begin: "pc_close c = NotClosing \<Longrightarrow> pk_step D (c, s) (packet_Close_begin (c, s))"
| close_finish: "pc_close c = AwaitLoops \<Longrightarrow> pc_accept c = ADone \<Longrightarrow> list_all (\<lambda>l. snd l = RDone) (pc_loops c) \<Longrightarrow>
    packet_Close_finish D (c, s) = (r, x) \<Longrightarrow> pk_step D (c, s) x"
| others: "n_shutdown s \<longrightarrow> n_shutdown s' \<Longrightarrow> set (closed_chans (n_heap s)) \<subseteq> set (closed_chans (n_heap s')) \<Longrightarrow>
    pk_step D (c, s) (c, s')"

section \<open>WriteTo, LocalAddr, deadlines\<close>

definition packet_result :: "string \<Rightarrow> ('b \<Rightarrow> 'c) \<Rightarrow> (net_error + 'b) option \<times> packetConn \<times> 's net
    \<Rightarrow> (net_error + 'c) option \<times> packetConn \<times> 's net" where
  "packet_result op f r = (case r of
       (None, x) \<Rightarrow> (None, x)
     | (Some (Inl e), x) \<Rightarrow> (Some (Inl (opErrorAddr op (Some (UDPAddr (pc_localAddr (fst x)))) e)), x)
     | (Some (Inr a), x) \<Rightarrow> (Some (Inr (f a)), x))"

definition packet_write_check :: "packetConn \<times> 's net \<Rightarrow> net_error option" where
  "packet_write_check x = ioStateError (pc_closed (fst x)) (pc_writeDeadline (fst x)) (snd x)"

text \<open>The session for a destination: the checks of \<open>WriteTo\<close> and the lookup in \<open>peers\<close>.\<close>

definition destPeer :: "net_addr option \<Rightarrow> packetConn \<Rightarrow> net_error + nat" where
  "destPeer addr c = (case addr of
       None \<Rightarrow> Inl (AddrError ''nil UDP address'' ''<nil>'')
     | Some (UDPAddr a) \<Rightarrow> (case map_of (pc_peers c) (addrToKey a) of None \<Rightarrow> Inl ErrUnknownPeer | Some i \<Rightarrow> Inr i)
     | Some a \<Rightarrow> Inl (AddrErrorOf ''non-UDP address'' a))"

text \<open>The state is checked once before the loop and again only when a wait was cut short, which is the
  order of \<open>io_loop\<close>.\<close>

definition packet_WriteTo :: "'s dispatcher \<Rightarrow> (packetConn \<times> 's net \<Rightarrow> packetConn \<times> 's net) \<Rightarrow> nat \<Rightarrow> u8 list
    \<Rightarrow> net_addr option \<Rightarrow> packetConn \<times> 's net \<Rightarrow> (net_error + nat) option \<times> packetConn \<times> 's net" where
  "packet_WriteTo D I fuel p addr x =
     packet_result ''write'' id
       (case packet_write_check x of
          Some e \<Rightarrow> (Some (Inl e), x)
        | None \<Rightarrow>
            (case destPeer addr (fst x) of
               Inl e \<Rightarrow> (Some (Inl e), x)
             | Inr i \<Rightarrow>
                 (let ps = peer_of (fst x) i
                  in io_loop packet_write_check
                       (\<lambda>c. d_writeContext D (pe_vlsh ps) p (Some (waitChannel (pc_writeDeadline c)))) I fuel x)))"

definition packet_LocalAddr :: "packetConn \<Rightarrow> net_addr" where
  "packet_LocalAddr c = UDPAddr (pc_localAddr c)"

definition packet_setDeadlines :: "bool \<Rightarrow> bool \<Rightarrow> int option \<Rightarrow> packetConn \<times> 's net
    \<Rightarrow> net_error option \<times> packetConn \<times> 's net" where
  "packet_setDeadlines setR setW t x = (case x of (c, s) \<Rightarrow>
     (case closedStateError (pc_closed c) s of
        Some e \<Rightarrow> (Some (opErrorAddr ''set'' (Some (UDPAddr (pc_localAddr c))) e), c, s)
      | None \<Rightarrow>
          (let (d, s) = (if setR then on_deadline (dl_set t (n_now s)) (pc_readDeadline c) s else (pc_readDeadline c, s));
               (d', s) = (if setW then on_deadline (dl_set t (n_now s)) (pc_writeDeadline c) s else (pc_writeDeadline c, s))
           in (None, c\<lparr>pc_readDeadline := d, pc_writeDeadline := d'\<rparr>, s))))"

definition packet_SetDeadline :: "int option \<Rightarrow> packetConn \<times> 's net \<Rightarrow> net_error option \<times> packetConn \<times> 's net" where
  "packet_SetDeadline = packet_setDeadlines True True"

definition packet_SetReadDeadline :: "int option \<Rightarrow> packetConn \<times> 's net \<Rightarrow> net_error option \<times> packetConn \<times> 's net" where
  "packet_SetReadDeadline = packet_setDeadlines True False"

definition packet_SetWriteDeadline :: "int option \<Rightarrow> packetConn \<times> 's net \<Rightarrow> net_error option \<times> packetConn \<times> 's net" where
  "packet_SetWriteDeadline = packet_setDeadlines False True"

section \<open>Every session is closed once\<close>

definition key_of :: "packetConn \<Rightarrow> nat \<Rightarrow> peerKey" where
  "key_of c i = addrToKey (pe_addr (peer_of c i))"

text \<open>A session is closed, is the one \<open>peers\<close> has for its key, or was replaced there by a later one.\<close>

definition peers_ok :: "packetConn \<Rightarrow> bool" where
  "peers_ok c \<longleftrightarrow> distinct (map fst (pc_peers c))
     \<and> (\<forall>k i. map_of (pc_peers c) k = Some i \<longrightarrow> i < length (pc_loops c) \<and> key_of c i = k \<and> i \<notin> set (pc_shut c))
     \<and> distinct (pc_shut c) \<and> (\<forall>i \<in> set (pc_shut c). i < length (pc_loops c))
     \<and> (\<forall>i < length (pc_loops c). i \<in> set (pc_shut c) \<or> map_of (pc_peers c) (key_of c i) = Some i
          \<or> (\<exists>j. i < j \<and> j < length (pc_loops c) \<and> key_of c j = key_of c i))"

text \<open>While the loops run only a loop that has returned has its session closed; afterwards nothing runs.\<close>

definition pk_inv :: "packetConn \<Rightarrow> bool" where
  "pk_inv c \<longleftrightarrow> peers_ok c
     \<and> (pc_close c \<noteq> CloseDone \<longrightarrow> (\<forall>i \<in> set (pc_shut c). snd (pc_loops c ! i) = RDone))
     \<and> (pc_close c = CloseDone \<longrightarrow> pc_accept c = ADone \<and> list_all (\<lambda>l. snd l = RDone) (pc_loops c) \<and> pc_peers c = [])"

lemma peers_okD:
  assumes "peers_ok c"
  shows "map_of (pc_peers c) k = Some i \<Longrightarrow> i < length (pc_loops c) \<and> key_of c i = k \<and> i \<notin> set (pc_shut c)"
    and "i < length (pc_loops c) \<Longrightarrow> i \<in> set (pc_shut c) \<or> map_of (pc_peers c) (key_of c i) = Some i
          \<or> (\<exists>j. i < j \<and> j < length (pc_loops c) \<and> key_of c j = key_of c i)"
    and "distinct (map fst (pc_peers c))" "distinct (pc_shut c)" "i \<in> set (pc_shut c) \<Longrightarrow> i < length (pc_loops c)"
  using assms unfolding peers_ok_def by blast+

lemma peers_okI:
  assumes "distinct (map fst (pc_peers c))"
    and "\<And>k i. map_of (pc_peers c) k = Some i \<Longrightarrow> i < length (pc_loops c) \<and> key_of c i = k \<and> i \<notin> set (pc_shut c)"
    and "distinct (pc_shut c)" "\<And>i. i \<in> set (pc_shut c) \<Longrightarrow> i < length (pc_loops c)"
    and "\<And>i. i < length (pc_loops c) \<Longrightarrow> i \<in> set (pc_shut c) \<or> map_of (pc_peers c) (key_of c i) = Some i
          \<or> (\<exists>j. i < j \<and> j < length (pc_loops c) \<and> key_of c j = key_of c i)"
  shows "peers_ok c"
  using assms unfolding peers_ok_def by blast

lemma peer_atD: "peer_at c i q \<Longrightarrow> i < length (pc_loops c)" "peer_at c i q \<Longrightarrow> snd (pc_loops c ! i) = q"
  by (simp_all add: peer_at_def)

lemma peer_of_set_peer [simp]: "i < length (pc_loops c) \<Longrightarrow> peer_of (set_peer i q c) j = peer_of c j"
  by (cases "i = j") (simp_all add: peer_of_def set_peer_def)

lemma set_peer_sel [simp]:
  "pc_peers (set_peer i q c) = pc_peers c" "pc_shut (set_peer i q c) = pc_shut c"
  "length (pc_loops (set_peer i q c)) = length (pc_loops c)"
  "pc_close (set_peer i q c) = pc_close c" "pc_accept (set_peer i q c) = pc_accept c"
  "pc_incoming (set_peer i q c) = pc_incoming c" "pc_reading (set_peer i q c) = pc_reading c"
  "pc_closed (set_peer i q c) = pc_closed c" "pc_stopCh (set_peer i q c) = pc_stopCh c"
  by (simp_all add: set_peer_def)

lemma send_incoming_sel [simp]:
  "pc_peers (send_incoming d c) = pc_peers c" "pc_shut (send_incoming d c) = pc_shut c"
  "pc_loops (send_incoming d c) = pc_loops c" "pc_close (send_incoming d c) = pc_close c"
  "pc_accept (send_incoming d c) = pc_accept c" "peer_of (send_incoming d c) = peer_of c"
  "pc_incoming (send_incoming d c) = pc_incoming c @ [d]" "pc_reading (send_incoming d c) = pc_reading c"
  "pc_closed (send_incoming d c) = pc_closed c" "pc_stopCh (send_incoming d c) = pc_stopCh c"
  by (simp_all add: send_incoming_def peer_of_def fun_eq_iff)

text \<open>Changes that leave the sessions alone.\<close>

lemma peers_ok_cong:
  assumes "pc_peers c' = pc_peers c" "pc_shut c' = pc_shut c" "length (pc_loops c') = length (pc_loops c)"
    "\<And>i. i < length (pc_loops c) \<Longrightarrow> peer_of c' i = peer_of c i" and ok: "peers_ok c"
  shows "peers_ok c'"
proof -
  have key: "key_of c' i = key_of c i" if "i < length (pc_loops c)" for i by (simp add: key_of_def assms(4) [OF that])
  show ?thesis
    by (rule peers_okI, unfold assms(1-3))
      (use peers_okD [OF ok] key in metis)+
qed

lemma pk_inv_cong:
  assumes "pk_inv c" "pc_peers c' = pc_peers c" "pc_shut c' = pc_shut c" "pc_loops c' = pc_loops c"
    "pc_close c = CloseDone \<or> pc_close c' \<noteq> CloseDone" "pc_close c = CloseDone \<longrightarrow> pc_close c' = CloseDone \<and> pc_accept c' = pc_accept c"
  shows "pk_inv c'"
  using assms(1,5,6) peers_ok_cong [of c' c] by (auto simp: pk_inv_def peer_of_def assms(2-4))

lemma pk_inv_not_done: "pk_inv c \<Longrightarrow> peer_at c i q \<Longrightarrow> q \<noteq> RDone \<Longrightarrow> pc_close c \<noteq> CloseDone \<and> i \<notin> set (pc_shut c)"
  by (auto simp: pk_inv_def peer_at_def list_all_length)

text \<open>A read loop that has not returned moves on.\<close>

lemma pk_inv_set_peer:
  assumes inv: "pk_inv c" and i: "peer_at c i q0" "q0 \<noteq> RDone"
    and c': "pc_peers c' = pc_peers c" "pc_shut c' = pc_shut c" "pc_loops c' = pc_loops c" "pc_close c' = pc_close c"
  shows "pk_inv (set_peer i q c')"
proof -
  from pk_inv_not_done [OF inv i] have nd: "pc_close c \<noteq> CloseDone" "i \<notin> set (pc_shut c)" by simp_all
  have "peer_of c' = peer_of c" by (simp add: peer_of_def c' fun_eq_iff)
  then have "peers_ok (set_peer i q c')"
    using inv peer_atD(1) [OF i(1)] peers_ok_cong [of "set_peer i q c'" c] by (simp add: pk_inv_def c')
  moreover have "snd (pc_loops (set_peer i q c') ! j) = RDone" if "j \<in> set (pc_shut c)" for j
  proof -
    from that nd have "i \<noteq> j" by auto
    with inv nd that show ?thesis by (simp add: pk_inv_def set_peer_def c')
  qed
  ultimately show ?thesis using nd by (simp add: pk_inv_def c')
qed

lemma pk_inv_accept:
  assumes "pk_inv c" "pc_accept c \<noteq> ADone" "pc_peers c' = pc_peers c" "pc_shut c' = pc_shut c" "pc_loops c' = pc_loops c"
    "pc_close c' = pc_close c"
  shows "pk_inv c'"
  using assms by (intro pk_inv_cong [OF assms(1,3-5)]) (auto simp: pk_inv_def)

lemma peers_ok_add:
  assumes ok: "peers_ok c"
  shows "peers_ok (add_peer h info c)"
proof -
  let ?n = "length (pc_loops c)" and ?c = "add_peer h info c"
  let ?k = "addrToKey (udpAddrFromInfo info)"
  have len: "length (pc_loops ?c) = Suc ?n" and peers: "pc_peers ?c = AList.update ?k ?n (pc_peers c)"
    and shut: "pc_shut ?c = pc_shut c"
    by (simp_all add: add_peer_def Let_def)
  have key: "key_of ?c i = key_of c i" if "i < ?n" for i
    using that by (simp add: key_of_def peer_of_def add_peer_def Let_def nth_append)
  have new: "key_of ?c ?n = ?k" by (simp add: key_of_def peer_of_def add_peer_def Let_def)
  have get: "map_of (pc_peers ?c) k = (if k = ?k then Some ?n else map_of (pc_peers c) k)" for k
    by (simp add: peers update_conv')
  show ?thesis
  proof (rule peers_okI, unfold len shut)
    show "distinct (map fst (pc_peers ?c))" using peers_okD(3) [OF ok] by (simp add: peers distinct_update)
    show "distinct (pc_shut c)" by (rule peers_okD(4) [OF ok])
    show "i < Suc ?n" if "i \<in> set (pc_shut c)" for i using peers_okD(5) [OF ok that] by simp
    show "i < Suc ?n \<and> key_of ?c i = k \<and> i \<notin> set (pc_shut c)" if "map_of (pc_peers ?c) k = Some i" for k i
    proof (cases "k = ?k")
      case True
      with that get new peers_okD(5) [OF ok, of ?n] show ?thesis by auto
    next
      case False
      with that get have "map_of (pc_peers c) k = Some i" by simp
      from peers_okD(1) [OF ok this] key show ?thesis by auto
    qed
    show "i \<in> set (pc_shut c) \<or> map_of (pc_peers ?c) (key_of ?c i) = Some i
        \<or> (\<exists>j. i < j \<and> j < Suc ?n \<and> key_of ?c j = key_of ?c i)" if "i < Suc ?n" for i
    proof (cases "i = ?n")
      case True
      with get new show ?thesis by simp
    next
      case False
      with that have i: "i < ?n" by simp
      show ?thesis
      proof (cases "key_of c i = ?k")
        case True
        with i key new show ?thesis by (metis lessI)
      next
        case False
        with peers_okD(2) [OF ok i] get key i show ?thesis by (metis less_SucI)
      qed
    qed
  qed
qed

lemma removePeer_sel:
  assumes "removePeer D i (c, s) = (c', s')"
  shows "pc_loops c' = pc_loops c" "pc_shut c' = i # pc_shut c" "pc_close c' = pc_close c" "pc_accept c' = pc_accept c"
    "pc_incoming c' = pc_incoming c" "pc_reading c' = pc_reading c" "pc_closed c' = pc_closed c" "pc_stopCh c' = pc_stopCh c"
    "pc_peers c' = (if map_of (pc_peers c) (key_of c i) = Some i then AList.delete (key_of c i) (pc_peers c) else pc_peers c)"
    "n_heap s' = n_heap s"
  using assms by (cases "map_of (pc_peers c) (key_of c i) = Some i";
    auto simp: removePeer_def close_peer_def Let_def key_of_def peer_of_def)+

lemma peers_ok_remove:
  assumes ok: "peers_ok c" and i: "i < length (pc_loops c)" "i \<notin> set (pc_shut c)"
    and run: "removePeer D i (c, s) = (c', s')"
  shows "peers_ok c'"
proof -
  note sel = removePeer_sel [OF run]
  have key: "key_of c' j = key_of c j" for j by (simp add: key_of_def peer_of_def sel)
  have get: "map_of (pc_peers c') k = (if k = key_of c i \<and> map_of (pc_peers c) k = Some i then None else map_of (pc_peers c) k)" for k
    by (cases "map_of (pc_peers c) (key_of c i) = Some i") (auto simp: sel(9) delete_conv')
  show ?thesis
  proof (rule peers_okI, unfold sel(1,2) key)
    show "distinct (map fst (pc_peers c'))" using peers_okD(3) [OF ok] by (simp add: sel(9) distinct_delete)
    show "distinct (i # pc_shut c)" using peers_okD(4) [OF ok] i by simp
    show "j < length (pc_loops c)" if "j \<in> set (i # pc_shut c)" for j using that peers_okD(5) [OF ok] i by auto
    show "j < length (pc_loops c) \<and> key_of c j = k \<and> j \<notin> set (i # pc_shut c)" if "map_of (pc_peers c') k = Some j" for k j
    proof -
      from that get have "map_of (pc_peers c) k = Some j" "\<not> (k = key_of c i \<and> j = i)" by (auto split: if_splits)
      with peers_okD(1) [OF ok this(1)] show ?thesis by auto
    qed
    show "j \<in> set (i # pc_shut c) \<or> map_of (pc_peers c') (key_of c j) = Some j
        \<or> (\<exists>l. j < l \<and> l < length (pc_loops c) \<and> key_of c l = key_of c j)" if "j < length (pc_loops c)" for j
      using peers_okD(2) [OF ok that] get by (metis list.set_intros(1,2) option.inject)
  qed
qed

lemma close_peers_sel:
  assumes "fold (close_peer D) is (c, s) = (c', s')"
  shows "pc_loops c' = pc_loops c" "pc_peers c' = pc_peers c" "pc_shut c' = rev is @ pc_shut c" "pc_accept c' = pc_accept c"
    "pc_tracked c' = pc_tracked c"
  using assms by (induction "is" arbitrary: c s) (auto simp: close_peer_def)

lemma packet_Close_finish_sel:
  assumes "packet_Close_finish D (c, s) = (r, c', s')"
  shows "pc_loops c' = pc_loops c" "pc_peers c' = []" "pc_shut c' = rev (map snd (pc_peers c)) @ pc_shut c"
    "pc_accept c' = pc_accept c" "pc_close c' = CloseDone"
  using assms close_peers_sel [of D "map snd (pc_peers c)" c s]
  by (auto simp: packet_Close_finish_def Let_def split: prod.splits if_splits sum.splits)

lemma peers_ok_finish:
  assumes ok: "peers_ok c" and run: "packet_Close_finish D (c, s) = (r, c', s')"
  shows "peers_ok c'"
proof -
  note sel = packet_Close_finish_sel [OF run]
  have key: "key_of c' = key_of c" by (simp add: key_of_def peer_of_def sel fun_eq_iff)
  have mem: "map_of (pc_peers c) k = Some i \<longleftrightarrow> (k, i) \<in> set (pc_peers c)" for k i
    using peers_okD(3) [OF ok] by (rule map_of_eq_Some_iff)
  have dist: "distinct (map snd (pc_peers c))"
  proof -
    have "inj_on snd (set (pc_peers c))"
    proof (rule inj_onI)
      fix x y assume "x \<in> set (pc_peers c)" "y \<in> set (pc_peers c)" "snd x = snd y"
      with peers_okD(1) [OF ok, of "fst x" "snd x"] peers_okD(1) [OF ok, of "fst y" "snd y"] mem show "x = y"
        by (metis prod.collapse)
    qed
    with peers_okD(3) [OF ok] show ?thesis by (simp add: distinct_map)
  qed
  have old: "i < length (pc_loops c) \<and> i \<notin> set (pc_shut c) \<and> map_of (pc_peers c) (key_of c i) = Some i"
    if "i \<in> set (map snd (pc_peers c))" for i
  proof -
    from that obtain k where "(k, i) \<in> set (pc_peers c)" by auto
    then have "map_of (pc_peers c) k = Some i" by (simp only: mem)
    with peers_okD(1) [OF ok this] show ?thesis by auto
  qed
  show ?thesis
  proof (rule peers_okI, unfold sel(1-3) key)
    show "distinct (rev (map snd (pc_peers c)) @ pc_shut c)" using dist peers_okD(4) [OF ok] old by auto
    show "i < length (pc_loops c)" if "i \<in> set (rev (map snd (pc_peers c)) @ pc_shut c)" for i
      using that old peers_okD(5) [OF ok] by auto
    show "i \<in> set (rev (map snd (pc_peers c)) @ pc_shut c) \<or> map_of [] (key_of c i) = Some i
        \<or> (\<exists>j. i < j \<and> j < length (pc_loops c) \<and> key_of c j = key_of c i)" if "i < length (pc_loops c)" for i
      using peers_okD(2) [OF ok that] mem by (metis UnCI image_eqI list.set_map set_append set_rev snd_conv)
  qed simp_all
qed


lemma pk_step_inv:
  assumes "pk_step D x y" "pk_inv (fst x)"
  shows "pk_inv (fst y)"
  using assms
proof (induction rule: pk_step.induct)
  case (acc_ok c s h info s')
  then have "peers_ok (add_peer h info c)" by (simp add: pk_inv_def peers_ok_add)
  moreover have "pc_close c \<noteq> CloseDone" using acc_ok by (auto simp: pk_inv_def)
  moreover have "snd ((pc_loops c @ [l]) ! i) = RDone" if "i \<in> set (pc_shut c)" for i l
    using that acc_ok calculation(2) peers_okD(5) [of c i] by (auto simp: pk_inv_def nth_append)
  ultimately show ?case by (simp add: pk_inv_def add_peer_def Let_def)
next
  case (peer_remove c i s c' s')
  from peer_atD [OF peer_remove.hyps(1)] have i: "i < length (pc_loops c)" "snd (pc_loops c ! i) = RRemove" by simp_all
  from peer_remove.prems have inv: "pk_inv c" by simp
  from pk_inv_not_done [OF inv peer_remove.hyps(1)] have nd: "pc_close c \<noteq> CloseDone" "i \<notin> set (pc_shut c)" by simp_all
  note sel = removePeer_sel [OF peer_remove.hyps(2)]
  have "peers_ok c'" using inv by (intro peers_ok_remove [OF _ i(1) nd(2) peer_remove.hyps(2)]) (simp add: pk_inv_def)
  then have "peers_ok (set_peer i RDone c')" by (rule peers_ok_cong [rotated 4]) (simp_all add: sel i)
  moreover have "snd (pc_loops (set_peer i RDone c') ! j) = RDone" if "j \<in> set (i # pc_shut c)" for j
    using that inv nd i by (cases "i = j") (auto simp: pk_inv_def set_peer_def sel)
  ultimately show ?case using nd by (simp add: pk_inv_def sel)
next
  case (close_finish c s r x)
  obtain c' s' where x: "x = (c', s')" by fastforce
  with close_finish peers_ok_finish [of c D s r c' s'] packet_Close_finish_sel [of D c s r c' s'] show ?case
    by (simp add: pk_inv_def)
next
  case (close_begin c s)
  then show ?case
    by (auto simp: packet_Close_begin_def Let_def case_prod_beta intro: pk_inv_cong)
qed (auto simp: pk_inv_set_peer elim: pk_inv_accept pk_inv_cong)

lemma pk_inv_reach:
  assumes "(pk_step D)\<^sup>*\<^sup>* x y" "pk_inv (fst x)"
  shows "pk_inv (fst y)"
  using assms by (induction rule: rtranclp_induct) (auto intro: pk_step_inv)

lemma pk_inv_new: "pk_inv (fst (newPacketConn i h addr s))"
  by (simp add: pk_inv_def peers_ok_def newPacketConn_def Let_def case_prod_beta)

text \<open>C21. No session is closed twice, and none is forgotten without reason. In every interleaving of the
  accept loop, the read loops, readers and \<open>Close\<close>: each session is handed to \<open>vclpoll.Close\<close> at most
  once and never while its read loop runs; when \<open>Close\<close> has returned, all loops have returned and
  every session is closed, except one whose place in \<open>peers\<close> a later session with the same key took: another session of
  that peer, or one of a different peer whose address \<open>addrToKey\<close> maps to the same key (\<open>addrToKey_families_collide\<close>).\<close>

theorem packet_sessions_closed_once:
  assumes "(pk_step D)\<^sup>*\<^sup>* (newPacketConn i h addr s) (c, s')"
  shows "distinct (pc_shut c)
    \<and> (\<forall>j < length (pc_loops c). j \<in> set (pc_shut c) \<longrightarrow> snd (pc_loops c ! j) = RDone)
    \<and> (pc_close c = CloseDone \<longrightarrow> pc_accept c = ADone \<and> list_all (\<lambda>l. snd l = RDone) (pc_loops c)
      \<and> (\<forall>j < length (pc_loops c). j \<in> set (pc_shut c)
          \<or> (\<exists>l. j < l \<and> l < length (pc_loops c) \<and> key_of c l = key_of c j)))"
proof (intro conjI impI)
  from pk_inv_reach [OF assms pk_inv_new] have inv: "pk_inv c" by simp
  then have ok: "peers_ok c" by (simp add: pk_inv_def)
  show "distinct (pc_shut c)" by (rule peers_okD(4) [OF ok])
  show "\<forall>j < length (pc_loops c). j \<in> set (pc_shut c) \<longrightarrow> snd (pc_loops c ! j) = RDone"
    using inv by (auto simp: pk_inv_def list_all_length)
  assume "pc_close c = CloseDone"
  with inv have fin: "pc_accept c = ADone" "list_all (\<lambda>l. snd l = RDone) (pc_loops c)" "pc_peers c = []"
    by (simp_all add: pk_inv_def)
  then show "pc_accept c = ADone" "list_all (\<lambda>l. snd l = RDone) (pc_loops c)" by simp_all
  show "\<forall>j < length (pc_loops c). j \<in> set (pc_shut c) \<or> (\<exists>l. j < l \<and> l < length (pc_loops c) \<and> key_of c l = key_of c j)"
    using peers_okD(2) [OF ok] fin(3) by auto
qed

text \<open>An interface for examples: the listener answers one session and then, if \<open>once\<close>, an error; reads
  answer a byte.\<close>

definition demo_peers :: "bool \<Rightarrow> proc_state dispatcher" where
  "demo_peers once = (vclpoll demo_disp)\<lparr>
     d_acceptFullContext := \<lambda>h ch p. (Some (7, AddrInfo_zero, if ps_active p = Mode3Selected then None else Some (Errno EINVAL)),
       p\<lparr>ps_active := (if once then Mode2Selected else Mode3Selected)\<rparr>),
     d_readContext := \<lambda>h len ch p. (Some (Inr [1]), p),
     d_close := \<lambda>h p. (Inr (), p)\<rparr>"

definition demo_pc :: "packetConn \<times> proc_state net" where
  "demo_pc = newPacketConn 1 5 zeroAddr demo_net"

lemma demo_peers_sel [simp]:
  "d_acceptFullContext (demo_peers once) h ch p = (Some (7, AddrInfo_zero, if ps_active p = Mode3Selected then None else Some (Errno EINVAL)),
     p\<lparr>ps_active := (if once then Mode2Selected else Mode3Selected)\<rparr>)"
  "d_readContext (demo_peers once) h len ch p = (Some (Inr [1]), p)" "d_close (demo_peers once) h p = (Inr (), p)"
  by (simp_all add: demo_peers_def)

lemma ps_active_init: "ps_active proc_init = Mode3Selected"
  by (simp add: proc_init_def)

lemma demo_pc_unfold:
  obtains c s where "demo_pc = (c, s)" "pc_accept c = ATop" "pc_loops c = []" "pc_peers c = []" "pc_shut c = []"
    "pc_close c = NotClosing" "pc_incoming c = []" "pc_reading c = []" "\<not> stopped_ch c s" "pc_closed c = False"
    "ps_active (n_poll s) = Mode3Selected" "pc_tracked c = False" "n_shutdown s = False"
  by (rule that [OF prod.collapse [symmetric]])
    (simp_all add: demo_pc_def newPacketConn_def Let_def case_prod_beta new_chan_def newDeadlineState_def stopped_ch_def
      demo_net_def demo_heap_def proc_init_def)

lemma close_begin_sel:
  assumes "packet_Close_begin (c, s) = (c', s')"
  shows "pc_accept c' = pc_accept c" "pc_loops c' = pc_loops c" "pc_peers c' = pc_peers c" "pc_shut c' = pc_shut c"
    "pc_close c' = AwaitLoops" "pc_incoming c' = pc_incoming c" "pc_reading c' = pc_reading c" "pc_closed c'"
    "stopped_ch c' s'"
proof -
  have mono: "set (closed_chans H) \<subseteq> set (closed_chans (snd (interrupt d H)))" for d H
    by (auto simp: interrupt_def closeCurrentLocked_def close_chan_def)
  have "pc_stopCh c \<in> set (closed_chans (close_chan (pc_stopCh c) H))" for H by (simp add: close_chan_def)
  then show "stopped_ch c' s'"
    using assms mono by (auto simp: packet_Close_begin_def Let_def case_prod_beta stopped_ch_def subset_iff)
qed (use assms in \<open>auto simp: packet_Close_begin_def Let_def case_prod_beta\<close>)

text \<open>The accept loop takes one more session.\<close>

lemma accept_one:
  assumes "pc_accept c = ATop" "\<not> stopped_ch c s" "ps_active (n_poll s) = Mode3Selected"
  shows "(pk_step (demo_peers once))\<^sup>*\<^sup>* (c, s) (add_peer 7 AddrInfo_zero (c\<lparr>pc_accept := ACall\<rparr>),
    s\<lparr>n_poll := (n_poll s)\<lparr>ps_active := (if once then Mode2Selected else Mode3Selected)\<rparr>\<rparr>)"
proof -
  have "pk_step (demo_peers once) (c, s) (c\<lparr>pc_accept := ACall\<rparr>, s)" using assms by (simp add: pk_step.acc_go)
  moreover have "pk_step (demo_peers once) (c\<lparr>pc_accept := ACall\<rparr>, s) (add_peer 7 AddrInfo_zero (c\<lparr>pc_accept := ACall\<rparr>),
    s\<lparr>n_poll := (n_poll s)\<lparr>ps_active := (if once then Mode2Selected else Mode3Selected)\<rparr>\<rparr>)"
    using assms by (intro pk_step.acc_ok [of _ _ _ 7 AddrInfo_zero]) (simp_all add: on_poll_def)
  ultimately show ?thesis by (meson converse_rtranclp_into_rtranclp r_into_rtranclp)
qed

lemma add_peer_sel [simp]:
  "pc_accept (add_peer h info c) = ATop" "pc_shut (add_peer h info c) = pc_shut c" "pc_close (add_peer h info c) = pc_close c"
  "pc_incoming (add_peer h info c) = pc_incoming c" "pc_reading (add_peer h info c) = pc_reading c"
  "pc_closed (add_peer h info c) = pc_closed c" "pc_stopCh (add_peer h info c) = pc_stopCh c"
  "pc_loops (add_peer h info c) = pc_loops c @ [(\<lparr>pe_vlsh = h, pe_addr = udpAddrFromInfo info\<rparr>, RTop)]"
  "pc_peers (add_peer h info c) = AList.update (addrToKey (udpAddrFromInfo info)) (length (pc_loops c)) (pc_peers c)"
  by (simp_all add: add_peer_def Let_def)

lemma demo_replaced_peer:
  "\<exists>c s. (pk_step (demo_peers False))\<^sup>*\<^sup>* demo_pc (c, s) \<and> pc_close c = CloseDone \<and> length (pc_loops c) = 2
     \<and> pc_peers c = [] \<and> pc_shut c = [1]"
proof -
  let ?D = "demo_peers False"
  obtain c s where init: "demo_pc = (c, s)" "pc_accept c = ATop" "pc_loops c = []" "pc_peers c = []" "pc_shut c = []"
    "pc_close c = NotClosing" "\<not> stopped_ch c s" "ps_active (n_poll s) = Mode3Selected"
    by (rule demo_pc_unfold)
  define c1 where "c1 = add_peer 7 AddrInfo_zero (c\<lparr>pc_accept := ACall\<rparr>)"
  define c2 where "c2 = add_peer 7 AddrInfo_zero (c1\<lparr>pc_accept := ACall\<rparr>)"
  have s: "s\<lparr>n_poll := (n_poll s)\<lparr>ps_active := Mode3Selected\<rparr>\<rparr> = s" using init by simp
  have "(pk_step ?D)\<^sup>*\<^sup>* (c, s) (c1, s)" using accept_one [of c s False] init s by (simp add: c1_def)
  also have "(pk_step ?D)\<^sup>*\<^sup>* (c1, s) (c2, s)"
    using accept_one [of c1 s False] init s by (simp add: c1_def c2_def stopped_ch_def)
  finally have run: "(pk_step ?D)\<^sup>*\<^sup>* (c, s) (c2, s)" .
  obtain c3 s3 where c3: "packet_Close_begin (c2, s) = (c3, s3)" by fastforce
  note sel = close_begin_sel [OF c3]
  have l3: "length (pc_loops c3) = 2" "snd (pc_loops c3 ! 0) = RTop" "snd (pc_loops c3 ! 1) = RTop"
    and p3: "map snd (pc_peers c3) = [1]" and h3: "pc_shut c3 = []" "pc_accept c3 = ATop"
    by (simp_all add: sel c2_def c1_def init)
  define c4 where "c4 = c3\<lparr>pc_accept := ADone\<rparr>"
  define c5 where "c5 = set_peer 0 RDone c4"
  define c6 where "c6 = set_peer 1 RDone c5"
  have "pk_step ?D (c2, s) (c3, s3)" using pk_step.close_begin [of c2 ?D s] c3 init by (simp add: c1_def c2_def)
  moreover have "pk_step ?D (c3, s3) (c4, s3)" unfolding c4_def using h3 sel by (intro pk_step.acc_stop)
  moreover have "pk_step ?D (c4, s3) (c5, s3)" unfolding c5_def using l3 sel
    by (intro pk_step.peer_stop) (simp_all add: peer_at_def c4_def stopped_ch_def)
  moreover have "pk_step ?D (c5, s3) (c6, s3)" unfolding c6_def using l3 sel
    by (intro pk_step.peer_stop) (simp_all add: peer_at_def c5_def c4_def stopped_ch_def set_peer_def)
  moreover obtain r c7 s7 where c7: "packet_Close_finish ?D (c6, s3) = (r, c7, s7)" by (rule prod_cases3)
  moreover have "list_all (\<lambda>l. snd l = RDone) (pc_loops c6)"
    using l3 by (simp add: list_all_length c6_def c5_def c4_def set_peer_def nth_list_update less_2_cases_iff)
  then have "pk_step ?D (c6, s3) (c7, s7)"
    using sel c7 by (intro pk_step.close_finish) (simp_all add: c6_def c5_def c4_def)
  ultimately have "(pk_step ?D)\<^sup>*\<^sup>* (c, s) (c7, s7)" using run by (meson rtranclp.rtrancl_into_rtrancl)
  moreover have "pc_shut c7 = [1]" "length (pc_loops c7) = 2"
    using packet_Close_finish_sel [OF c7] p3 h3 l3 by (simp_all add: c6_def c5_def c4_def)
  ultimately show ?thesis using packet_Close_finish_sel [OF c7] init(1) by metis
qed

lemma packet_sessions_closed_once_witness:
  "\<exists>c s. (pk_step (demo_peers False))\<^sup>*\<^sup>* demo_pc (c, s) \<and> pc_close c = CloseDone \<and> pc_accept c = ADone
     \<and> distinct (pc_shut c) \<and> key_of c 1 = key_of c 0"
proof -
  obtain c s where c: "(pk_step (demo_peers False))\<^sup>*\<^sup>* demo_pc (c, s)" "pc_close c = CloseDone" "length (pc_loops c) = 2"
    "pc_shut c = [1]"
    using demo_replaced_peer by blast
  with packet_sessions_closed_once [of "demo_peers False" 1 5 zeroAddr demo_net c s]
  have all: "distinct (pc_shut c)" "pc_accept c = ADone"
    "\<forall>j < 2. j \<in> {1} \<or> (\<exists>l. j < l \<and> l < 2 \<and> key_of c l = key_of c j)"
    by (simp_all add: demo_pc_def)
  moreover from all(3) [rule_format, of 0] have "\<exists>l. 0 < l \<and> l < 2 \<and> key_of c l = key_of c 0" by simp
  moreover from this have "key_of c 1 = key_of c 0" by (auto simp: less_2_cases_iff)
  ultimately show ?thesis using c by blast
qed

text \<open>The exception is real: a session replaced in \<open>peers\<close> is leaked when the socket is closed. There is
  a run in which two sessions of one peer are accepted, \<open>Close\<close> returns, and the first session was
  never closed, although all loops have returned and nothing refers to it any more.\<close>

theorem packet_replaced_peer_leaks:
  "\<exists>c s. (pk_step (demo_peers False))\<^sup>*\<^sup>* demo_pc (c, s) \<and> pc_close c = CloseDone \<and> length (pc_loops c) = 2
     \<and> pc_peers c = [] \<and> pc_shut c = [1]"
  by (rule demo_replaced_peer)

section \<open>Close may wait for ever\<close>

definition close_blocked :: "packetConn \<Rightarrow> bool" where
  "close_blocked c \<longleftrightarrow> pc_close c = AwaitLoops \<and> pc_closed c \<and> (\<exists>e. pc_accept c = ASendErr e)
     \<and> incoming_cap \<le> length (pc_incoming c) \<and> pc_reading c = []"

lemma close_blocked_step:
  assumes "pk_step D x y" "close_blocked (fst x)"
  shows "close_blocked (fst y)"
  using assms
proof (induction rule: pk_step.induct)
  case (peer_remove c i s c' s')
  with removePeer_sel [OF peer_remove.hyps(2)] show ?case by (simp add: close_blocked_def)
next
  case (close_finish c s r x)
  then show ?case by (auto simp: close_blocked_def)
next
  case (read_begin c s)
  then show ?case by (auto simp: close_blocked_def packet_read_check_def ioStateError_def)
next
  case (close_begin c s)
  then show ?case by (simp add: close_blocked_def)
next
  case (acc_err c s h info e s')
  then show ?case by (auto simp: close_blocked_def)
next
  case (acc_ok c s h info s')
  then show ?case by (auto simp: close_blocked_def)
next
  case (acc_send c e s)
  then show ?case by (auto simp: close_blocked_def)
qed (simp_all add: close_blocked_def)

lemma demo_fill:
  assumes "peer_at c i RTop" "\<not> stopped_ch c s" "length (pc_incoming c) + n \<le> incoming_cap"
  shows "\<exists>c'. (pk_step (demo_peers once))\<^sup>*\<^sup>* (c, s) (c', s) \<and> length (pc_incoming c') = length (pc_incoming c) + n
    \<and> pc_accept c' = pc_accept c \<and> pc_close c' = pc_close c \<and> pc_reading c' = pc_reading c \<and> pc_stopCh c' = pc_stopCh c"
  using assms
proof (induction n arbitrary: c)
  case (Suc n)
  let ?D = "demo_peers once"
  let ?c1 = "set_peer i RCall c" and ?dg = "\<lparr>dg_data = [1], dg_addr = Some (pe_addr (peer_of c i)), dg_err = None\<rparr>"
  let ?c2 = "set_peer i (RSend [1]) ?c1"
  let ?c3 = "set_peer i RTop (send_incoming ?dg ?c2)"
  from peer_atD [OF Suc.prems(1)] have i: "i < length (pc_loops c)" by simp
  have "pk_step ?D (c, s) (?c1, s)" using Suc.prems by (intro pk_step.peer_go)
  moreover have "pk_step ?D (?c1, s) (?c2, s)"
    using i by (intro pk_step.peer_data) (simp_all add: peer_at_def set_peer_def on_poll_def)
  moreover have "pk_step ?D (?c2, s) (?c3, s)"
    using pk_step.peer_send [of ?c2 i "[1]" ?D s] i Suc.prems(3) by (simp add: peer_at_def set_peer_def peer_of_def)
  ultimately have run: "(pk_step ?D)\<^sup>*\<^sup>* (c, s) (?c3, s)" by (meson converse_rtranclp_into_rtranclp rtranclp.rtrancl_refl)
  have "peer_at ?c3 i RTop" using i by (simp add: peer_at_def set_peer_def send_incoming_def)
  moreover have "\<not> stopped_ch ?c3 s" "length (pc_incoming ?c3) + n \<le> incoming_cap"
    using Suc.prems by (simp_all add: stopped_ch_def)
  ultimately obtain c' where "(pk_step ?D)\<^sup>*\<^sup>* (?c3, s) (c', s)" "length (pc_incoming c') = length (pc_incoming ?c3) + n"
    "pc_accept c' = pc_accept ?c3" "pc_close c' = pc_close ?c3" "pc_reading c' = pc_reading ?c3" "pc_stopCh c' = pc_stopCh ?c3"
    using Suc.IH by blast
  with run show ?case by (intro exI [of _ c'] conjI) (auto intro: rtranclp_trans)
qed auto

lemma demo_close_blocked: "\<exists>c s. (pk_step (demo_peers True))\<^sup>*\<^sup>* demo_pc (c, s) \<and> close_blocked c"
proof -
  let ?D = "demo_peers True"
  obtain c s where init: "demo_pc = (c, s)" "pc_accept c = ATop" "pc_loops c = []" "pc_close c = NotClosing"
    "pc_incoming c = []" "pc_reading c = []" "\<not> stopped_ch c s" "ps_active (n_poll s) = Mode3Selected"
    by (rule demo_pc_unfold)
  define c1 where "c1 = add_peer 7 AddrInfo_zero (c\<lparr>pc_accept := ACall\<rparr>)"
  define s1 where "s1 = s\<lparr>n_poll := (n_poll s)\<lparr>ps_active := Mode2Selected\<rparr>\<rparr>"
  have run1: "(pk_step ?D)\<^sup>*\<^sup>* (c, s) (c1, s1)" using accept_one [of c s True] init by (simp add: c1_def s1_def)
  have "peer_at c1 0 RTop" "\<not> stopped_ch c1 s1" "length (pc_incoming c1) + 64 \<le> incoming_cap"
    using init by (simp_all add: c1_def s1_def peer_at_def stopped_ch_def)
  from demo_fill [OF this, of True] obtain c2 where run2: "(pk_step ?D)\<^sup>*\<^sup>* (c1, s1) (c2, s1)" and
    c2: "length (pc_incoming c2) = 64" "pc_accept c2 = ATop" "pc_close c2 = NotClosing" "pc_reading c2 = []" "\<not> stopped_ch c2 s1"
    using init by (auto simp: c1_def s1_def stopped_ch_def)
  define c3 where "c3 = c2\<lparr>pc_accept := ACall\<rparr>"
  define c4 where "c4 = c3\<lparr>pc_accept := ASendErr (Errno EINVAL)\<rparr>"
  obtain c5 s5 where c5: "packet_Close_begin (c4, s1) = (c5, s5)" by fastforce
  have "pk_step ?D (c2, s1) (c3, s1)" unfolding c3_def using c2 by (intro pk_step.acc_go)
  moreover have "reports_error (Errno EINVAL) c3 s1" using c2 by (simp add: reports_error_def c3_def stopped_ch_def)
  then have "pk_step ?D (c3, s1) (c4, s1)"
    using pk_step.acc_err [of c3 ?D s1 7 AddrInfo_zero "Errno EINVAL" s1] c2
    by (simp add: c4_def c3_def s1_def on_poll_def)
  moreover have "pk_step ?D (c4, s1) (c5, s5)"
    using pk_step.close_begin [of c4 ?D s1] c2 c5 by (simp add: c4_def c3_def)
  ultimately have "(pk_step ?D)\<^sup>*\<^sup>* (c, s) (c5, s5)" using run1 run2
    by (meson rtranclp.rtrancl_into_rtrancl rtranclp_trans)
  moreover have "close_blocked c5"
    using close_begin_sel [OF c5] c2 by (simp add: close_blocked_def c4_def c3_def)
  ultimately show ?thesis using init(1) by auto
qed

text \<open>\<open>Close\<close> can wait for ever. Once the accept loop is in its send of an error, the channel is full and no
  goroutine is in \<open>ReadFrom\<close>, a \<open>Close\<close> that has begun never returns, whatever the others do: that
  send, unlike the send of a datagram, does not watch \<open>stopCh\<close>, and a closed socket has no more
  readers. The witness reaches such a state from a new socket.\<close>

theorem packet_close_can_hang:
  assumes "close_blocked (fst x)" and "(pk_step D)\<^sup>*\<^sup>* x y"
  shows "pc_close (fst y) = AwaitLoops"
proof -
  from assms(2,1) have "close_blocked (fst y)" by (induction rule: rtranclp_induct) (auto intro: close_blocked_step)
  then show ?thesis by (simp add: close_blocked_def)
qed

lemma packet_close_can_hang_witness:
  "\<exists>c s. (pk_step (demo_peers True))\<^sup>*\<^sup>* demo_pc (c, s) \<and> pc_close c = AwaitLoops
     \<and> \<not> (\<exists>y. (pk_step (demo_peers True))\<^sup>*\<^sup>* (c, s) y \<and> pc_close (fst y) = CloseDone)"
proof -
  obtain c s where "(pk_step (demo_peers True))\<^sup>*\<^sup>* demo_pc (c, s)" "close_blocked c"
    using demo_close_blocked by blast
  moreover from this have "pc_close (fst y) = AwaitLoops" if "(pk_step (demo_peers True))\<^sup>*\<^sup>* (c, s) y" for y
    using packet_close_can_hang [of "(c, s)" "demo_peers True" y] that by simp
  ultimately show ?thesis by (metis close_pc.distinct(5) rtranclp.rtrancl_refl fst_conv)
qed

section \<open>Keys\<close>

text \<open>For ports in range a key stands for one address, up to the two forms of an IPv4 address and the
  IPv6 address whose bytes begin with an IPv4 one.\<close>

text \<open>The key does not say which family an address is of: an IPv4 peer and an IPv6 peer can share one.\<close>

lemma addrToKey_families_collide:
  assumes "length ip4 = 4" "drop 4 ip6 = replicate 12 0" "take 4 ip6 = ip4" "ia_IP a = ip4" "ia_IP b = ip6" "ia_Port a = ia_Port b"
  shows "addrToKey a = addrToKey b"
proof -
  have ip6: "ip6 = ip4 @ replicate 12 0" using append_take_drop_id [of 4 ip6] assms(2,3) by simp
  then have "\<not> ip6 ! 10 = 0xff" using assms(1) by (simp add: nth_append)
  with assms(1,4-6) ip6 show ?thesis by (simp add: addrToKey_def To4_def To16_def copy_into_def)
qed

lemma addrToKey_port: "snd (addrToKey a) = snd (addrToKey b) \<longleftrightarrow> ia_Port a mod 65536 = ia_Port b mod 65536"
  by (simp add: addrToKey_def word_of_int_eq_iff take_bit_eq_mod)

text \<open>A destination is matched modulo 65536: \<open>WriteTo\<close> to a port outside \<open>0..65535\<close> sends the datagram to the
  peer with the truncated port, where \<open>udpConn.WriteTo\<close> refuses such an address.\<close>

theorem packet_writeTo_truncates_port:
  "packet_WriteTo D I fuel p (Some (UDPAddr a)) x
     = packet_WriteTo D I fuel p (Some (UDPAddr (a\<lparr>ia_Port := ia_Port a mod 65536\<rparr>))) x"
proof -
  have "addrToKey (a\<lparr>ia_Port := ia_Port a mod 65536\<rparr>) = addrToKey a"
    by (simp add: addrToKey_def word_of_int_eq_iff take_bit_eq_mod split: option.split)
  then have "destPeer (Some (UDPAddr (a\<lparr>ia_Port := ia_Port a mod 65536\<rparr>))) c = destPeer (Some (UDPAddr a)) c" for c
    by (simp add: destPeer_def)
  then show ?thesis by (simp only: packet_WriteTo_def)
qed

text \<open>\<open>WriteTo\<close> writes to the session of its destination or to none. A socket that is closed or past
  its deadline, and a destination that is missing, no UDP address or unknown, is refused without a
  call; a result without error is that of a write to a session that was in \<open>peers\<close> under the key of
  the destination.\<close>

theorem packet_writeTo_known_peer:
  assumes "packet_WriteTo D I fuel p addr (c, s) = (Some r, c', s')"
  shows "(\<exists>e. r = Inl (opErrorAddr ''write'' (Some (UDPAddr (pc_localAddr c))) e) \<and> (c', s') = (c, s)
        \<and> (packet_write_check (c, s) = Some e \<or> destPeer addr c = Inl e))
    \<or> (\<exists>a i. addr = Some (UDPAddr a) \<and> map_of (pc_peers c) (addrToKey a) = Some i \<and> packet_write_check (c, s) = None
        \<and> (\<forall>n. r = Inr n \<longrightarrow> (\<exists>y q. packet_write_check y = None \<and> d_writeContext D (pe_vlsh (peer_of c i)) p
              (Some (waitChannel (pc_writeDeadline (fst y)))) (n_poll (snd y)) = (Some (Inr n), q))))"
proof (cases "packet_write_check (c, s)")
  case (Some e)
  with assms show ?thesis by (auto simp: packet_WriteTo_def packet_result_def)
next
  case None
  show ?thesis
  proof (cases "destPeer addr c")
    case (Inl e)
    with None assms show ?thesis by (auto simp: packet_WriteTo_def packet_result_def)
  next
    case (Inr i)
    then obtain a where a: "addr = Some (UDPAddr a)" "map_of (pc_peers c) (addrToKey a) = Some i"
      by (auto simp: destPeer_def simp del: map_of_eq_Some_iff split: option.splits net_addr.splits)
    let ?call = "\<lambda>k. d_writeContext D (pe_vlsh (peer_of c i)) p (Some (waitChannel (pc_writeDeadline k)))"
    obtain q y where q: "io_loop packet_write_check ?call I fuel (c, s) = (q, y)"
      by (rule that [OF prod.collapse [symmetric]])
    with assms None Inr have qr: "packet_result ''write'' id (q, y) = (Some r, c', s')"
      by (simp add: packet_WriteTo_def)
    then obtain r1 where r1: "q = Some r1" by (cases q) (auto simp: packet_result_def)
    have "\<exists>x1 z. packet_write_check x1 = None \<and> ?call (fst x1) (n_poll (snd x1)) = (Some (Inr n), z)" if "r = Inr n" for n
      using io_loop_outcome [OF q [unfolded r1]] qr r1 that by (cases r1) (auto simp: packet_result_def)
    with a None show ?thesis by auto
  qed
qed

lemma packet_writeTo_known_peer_witness:
  "fst (packet_WriteTo (vclpoll demo_disp) id 3 [7] (Some (UDPAddr zeroAddr)) demo_pc)
     = Some (Inl (opErrorAddr ''write'' (Some (UDPAddr (pc_localAddr (fst demo_pc)))) ErrUnknownPeer))"
proof -
  let ?w = "packet_WriteTo (vclpoll demo_disp) id 3 [7] (Some (UDPAddr zeroAddr))"
  obtain c s where c: "demo_pc = (c, s)" "pc_peers c = []" by (rule demo_pc_unfold)
  have "packet_write_check demo_pc = None"
    by (simp add: demo_pc_def newPacketConn_def Let_def case_prod_beta packet_write_check_def ioStateError_def
        newDeadlineState_def expired_def demo_net_def)
  with c(1) have chk: "packet_write_check (c, s) = None" by simp
  have dst: "destPeer (Some (UDPAddr zeroAddr)) c = Inl ErrUnknownPeer" using c by (simp add: destPeer_def)
  have "?w (c, s) = (Some (Inl (opErrorAddr ''write'' (Some (UDPAddr (pc_localAddr c))) ErrUnknownPeer)), c, s)"
    using chk dst by (simp add: packet_WriteTo_def packet_result_def)
  from packet_writeTo_known_peer [OF this] this show ?thesis by (auto simp: c)
qed

end
