(* ===== verification/Ledger.thy ===== *)
theory Ledger
  imports Dispatch
begin

text \<open>
  Who owns a session of \<open>vclpoll\<close>: the contract the functions of the net layer rely on when they
  open and close sessions, as a locale, and its proof for Mode 3. \<open>held h\<close> counts how often the
  handle \<open>h\<close> has been given out and not been closed.
\<close>

section \<open>The contract\<close>

text \<open>What a call leaves the caller with: its result's handle, at most one of them.\<close>

definition accept_handle :: "(handle \<times> AddrInfo \<times> vclpoll_error option) option \<Rightarrow> handle" where
  "accept_handle r = (case r of Some (h, info, None) \<Rightarrow> h | _ \<Rightarrow> -1)"

text \<open>\<open>held\<close> changes by the handle \<open>g\<close>, if that is one.\<close>

definition gains :: "(handle \<Rightarrow> 's \<Rightarrow> int) \<Rightarrow> 's \<Rightarrow> handle \<Rightarrow> 's \<Rightarrow> bool" where
  "gains held p g p' \<longleftrightarrow> (\<forall>h \<ge> 0. held h p' = held h p + owns g h)"

definition loses :: "(handle \<Rightarrow> 's \<Rightarrow> int) \<Rightarrow> 's \<Rightarrow> handle \<Rightarrow> 's \<Rightarrow> bool" where
  "loses held p g p' \<longleftrightarrow> (\<forall>h \<ge> 0. held h p' = held h p - owns g h)"

text \<open>And by \<open>d\<close>, which is what others did meanwhile.\<close>

definition drifts :: "(handle \<Rightarrow> 's \<Rightarrow> int) \<Rightarrow> (handle \<Rightarrow> int) \<Rightarrow> 's \<Rightarrow> handle \<Rightarrow> 's \<Rightarrow> bool" where
  "drifts held d p g p' \<longleftrightarrow> (\<forall>h \<ge> 0. held h p' = held h p + owns g h + d h)"

locale session_ledger =
  fixes D :: "'s dispatcher" and held :: "handle \<Rightarrow> 's \<Rightarrow> int"
  assumes listen_gains: "gains held p (result_handle (fst (d_listenTCP4 D ip4 port b p))) (snd (d_listenTCP4 D ip4 port b p))"
      "gains held p (result_handle (fst (d_listenTCP6 D ip6 port b p))) (snd (d_listenTCP6 D ip6 port b p))"
      "gains held p (result_handle (fst (d_listenTLS4 D ip4 port b ckp p))) (snd (d_listenTLS4 D ip4 port b ckp p))"
      "gains held p (result_handle (fst (d_listenTLS6 D ip6 port b ckp p))) (snd (d_listenTLS6 D ip6 port b ckp p))"
      "gains held p (result_handle (fst (d_bindUDP4 D ip4 port p))) (snd (d_bindUDP4 D ip4 port p))"
      "gains held p (result_handle (fst (d_bindUDP6 D ip6 port p))) (snd (d_bindUDP6 D ip6 port p))"
    and connect_gains: "gains held p (result_handle1 (fst (d_connectTCP4Start D ip4 port p))) (snd (d_connectTCP4Start D ip4 port p))"
      "gains held p (result_handle1 (fst (d_connectTCP6Start D ip6 port p))) (snd (d_connectTCP6Start D ip6 port p))"
      "gains held p (result_handle1 (fst (d_connectUDP4Start D ip4 port p))) (snd (d_connectUDP4Start D ip4 port p))"
      "gains held p (result_handle1 (fst (d_connectUDP6Start D ip6 port p))) (snd (d_connectUDP6Start D ip6 port p))"
      "gains held p (result_handle1 (fst (d_connectTLS4Start D ip4 port ckp cv p))) (snd (d_connectTLS4Start D ip4 port ckp cv p))"
      "gains held p (result_handle1 (fst (d_connectTLS6Start D ip6 port ckp cv p))) (snd (d_connectTLS6Start D ip6 port ckp cv p))"
    and accept_gains: "fst (d_acceptFullContext D h ch p) = Some r \<Longrightarrow>
      gains held p (accept_handle (Some r)) (snd (d_acceptFullContext D h ch p))"
    and close_loses: "loses held p h (snd (d_close D h p))"
    and others_gain_nothing: "gains held p (-1) (snd (d_getLocalAddr D h p))"
      "gains held p (-1) (snd (d_setV6Only D h v p))" "gains held p (-1) (snd (d_sessionConnectError D h p))"
      "gains held p (-1) (snd (d_pollWaitContext D h ev ch p))" "gains held p (-1) (d_wakeVLSH D h p)"
      "gains held p (-1) (snd (d_addCertKeyPair D cert key p))" "gains held p (-1) (snd (d_delCertKeyPair D idx p))"

lemma gains_refl: "g < 0 \<Longrightarrow> gains held p g p"
  by (simp add: gains_def)

lemma gains_trans: "gains held p a q \<Longrightarrow> gains held q b r \<Longrightarrow> a < 0 \<or> b < 0 \<Longrightarrow> gains held p (if a < 0 then b else a) r"
  by (auto simp: gains_def)

lemma gains_none: "gains held p a q \<Longrightarrow> gains held q b r \<Longrightarrow> a < 0 \<Longrightarrow> gains held p b r"
  "gains held p a q \<Longrightarrow> gains held q b r \<Longrightarrow> b < 0 \<Longrightarrow> gains held p a r"
  by (auto simp: gains_def)

lemma gains_loses: "gains held p a q \<Longrightarrow> loses held q a r \<Longrightarrow> c < 0 \<Longrightarrow> gains held p c r"
  by (auto simp: gains_def loses_def)

lemma drifts_none: "drifts held (\<lambda>_. 0) p g p' \<longleftrightarrow> gains held p g p'"
  by (simp add: drifts_def gains_def)

lemma drifts_trans:
  "gains held p g q \<Longrightarrow> drifts held d q (-1) r \<Longrightarrow> drifts held d p g r"
  "drifts held d p (-1) q \<Longrightarrow> gains held q g r \<Longrightarrow> drifts held d p g r"
  "drifts held d p g q \<Longrightarrow> loses held q g r \<Longrightarrow> drifts held d p (-1) r"
  by (auto simp: drifts_def gains_def loses_def)

section \<open>Mode 3 keeps it\<close>

text \<open>The ledger of Mode 3 is the balance of creates, accepts and closes in the thread's history.\<close>

definition ps_held :: "handle \<Rightarrow> proc_state \<Rightarrow> int" where
  "ps_held h s = balance h (ps_hist s)"

lemma on_thread_hist [simp]: "ps_hist (snd (on_thread m s)) = snd (run_state m (ps_hist s))"
  "fst (on_thread m s) = fst (run_state m (ps_hist s))"
  by (simp_all add: on_thread_def case_prod_beta)

lemma gains_thread: "keeps_valid (ps_hist s) g (snd (run_state m (ps_hist s))) \<Longrightarrow> gains ps_held s g (snd (on_thread m s))"
  by (simp add: gains_def keeps_valid_def ps_held_def)

lemma keeps_pin: "(\<And>w. quiet_run w (snd (run_state body w))) \<Longrightarrow> keeps_valid w (-1) (snd (run_state (pin V body) w))"
  by (rule pin_keeps_valid [where H = "\<lambda>_. invalidVLSH"]) (rule keeps_keeps_valid)

lemma accept_full_handle: "accept_handle (map_option accept_full_reply (Some r)) = result_handle1 r"
  by (cases r) (auto simp: accept_full_reply_def accept_handle_def)

lemma mode3_close_loses: "loses ps_held p h (snd (mode3Close X h p))"
proof -
  have "balance k (snd (run_state (pin V (rawClose V h)) w)) = balance k w - (if k = h then 1 else 0)" for k V w
    using enterVLS_quiet [of w V] by (auto simp: pin_def exitVLS_def rawClose_def balance_simps keeps_def)
  then show ?thesis by (auto simp: mode3Close_def mode3Close_vls_def loses_def ps_held_def owns_def)
qed

lemma mode3_pollWait_quiet: "keeps_valid w (-1) (snd (run_state (vcall_rv V (GoEvent (PollWait h ev))) w))"
  by (simp add: keeps_valid_def)

lemma mode3_quiet:
  "keeps_valid w (-1) (snd (run_state (mode3GetLocalAddr V h) w))"
  "keeps_valid w (-1) (snd (run_state (mode3SetV6Only V h v) w))"
  "keeps_valid w (-1) (snd (run_state (mode3SessionConnectError V h) w))"
  "keeps_valid w (-1) (snd (run_state (mode3AddCertKeyPair V cert key) w))"
  "keeps_valid w (-1) (snd (run_state (mode3DelCertKeyPair V idx) w))"
  unfolding mode3GetLocalAddr_def mode3SetV6Only_def mode3SessionConnectError_def mode3AddCertKeyPair_def
    mode3DelCertKeyPair_def
  by (rule keeps_pin; simp add: quiet_simps)+

interpretation mode3_ledger: session_ledger "mode3Dispatcher X" ps_held for X
proof (unfold_locales, goal_cases)
  case (13 h ch p r)
  then obtain r1 where "fst (run_state (mode3AcceptFullContext (de_thread X) (de_fuel X) h) (ps_hist p)) = Some r1"
    "r = accept_full_reply r1"
    by (auto simp: mode3_sel)
  with accept_accounting [OF this(1)] accept_full_handle [of r1] show ?case
    by (simp add: mode3_sel gains_def keeps_def ps_held_def)
qed (simp_all add: mode3_sel gains_thread mode3_create_keeps mode3_connect_start_accounting mode3_close_loses
    mode3_quiet mode3_pollWait_quiet, simp_all add: gains_def ps_held_def)

end
