(* ===== verification/Listening.thy ===== *)
theory Listening
  imports PacketConn Ledger
begin

text \<open>
  Opening and closing listeners (\<open>listener.go\<close>, and \<open>Listen\<close>, \<open>ListenPacket\<close> and the initialisation
  options of \<open>vclnet.go\<close>). Names and strings are resolved by the parameter \<open>R\<close>, sessions opened
  through the interface \<open>D\<close>.
\<close>

section \<open>Contexts\<close>

text \<open>A \<open>context.Context\<close> by its \<open>Done\<close> channel, if any, and the error \<open>Err\<close> answers once that is closed.\<close>

record goContext =
  cx_done :: "nat option"
  cx_cause :: net_error

definition Background :: goContext where
  "Background = \<lparr>cx_done = None, cx_cause = CtxCanceled\<rparr>"

definition ctx_Err :: "goContext \<Rightarrow> 's net \<Rightarrow> net_error option" where
  "ctx_Err ctx s = (case cx_done ctx of
       None \<Rightarrow> None
     | Some ch \<Rightarrow> if ch \<in> set (closed_chans (n_heap s)) then Some (cx_cause ctx) else None)"

section \<open>tcpListener\<close>

record tcpListener =
  tl_id :: nat
  tl_vlsh :: handle
  tl_addr :: inetAddr
  tl_closed :: bool
  tl_closeOnce :: bool
  tl_tracked :: bool
  tl_doneCh :: nat

definition newTCPListener :: "nat \<Rightarrow> handle \<Rightarrow> inetAddr \<Rightarrow> 's net \<Rightarrow> tcpListener \<times> 's net" where
  "newTCPListener i h addr s =
     (let (ch, H) = new_chan (n_heap s)
      in (\<lparr>tl_id = i, tl_vlsh = h, tl_addr = addr, tl_closed = False, tl_closeOnce = False, tl_tracked = False,
           tl_doneCh = ch\<rparr>, s\<lparr>n_heap := H\<rparr>))"

text \<open>\<open>mergedDone\<close>: the merged channel and that of its stop function, if a goroutine merges them.\<close>

definition mergedDone :: "goContext \<Rightarrow> tcpListener \<Rightarrow> 's net \<Rightarrow> (nat \<times> nat option) \<times> 's net" where
  "mergedDone ctx l s =
     (if cx_done ctx = None then ((tl_doneCh l, None), s)
      else
        (let (merged, H) = new_chan (n_heap s);
             (stopCh, H) = new_chan H
         in ((merged, Some stopCh), s\<lparr>n_heap := H\<rparr>)))"

text \<open>The goroutine of \<open>mergedDone\<close> when its \<open>select\<close> is ready; \<open>None\<close> while it waits.\<close>

definition merge_goroutine :: "goContext \<Rightarrow> tcpListener \<Rightarrow> nat \<Rightarrow> nat \<Rightarrow> 's net \<Rightarrow> 's net option" where
  "merge_goroutine ctx l merged stopCh s =
     (if the (cx_done ctx) \<in> set (closed_chans (n_heap s)) \<or> tl_doneCh l \<in> set (closed_chans (n_heap s))
      then Some (s\<lparr>n_heap := close_chan merged (n_heap s)\<rparr>)
      else if stopCh \<in> set (closed_chans (n_heap s)) then Some s
      else None)"

definition stop_merge :: "nat option \<Rightarrow> 's net \<Rightarrow> 's net" where
  "stop_merge stop s = (case stop of None \<Rightarrow> s | Some ch \<Rightarrow> s\<lparr>n_heap := close_chan ch (n_heap s)\<rparr>)"

definition accept_opError :: "tcpListener \<Rightarrow> net_error \<Rightarrow> net_error" where
  "accept_opError l e = opErrorAddr ''accept'' (Some (TCPAddr (tl_addr l))) e"

text \<open>The error of a failed accept.\<close>

definition acceptError :: "goContext \<Rightarrow> vclpoll_error \<Rightarrow> tcpListener \<times> 's net \<Rightarrow> net_error" where
  "acceptError ctx e x = (case x of (l, s) \<Rightarrow> accept_opError l
     (if tl_closed l \<or> n_shutdown s then ErrClosed
      else case ctx_Err ctx s of
             Some ce \<Rightarrow> ce
           | None \<Rightarrow> if errors_Is e PollErrClosed then ErrClosed else PollError e))"

text \<open>A new connection of \<open>AcceptContext\<close>, \<open>dialSingleTCP\<close> and \<open>DialTLSContext\<close>: its peer is known, and it is tracked.\<close>

definition trackedConn :: "nat \<Rightarrow> handle \<Rightarrow> inetAddr \<Rightarrow> 's net \<Rightarrow> tcpConn \<times> 's net" where
  "trackedConn i h peer s =
     (let (c, s) = newTCPConn i h s;
          c = c\<lparr>tc_peerAddr := Some peer\<rparr>;
          s = s\<lparr>n_live := addConn (tc_id c) (n_live s)\<rparr>
      in (c\<lparr>tc_tracked := True\<rparr>, s))"

text \<open>\<open>I\<close>: what other goroutines did to the listener and the rest while the accept waited; \<open>i\<close>: the new
  connection's identity. The outer option: the accept has not returned.\<close>

definition AcceptContext :: "'s dispatcher \<Rightarrow> (tcpListener \<times> 's net \<Rightarrow> tcpListener \<times> 's net) \<Rightarrow> nat \<Rightarrow> goContext
    \<Rightarrow> tcpListener \<times> 's net \<Rightarrow> (net_error + tcpConn) option \<times> tcpListener \<times> 's net" where
  "AcceptContext D I i ctx x = (case x of (l, s) \<Rightarrow>
     if tl_closed l \<or> n_shutdown s then (Some (Inl (accept_opError l ErrClosed)), l, s)
     else (case ctx_Err ctx s of
        Some e \<Rightarrow> (Some (Inl (accept_opError l e)), l, s)
      | None \<Rightarrow>
          (let ((doneCh, stop), s) = mergedDone ctx l s;
               (r, s) = on_poll (d_acceptFullContext D (tl_vlsh l) (Some doneCh)) s
           in case r of
                None \<Rightarrow> (None, l, s)
              | Some (h, info, e) \<Rightarrow>
                  (let (l, s) = I (l, s)
                   in case e of
                        Some e \<Rightarrow> (Some (Inl (acceptError ctx e (l, s))), l, stop_merge stop s)
                      | None \<Rightarrow>
                          (let (c, s) = trackedConn i h (addrFromInfo info) s
                           in (Some (Inr c), l, stop_merge stop s))))))"

definition Accept :: "'s dispatcher \<Rightarrow> (tcpListener \<times> 's net \<Rightarrow> tcpListener \<times> 's net) \<Rightarrow> nat
    \<Rightarrow> tcpListener \<times> 's net \<Rightarrow> (net_error + tcpConn) option \<times> tcpListener \<times> 's net" where
  "Accept D I i = AcceptContext D I i Background"

definition listener_Close :: "'s dispatcher \<Rightarrow> tcpListener \<times> 's net \<Rightarrow> net_error option \<times> tcpListener \<times> 's net" where
  "listener_Close D x = (case x of (l, s) \<Rightarrow>
     if tl_closeOnce l then (None, l, s)
     else
       (let l = l\<lparr>tl_closeOnce := True, tl_closed := True\<rparr>;
            s = s\<lparr>n_heap := close_chan (tl_doneCh l) (n_heap s)\<rparr>;
            (r, s) = (if \<not> n_shutdown s then on_poll (d_close D (tl_vlsh l)) s else (Inr (), s));
            s = (if tl_tracked l then on_live (removeListener (tl_id l)) s else s)
        in (case r of Inl e \<Rightarrow> Some (opErrorAddr ''close'' (Some (TCPAddr (tl_addr l))) (PollError e)) | Inr _ \<Rightarrow> None, l, s)))"

definition Addr :: "tcpListener \<Rightarrow> net_addr" where
  "Addr l = TCPAddr (tl_addr l)"

section \<open>Listen and ListenPacket\<close>

definition defaultBacklog :: int where "defaultBacklog = 128"

text \<open>\<open>copy(ip6[:], addr.IP.To16())\<close>.\<close>

definition array16 :: "u8 list \<Rightarrow> u8 list" where
  "array16 ip = copy_into 16 (case To16 ip of Some ip6 \<Rightarrow> ip6 | None \<Rightarrow> [])"

text \<open>\<open>if err != nil { _ = vclpoll.Close(vlsh) }\<close>\<close>

definition close_after :: "'s dispatcher \<Rightarrow> handle \<Rightarrow> vclpoll_error \<Rightarrow> 's net \<Rightarrow> (net_error + 'a) \<times> 's net" where
  "close_after D h e s = (Inl (PollError e), snd (on_poll (d_close D h) s))"

text \<open>The part \<open>Listen\<close>, \<open>ListenPacket\<close> and \<open>ListenTLS\<close> share: open the session for the family of the
  address, restrict it to IPv6 if asked, and read its local address back; \<open>open4\<close> and \<open>open6\<close> are the
  functions of \<open>vclpoll\<close>.\<close>

definition openBound :: "'s dispatcher \<Rightarrow> (ip4 \<Rightarrow> u16 \<Rightarrow> 's \<Rightarrow> handle poll_result \<times> 's)
    \<Rightarrow> (u8 list \<Rightarrow> u16 \<Rightarrow> 's \<Rightarrow> handle poll_result \<times> 's) \<Rightarrow> bool \<Rightarrow> inetAddr \<Rightarrow> 's net
    \<Rightarrow> (net_error + handle \<times> AddrInfo) \<times> 's net" where
  "openBound D open4 open6 ipv6Only addr s =
     (let port = word_of_int (ia_Port addr);
          (r, s) =
            (case To4 (ia_IP addr) of
               Some ip4 \<Rightarrow>
                 if \<not> ipv6Only then on_poll (open4 (array4 ip4) port) s
                 else on_poll (open6 (array16 (ia_IP addr)) port) s
             | None \<Rightarrow> on_poll (open6 (array16 (ia_IP addr)) port) s)
      in case r of
           Inl e \<Rightarrow> (Inl (PollError e), s)
         | Inr vlsh \<Rightarrow>
             (let (v, s) = (if ipv6Only then on_poll (d_setV6Only D vlsh True) s else (Inr (), s))
              in case v of
                   Inl e \<Rightarrow> close_after D vlsh e s
                 | Inr _ \<Rightarrow>
                     (case on_poll (d_getLocalAddr D vlsh) s of
                        (Inl e, s) \<Rightarrow> close_after D vlsh e s
                      | (Inr info, s) \<Rightarrow> (Inr (vlsh, info), s))))"

text \<open>The checks before: shutdown, the network, its kind, resolution and the port.\<close>

definition listenTarget :: "resolver \<Rightarrow> bool \<Rightarrow> string \<Rightarrow> string \<Rightarrow> 's net \<Rightarrow> net_error + bool \<times> inetAddr" where
  "listenTarget R udp network address s =
     (if n_shutdown s then Inl ErrClosed
      else
        (case parseNetwork network of
           Inl e \<Rightarrow> Inl e
         | Inr (_, ipv6Only) \<Rightarrow>
             if isUDP network \<noteq> udp then Inl (UnknownNetworkError network)
             else
               (case (if udp then resolveUDPAddr R network address else resolveAddr R network address) of
                  Inl e \<Rightarrow> Inl e
                | Inr addr \<Rightarrow>
                    if ia_Port addr = 0 then Inl (AddrError ''port 0 is not supported by VCL'' address)
                    else Inr (ipv6Only, addr))))"

definition listen_opError :: "string \<Rightarrow> string \<Rightarrow> net_error + 'a \<Rightarrow> net_error + 'a" where
  "listen_opError network address r = (case r of Inl e \<Rightarrow> Inl (opError ''listen'' network address e) | Inr a \<Rightarrow> Inr a)"

text \<open>The end of \<open>Listen\<close> and \<open>ListenTLS\<close>.\<close>

definition trackedListener :: "nat \<Rightarrow> handle \<Rightarrow> AddrInfo \<Rightarrow> 's net \<Rightarrow> tcpListener \<times> 's net" where
  "trackedListener i h info s =
     (let (l, s) = newTCPListener i h (addrFromInfo info) s;
          s = s\<lparr>n_live := addListener (tl_id l) (n_live s)\<rparr>
      in (l\<lparr>tl_tracked := True\<rparr>, s))"

definition Listen :: "'s dispatcher \<Rightarrow> resolver \<Rightarrow> nat \<Rightarrow> string \<Rightarrow> string \<Rightarrow> 's net \<Rightarrow> (net_error + tcpListener) \<times> 's net" where
  "Listen D R i network address s =
     (case listenTarget R False network address s of
        Inl e \<Rightarrow> (listen_opError network address (Inl e), s)
      | Inr (ipv6Only, addr) \<Rightarrow>
          (case openBound D (\<lambda>ip p. d_listenTCP4 D ip p defaultBacklog) (\<lambda>ip p. d_listenTCP6 D ip p defaultBacklog)
                  ipv6Only addr s of
             (Inl e, s) \<Rightarrow> (listen_opError network address (Inl e), s)
           | (Inr (vlsh, info), s) \<Rightarrow> map_prod Inr id (trackedListener i vlsh info s)))"

text \<open>\<open>TCPListener\<close> forwards to the listener it wraps.\<close>

record TCPListener =
  tcp_inner :: tcpListener

definition ListenContext :: "'s dispatcher \<Rightarrow> resolver \<Rightarrow> nat \<Rightarrow> string \<Rightarrow> string \<Rightarrow> 's net \<Rightarrow> (net_error + TCPListener) \<times> 's net" where
  "ListenContext D R i network address s =
     (case Listen D R i network address s of
        (Inl e, s) \<Rightarrow> (Inl e, s)
      | (Inr l, s) \<Rightarrow> (Inr \<lparr>tcp_inner = l\<rparr>, s))"

definition with_inner :: "(tcpListener \<times> 's net \<Rightarrow> 'a \<times> tcpListener \<times> 's net) \<Rightarrow> TCPListener \<times> 's net \<Rightarrow> 'a \<times> TCPListener \<times> 's net" where
  "with_inner f x = (let (r, l, s) = f (tcp_inner (fst x), snd x) in (r, \<lparr>tcp_inner = l\<rparr>, s))"

definition TCPListener_Accept :: "'s dispatcher \<Rightarrow> (tcpListener \<times> 's net \<Rightarrow> tcpListener \<times> 's net) \<Rightarrow> nat
    \<Rightarrow> TCPListener \<times> 's net \<Rightarrow> (net_error + tcpConn) option \<times> TCPListener \<times> 's net" where
  "TCPListener_Accept D I i = with_inner (Accept D I i)"

definition TCPListener_AcceptContext :: "'s dispatcher \<Rightarrow> (tcpListener \<times> 's net \<Rightarrow> tcpListener \<times> 's net) \<Rightarrow> nat \<Rightarrow> goContext
    \<Rightarrow> TCPListener \<times> 's net \<Rightarrow> (net_error + tcpConn) option \<times> TCPListener \<times> 's net" where
  "TCPListener_AcceptContext D I i ctx = with_inner (AcceptContext D I i ctx)"

definition TCPListener_Close :: "'s dispatcher \<Rightarrow> TCPListener \<times> 's net \<Rightarrow> net_error option \<times> TCPListener \<times> 's net" where
  "TCPListener_Close D = with_inner (listener_Close D)"

definition TCPListener_Addr :: "TCPListener \<Rightarrow> net_addr" where
  "TCPListener_Addr l = Addr (tcp_inner l)"

definition ListenPacket :: "'s dispatcher \<Rightarrow> resolver \<Rightarrow> nat \<Rightarrow> string \<Rightarrow> string \<Rightarrow> 's net \<Rightarrow> (net_error + packetConn) \<times> 's net" where
  "ListenPacket D R i network address s =
     (case listenTarget R True network address s of
        Inl e \<Rightarrow> (listen_opError network address (Inl e), s)
      | Inr (ipv6Only, addr) \<Rightarrow>
          (case openBound D (d_bindUDP4 D) (d_bindUDP6 D) ipv6Only addr s of
             (Inl e, s) \<Rightarrow> (listen_opError network address (Inl e), s)
           | (Inr (vlsh, info), s) \<Rightarrow>
               (let (pc, s) = newPacketConn i vlsh (udpAddrFromInfo info) s;
                    s = s\<lparr>n_live := addPacketConn (pc_id pc) (n_live s)\<rparr>
                in (Inr (pc\<lparr>pc_tracked := True\<rparr>), s))))"

section \<open>Initialisation options\<close>

text \<open>\<open>atoi\<close> is \<open>strconv.Atoi\<close>; \<open>env\<close> is \<open>os.LookupEnv\<close>.\<close>

definition resolveInitOptions :: "(string \<Rightarrow> int option) \<Rightarrow> (string \<Rightarrow> string option) \<Rightarrow> int \<Rightarrow> vclpoll_error + int \<times> int" where
  "resolveInitOptions atoi env nworkers =
     (let nworkers = (if nworkers = 0 then 1 else nworkers)
      in if nworkers < 0 then Inl (Errorf ''vclnet: Workers must be >= 0 (0 selects the default of 1)'')
         else
           (case (case env ''VCLNET_WORKERS'' of
                    None \<Rightarrow> Some nworkers
                  | Some value \<Rightarrow> (case atoi value of None \<Rightarrow> None | Some n \<Rightarrow> if n < 1 then None else Some n)) of
              None \<Rightarrow> Inl (Errorf ''vclnet: invalid VCLNET_WORKERS'')
            | Some nworkers \<Rightarrow>
                (let mode = (if nworkers > 1 then 2 else 3)
                 in case env ''VCLNET_VLS_MODE'' of
                      None \<Rightarrow> Inr (mode, nworkers)
                    | Some value \<Rightarrow>
                        if value = ''2'' then Inr (2, nworkers)
                        else if value = ''3'' then Inr (3, nworkers)
                        else Inl (Errorf ''vclnet: invalid VCLNET_VLS_MODE''))))"

definition InitWithOptions :: "disp_env \<Rightarrow> (string \<Rightarrow> int option) \<Rightarrow> (string \<Rightarrow> string option) \<Rightarrow> string \<Rightarrow> int
    \<Rightarrow> proc_state net \<Rightarrow> net_error option \<times> proc_state net" where
  "InitWithOptions X atoi env appName nworkers s =
     (if n_shutdown s then (Some ErrClosed, s)
      else
        (case resolveInitOptions atoi env nworkers of
           Inl e \<Rightarrow> (Some (PollError e), s)
         | Inr (mode, n) \<Rightarrow>
             (let (r, s) = on_poll (AppInitWithOptions X appName mode n) s in (map_option PollError r, s))))"

definition Init :: "disp_env \<Rightarrow> (string \<Rightarrow> int option) \<Rightarrow> (string \<Rightarrow> string option) \<Rightarrow> string
    \<Rightarrow> proc_state net \<Rightarrow> net_error option \<times> proc_state net" where
  "Init X atoi env appName = InitWithOptions X atoi env appName 1"

section \<open>What a call leaves open\<close>

text \<open>The handle of a result, with which the net layer's functions are held to account.\<close>

definition bound_handle :: "net_error + handle \<times> 'a \<Rightarrow> handle" where
  "bound_handle r = (case r of Inl e \<Rightarrow> -1 | Inr (h, a) \<Rightarrow> h)"

definition listener_handle :: "net_error + tcpListener \<Rightarrow> handle" where
  "listener_handle r = (case r of Inl e \<Rightarrow> -1 | Inr l \<Rightarrow> tl_vlsh l)"

definition packet_handle :: "net_error + packetConn \<Rightarrow> handle" where
  "packet_handle r = (case r of Inl e \<Rightarrow> -1 | Inr c \<Rightarrow> pc_listenerVLSH c)"

definition conn_handle :: "(net_error + tcpConn) option \<Rightarrow> handle" where
  "conn_handle r = (case r of Some (Inr c) \<Rightarrow> tc_vlsh c | _ \<Rightarrow> -1)"

lemma trackedConn_sel:
  "tc_vlsh (fst (trackedConn i h a s)) = h" "n_poll (snd (trackedConn i h a s)) = n_poll s"
  "tc_peerAddr (fst (trackedConn i h a s)) = Some a" "tc_tracked (fst (trackedConn i h a s))"
  "tc_id (fst (trackedConn i h a s)) = i" "i \<in> set (lr_conns (n_live (snd (trackedConn i h a s))))"
  by (simp_all add: trackedConn_def newTCPConn_def Let_def case_prod_beta addConn_def)

lemma stop_merge_sel:
  "n_poll (stop_merge x s) = n_poll s" "n_shutdown (stop_merge x s) = n_shutdown s" "n_live (stop_merge x s) = n_live s"
  by (simp_all add: stop_merge_def split: option.split)

lemma AcceptContext_cases:
  assumes run: "AcceptContext D I i ctx (l, s) = (Some r, l', s')"
  obtains (Refused) e where "r = Inl (accept_opError l e)" "l' = l" "s' = s"
      "(tl_closed l \<or> n_shutdown s) \<and> e = ErrClosed \<or> \<not> (tl_closed l \<or> n_shutdown s) \<and> ctx_Err ctx s = Some e"
  | (Returned) doneCh stop s1 h info e s2 s3 where "\<not> tl_closed l" "\<not> n_shutdown s" "ctx_Err ctx s = None"
      "mergedDone ctx l s = ((doneCh, stop), s1)"
      "on_poll (d_acceptFullContext D (tl_vlsh l) (Some doneCh)) s1 = (Some (h, info, e), s2)" "I (l, s2) = (l', s3)"
      "case e of Some pe \<Rightarrow> r = Inl (acceptError ctx pe (l', s3)) \<and> s' = stop_merge stop s3
       | None \<Rightarrow> r = Inr (fst (trackedConn i h (addrFromInfo info) s3))
           \<and> s' = stop_merge stop (snd (trackedConn i h (addrFromInfo info) s3))"
proof (cases "tl_closed l \<or> n_shutdown s \<or> ctx_Err ctx s \<noteq> None")
  case True
  with run show ?thesis
    by (intro Refused [of "if tl_closed l \<or> n_shutdown s then ErrClosed else the (ctx_Err ctx s)"])
      (auto simp: AcceptContext_def split: if_splits option.splits)
next
  case False
  obtain doneCh stop s1 where m: "mergedDone ctx l s = ((doneCh, stop), s1)"
    by (cases "mergedDone ctx l s") (auto intro: that)
  obtain q s2 where q: "on_poll (d_acceptFullContext D (tl_vlsh l) (Some doneCh)) s1 = (q, s2)" by fastforce
  with False run m obtain t where "q = Some t" by (cases q) (auto simp: AcceptContext_def)
  then obtain h info e where q': "q = Some (h, info, e)" by (cases t) auto
  obtain l3 s3 where I3: "I (l, s2) = (l3, s3)" by fastforce
  have "(case e of Some pe \<Rightarrow> (Some (Inl (acceptError ctx pe (l3, s3))), l3, stop_merge stop s3)
      | None \<Rightarrow> (let (c, z) = trackedConn i h (addrFromInfo info) s3 in (Some (Inr c), l3, stop_merge stop z)))
    = (Some r, l', s')"
    using False run m q q' I3 by (simp add: AcceptContext_def)
  with False m q q' I3 show ?thesis
    by (intro Returned [of doneCh stop s1 h info e s2 s3]) (auto simp: case_prod_beta split: option.splits)
qed

context session_ledger begin

lemma close_after_gains:
  assumes "gains held p h (n_poll s)" "close_after D h e s = (r, s')"
  shows "gains held p (bound_handle r) (n_poll s')"
  using gains_loses [OF assms(1) close_loses, where c = "-1"] assms(2) by (auto simp: close_after_def bound_handle_def)

lemma openBound_gains:
  assumes open4: "\<And>ip port p. gains held p (result_handle (fst (open4 ip port p))) (snd (open4 ip port p))"
    and open6: "\<And>ip port p. gains held p (result_handle (fst (open6 ip port p))) (snd (open6 ip port p))"
    and run: "openBound D open4 open6 v6 addr s = (r, s')"
  shows "gains held (n_poll s) (bound_handle r) (n_poll s')"
proof -
  define opn where "opn = (case To4 (ia_IP addr) of
       Some ip4 \<Rightarrow> if \<not> v6 then on_poll (open4 (array4 ip4) (word_of_int (ia_Port addr))) s
         else on_poll (open6 (array16 (ia_IP addr)) (word_of_int (ia_Port addr))) s
     | None \<Rightarrow> on_poll (open6 (array16 (ia_IP addr)) (word_of_int (ia_Port addr))) s)"
  obtain q s1 where q: "opn = (q, s1)" by fastforce
  have g1: "gains held (n_poll s) (result_handle q) (n_poll s1)"
  proof -
    have "gains held (n_poll s) (result_handle (fst opn)) (n_poll (snd opn))"
      using open4 open6 by (simp add: opn_def split: option.split)
    with q show ?thesis by simp
  qed
  show ?thesis
  proof (cases q)
    case (Inl e)
    with run q g1 show ?thesis by (auto simp: openBound_def opn_def [symmetric] Let_def bound_handle_def)
  next
    case (Inr vlsh)
    obtain v s2 where v: "(if v6 then on_poll (d_setV6Only D vlsh True) s1 else (Inr (), s1)) = (v, s2)" by fastforce
    have "gains held (n_poll s1) (-1) (n_poll s2)"
      using v others_gain_nothing(2) [where p = "n_poll s1" and h = vlsh and v = True]
      by (auto simp: gains_refl on_poll_def case_prod_beta split: if_splits)
    from gains_none(2) [OF g1 [unfolded Inr] this] have g2: "gains held (n_poll s) vlsh (n_poll s2)" by simp
    show ?thesis
    proof (cases v)
      case (Inl e)
      with run q Inr v have "close_after D vlsh e s2 = (r, s')"
        by (auto simp: openBound_def opn_def [symmetric] Let_def)
      then show ?thesis by (rule close_after_gains [OF g2])
    next
      case v': (Inr u)
      obtain w s3 where w: "on_poll (d_getLocalAddr D vlsh) s2 = (w, s3)" by fastforce
      have "gains held (n_poll s2) (-1) (n_poll s3)"
        using w others_gain_nothing(1) [where p = "n_poll s2" and h = vlsh] by (auto simp: on_poll_def case_prod_beta)
      from gains_none(2) [OF g2 this] have g3: "gains held (n_poll s) vlsh (n_poll s3)" by simp
      show ?thesis
      proof (cases w)
        case (Inl e)
        with run q Inr v v' w have "close_after D vlsh e s3 = (r, s')"
          by (auto simp: openBound_def opn_def [symmetric] Let_def)
        then show ?thesis by (rule close_after_gains [OF g3])
      next
        case (Inr info)
        with run q \<open>q = Inr vlsh\<close> v v' w g3 show ?thesis
          by (auto simp: openBound_def opn_def [symmetric] Let_def bound_handle_def)
      qed
    qed
  qed
qed

lemma Listen_gains:
  assumes "Listen D R i network address s = (r, s')"
  shows "gains held (n_poll s) (listener_handle r) (n_poll s')"
proof (cases "listenTarget R False network address s")
  case (Inl e)
  with assms show ?thesis by (auto simp: Listen_def listen_opError_def listener_handle_def gains_refl)
next
  case (Inr t)
  obtain q s1 where q: "openBound D (\<lambda>ip p. d_listenTCP4 D ip p defaultBacklog) (\<lambda>ip p. d_listenTCP6 D ip p defaultBacklog)
      (fst t) (snd t) s = (q, s1)" by fastforce
  from openBound_gains [OF _ _ q] listen_gains have "gains held (n_poll s) (bound_handle q) (n_poll s1)" by simp
  with assms Inr q show ?thesis
    by (cases q) (auto simp: Listen_def listen_opError_def listener_handle_def bound_handle_def trackedListener_def
        newTCPListener_def Let_def case_prod_beta)
qed

lemma ListenPacket_gains:
  assumes "ListenPacket D R i network address s = (r, s')"
  shows "gains held (n_poll s) (packet_handle r) (n_poll s')"
proof (cases "listenTarget R True network address s")
  case (Inl e)
  with assms show ?thesis by (auto simp: ListenPacket_def listen_opError_def packet_handle_def gains_refl)
next
  case (Inr t)
  obtain q s1 where q: "openBound D (d_bindUDP4 D) (d_bindUDP6 D) (fst t) (snd t) s = (q, s1)" by fastforce
  from openBound_gains [OF _ _ q] listen_gains have "gains held (n_poll s) (bound_handle q) (n_poll s1)" by simp
  with assms Inr q show ?thesis
    by (cases q) (auto simp: ListenPacket_def listen_opError_def packet_handle_def bound_handle_def newPacketConn_def
        Let_def case_prod_beta)
qed

lemma AcceptContext_gains:
  assumes run: "AcceptContext D I i ctx (l, s) = (Some r, l', s')"
    and I: "\<And>y. drifts held d (n_poll (snd y)) (-1) (n_poll (snd (I y)))"
  shows "\<exists>x \<in> {\<lambda>_. 0, d}. drifts held x (n_poll s) (conn_handle (Some r)) (n_poll s')"
  using run
proof (cases rule: AcceptContext_cases)
  case (Refused e)
  then show ?thesis by (simp add: conn_handle_def gains_refl drifts_none)
next
  case (Returned doneCh stop s1 h info e s2 s3)
  have same: "n_poll s1 = n_poll s" using Returned(4) by (auto simp: mergedDone_def case_prod_beta split: if_splits)
  have "fst (d_acceptFullContext D (tl_vlsh l) (Some doneCh) (n_poll s1)) = Some (h, info, e)"
    "n_poll s2 = snd (d_acceptFullContext D (tl_vlsh l) (Some doneCh) (n_poll s1))"
    using Returned(5) by (auto simp: on_poll_def case_prod_beta)
  with accept_gains have "gains held (n_poll s1) (accept_handle (Some (h, info, e))) (n_poll s2)" by metis
  moreover have "drifts held d (n_poll s2) (-1) (n_poll s3)" using I [of "(l, s2)"] Returned(6) by simp
  ultimately have "drifts held d (n_poll s) (accept_handle (Some (h, info, e))) (n_poll s3)"
    using drifts_trans(1) same by fastforce
  with Returned(7) show ?thesis
    by (cases e) (simp_all add: accept_handle_def conn_handle_def trackedConn_sel stop_merge_sel)
qed

lemma listener_Close_loses:
  assumes "listener_Close D (l, s) = (r, l', s')" "\<not> tl_closeOnce l" "\<not> n_shutdown s"
  shows "loses held (n_poll s) (tl_vlsh l) (n_poll s')"
  using assms close_loses [of "n_poll s" "tl_vlsh l"]
  by (auto simp: listener_Close_def Let_def case_prod_beta on_poll_def split: if_splits)

end

section \<open>Properties\<close>

lemma openBound_frame:
  assumes "openBound D open4 open6 v6 addr s = (r, s')"
  shows "n_live s' = n_live s" "n_heap s' = n_heap s" "n_shutdown s' = n_shutdown s"
proof -
  have "n_live s' = n_live s \<and> n_heap s' = n_heap s \<and> n_shutdown s' = n_shutdown s"
    using assms by (auto simp: openBound_def close_after_def Let_def case_prod_beta split: sum.splits option.splits if_splits)
  then show "n_live s' = n_live s" "n_heap s' = n_heap s" "n_shutdown s' = n_shutdown s" by simp_all
qed

lemma Listen_cases:
  assumes "Listen D R i network address s = (r, s')"
  obtains (Refused) e where "r = Inl (opError ''listen'' network address e)" "n_live s' = n_live s" "n_heap s' = n_heap s"
  | (Opened) h info s1 where "r = Inr (fst (trackedListener i h info s1))" "s' = snd (trackedListener i h info s1)"
      "\<not> n_shutdown s1"
proof (cases "listenTarget R False network address s")
  case (Inl e)
  with assms show ?thesis by (intro Refused) (auto simp: Listen_def listen_opError_def)
next
  case (Inr t)
  obtain q s1 where q: "openBound D (\<lambda>ip p. d_listenTCP4 D ip p defaultBacklog) (\<lambda>ip p. d_listenTCP6 D ip p defaultBacklog)
      (fst t) (snd t) s = (q, s1)" by fastforce
  have "\<not> n_shutdown s" using Inr by (auto simp: listenTarget_def split: if_splits)
  with openBound_frame [OF q] have fr: "n_live s1 = n_live s" "n_heap s1 = n_heap s" "\<not> n_shutdown s1" by simp_all
  show ?thesis
  proof (cases q)
    case (Inl e)
    with assms Inr q fr show ?thesis by (intro Refused) (auto simp: Listen_def listen_opError_def case_prod_beta)
  next
    case q': (Inr u)
    with assms Inr q fr show ?thesis
      by (intro Opened [of "fst u" "snd u" s1]) (auto simp: Listen_def case_prod_beta map_prod_def)
  qed
qed

text \<open>C18. \<open>Listen\<close> leaks no session. In Mode 3, whatever VLS and the resolver answer: a failed \<open>Listen\<close> leaves
  exactly the sessions open that were open before, every step that succeeded undone, and the registry
  as it was; a successful one leaves one more, the listener's, and the listener is open and in the
  registry. A later \<open>Close\<close> gives that session back, wakes the goroutines in \<open>Accept\<close> and leaves the
  registry.\<close>

theorem listen_leaks_nothing:
  assumes "Listen (mode3Dispatcher X) R i network address s = (r, s1)"
  shows "gains ps_held (n_poll s) (listener_handle r) (n_poll s1)
    \<and> (case r of
         Inl e \<Rightarrow> (\<exists>e0. e = opError ''listen'' network address e0) \<and> n_live s1 = n_live s \<and> n_heap s1 = n_heap s
       | Inr l \<Rightarrow> tl_tracked l \<and> \<not> tl_closed l \<and> i \<in> set (lr_listeners (n_live s1))
           \<and> (case listener_Close (mode3Dispatcher X) (l, s1) of (_, l', s2) \<Rightarrow>
                (\<forall>h \<ge> 0. ps_held h (n_poll s2) = ps_held h (n_poll s)) \<and> i \<notin> set (lr_listeners (n_live s2))
                \<and> tl_closed l' \<and> tl_doneCh l \<in> set (closed_chans (n_heap s2))))"
proof -
  let ?D = "mode3Dispatcher X"
  note g = mode3_ledger.Listen_gains [OF assms]
  show ?thesis
    using assms
  proof (cases rule: Listen_cases)
    case (Refused e)
    with g show ?thesis by auto
  next
    case (Opened h info s0)
    obtain l where r: "r = Inr l" and l: "l = fst (trackedListener i h info s0)" using Opened by simp
    have sel: "tl_tracked l" "\<not> tl_closed l" "\<not> tl_closeOnce l" "tl_id l = i" "i \<in> set (lr_listeners (n_live s1))" "\<not> n_shutdown s1"
      using Opened by (simp_all add: l trackedListener_def newTCPListener_def addListener_def Let_def case_prod_beta)
    obtain e l' s2 where c: "listener_Close ?D (l, s1) = (e, l', s2)" by (rule prod_cases3)
    have "loses ps_held (n_poll s1) (tl_vlsh l) (n_poll s2)"
      using mode3_ledger.listener_Close_loses [OF c sel(3,6)] .
    with g r have "\<forall>h \<ge> 0. ps_held h (n_poll s2) = ps_held h (n_poll s)"
      by (simp add: listener_handle_def gains_def loses_def)
    moreover have "tl_closed l'" "i \<notin> set (lr_listeners (n_live s2))" "tl_doneCh l \<in> set (closed_chans (n_heap s2))"
      using c sel by (auto simp: listener_Close_def Let_def case_prod_beta removeListener_def deleteListener_def
          notifyIfDrained_def close_chan_def split: option.splits if_splits)
    ultimately show ?thesis using g r sel c by simp
  qed
qed


lemma listen_leaks_nothing_witness:
  "\<exists>r s1. Listen (mode3Dispatcher demo_disp) demo_resolver 4 ''udp'' ''x'' demo_net = (r, s1)
     \<and> gains ps_held (n_poll demo_net) (listener_handle r) (n_poll s1)"
proof -
  obtain r s1 where r: "Listen (mode3Dispatcher demo_disp) demo_resolver 4 ''udp'' ''x'' demo_net = (r, s1)" by fastforce
  from listen_leaks_nothing [OF this] r show ?thesis by blast
qed

text \<open>A VLS that refuses every call, and a context cancelled while an accept waits.\<close>

definition demo_refusing :: disp_env where
  "demo_refusing = demo_disp\<lparr>de_thread := \<lparr>tid = 7, vls = (\<lambda>_ _. ok_reply (-103))\<rparr>\<rparr>"

definition demo_cancel :: "tcpListener \<times> proc_state net \<Rightarrow> tcpListener \<times> proc_state net" where
  "demo_cancel x = (fst x, (snd x)\<lparr>n_heap := close_chan 50 (n_heap (snd x))\<rparr>)"

lemma demo_refuses:
  "map_option (snd \<circ> snd) (fst (d_acceptFullContext (mode3Dispatcher demo_refusing) 5 ch proc_init))
     = Some (Some (VCLError ''accept'' 103))"
proof -
  have "map_option (snd \<circ> snd) (fst (d_acceptFullContext (mode3Dispatcher demo_refusing) 5 None proc_init))
      = Some (Some (VCLError ''accept'' 103))"
    by code_simp
  then show ?thesis by (simp add: mode3Dispatcher_def Let_def)
qed

text \<open>C20. What \<open>AcceptContext\<close> returns, on every branch. In Mode 3, and apart from the sessions others open and
  close while it waits (\<open>d\<close>, handle by handle), a connection returned is one session gained, and an error gains none.
  On a listener or in a package that is closed it is refused with \<open>ErrClosed\<close>, under a context that is done with
  the context's error, before \<open>vclpoll\<close> is entered. Otherwise the dispatcher's accept is called once, and
  its answer decides: a session becomes a tracked connection in the registry that knows the peer accepted from;
  an error becomes \<open>ErrClosed\<close> if listener or package were closed by the time the accept had ended (\<open>s3\<close>), else the
  error the context has then, else \<open>ErrClosed\<close> for \<open>vclpoll\<close>'s and the error \<open>pe\<close> itself for any other.\<close>

theorem acceptContext_result:
  assumes run: "AcceptContext (mode3Dispatcher X) I i ctx (l, s) = (Some r, l', s')"
    and I: "\<And>y. drifts ps_held d (n_poll (snd y)) (-1) (n_poll (snd (I y)))"
  shows "(\<exists>x \<in> {\<lambda>_. 0, d}. drifts ps_held x (n_poll s) (conn_handle (Some r)) (n_poll s'))
    \<and> (if tl_closed l \<or> n_shutdown s then r = Inl (accept_opError l ErrClosed) \<and> l' = l \<and> s' = s
       else if ctx_Err ctx s \<noteq> None then r = Inl (accept_opError l (the (ctx_Err ctx s))) \<and> l' = l \<and> s' = s
       else \<exists>doneCh stop s1 h info err s2 s3. mergedDone ctx l s = ((doneCh, stop), s1)
         \<and> on_poll (d_acceptFullContext (mode3Dispatcher X) (tl_vlsh l) (Some doneCh)) s1 = (Some (h, info, err), s2)
         \<and> I (l, s2) = (l', s3)
         \<and> (case err of
              None \<Rightarrow> \<exists>c. r = Inr c \<and> tc_vlsh c = h \<and> tc_tracked c \<and> \<not> tc_closed c
                \<and> tc_peerAddr c = Some (addrFromInfo info) \<and> i \<in> set (lr_conns (n_live s'))
            | Some pe \<Rightarrow> s' = stop_merge stop s3 \<and> r = Inl (accept_opError l'
                (if tl_closed l' \<or> n_shutdown s3 then ErrClosed
                 else case ctx_Err ctx s3 of
                        Some ce \<Rightarrow> ce
                      | None \<Rightarrow> if errors_Is pe PollErrClosed then ErrClosed else PollError pe))))"
    (is "_ \<and> ?res")
proof
  show "\<exists>x \<in> {\<lambda>_. 0, d}. drifts ps_held x (n_poll s) (conn_handle (Some r)) (n_poll s')"
    by (rule mode3_ledger.AcceptContext_gains [OF run I])
  have conn: "tc_vlsh c = h \<and> tc_tracked c \<and> \<not> tc_closed c \<and> tc_peerAddr c = Some a
      \<and> i \<in> set (lr_conns (n_live (stop_merge stop (snd (trackedConn i h a z)))))"
    if "c = fst (trackedConn i h a z)" for c h a stop and z :: "proc_state net"
    using that by (simp add: trackedConn_def newTCPConn_def Let_def case_prod_beta addConn_def stop_merge_sel)
  from run show ?res
  proof (cases rule: AcceptContext_cases)
    case (Refused e)
    then show ?thesis by auto
  next
    case (Returned doneCh stop s1 h info e s2 s3)
    have c: "\<not> (tl_closed l \<or> n_shutdown s)" "\<not> ctx_Err ctx s \<noteq> None" using Returned(1-3) by simp_all
    show ?thesis
    proof (cases e)
      case None
      let ?t = "trackedConn i h (addrFromInfo info) s3"
      from Returned(7) None have r: "r = Inr (fst ?t)" "s' = stop_merge stop (snd ?t)" by simp_all
      show ?thesis
        unfolding if_not_P [OF c(1)] if_not_P [OF c(2)]
        by (intro exI conjI, rule Returned(4), rule Returned(5), rule Returned(6))
          (simp add: None r conn [OF refl, where z = s3 and stop = stop and h = h and a = "addrFromInfo info"])
    next
      case (Some pe)
      with Returned(7) have r: "r = Inl (acceptError ctx pe (l', s3))" "s' = stop_merge stop s3" by simp_all
      show ?thesis
        unfolding if_not_P [OF c(1)] if_not_P [OF c(2)]
        by (intro exI conjI, rule Returned(4), rule Returned(5), rule Returned(6)) (simp add: Some r acceptError_def)
    qed
  qed
qed

text \<open>VLS refuses the accept, and the context was cancelled meanwhile: the caller gets the context's error.\<close>

lemma acceptContext_result_witness:
  "\<exists>l' s'. AcceptContext (mode3Dispatcher demo_refusing) demo_cancel 9 \<lparr>cx_done = Some 50, cx_cause = CtxCanceled\<rparr>
       (fst (newTCPListener 3 5 zeroAddr demo_net), demo_net)
     = (Some (Inl (accept_opError l' CtxCanceled)), l', s')
     \<and> gains ps_held (n_poll demo_net) (-1) (n_poll s')"
proof -
  let ?l = "fst (newTCPListener 3 5 zeroAddr demo_net)" and ?ctx = "\<lparr>cx_done = Some 50, cx_cause = CtxCanceled\<rparr>"
  have l: "\<not> tl_closed ?l" "tl_vlsh ?l = 5" by (simp_all add: newTCPListener_def new_chan_def Let_def)
  have ctx: "ctx_Err ?ctx demo_net = None" by (simp add: ctx_Err_def demo_heap_def)
  obtain doneCh stop s1 where m: "mergedDone ?ctx ?l demo_net = ((doneCh, stop), s1)" "n_poll s1 = proc_init" "\<not> n_shutdown s1"
    by (auto simp: mergedDone_def new_chan_def Let_def)
  obtain h info p where "d_acceptFullContext (mode3Dispatcher demo_refusing) 5 (Some doneCh) proc_init
      = (Some (h, info, Some (VCLError ''accept'' 103)), p)"
    using demo_refuses [of "Some doneCh"]
    by (cases "d_acceptFullContext (mode3Dispatcher demo_refusing) 5 (Some doneCh) proc_init") auto
  with m l(2) have q: "on_poll (d_acceptFullContext (mode3Dispatcher demo_refusing) (tl_vlsh ?l) (Some doneCh)) s1
      = (Some (h, info, Some (VCLError ''accept'' 103)), s1\<lparr>n_poll := p\<rparr>)"
    by (simp add: on_poll_def)
  obtain r l' s' where run: "AcceptContext (mode3Dispatcher demo_refusing) demo_cancel 9 ?ctx (?l, demo_net) = (Some r, l', s')"
    by (rule that) (simp add: AcceptContext_def demo_cancel_def l(1) ctx m(1) q)
  have "drifts ps_held (\<lambda>_. 0) (n_poll (snd y)) (-1) (n_poll (snd (demo_cancel y)))" for y
    by (simp add: demo_cancel_def drifts_none gains_refl case_prod_beta)
  note t = acceptContext_result [OF run this]
  from t l(1) ctx m(1) q m(3) have r: "r = Inl (accept_opError l' CtxCanceled)"
    by (auto simp: demo_cancel_def ctx_Err_def close_chan_def)
  with t have "gains ps_held (n_poll demo_net) (-1) (n_poll s')" by (auto simp: conn_handle_def drifts_none)
  with run r show ?thesis by blast
qed

section \<open>What the options select\<close>

text \<open>Initialisation selects a mode the dispatcher accepts. Whatever the options and the two environment
  variables say, options that resolve name Mode 2 or 3 and at least one worker: Mode 2 exactly when
  \<open>VCLNET_VLS_MODE\<close> says so or it is unset and there are several workers. So \<open>AppInitWithOptions\<close> never
  refuses them, and an error of \<open>InitWithOptions\<close> on a new process is \<open>ErrClosed\<close>, an invalid variable
  or count, or one of VCL.\<close>

theorem options_select_valid_mode:
  assumes "resolveInitOptions atoi env k = Inr (mode, n)"
  shows "1 \<le> n \<and> (mode = 2 \<or> mode = 3)
    \<and> (mode = 2 \<longleftrightarrow> env ''VCLNET_VLS_MODE'' = Some ''2'' \<or> env ''VCLNET_VLS_MODE'' = None \<and> 1 < n)
    \<and> (env ''VCLNET_WORKERS'' = None \<longrightarrow> n = (if k = 0 then 1 else k))
    \<and> selectDispatcher X app mode n s
        = (if mode = 3 then (case mode3AppInit (de_thread X) app s of
             (Some e, s) \<Rightarrow> (Some e, s) | (None, s) \<Rightarrow> (None, s\<lparr>ps_active := Mode3Selected\<rparr>))
           else (case on_mode2 (mode2_appInit (de_workers X) (de_late X) (de_polls X) n app)
                        (s\<lparr>ps_m2 := newMode2Dispatcher\<rparr>) of
             (Inl e, s) \<Rightarrow> (Some e, s) | (Inr _, s) \<Rightarrow> (None, s\<lparr>ps_active := Mode2Selected\<rparr>)))"
  using assms
  by (auto simp: resolveInitOptions_def selectDispatcher_def Let_def split: option.splits if_splits)

lemma options_select_valid_mode_witness:
  "resolveInitOptions (\<lambda>v. if v = ''4'' then Some 4 else None) (\<lambda>v. if v = ''VCLNET_WORKERS'' then Some ''4'' else None) 0 = Inr (2, 4)
     \<and> (1::int) \<le> 4"
proof -
  let ?a = "\<lambda>v. if v = ''4'' then Some 4 else None" and ?e = "\<lambda>v. if v = ''VCLNET_WORKERS'' then Some ''4'' else None"
  have r: "resolveInitOptions ?a ?e 0 = Inr (2, 4)" by (simp add: resolveInitOptions_def)
  from options_select_valid_mode [OF r] r show ?thesis by simp
qed

end
