(* ===== verification/Dialing.thy ===== *)
theory Dialing
  imports Listening
begin

text \<open>
  Dialing (\<open>dialer.go\<close>, \<open>DialContext\<close> of \<open>vclnet.go\<close>): one connect with its wait and its cleanup, and Happy
  Eyeballs, the race of several connects, as a step relation.
\<close>

section \<open>One connect\<close>

definition connectReadyEvents :: u32 where
  "connectReadyEvents = 0x004 OR 0x008 OR 0x010"

definition connectStart :: "'s dispatcher \<Rightarrow> inetAddr \<Rightarrow> 's \<Rightarrow> (handle \<times> bool) poll_result \<times> 's" where
  "connectStart D addr =
     (case To4 (ia_IP addr) of
        Some ip4 \<Rightarrow> d_connectTCP4Start D (array4 ip4) (word_of_int (ia_Port addr))
      | None \<Rightarrow> d_connectTCP6Start D (array16 (ia_IP addr)) (word_of_int (ia_Port addr)))"

definition connectUDPStart :: "'s dispatcher \<Rightarrow> inetAddr \<Rightarrow> 's \<Rightarrow> (handle \<times> bool) poll_result \<times> 's" where
  "connectUDPStart D addr =
     (case To4 (ia_IP addr) of
        Some ip4 \<Rightarrow> d_connectUDP4Start D (array4 ip4) (word_of_int (ia_Port addr))
      | None \<Rightarrow> d_connectUDP6Start D (array16 (ia_IP addr)) (word_of_int (ia_Port addr)))"

definition interruptedConnectError :: "goContext \<Rightarrow> 's net \<Rightarrow> net_error" where
  "interruptedConnectError ctx s = (case ctx_Err ctx s of Some e \<Rightarrow> e | None \<Rightarrow> ErrClosed)"

text \<open>A tick of the goroutine \<open>connectWait\<close> starts: whether it has found the connect failed and woken the waiter.\<close>

definition connect_tick :: "'s dispatcher \<Rightarrow> handle \<Rightarrow> 's net \<Rightarrow> bool \<times> 's net" where
  "connect_tick D vlsh s =
     (case on_poll (d_sessionConnectError D vlsh) s of
        (Inl e, s) \<Rightarrow> (True, s\<lparr>n_poll := d_wakeVLSH D vlsh (n_poll s)\<rparr>)
      | (Inr _, s) \<Rightarrow> (False, s))"

text \<open>\<open>I\<close>: what the ticking goroutine and all others did while the wait lasted. \<open>pollDone\<close> stops the former.\<close>

definition connectWait :: "'s dispatcher \<Rightarrow> ('s net \<Rightarrow> 's net) \<Rightarrow> handle \<Rightarrow> goContext \<Rightarrow> 's net \<Rightarrow> net_error option \<times> 's net" where
  "connectWait D I vlsh ctx s =
     (let (pollDone, H) = new_chan (n_heap s);
          (ok, s) = on_poll (d_pollWaitContext D vlsh connectReadyEvents (cx_done ctx)) (s\<lparr>n_heap := H\<rparr>);
          s = I s;
          (r, s) = on_poll (d_sessionConnectError D vlsh) s;
          e = (case r of Inl e \<Rightarrow> Some (PollError e)
                 | Inr _ \<Rightarrow> if \<not> ok then Some (interruptedConnectError ctx s) else None)
      in (e, s\<lparr>n_heap := close_chan pollDone (n_heap s)\<rparr>))"

definition CloseVLSH :: "'s dispatcher \<Rightarrow> handle \<Rightarrow> 's net \<Rightarrow> 's net" where
  "CloseVLSH D vlsh s = snd (on_poll (d_close D vlsh) s)"

definition finishConnect :: "'s dispatcher \<Rightarrow> ('s net \<Rightarrow> 's net) \<Rightarrow> handle \<Rightarrow> bool \<Rightarrow> goContext \<Rightarrow> 's net
    \<Rightarrow> net_error option \<times> 's net" where
  "finishConnect D I vlsh imm ctx s =
     (case (if \<not> imm then connectWait D I vlsh ctx s else (None, s)) of
        (Some e, s) \<Rightarrow> (Some e, CloseVLSH D vlsh s)
      | (None, s) \<Rightarrow>
          (case ctx_Err ctx s of
             Some e \<Rightarrow> (Some e, CloseVLSH D vlsh s)
           | None \<Rightarrow> if n_shutdown s then (Some ErrClosed, CloseVLSH D vlsh s) else (None, s)))"

text \<open>Start, finish, wrap: the part \<open>dialSingleTCP\<close>, \<open>dialUDP\<close> and \<open>DialTLSContext\<close> share.\<close>

definition dialSession :: "'s dispatcher \<Rightarrow> ('s net \<Rightarrow> 's net) \<Rightarrow> ('s \<Rightarrow> (handle \<times> bool) poll_result \<times> 's) \<Rightarrow> goContext
    \<Rightarrow> 's net \<Rightarrow> (net_error + handle) \<times> 's net" where
  "dialSession D I start ctx s =
     (case on_poll start s of
        (Inl e, s) \<Rightarrow> (Inl (PollError e), s)
      | (Inr (vlsh, imm), s) \<Rightarrow>
          (case finishConnect D I vlsh imm ctx s of
             (Some e, s) \<Rightarrow> (Inl e, s)
           | (None, s) \<Rightarrow> (Inr vlsh, s)))"

definition dial_opError :: "string \<Rightarrow> string \<Rightarrow> net_error \<Rightarrow> net_error" where
  "dial_opError network address e = opError ''dial'' network address e"

definition begin_dial :: "'s net \<Rightarrow> 's net" where
  "begin_dial s = s\<lparr>n_live := beginDial (n_live s)\<rparr>"

definition dialSingleTCP :: "'s dispatcher \<Rightarrow> ('s net \<Rightarrow> 's net) \<Rightarrow> nat \<Rightarrow> goContext \<Rightarrow> string \<Rightarrow> string \<Rightarrow> inetAddr
    \<Rightarrow> 's net \<Rightarrow> (net_error + tcpConn) \<times> 's net" where
  "dialSingleTCP D I i ctx network address addr s =
     (case dialSession D I (connectStart D addr) ctx (begin_dial s) of
        (Inl e, s) \<Rightarrow> (Inl (dial_opError network address e), on_live endDial s)
      | (Inr vlsh, s) \<Rightarrow> (let (c, s) = trackedConn i vlsh addr s in (Inr c, on_live endDial s)))"

definition dialUDP :: "'s dispatcher \<Rightarrow> resolver \<Rightarrow> ('s net \<Rightarrow> 's net) \<Rightarrow> nat \<Rightarrow> goContext \<Rightarrow> string \<Rightarrow> string
    \<Rightarrow> 's net \<Rightarrow> (net_error + udpConn) \<times> 's net" where
  "dialUDP D R I i ctx network address s =
     (case resolveUDPAddr R network address of
        Inl e \<Rightarrow> (Inl (dial_opError network address e), on_live endDial (begin_dial s))
      | Inr addr \<Rightarrow>
          (case dialSession D I (connectUDPStart D addr) ctx (begin_dial s) of
             (Inl e, s) \<Rightarrow> (Inl (dial_opError network address e), on_live endDial s)
           | (Inr vlsh, s) \<Rightarrow>
               (let (c, s) = newUDPConn i vlsh None True s;
                    c = c\<lparr>uc_peerAddr := Some addr\<rparr>;
                    s = s\<lparr>n_live := addConn (uc_id c) (n_live s)\<rparr>
                in (Inr (c\<lparr>uc_tracked := True\<rparr>), on_live endDial s))))"

section \<open>DialContext\<close>

datatype net_conn = TCPConn tcpConn | UDPConn udpConn

text \<open>\<open>HE\<close> is \<open>dialHappyEyeballs\<close>, whose goroutines are modelled below; \<open>None\<close>: it has not returned.\<close>

definition dialTCP :: "'s dispatcher \<Rightarrow> resolver \<Rightarrow> ('s net \<Rightarrow> 's net) \<Rightarrow> (inetAddr list \<Rightarrow> 's net \<Rightarrow> (net_error + tcpConn) option \<times> 's net)
    \<Rightarrow> nat \<Rightarrow> goContext \<Rightarrow> string \<Rightarrow> string \<Rightarrow> 's net \<Rightarrow> (net_error + tcpConn) option \<times> 's net" where
  "dialTCP D R I HE i ctx network address s =
     (if network = ''tcp'' then
        (case resolveAddrs R network address of
           Inl e \<Rightarrow> (Some (Inl (dial_opError network address e)), s)
         | Inr addrs \<Rightarrow>
             if length addrs > 1 then HE addrs s
             else map_prod Some id (dialSingleTCP D I i ctx network address (hd addrs) s))
      else
        (case resolveAddrContext R network address of
           Inl e \<Rightarrow> (Some (Inl (dial_opError network address e)), s)
         | Inr addr \<Rightarrow> map_prod Some id (dialSingleTCP D I i ctx network address addr s)))"

text \<open>\<open>context.WithTimeout\<close>: a new channel; \<open>cause\<close> is what will have closed it. \<open>cancel\<close> closes it if nothing has.\<close>

definition withTimeout :: "int \<Rightarrow> net_error \<Rightarrow> goContext \<Rightarrow> 's net \<Rightarrow> goContext \<times> 's net" where
  "withTimeout timeout cause ctx s =
     (if timeout > 0 then
        (let (ch, H) = new_chan (n_heap s) in (\<lparr>cx_done = Some ch, cx_cause = cause\<rparr>, s\<lparr>n_heap := H\<rparr>))
      else (ctx, s))"

definition cancel_ctx :: "int \<Rightarrow> goContext \<Rightarrow> 's net \<Rightarrow> 's net" where
  "cancel_ctx timeout ctx s =
     (if timeout > 0 \<and> ctx_Err ctx s = None then s\<lparr>n_heap := close_chan (the (cx_done ctx)) (n_heap s)\<rparr> else s)"

definition DialContext :: "'s dispatcher \<Rightarrow> resolver \<Rightarrow> ('s net \<Rightarrow> 's net)
    \<Rightarrow> (goContext \<Rightarrow> inetAddr list \<Rightarrow> 's net \<Rightarrow> (net_error + tcpConn) option \<times> 's net)
    \<Rightarrow> nat \<Rightarrow> int \<Rightarrow> net_error \<Rightarrow> goContext \<Rightarrow> string \<Rightarrow> string \<Rightarrow> 's net \<Rightarrow> (net_error + net_conn) option \<times> 's net" where
  "DialContext D R I HE i timeout cause ctx network address s =
     (if n_shutdown s then (Some (Inl (dial_opError network address ErrClosed)), s)
      else
        (case parseNetwork network of
           Inl e \<Rightarrow> (Some (Inl (dial_opError network address e)), s)
         | Inr _ \<Rightarrow>
             (case ctx_Err ctx s of
                Some e \<Rightarrow> (Some (Inl (dial_opError network address e)), s)
              | None \<Rightarrow>
                  (let (ctx, s) = withTimeout timeout cause ctx s;
                       (r, s) =
                         (if isUDP network
                          then map_prod (Some \<circ> map_sum id UDPConn) id (dialUDP D R I i ctx network address s)
                          else map_prod (map_option (map_sum id TCPConn)) id (dialTCP D R I (HE ctx) i ctx network address s))
                   in (r, cancel_ctx timeout ctx s)))))"

text \<open>The functions of the package: a \<open>Dialer\<close> without options, a context that never ends, a context that ends after
  \<open>timeout\<close>, which \<open>context.WithTimeout\<close> returns ended if that is not positive.\<close>

definition vclnet_DialContext :: "'s dispatcher \<Rightarrow> resolver \<Rightarrow> ('s net \<Rightarrow> 's net)
    \<Rightarrow> (goContext \<Rightarrow> inetAddr list \<Rightarrow> 's net \<Rightarrow> (net_error + tcpConn) option \<times> 's net)
    \<Rightarrow> nat \<Rightarrow> goContext \<Rightarrow> string \<Rightarrow> string \<Rightarrow> 's net \<Rightarrow> (net_error + net_conn) option \<times> 's net" where
  "vclnet_DialContext D R I HE i ctx network address s =
     DialContext D R I HE i 0 (cx_cause ctx) ctx network address s"

definition Dial :: "'s dispatcher \<Rightarrow> resolver \<Rightarrow> ('s net \<Rightarrow> 's net)
    \<Rightarrow> (goContext \<Rightarrow> inetAddr list \<Rightarrow> 's net \<Rightarrow> (net_error + tcpConn) option \<times> 's net)
    \<Rightarrow> nat \<Rightarrow> string \<Rightarrow> string \<Rightarrow> 's net \<Rightarrow> (net_error + net_conn) option \<times> 's net" where
  "Dial D R I HE i network address s = vclnet_DialContext D R I HE i Background network address s"

definition DialTimeout :: "'s dispatcher \<Rightarrow> resolver \<Rightarrow> ('s net \<Rightarrow> 's net)
    \<Rightarrow> (goContext \<Rightarrow> inetAddr list \<Rightarrow> 's net \<Rightarrow> (net_error + tcpConn) option \<times> 's net)
    \<Rightarrow> nat \<Rightarrow> string \<Rightarrow> string \<Rightarrow> int \<Rightarrow> 's net \<Rightarrow> (net_error + net_conn) option \<times> 's net" where
  "DialTimeout D R I HE i network address timeout s =
     (let (ch, H) = new_chan (n_heap s);
          H = (if timeout \<le> 0 then close_chan ch H else H);
          ctx = \<lparr>cx_done = Some ch, cx_cause = CtxDeadlineExceeded\<rparr>;
          (r, s) = vclnet_DialContext D R I HE i ctx network address (s\<lparr>n_heap := H\<rparr>)
      in (r, if ctx_Err ctx s = None then s\<lparr>n_heap := close_chan ch (n_heap s)\<rparr> else s))"

text \<open>A timeout that has passed when the dial begins: it fails before it resolves or connects anything.\<close>

lemma DialTimeout_passed:
  assumes "timeout \<le> 0" "\<not> n_shutdown s" "parseNetwork network = Inr q"
  shows "fst (DialTimeout D R I HE i network address timeout s) = Some (Inl (dial_opError network address CtxDeadlineExceeded))
    \<and> n_poll (snd (DialTimeout D R I HE i network address timeout s)) = n_poll s
    \<and> n_live (snd (DialTimeout D R I HE i network address timeout s)) = n_live s"
proof -
  obtain ch H where "new_chan (n_heap s) = (ch, H)" by fastforce
  moreover have "ch \<in> set (closed_chans (close_chan ch H))" by (simp add: close_chan_def)
  ultimately show ?thesis using assms
    by (simp add: DialTimeout_def vclnet_DialContext_def DialContext_def ctx_Err_def Let_def)
qed

section \<open>What a dial leaves open\<close>

definition udp_handle :: "net_error + udpConn \<Rightarrow> handle" where
  "udp_handle r = (case r of Inl e \<Rightarrow> -1 | Inr c \<Rightarrow> uc_vlsh c)"

definition dialed_handle :: "net_error + handle \<Rightarrow> handle" where
  "dialed_handle r = (case r of Inl e \<Rightarrow> -1 | Inr h \<Rightarrow> h)"

text \<open>What others do to the ledger and to the number of dials while a call waits: \<open>d\<close> is its effect, the same in
  every state, since a run asks for it once. A call has waited or not.\<close>

type_synonym effect = "(handle \<Rightarrow> int) \<times> int"

definition others_do :: "(handle \<Rightarrow> 's \<Rightarrow> int) \<Rightarrow> effect \<Rightarrow> ('s net \<Rightarrow> 's net) \<Rightarrow> bool" where
  "others_do held d I \<longleftrightarrow> (\<forall>s. drifts held (fst d) (n_poll s) (-1) (n_poll (I s))
     \<and> pendingDials (n_live (I s)) = pendingDials (n_live s) + snd d)"

definition waited :: "effect \<Rightarrow> effect set" where
  "waited d = {(\<lambda>_. 0, 0), d}"

text \<open>The session \<open>g\<close> is gained and no other, and no dial is left pending, apart from what others did.\<close>

definition net_gains :: "(handle \<Rightarrow> 's \<Rightarrow> int) \<Rightarrow> effect set \<Rightarrow> 's net \<Rightarrow> handle \<Rightarrow> 's net \<Rightarrow> bool" where
  "net_gains held W s g s' \<longleftrightarrow> (\<exists>x \<in> W. drifts held (fst x) (n_poll s) g (n_poll s')
     \<and> pendingDials (n_live s') = pendingDials (n_live s) + snd x)"

lemma net_gains_refl: "g < 0 \<Longrightarrow> n_poll s' = n_poll s \<Longrightarrow> pendingDials (n_live s') = pendingDials (n_live s) \<Longrightarrow> net_gains held (waited d) s g s'"
  by (auto simp: net_gains_def waited_def drifts_none gains_refl)

lemma net_gains_cong:
  assumes "net_gains held W s g s'" "n_poll t = n_poll s" "n_poll t' = n_poll s'"
    "pendingDials (n_live t') - pendingDials (n_live t) = pendingDials (n_live s') - pendingDials (n_live s)"
  shows "net_gains held W t g t'"
  using assms by (auto simp: net_gains_def)

lemma begin_dial_sel [simp]:
  "n_poll (begin_dial s) = n_poll s" "pendingDials (n_live (begin_dial s)) = pendingDials (n_live s) + 1"
  by (simp_all add: begin_dial_def beginDial_def)

lemma endDial_pending [simp]: "pendingDials (fst (endDial r H)) = pendingDials r - 1"
  by (simp add: endDial_def notifyIfDrained_def dialCount_def split: option.split)

context session_ledger begin

lemma connectWait_gains:
  assumes run: "connectWait D I h ctx s = (e, s')" and I: "others_do held d I"
  shows "net_gains held {d} s (-1) s'"
proof -
  obtain ch H where ch: "new_chan (n_heap s) = (ch, H)" by fastforce
  obtain ok s1 where s1: "on_poll (d_pollWaitContext D h connectReadyEvents (cx_done ctx)) (s\<lparr>n_heap := H\<rparr>) = (ok, s1)" by fastforce
  obtain r s3 where s3: "on_poll (d_sessionConnectError D h) (I s1) = (r, s3)" by fastforce
  have "gains held (n_poll s) (-1) (n_poll s1)" "n_live s1 = n_live s"
    using s1 others_gain_nothing(4) by (auto simp: on_poll_def case_prod_beta)
  moreover have "drifts held (fst d) (n_poll s1) (-1) (n_poll (I s1))"
    "pendingDials (n_live (I s1)) = pendingDials (n_live s1) + snd d"
    using I by (auto simp: others_do_def)
  moreover have "gains held (n_poll (I s1)) (-1) (n_poll s3)" "n_live s3 = n_live (I s1)"
    using s3 others_gain_nothing(3) by (auto simp: on_poll_def case_prod_beta)
  ultimately have "net_gains held {d} s (-1) s3"
    by (simp add: net_gains_def drifts_def gains_def)
  moreover have "n_poll s' = n_poll s3" "n_live s' = n_live s3"
    using run ch s1 s3 by (auto simp: connectWait_def Let_def)
  ultimately show ?thesis by (simp add: net_gains_def)
qed

lemma CloseVLSH_loses: "loses held (n_poll s) h (n_poll (CloseVLSH D h s))" "n_live (CloseVLSH D h s) = n_live s"
  by (simp_all add: CloseVLSH_def close_loses)

text \<open>A session that was just opened: kept, or closed again.\<close>

lemma finishConnect_gains:
  assumes run: "finishConnect D I h imm ctx s = (e, s')" and I: "others_do held d I" and start: "net_gains held {(\<lambda>_. 0, 0)} s0 h s"
  shows "net_gains held (waited d) s0 (if e = None then h else -1) s'"
proof -
  obtain q s1 where q: "(if \<not> imm then connectWait D I h ctx s else (None, s)) = (q, s1)" by fastforce
  have "net_gains held (waited d) s (-1) s1"
    using q connectWait_gains [OF _ I, of h ctx s q s1] net_gains_refl
    by (auto simp: net_gains_def waited_def drifts_none gains_refl split: if_splits)
  with start have g: "net_gains held (waited d) s0 h s1"
    by (auto simp: net_gains_def waited_def drifts_def)
  show ?thesis
  proof (cases "q = None \<and> ctx_Err ctx s1 = None \<and> \<not> n_shutdown s1")
    case True
    with run q g show ?thesis by (auto simp: finishConnect_def)
  next
    case False
    with run q have "e \<noteq> None \<and> s' = CloseVLSH D h s1"
      by (auto simp: finishConnect_def split: option.splits if_splits) metis+
    with g drifts_trans(3) [OF _ CloseVLSH_loses(1) [where s = s1 and h = h]] CloseVLSH_loses(2) [where s = s1 and h = h]
    show ?thesis by (auto simp: net_gains_def)
  qed
qed

lemma dialSession_gains:
  assumes start: "\<And>p. gains held p (result_handle1 (fst (start p))) (snd (start p))" and I: "others_do held d I"
    and run: "dialSession D I start ctx s = (r, s')"
  shows "net_gains held (waited d) s (dialed_handle r) s'"
proof -
  obtain q s1 where q: "on_poll start s = (q, s1)" by fastforce
  then have g: "net_gains held {(\<lambda>_. 0, 0)} s (result_handle1 q) s1"
    using start [of "n_poll s"] by (auto simp: on_poll_def case_prod_beta net_gains_def drifts_none)
  show ?thesis
  proof (cases q)
    case (Inl e)
    with run q g show ?thesis by (auto simp: dialSession_def dialed_handle_def net_gains_def waited_def)
  next
    case (Inr u)
    obtain h imm where u: "u = (h, imm)" by fastforce
    obtain e s2 where e: "finishConnect D I h imm ctx s1 = (e, s2)" by fastforce
    from finishConnect_gains [OF e I] g Inr u
    have "net_gains held (waited d) s (if e = None then h else -1) s2" by simp
    with run q Inr u e show ?thesis by (auto simp: dialSession_def dialed_handle_def split: option.splits)
  qed
qed

lemma dialSingleTCP_gains:
  assumes run: "dialSingleTCP D I i ctx network address addr s = (r, s')" and I: "others_do held d I"
  shows "net_gains held (waited d) s (conn_handle (Some r)) s'"
proof -
  obtain q s1 where q: "dialSession D I (connectStart D addr) ctx (begin_dial s) = (q, s1)" by fastforce
  have start: "gains held p (result_handle1 (fst (connectStart D addr p))) (snd (connectStart D addr p))" for p
    using connect_gains by (simp add: connectStart_def split: option.split)
  have g: "net_gains held (waited d) (begin_dial s) (conn_handle (Some r)) s1"
    using dialSession_gains [OF start I q] run q
    by (cases q) (auto simp: dialSingleTCP_def dialed_handle_def conn_handle_def case_prod_beta trackedConn_sel)
  from run q show ?thesis
    by (intro net_gains_cong [OF g]; cases q)
      (auto simp: dialSingleTCP_def case_prod_beta trackedConn_sel trackedConn_def newTCPConn_def addConn_def Let_def)
qed

lemma dialUDP_gains:
  assumes run: "dialUDP D R I i ctx network address s = (r, s')" and I: "others_do held d I"
  shows "net_gains held (waited d) s (udp_handle r) s'"
proof (cases "resolveUDPAddr R network address")
  case (Inl e)
  with run show ?thesis by (auto simp: dialUDP_def udp_handle_def intro!: net_gains_refl)
next
  case (Inr addr)
  obtain q s1 where q: "dialSession D I (connectUDPStart D addr) ctx (begin_dial s) = (q, s1)" by fastforce
  have start: "gains held p (result_handle1 (fst (connectUDPStart D addr p))) (snd (connectUDPStart D addr p))" for p
    using connect_gains by (simp add: connectUDPStart_def split: option.split)
  have g: "net_gains held (waited d) (begin_dial s) (udp_handle r) s1"
    using dialSession_gains [OF start I q] run q Inr
    by (cases q) (auto simp: dialUDP_def dialed_handle_def udp_handle_def case_prod_beta newUDPConn_def Let_def)
  from run q Inr show ?thesis
    by (intro net_gains_cong [OF g]; cases q)
      (auto simp: dialUDP_def case_prod_beta newUDPConn_def addConn_def Let_def)
qed

end

text \<open>When a dial succeeds.\<close>

lemma finishConnect_ok:
  assumes "finishConnect D I h imm ctx s = (None, s')"
  shows "ctx_Err ctx s' = None \<and> \<not> n_shutdown s'"
  using assms by (auto simp: finishConnect_def split: option.splits if_splits prod.splits)

lemma dialSession_ok: "dialSession D I start ctx s = (Inr h, s') \<Longrightarrow> ctx_Err ctx s' = None \<and> \<not> n_shutdown s'"
  by (auto simp: dialSession_def dest!: finishConnect_ok split: prod.splits sum.splits option.splits)

lemma dialSession_ok': "fst (dialSession D I start ctx s) = Inr h \<Longrightarrow>
    ctx_Err ctx (snd (dialSession D I start ctx s)) = None \<and> \<not> n_shutdown (snd (dialSession D I start ctx s))"
  by (rule dialSession_ok) (simp add: prod_eq_iff)

lemma connectWait_ok:
  assumes "connectWait D I h ctx s = (None, s')"
  shows "\<exists>p. fst (d_sessionConnectError D h p) = Inr () \<and> n_poll s' = snd (d_sessionConnectError D h p)"
  using assms by (auto simp: connectWait_def on_poll_def case_prod_beta Let_def split: sum.splits if_splits)

text \<open>C17. A dial leaks no session. In Mode 3, whatever VLS answers and whenever the context ends or shutdown
  begins, and apart from the sessions and dials others open and end while it waits: a failed TCP or UDP
  dial leaves exactly the sessions open that were open before; a successful one leaves one more, that
  of the connection it returns, which is tracked, knows its peer, and was made before shutdown began. The count of pending dials is as before in every case.\<close>

theorem dial_leaks_nothing:
  assumes I: "others_do ps_held d I"
    and tcp: "dialSingleTCP (mode3Dispatcher X) I i ctx network address addr s = (r, s1)"
    and udp: "dialUDP (mode3Dispatcher X) R I i ctx network address s = (q, s2)"
  shows "net_gains ps_held (waited d) s (conn_handle (Some r)) s1 \<and> net_gains ps_held (waited d) s (udp_handle q) s2
    \<and> (\<forall>c. r = Inr c \<longrightarrow> tc_tracked c \<and> tc_peerAddr c = Some addr \<and> \<not> n_shutdown s1)
    \<and> (\<forall>c. q = Inr c \<longrightarrow> uc_tracked c \<and> uc_connected c \<and> uc_peerAddr c \<noteq> None \<and> \<not> n_shutdown s2)"
proof (intro conjI)
  show "net_gains ps_held (waited d) s (conn_handle (Some r)) s1" by (rule mode3_ledger.dialSingleTCP_gains [OF tcp I])
  show "net_gains ps_held (waited d) s (udp_handle q) s2" by (rule mode3_ledger.dialUDP_gains [OF udp I])
  have "n_shutdown (snd (trackedConn i h a z)) = n_shutdown z" for h a and z :: "proc_state net"
    by (simp add: trackedConn_def newTCPConn_def Let_def case_prod_beta)
  with tcp show "\<forall>c. r = Inr c \<longrightarrow> tc_tracked c \<and> tc_peerAddr c = Some addr \<and> \<not> n_shutdown s1"
    by (cases "dialSession (mode3Dispatcher X) I (connectStart (mode3Dispatcher X) addr) ctx (begin_dial s)")
      (auto simp: dialSingleTCP_def trackedConn_sel case_prod_beta dest!: dialSession_ok split: sum.splits)
  show "\<forall>c. q = Inr c \<longrightarrow> uc_tracked c \<and> uc_connected c \<and> uc_peerAddr c \<noteq> None \<and> \<not> n_shutdown s2"
    using udp by (auto simp: dialUDP_def newUDPConn_def Let_def case_prod_beta dest!: dialSession_ok' split: sum.splits)
qed

lemma dial_leaks_nothing_witness:
  "\<exists>r s1 q s2. dialSingleTCP (mode3Dispatcher demo_disp) id 3 Background ''tcp'' ''x'' zeroAddr demo_net = (r, s1)
     \<and> dialUDP (mode3Dispatcher demo_disp) demo_resolver id 3 Background ''tcp'' ''x'' demo_net = (q, s2)
     \<and> pendingDials (n_live s1) = 0 \<and> pendingDials (n_live s2) = 0"
proof -
  obtain r s1 where r: "dialSingleTCP (mode3Dispatcher demo_disp) id 3 Background ''tcp'' ''x'' zeroAddr demo_net = (r, s1)" by fastforce
  obtain q s2 where q: "dialUDP (mode3Dispatcher demo_disp) demo_resolver id 3 Background ''tcp'' ''x'' demo_net = (q, s2)" by fastforce
  have "others_do ps_held (\<lambda>_. 0, 0) id" by (simp add: others_do_def drifts_none gains_refl)
  from dial_leaks_nothing [OF this r q] r q show ?thesis by (simp add: demo_net_def newLiveRegistry_def net_gains_def waited_def)
qed

section \<open>Happy Eyeballs\<close>

text \<open>The race of \<open>dialHappyEyeballs\<close> over \<open>he_n\<close> addresses. A dial is named by its position in \<open>sorted\<close>;
  \<open>he_flying\<close> are those in \<open>dialSingleTCP\<close>, \<open>he_results\<close> the channel, of capacity \<open>he_n\<close>. The caller is in
  its loop or has returned; \<open>he_cleanup\<close> is what the goroutine of \<open>cleanup\<close> has still to receive. Ghosts:
  the connections dials have opened, the dials that failed, the connections \<open>cleanup\<close> closed, and
  whether the caller's context was done.\<close>

datatype he_pc = HRacing | HReturned "net_error + nat"

record eyeballs =
  he_n :: nat
  he_next :: nat
  he_outstanding :: nat
  he_flying :: "nat list"
  he_results :: "(nat \<times> net_error option) list"
  he_pc :: he_pc
  he_cleanup :: nat
  he_opened :: "nat list"
  he_failed :: "nat list"
  he_closed :: "nat list"
  he_ctxDone :: bool

definition he_launch :: "eyeballs \<Rightarrow> eyeballs" where
  "he_launch s = s\<lparr>he_flying := he_next s # he_flying s, he_next := Suc (he_next s), he_outstanding := Suc (he_outstanding s)\<rparr>"

text \<open>From \<open>start(sorted[0])\<close> on.\<close>

definition he_start :: "nat \<Rightarrow> eyeballs" where
  "he_start n = he_launch \<lparr>he_n = n, he_next = 0, he_outstanding = 0, he_flying = [], he_results = [], he_pc = HRacing,
     he_cleanup = 0, he_opened = [], he_failed = [], he_closed = [], he_ctxDone = False\<rparr>"

text \<open>What the loop does with a received result.\<close>

definition he_receive :: "nat \<Rightarrow> net_error option \<Rightarrow> eyeballs \<Rightarrow> eyeballs" where
  "he_receive k err s =
     (let s = s\<lparr>he_outstanding := he_outstanding s - 1\<rparr>
      in case err of
           None \<Rightarrow> s\<lparr>he_cleanup := he_outstanding s, he_pc := HReturned (Inr k)\<rparr>
         | Some e \<Rightarrow>
             if he_outstanding s = 0 \<and> \<not> he_next s < he_n s then s\<lparr>he_pc := HReturned (Inl e)\<rparr>
             else if he_next s < he_n s then he_launch s else s)"

inductive he_step :: "eyeballs \<Rightarrow> eyeballs \<Rightarrow> bool" where
  dial_opened: "k \<in> set (he_flying s) \<Longrightarrow> length (he_results s) < he_n s \<Longrightarrow>
    he_step s (s\<lparr>he_flying := remove1 k (he_flying s), he_results := he_results s @ [(k, None)], he_opened := k # he_opened s\<rparr>)"
| dial_failed: "k \<in> set (he_flying s) \<Longrightarrow> length (he_results s) < he_n s \<Longrightarrow>
    he_step s (s\<lparr>he_flying := remove1 k (he_flying s), he_results := he_results s @ [(k, Some e)], he_failed := k # he_failed s\<rparr>)"
| receive: "he_pc s = HRacing \<Longrightarrow> 0 < he_outstanding s \<Longrightarrow> he_results s = (k, err) # q \<Longrightarrow>
    he_step s (he_receive k err (s\<lparr>he_results := q\<rparr>))"
| timer: "he_pc s = HRacing \<Longrightarrow> 0 < he_outstanding s \<Longrightarrow>
    he_step s (if he_next s < he_n s then he_launch s else s)"
| ctx_done: "he_pc s = HRacing \<Longrightarrow> 0 < he_outstanding s \<Longrightarrow>
    he_step s (s\<lparr>he_ctxDone := True, he_cleanup := he_outstanding s, he_pc := HReturned (Inl (OpError ''dial'' ''tcp'' None e))\<rparr>)"
| loop_exit: "he_pc s = HRacing \<Longrightarrow> he_outstanding s = 0 \<Longrightarrow>
    he_step s (s\<lparr>he_pc := HReturned (Inl (DNSError ''no address succeeded'' [] False))\<rparr>)"
| cleanup_recv: "he_pc s = HReturned r \<Longrightarrow> he_cleanup s = Suc m \<Longrightarrow> he_results s = (k, err) # q \<Longrightarrow>
    he_step s (s\<lparr>he_cleanup := m, he_results := q, he_closed := (if err = None then k # he_closed s else he_closed s)\<rparr>)"

definition he_conns :: "eyeballs \<Rightarrow> nat multiset" where
  "he_conns s = mset (map fst (filter (\<lambda>r. snd r = None) (he_results s)))"

definition he_winner :: "eyeballs \<Rightarrow> nat multiset" where
  "he_winner s = (case he_pc s of HReturned (Inr k) \<Rightarrow> {#k#} | _ \<Rightarrow> {#})"

text \<open>Every dial started is in flight or has answered; every connection opened is in the channel, closed,
  or the winner; the caller's count is that of the results still to come.\<close>

definition he_dials :: "eyeballs \<Rightarrow> nat multiset" where
  "he_dials s = mset (he_flying s) + mset (he_opened s) + mset (he_failed s)"

definition he_owned :: "eyeballs \<Rightarrow> bool" where
  "he_owned s \<longleftrightarrow> mset (he_opened s) = he_conns s + mset (he_closed s) + he_winner s"

definition he_counted :: "eyeballs \<Rightarrow> bool" where
  "he_counted s \<longleftrightarrow> length (he_flying s) + length (he_results s) \<le> he_next s \<and> he_next s \<le> he_n s
     \<and> (case he_pc s of
          HRacing \<Rightarrow> he_outstanding s = length (he_flying s) + length (he_results s) \<and> 0 < he_outstanding s \<and> he_closed s = [] \<and> he_cleanup s = 0
        | HReturned r \<Rightarrow> he_cleanup s = length (he_flying s) + length (he_results s)
            \<and> (\<forall>e. r = Inl e \<and> \<not> he_ctxDone s \<longrightarrow> he_next s = he_n s \<and> he_opened s = [] \<and> he_flying s = []))"

definition he_inv :: "eyeballs \<Rightarrow> bool" where
  "he_inv s \<longleftrightarrow> he_dials s = mset [0..<he_next s] \<and> he_owned s \<and> he_counted s"

lemma he_inv_start: "0 < n \<Longrightarrow> he_inv (he_start n)"
  by (simp add: he_inv_def he_start_def he_launch_def he_dials_def he_owned_def he_counted_def he_conns_def he_winner_def)

lemma he_launch_inv:
  assumes "he_next s < he_n s"
  shows "he_dials s = mset [0..<he_next s] \<Longrightarrow> he_dials (he_launch s) = mset [0..<he_next (he_launch s)]"
    and "he_owned s \<Longrightarrow> he_owned (he_launch s)"
    and "he_pc s = HRacing \<Longrightarrow> he_outstanding s = length (he_flying s) + length (he_results s) \<Longrightarrow> he_closed s = [] \<Longrightarrow> he_cleanup s = 0 \<Longrightarrow>
      length (he_flying s) + length (he_results s) \<le> he_next s \<Longrightarrow> he_counted (he_launch s)"
  using assms by (simp_all add: he_launch_def he_dials_def he_owned_def he_counted_def he_conns_def he_winner_def)

lemma he_receive_inv:
  assumes inv: "he_inv s" and pc: "he_pc s = HRacing" and res: "he_results s = (k, err) # q"
  shows "he_inv (he_receive k err (s\<lparr>he_results := q\<rparr>))"
proof -
  let ?s = "s\<lparr>he_results := q, he_outstanding := he_outstanding s - 1\<rparr>"
  from inv have d: "he_dials ?s = mset [0..<he_next ?s]" by (simp add: he_inv_def he_dials_def)
  from inv pc res have c: "he_outstanding ?s = length (he_flying s) + length q" "he_closed s = []" "he_cleanup s = 0"
    "length (he_flying s) + length q < he_next s" "he_next s \<le> he_n s"
    by (simp_all add: he_inv_def he_counted_def)
  show ?thesis
  proof (cases err)
    case None
    from inv pc res None have "mset (he_opened s) = he_conns ?s + {#k#}"
      by (simp add: he_inv_def he_owned_def he_conns_def he_winner_def he_counted_def)
    with d c pc None show ?thesis
      by (simp add: he_inv_def he_receive_def Let_def he_dials_def he_owned_def he_counted_def he_conns_def he_winner_def)
  next
    case (Some e)
    from inv pc res Some have o: "mset (he_opened s) = he_conns ?s"
      by (simp add: he_inv_def he_owned_def he_conns_def he_winner_def he_counted_def)
    then have own: "he_owned ?s" using c pc by (simp add: he_owned_def he_conns_def he_winner_def)
    show ?thesis
    proof (cases "he_next s < he_n s")
      case True
      with Some pc c have "he_receive k err (s\<lparr>he_results := q\<rparr>) = he_launch ?s" by (simp add: he_receive_def Let_def)
      with True d own c pc he_launch_inv [of ?s] show ?thesis by (simp add: he_inv_def)
    next
      case all: False
      show ?thesis
      proof (cases "he_outstanding s - 1 = 0")
        case True
        with all Some c have "he_receive k err (s\<lparr>he_results := q\<rparr>) = ?s\<lparr>he_pc := HReturned (Inl e)\<rparr>" "q = []" "he_flying s = []"
          by (auto simp: he_receive_def Let_def)
        with o d c all own show ?thesis
          by (simp add: he_inv_def he_dials_def he_owned_def he_counted_def he_conns_def he_winner_def)
      next
        case False
        with all Some have "he_receive k err (s\<lparr>he_results := q\<rparr>) = ?s" by (simp add: he_receive_def Let_def)
        with d own c pc False show ?thesis by (simp add: he_inv_def he_counted_def)
      qed
    qed
  qed
qed

lemma he_step_inv:
  assumes "he_step s s'" "he_inv s"
  shows "he_inv s'"
  using assms
proof (induction rule: he_step.induct)
  case (dial_opened k s)
  then have "length (remove1 k (he_flying s)) + 1 = length (he_flying s)"
    by (simp add: length_remove1) (metis Suc_pred length_pos_if_in_set)
  with dial_opened show ?case
    by (auto simp: he_inv_def he_dials_def he_owned_def he_counted_def he_conns_def he_winner_def split: he_pc.splits sum.splits)
next
  case (dial_failed k s e)
  then have "length (remove1 k (he_flying s)) + 1 = length (he_flying s)"
    by (simp add: length_remove1) (metis Suc_pred length_pos_if_in_set)
  with dial_failed show ?case
    by (auto simp: he_inv_def he_dials_def he_owned_def he_counted_def he_conns_def he_winner_def split: he_pc.splits sum.splits)
next
  case (receive s k err q)
  then show ?case by (simp add: he_receive_inv)
next
  case (timer s)
  then show ?case using he_launch_inv [of s] by (simp add: he_inv_def he_counted_def)
next
  case (ctx_done s e)
  let ?s = "s\<lparr>he_ctxDone := True, he_cleanup := he_outstanding s, he_pc := HReturned (Inl (OpError ''dial'' ''tcp'' None e))\<rparr>"
  from ctx_done have "he_dials ?s = mset [0..<he_next ?s]" by (simp add: he_inv_def he_dials_def)
  moreover from ctx_done have "he_owned ?s" by (simp add: he_inv_def he_owned_def he_conns_def he_winner_def)
  moreover from ctx_done have "he_counted ?s" by (simp add: he_inv_def he_counted_def)
  ultimately show ?case by (simp add: he_inv_def)
next
  case (loop_exit s)
  then show ?case by (simp add: he_inv_def he_counted_def)
next
  case (cleanup_recv s r m k err q)
  then show ?case
    by (auto simp: he_inv_def he_dials_def he_owned_def he_counted_def he_conns_def he_winner_def add_mset_commute
        split: sum.splits)
qed

lemma he_inv_reach:
  assumes "he_step\<^sup>*\<^sup>* (he_start n) s" "0 < n"
  shows "he_inv s" "he_n s = n"
proof -
  have "he_n s' = he_n s0" if "he_step s0 s'" for s0 s'
    using that by (induction rule: he_step.induct) (auto simp: he_receive_def he_launch_def Let_def split: option.split)
  note keep = this
  have "he_n (he_start n) = n" by (simp add: he_start_def he_launch_def)
  with assms(1) show "he_n s = n" by (induction rule: rtranclp_induct) (auto simp: keep)
  show "he_inv s" using assms(1) he_inv_start [OF assms(2)] by (induction rule: rtranclp_induct) (auto intro: he_step_inv)
qed

text \<open>C16. Happy Eyeballs loses no connection and gives up only when all addresses failed. In every
  interleaving of the caller, its timer and context, the dials and the clean-up: a dial never blocks
  on its result, the loop never ends with \<open>no address succeeded\<close>, and every address is dialled at most
  once; an error returned while the context lives means that every address was dialled and failed; and
  once the clean-up has received what was outstanding, no dial is in flight and every connection ever
  opened is the one returned or was closed, once.\<close>

theorem happy_eyeballs_owns_connections:
  assumes "0 < n" and "he_step\<^sup>*\<^sup>* (he_start n) s"
  shows "(he_flying s \<noteq> [] \<longrightarrow> length (he_results s) < n)
    \<and> (he_pc s = HRacing \<longrightarrow> he_outstanding s \<noteq> 0)
    \<and> distinct (he_flying s @ he_opened s @ he_failed s)
    \<and> (\<forall>e. he_pc s = HReturned (Inl e) \<and> \<not> he_ctxDone s \<longrightarrow> set (he_failed s) = {0..<n} \<and> he_opened s = [])
    \<and> (\<forall>r. he_pc s = HReturned r \<and> he_cleanup s = 0 \<longrightarrow> he_flying s = []
         \<and> mset (he_opened s) = mset (he_closed s) + (case r of Inr k \<Rightarrow> {#k#} | Inl e \<Rightarrow> {#}))"
proof -
  from he_inv_reach [OF assms(2,1)] have inv: "he_inv s" and n: "he_n s = n" by simp_all
  from inv have d: "mset (he_flying s @ he_opened s @ he_failed s) = mset [0..<he_next s]"
    by (simp add: he_inv_def he_dials_def add.assoc)
  then have "distinct (he_flying s @ he_opened s @ he_failed s)" by (metis distinct_upt mset_eq_imp_distinct_iff)
  moreover have "set (he_flying s) \<union> set (he_opened s) \<union> set (he_failed s) = {0..<he_next s}"
    using mset_eq_setD [OF d] by auto
  moreover have "he_flying s \<noteq> [] \<longrightarrow> length (he_results s) < n"
    using inv n by (cases "he_flying s") (simp_all add: he_inv_def he_counted_def)
  ultimately show ?thesis
    using inv n by (auto simp: he_inv_def he_counted_def he_owned_def he_conns_def he_winner_def split: he_pc.splits sum.splits)
qed

lemma happy_eyeballs_owns_connections_witness:
  "distinct (he_flying (he_start 2) @ he_opened (he_start 2) @ he_failed (he_start 2)) \<and> he_outstanding (he_start 2) \<noteq> 0"
  using happy_eyeballs_owns_connections [of 2 "he_start 2"] by (simp add: he_start_def he_launch_def)

end
