(* ===== verification/Tls.thy ===== *)
theory Tls
  imports Dialing
begin

text \<open>
  Native TLS (\<open>tls.go\<close>): validation of a \<open>TLSConfig\<close>, the cache of registered certificate pairs, and
  \<open>ListenTLS\<close> and \<open>DialTLSContext\<close>. SHA-256 is the parameter \<open>sha\<close>. The last part interleaves any
  number of goroutines that resolve configurations.
\<close>

section \<open>Keys of the cache\<close>

definition putUint64BE :: "64 word \<Rightarrow> u8 list" where
  "putUint64BE v = [ucast (drop_bit 56 v), ucast (drop_bit 48 v), ucast (drop_bit 40 v), ucast (drop_bit 32 v),
     ucast (drop_bit 24 v), ucast (drop_bit 16 v), ucast (drop_bit 8 v), ucast v]"

definition hexDigit :: "u8 \<Rightarrow> char" where
  "hexDigit n = ''0123456789abcdef'' ! unat n"

fun hexEncode :: "u8 list \<Rightarrow> string" where
  "hexEncode [] = []"
| "hexEncode (b # bs) = hexDigit (drop_bit 4 b) # hexDigit (b AND 0x0f) # hexEncode bs"

text \<open>What is hashed: each field behind its length.\<close>

definition ckpairInput :: "u8 list \<Rightarrow> u8 list \<Rightarrow> u8 list" where
  "ckpairInput cert key = putUint64BE (of_nat (length cert)) @ cert @ putUint64BE (of_nat (length key)) @ key"

definition ckpairKey :: "(u8 list \<Rightarrow> u8 list) \<Rightarrow> u8 list \<Rightarrow> u8 list \<Rightarrow> string" where
  "ckpairKey sha cert key = hexEncode (sha (ckpairInput cert key))"

section \<open>TLSConfig\<close>

record tlsConfig =
  tls_Cert :: "u8 list"
  tls_Key :: "u8 list"
  tls_once :: bool
  tls_idx :: u32
  tls_err :: "vclpoll_error option"

definition tls_validate :: "bool \<Rightarrow> tlsConfig option \<Rightarrow> net_error option" where
  "tls_validate serverSide c = (case c of
       None \<Rightarrow> if serverSide then Some ErrTLSMissingCert else None
     | Some c \<Rightarrow>
         (let hasCert = length (tls_Cert c) > 0;
              hasKey = length (tls_Key c) > 0
          in if serverSide \<and> (\<not> hasCert \<or> \<not> hasKey) then Some ErrTLSMissingCert
             else if hasCert \<noteq> hasKey then Some ErrTLSPartialCert
             else None))"

type_synonym ckpair_cache = "(string \<times> u32) list"

text \<open>The second critical section: the index to use, and whether ours must be given back.\<close>

definition ck_publish :: "string \<Rightarrow> u32 \<Rightarrow> ckpair_cache \<Rightarrow> (u32 \<times> bool) \<times> ckpair_cache" where
  "ck_publish key idx cache = (case map_of cache key of
       Some existing \<Rightarrow> ((existing, True), cache)
     | None \<Rightarrow> ((idx, False), AList.update key idx cache))"

text \<open>The body of \<open>c.once.Do\<close>. \<open>I\<close>: what other goroutines did to the cache and the rest while the pair was
  registered, without the lock.\<close>

definition registerCKPair :: "'s dispatcher \<Rightarrow> (u8 list \<Rightarrow> u8 list) \<Rightarrow> (ckpair_cache \<times> 's net \<Rightarrow> ckpair_cache \<times> 's net)
    \<Rightarrow> tlsConfig \<Rightarrow> ckpair_cache \<times> 's net \<Rightarrow> tlsConfig \<times> ckpair_cache \<times> 's net" where
  "registerCKPair D sha I c x = (case x of (cache, s) \<Rightarrow>
     (let c = c\<lparr>tls_once := True\<rparr>;
          key = ckpairKey sha (tls_Cert c) (tls_Key c)
      in case map_of cache key of
           Some idx \<Rightarrow> (c\<lparr>tls_idx := idx\<rparr>, cache, s)
         | None \<Rightarrow>
             (let (r, s) = on_poll (d_addCertKeyPair D (tls_Cert c) (tls_Key c)) s;
                  (cache, s) = I (cache, s)
              in case r of
                   Inl e \<Rightarrow> (c\<lparr>tls_err := Some e\<rparr>, cache, s)
                 | Inr idx \<Rightarrow>
                     (let ((used, dup), cache) = ck_publish key idx cache;
                          s = (if dup then snd (on_poll (d_delCertKeyPair D idx) s) else s)
                      in (c\<lparr>tls_idx := used\<rparr>, cache, s)))))"

definition resolveCKPair :: "'s dispatcher \<Rightarrow> (u8 list \<Rightarrow> u8 list) \<Rightarrow> (ckpair_cache \<times> 's net \<Rightarrow> ckpair_cache \<times> 's net)
    \<Rightarrow> tlsConfig option \<times> ckpair_cache \<times> 's net
    \<Rightarrow> (vclpoll_error + u32 \<times> bool) \<times> tlsConfig option \<times> ckpair_cache \<times> 's net" where
  "resolveCKPair D sha I x = (case x of
       (None, y) \<Rightarrow> (Inr (0, False), None, y)
     | (Some c, y) \<Rightarrow>
         if length (tls_Cert c) = 0 \<and> length (tls_Key c) = 0 then (Inr (0, False), Some c, y)
         else
           (let (c, y) = (if tls_once c then (c, y) else registerCKPair D sha I c y)
            in case tls_err c of
                 Some e \<Rightarrow> (Inl e, Some c, y)
               | None \<Rightarrow> (Inr (tls_idx c, True), Some c, y)))"

section \<open>ListenTLS and DialTLSContext\<close>

definition ListenTLS :: "'s dispatcher \<Rightarrow> resolver \<Rightarrow> (u8 list \<Rightarrow> u8 list) \<Rightarrow> (ckpair_cache \<times> 's net \<Rightarrow> ckpair_cache \<times> 's net)
    \<Rightarrow> nat \<Rightarrow> string \<Rightarrow> string \<Rightarrow> tlsConfig option \<times> ckpair_cache \<times> 's net
    \<Rightarrow> (net_error + tcpListener) \<times> tlsConfig option \<times> ckpair_cache \<times> 's net" where
  "ListenTLS D R sha I i network address x = (case x of (cfg, cache, s) \<Rightarrow>
     if n_shutdown s then (listen_opError network address (Inl ErrClosed), x)
     else (case tls_validate True cfg of
        Some e \<Rightarrow> (listen_opError network address (Inl e), x)
      | None \<Rightarrow>
          (case listenTarget R False network address s of
             Inl e \<Rightarrow> (listen_opError network address (Inl e), x)
           | Inr (ipv6Only, addr) \<Rightarrow>
               (case resolveCKPair D sha I x of
                  (Inl e, y) \<Rightarrow> (listen_opError network address (Inl (PollError e)), y)
                | (Inr (ckp, _), cfg, cache, s) \<Rightarrow>
                    (case openBound D (\<lambda>ip p. d_listenTLS4 D ip p defaultBacklog ckp)
                            (\<lambda>ip p. d_listenTLS6 D ip p defaultBacklog ckp) ipv6Only addr s of
                       (Inl e, s) \<Rightarrow> (listen_opError network address (Inl e), cfg, cache, s)
                     | (Inr (vlsh, info), s) \<Rightarrow>
                         (let (l, s) = trackedListener i vlsh info s in (Inr l, cfg, cache, s)))))))"

definition connectTLSStart :: "'s dispatcher \<Rightarrow> inetAddr \<Rightarrow> u32 \<Rightarrow> bool \<Rightarrow> 's \<Rightarrow> (handle \<times> bool) poll_result \<times> 's" where
  "connectTLSStart D addr ckp ckpValid =
     (case To4 (ia_IP addr) of
        Some ip4 \<Rightarrow> d_connectTLS4Start D (array4 ip4) (word_of_int (ia_Port addr)) ckp ckpValid
      | None \<Rightarrow> d_connectTLS6Start D (array16 (ia_IP addr)) (word_of_int (ia_Port addr)) ckp ckpValid)"

text \<open>The checks of \<open>DialTLSContext\<close> before it resolves the pair.\<close>

definition dialTLS_check :: "string \<Rightarrow> tlsConfig option \<Rightarrow> goContext \<Rightarrow> 's net \<Rightarrow> net_error option" where
  "dialTLS_check network cfg ctx s =
     (case tls_validate False cfg of
        Some e \<Rightarrow> Some e
      | None \<Rightarrow>
          (case parseNetwork network of
             Inl e \<Rightarrow> Some e
           | Inr _ \<Rightarrow>
               if isUDP network then Some (PollError (Errorf ''vclnet: TLS is only supported for tcp networks''))
               else ctx_Err ctx s))"

text \<open>\<open>J\<close>: what others did while the connect waited.\<close>

definition DialTLSContext :: "'s dispatcher \<Rightarrow> resolver \<Rightarrow> (u8 list \<Rightarrow> u8 list) \<Rightarrow> (ckpair_cache \<times> 's net \<Rightarrow> ckpair_cache \<times> 's net)
    \<Rightarrow> ('s net \<Rightarrow> 's net) \<Rightarrow> nat \<Rightarrow> goContext \<Rightarrow> string \<Rightarrow> string \<Rightarrow> tlsConfig option \<times> ckpair_cache \<times> 's net
    \<Rightarrow> (net_error + tcpConn) \<times> tlsConfig option \<times> ckpair_cache \<times> 's net" where
  "DialTLSContext D R sha I J i ctx network address x = (case x of (cfg, cache, s) \<Rightarrow>
     if n_shutdown s then (Inl (dial_opError network address ErrClosed), x)
     else
       (let s = begin_dial s
        in case dialTLS_check network cfg ctx s of
             Some e \<Rightarrow> (Inl (dial_opError network address e), cfg, cache, on_live endDial s)
           | None \<Rightarrow>
               (case resolveCKPair D sha I (cfg, cache, s) of
                  (Inl e, cfg, cache, s) \<Rightarrow> (Inl (dial_opError network address (PollError e)), cfg, cache, on_live endDial s)
                | (Inr (ckp, ckpValid), cfg, cache, s) \<Rightarrow>
                    (case resolveAddrContext R network address of
                       Inl e \<Rightarrow> (Inl (dial_opError network address e), cfg, cache, on_live endDial s)
                     | Inr addr \<Rightarrow>
                         (case dialSession D J (connectTLSStart D addr ckp ckpValid) ctx s of
                            (Inl e, s) \<Rightarrow> (Inl (dial_opError network address e), cfg, cache, on_live endDial s)
                          | (Inr vlsh, s) \<Rightarrow>
                              (let (c, s) = trackedConn i vlsh addr s in (Inr c, cfg, cache, on_live endDial s)))))))"

definition DialTLS :: "'s dispatcher \<Rightarrow> resolver \<Rightarrow> (u8 list \<Rightarrow> u8 list) \<Rightarrow> (ckpair_cache \<times> 's net \<Rightarrow> ckpair_cache \<times> 's net)
    \<Rightarrow> ('s net \<Rightarrow> 's net) \<Rightarrow> nat \<Rightarrow> string \<Rightarrow> string \<Rightarrow> tlsConfig option \<times> ckpair_cache \<times> 's net
    \<Rightarrow> (net_error + tcpConn) \<times> tlsConfig option \<times> ckpair_cache \<times> 's net" where
  "DialTLS D R sha I J i = DialTLSContext D R sha I J i Background"

section \<open>Keys do not collide\<close>

text \<open>The number a prefix stands for.\<close>

definition getUint64BE :: "u8 list \<Rightarrow> 64 word" where
  "getUint64BE bs = fold (\<lambda>b v. push_bit 8 v OR ucast b) bs 0"

lemma byte_step: "push_bit 8 (drop_bit (k + 8) v) OR ucast (ucast (drop_bit k v) :: u8) = drop_bit k (v :: 64 word)"
proof (rule bit_word_eqI)
  fix n assume "n < LENGTH(64)"
  then show "bit (push_bit 8 (drop_bit (k + 8) v) OR ucast (ucast (drop_bit k v) :: u8)) n = bit (drop_bit k v) n"
    by (cases "n < 8") (simp_all add: bit_simps)
qed

lemma get_putUint64BE: "getUint64BE (putUint64BE v) = v"
proof -
  have "drop_bit 64 v = 0" by (rule bit_word_eqI) (simp add: bit_simps)
  then show ?thesis
    using byte_step [of 56 v] byte_step [of 48 v] byte_step [of 40 v] byte_step [of 32 v] byte_step [of 24 v]
      byte_step [of 16 v] byte_step [of 8 v] byte_step [of 0 v]
    by (simp add: getUint64BE_def putUint64BE_def)
qed

lemma length_putUint64BE [simp]: "length (putUint64BE v) = 8"
  by (simp add: putUint64BE_def)

lemma putUint64BE_inj: "putUint64BE v = putUint64BE w \<Longrightarrow> v = w"
  by (metis get_putUint64BE)

lemma ckpairInput_inj:
  assumes eq: "ckpairInput cert key = ckpairInput cert' key'"
    and len: "length cert < 2 ^ 64" "length cert' < 2 ^ 64"
  shows "cert = cert' \<and> key = key'"
proof -
  from eq have "putUint64BE (of_nat (length cert)) = putUint64BE (of_nat (length cert'))"
    and rest: "cert @ putUint64BE (of_nat (length key)) @ key = cert' @ putUint64BE (of_nat (length key')) @ key'"
    by (simp_all add: ckpairInput_def)
  then have "(of_nat (length cert) :: 64 word) = of_nat (length cert')" by (blast intro: putUint64BE_inj)
  then have "length cert = length cert'" using len by (simp add: of_nat_eq_iff word_of_nat_eq_iff take_bit_nat_eq_self)
  with rest show ?thesis by simp
qed

lemma hexDigit_inj: "m < 16 \<Longrightarrow> n < 16 \<Longrightarrow> hexDigit m = hexDigit n \<Longrightarrow> m = n"
proof -
  assume "m < 16" "n < 16" and eq: "hexDigit m = hexDigit n"
  then have "unat m < 16" "unat n < 16" by (simp_all add: word_less_nat_alt)
  moreover have "distinct ''0123456789abcdef''" "length ''0123456789abcdef'' = 16" by simp_all
  ultimately have "unat m = unat n" using eq nth_eq_iff_index_eq [of "''0123456789abcdef''" "unat m" "unat n"] by (simp add: hexDigit_def)
  then show "m = n" by (rule unsigned_word_eqI)
qed

lemma hexEncode_inj: "hexEncode bs = hexEncode cs \<Longrightarrow> bs = cs"
proof (induction bs arbitrary: cs rule: hexEncode.induct)
  case 1
  then show ?case by (cases cs) simp_all
next
  case (2 b bs)
  then obtain c cs' where cs: "cs = c # cs'" by (cases cs) auto
  have small: "drop_bit 4 x < 16" "x AND 0x0f < 16" for x :: u8
  proof -
    have "unat x < 2 ^ LENGTH(8)" by (rule unsigned_less)
    then have "unat x < 256" by simp
    then show "drop_bit 4 x < 16" by (simp add: word_less_nat_alt unat_div drop_bit_eq_div)
    show "x AND 0x0f < 16" by (rule le_less_trans [OF word_and_le1]) simp
  qed
  from 2 cs have eq: "drop_bit 4 b = drop_bit 4 c" "b AND 0x0f = c AND 0x0f" "hexEncode bs = hexEncode cs'"
    using hexDigit_inj small by auto
  have "push_bit 4 (drop_bit 4 x) OR (x AND 0x0f) = x" for x :: u8
  proof (rule bit_word_eqI)
    fix n assume "n < LENGTH(8)"
    then have "bit (push_bit 4 (drop_bit 4 x) OR (x AND mask 4)) n = bit x n"
      by (cases "n < 4") (simp_all add: bit_simps)
    moreover have "(mask 4 :: u8) = 0x0f" by (simp add: mask_eq_exp_minus_1)
    ultimately show "bit (push_bit 4 (drop_bit 4 x) OR (x AND 0x0f)) n = bit x n" by simp
  qed
  with eq have "b = c" by metis
  with 2 cs eq show ?case by simp
qed

text \<open>A key of the cache stands for one certificate and key. Two pairs (whose certificates fit in memory)
  have the same key in the cache exactly when SHA-256 gives the same digest for the length-prefixed
  inputs, and those inputs are the same only for the same pair, however the bytes are split between
  certificate and key; the length prefix decodes to the length.\<close>

theorem ckpairKey_identifies_pair:
  assumes "length cert < 2 ^ 64" "length cert' < 2 ^ 64"
  shows "(ckpairKey sha cert key = ckpairKey sha cert' key' \<longleftrightarrow> sha (ckpairInput cert key) = sha (ckpairInput cert' key'))
    \<and> (ckpairInput cert key = ckpairInput cert' key' \<longleftrightarrow> cert = cert' \<and> key = key')
    \<and> unat (getUint64BE (take 8 (ckpairInput cert key))) = length cert"
proof (intro conjI)
  show "ckpairKey sha cert key = ckpairKey sha cert' key' \<longleftrightarrow> sha (ckpairInput cert key) = sha (ckpairInput cert' key')"
    using hexEncode_inj by (auto simp: ckpairKey_def)
  show "ckpairInput cert key = ckpairInput cert' key' \<longleftrightarrow> cert = cert' \<and> key = key'"
    using ckpairInput_inj [OF _ assms] by auto
  show "unat (getUint64BE (take 8 (ckpairInput cert key))) = length cert"
    using assms(1) by (simp add: ckpairInput_def get_putUint64BE unat_of_nat take_bit_nat_eq_self)
qed

lemma ckpairKey_identifies_pair_witness:
  "ckpairInput [1] [2, 3] \<noteq> ckpairInput [1, 2] [3] \<and> unat (getUint64BE (take 8 (ckpairInput [1] [2, 3]))) = 1"
  using ckpairKey_identifies_pair [of "[1]" "[1, 2]" id "[2, 3]" "[3]"] by simp

section \<open>What ListenTLS and DialTLSContext leave open\<close>

text \<open>What others do while a pair is registered, and then while the handshake is waited for.\<close>

definition ck_others :: "(handle \<Rightarrow> 's \<Rightarrow> int) \<Rightarrow> effect \<Rightarrow> (ckpair_cache \<times> 's net \<Rightarrow> ckpair_cache \<times> 's net) \<Rightarrow> bool" where
  "ck_others held d I \<longleftrightarrow> (\<forall>x. drifts held (fst d) (n_poll (snd x)) (-1) (n_poll (snd (I x)))
     \<and> pendingDials (n_live (snd (I x))) = pendingDials (n_live (snd x)) + snd d)"

definition waited_twice :: "effect \<Rightarrow> effect \<Rightarrow> effect set" where
  "waited_twice d e = {(\<lambda>h. fst x h + fst y h, snd x + snd y) | x y. x \<in> waited d \<and> y \<in> waited e}"

lemma net_gains_twice:
  assumes "net_gains held (waited d) s (-1) s1" "net_gains held (waited e) s1 g s2"
  shows "net_gains held (waited_twice d e) s g s2"
proof -
  from assms obtain x y where x: "x \<in> waited d" "drifts held (fst x) (n_poll s) (-1) (n_poll s1)"
    "pendingDials (n_live s1) = pendingDials (n_live s) + snd x" and y: "y \<in> waited e"
    "drifts held (fst y) (n_poll s1) g (n_poll s2)" "pendingDials (n_live s2) = pendingDials (n_live s1) + snd y"
    by (auto simp: net_gains_def)
  have "(\<lambda>h. fst x h + fst y h, snd x + snd y) \<in> waited_twice d e" using x(1) y(1) by (force simp: waited_twice_def)
  moreover have "drifts held (\<lambda>h. fst x h + fst y h) (n_poll s) g (n_poll s2)" using x(2) y(2) by (simp add: drifts_def)
  ultimately show ?thesis using x(3) y(3) by (auto simp: net_gains_def intro!: bexI)
qed

lemma net_gains_once:
  assumes "net_gains held (waited d) s g s1"
  shows "net_gains held (waited_twice d e) s g s1"
proof -
  from assms obtain x where x: "x \<in> waited d" "drifts held (fst x) (n_poll s) g (n_poll s1)"
    "pendingDials (n_live s1) = pendingDials (n_live s) + snd x"
    by (auto simp: net_gains_def)
  moreover from x(1) have "x \<in> waited_twice d e"
    unfolding waited_twice_def by (intro CollectI exI [of _ x] exI [of _ "(\<lambda>_. 0, 0)"]) (simp add: waited_def)
  ultimately show ?thesis by (auto simp: net_gains_def)
qed

context session_ledger begin

lemma registerCKPair_gains:
  assumes I: "ck_others held d I" and run: "registerCKPair D sha I c (cache, s) = (c', cache', s')"
  shows "net_gains held (waited d) s (-1) s'"
proof (cases "map_of cache (ckpairKey sha (tls_Cert c) (tls_Key c))")
  case (Some idx)
  with run show ?thesis by (auto simp: registerCKPair_def Let_def intro: net_gains_refl)
next
  case None
  obtain r s1 where r: "on_poll (d_addCertKeyPair D (tls_Cert c) (tls_Key c)) s = (r, s1)" by fastforce
  obtain cache2 s2 where I2: "I (cache, s1) = (cache2, s2)" by fastforce
  have "gains held (n_poll s) (-1) (n_poll s1)" "n_live s1 = n_live s"
    using r others_gain_nothing(6) by (auto simp: on_poll_def case_prod_beta)
  moreover have "drifts held (fst d) (n_poll s1) (-1) (n_poll s2)" "pendingDials (n_live s2) = pendingDials (n_live s1) + snd d"
    using I [unfolded ck_others_def, rule_format, of "(cache, s1)"] I2 by simp_all
  ultimately have g: "drifts held (fst d) (n_poll s) (-1) (n_poll s2)" "pendingDials (n_live s2) = pendingDials (n_live s) + snd d"
    by (simp_all add: gains_def drifts_def)
  have del: "drifts held (fst d) (n_poll s) (-1) (n_poll (snd (on_poll (d_delCertKeyPair D idx) s2)))"
    "pendingDials (n_live (snd (on_poll (d_delCertKeyPair D idx) s2))) = pendingDials (n_live s) + snd d" for idx
    using g others_gain_nothing(7) by (simp_all add: gains_def drifts_def on_poll_def case_prod_beta)
  from run None r I2 have "s' = s2 \<or> (\<exists>idx. s' = snd (on_poll (d_delCertKeyPair D idx) s2))"
    by (auto simp: registerCKPair_def Let_def case_prod_beta split: sum.splits if_splits)
  with g del show ?thesis by (auto simp: net_gains_def waited_def)
qed

lemma resolveCKPair_gains:
  assumes I: "ck_others held d I" and run: "resolveCKPair D sha I (cfg, cache, s) = (r, cfg', cache', s')"
  shows "net_gains held (waited d) s (-1) s'"
proof (cases cfg)
  case None
  with run show ?thesis by (auto simp: resolveCKPair_def intro: net_gains_refl)
next
  case (Some c)
  obtain c1 cache1 s1 where g: "registerCKPair D sha I c (cache, s) = (c1, cache1, s1)" by (rule prod_cases3)
  from run Some g have "s' = s \<or> s' = s1"
    by (auto simp: resolveCKPair_def Let_def split: if_splits option.splits)
  with registerCKPair_gains [OF I g] show ?thesis by (auto intro: net_gains_refl)
qed

lemma ListenTLS_gains:
  assumes I: "ck_others held d I" and run: "ListenTLS D R sha I i network address (cfg, cache, s) = (r, cfg', cache', s')"
  shows "net_gains held (waited d) s (listener_handle r) s'"
proof (cases "n_shutdown s \<or> tls_validate True cfg \<noteq> None")
  case True
  with run show ?thesis
    by (auto simp: ListenTLS_def listen_opError_def listener_handle_def intro!: net_gains_refl split: if_splits)
next
  case ok: False
  show ?thesis
  proof (cases "listenTarget R False network address s")
    case (Inl e)
    with ok run show ?thesis
      by (auto simp: ListenTLS_def listen_opError_def listener_handle_def intro!: net_gains_refl)
  next
    case (Inr t)
    obtain q cfg1 cache1 s1 where q: "resolveCKPair D sha I (cfg, cache, s) = (q, cfg1, cache1, s1)" by (metis prod_cases4)
    note g = resolveCKPair_gains [OF I q]
    show ?thesis
    proof (cases q)
      case (Inl e)
      with ok run Inr q g show ?thesis by (auto simp: ListenTLS_def listen_opError_def listener_handle_def case_prod_beta)
    next
      case ck: (Inr u)
      obtain b s2 where b: "openBound D (\<lambda>ip p. d_listenTLS4 D ip p defaultBacklog (fst u))
          (\<lambda>ip p. d_listenTLS6 D ip p defaultBacklog (fst u)) (fst t) (snd t) s1 = (b, s2)" by fastforce
      from openBound_gains [OF _ _ b] listen_gains have "gains held (n_poll s1) (bound_handle b) (n_poll s2)" by simp
      with g openBound_frame(1) [OF b] have "net_gains held (waited d) s (bound_handle b) s2"
        by (auto simp: net_gains_def intro: drifts_trans(2))
      note g2 = this
      have "n_poll s' = n_poll s2 \<and> pendingDials (n_live s') = pendingDials (n_live s2) \<and> listener_handle r = bound_handle b"
        using ok run Inr q ck b
        by (cases b) (auto simp: ListenTLS_def listen_opError_def listener_handle_def bound_handle_def trackedListener_def
            newTCPListener_def addListener_def Let_def case_prod_beta)
      then show ?thesis using net_gains_cong [OF g2, of s s'] by simp
    qed
  qed
qed

lemma DialTLSContext_gains:
  assumes I: "ck_others held d I" and J: "others_do held e J"
    and run: "DialTLSContext D R sha I J i ctx network address (cfg, cache, s) = (r, cfg', cache', s')"
  shows "net_gains held (waited_twice d e) s (conn_handle (Some r)) s'"
proof (cases "n_shutdown s \<or> dialTLS_check network cfg ctx (begin_dial s) \<noteq> None")
  case True
  with run show ?thesis
    by (intro net_gains_once) (auto simp: DialTLSContext_def conn_handle_def Let_def intro!: net_gains_refl split: if_splits)
next
  case ok: False
  obtain q cfg1 cache1 s1 where q: "resolveCKPair D sha I (cfg, cache, begin_dial s) = (q, cfg1, cache1, s1)" by (metis prod_cases4)
  note g = resolveCKPair_gains [OF I q]
  show ?thesis
  proof (cases "\<exists>u addr. q = Inr u \<and> resolveAddrContext R network address = Inr addr")
    case False
    with ok run q have "conn_handle (Some r) = -1 \<and> n_poll s' = n_poll s1 \<and> pendingDials (n_live s') = pendingDials (n_live s1) - 1"
      by (cases q; cases "resolveAddrContext R network address")
        (auto simp: DialTLSContext_def conn_handle_def case_prod_beta Let_def)
    with net_gains_cong [OF net_gains_once [OF g], of s s'] show ?thesis by simp
  next
    case True
    then obtain u addr where u: "q = Inr u" "resolveAddrContext R network address = Inr addr" by blast
    obtain c s2 where c: "dialSession D J (connectTLSStart D addr (fst u) (snd u)) ctx s1 = (c, s2)" by fastforce
    have "gains held p (result_handle1 (fst (connectTLSStart D addr ck v p))) (snd (connectTLSStart D addr ck v p))" for ck v p
      using connect_gains by (simp add: connectTLSStart_def split: option.split)
    from net_gains_twice [OF g dialSession_gains [OF this J c]]
    have g2: "net_gains held (waited_twice d e) (begin_dial s) (dialed_handle c) s2" .
    have "conn_handle (Some r) = dialed_handle c \<and> n_poll s' = n_poll s2 \<and> pendingDials (n_live s') = pendingDials (n_live s2) - 1"
      using ok run q u c
      by (cases c) (auto simp: DialTLSContext_def dialed_handle_def conn_handle_def case_prod_beta trackedConn_sel
          trackedConn_def newTCPConn_def addConn_def Let_def)
    with net_gains_cong [OF g2, of s s'] show ?thesis by simp
  qed
qed

end

lemma ListenTLS_ok:
  assumes "ListenTLS D R sha I i network address (cfg, cache, s) = (Inr l, cfg', cache', s')"
  shows "\<not> n_shutdown s \<and> tls_validate True cfg = None \<and> (\<exists>h info z. trackedListener i h info z = (l, s'))"
  using assms by (auto simp: ListenTLS_def listen_opError_def split: if_splits option.splits sum.splits prod.splits)

lemma DialTLSContext_ok:
  assumes "DialTLSContext D R sha I J i ctx network address (cfg, cache, s) = (Inr c, cfg', cache', s')"
  shows "tls_validate False cfg = None \<and> \<not> n_shutdown s \<and> (\<exists>h addr z. \<not> n_shutdown z \<and> c = fst (trackedConn i h addr z)
    \<and> s' = on_live endDial (snd (trackedConn i h addr z)))"
  using assms
  by (auto simp: DialTLSContext_def dialTLS_check_def Let_def case_prod_beta dest: dialSession_ok'
      split: if_splits option.splits sum.splits prod.splits)

lemma tls_validate_ok:
  "tls_validate True cfg = None \<longleftrightarrow> (\<exists>c. cfg = Some c \<and> tls_Cert c \<noteq> [] \<and> tls_Key c \<noteq> [])"
  "tls_validate False cfg = None \<longleftrightarrow> (\<forall>c. cfg = Some c \<longrightarrow> (tls_Cert c = []) = (tls_Key c = []))"
  by (auto simp: tls_validate_def Let_def split: option.splits)

text \<open>C19. \<open>ListenTLS\<close> and \<open>DialTLSContext\<close> leak no session. In Mode 3, whatever VLS answers, and apart from the
  sessions and dials others open and end while the pair is registered and while the handshake is waited
  for: a failure leaves exactly the sessions open that
  were open before, the one whose handshake failed closed; a success leaves one more, that of the
  listener or connection returned, which is tracked. A listener is only made from a configuration with
  certificate and key, a connection from one with both or neither, and the count of pending dials is
  as before in every case.\<close>

theorem tls_leaks_nothing:
  assumes I: "ck_others ps_held d I" and J: "others_do ps_held e J"
    and listen: "ListenTLS (mode3Dispatcher X) R sha I i network address (cfg, cache, s) = (r, x1, y1, s1)"
    and dial: "DialTLSContext (mode3Dispatcher X) R sha I J i ctx network address (cfg, cache, s) = (q, x2, y2, s2)"
  shows "net_gains ps_held (waited d) s (listener_handle r) s1
    \<and> net_gains ps_held (waited_twice d e) s (conn_handle (Some q)) s2
    \<and> (\<forall>l. r = Inr l \<longrightarrow> tl_tracked l \<and> \<not> tl_closed l \<and> i \<in> set (lr_listeners (n_live s1)) \<and> \<not> n_shutdown s
         \<and> (\<exists>c. cfg = Some c \<and> tls_Cert c \<noteq> [] \<and> tls_Key c \<noteq> []))
    \<and> (\<forall>c. q = Inr c \<longrightarrow> tc_tracked c \<and> \<not> tc_closed c \<and> tc_peerAddr c \<noteq> None \<and> \<not> n_shutdown s2
         \<and> (\<forall>f. cfg = Some f \<longrightarrow> (tls_Cert f = []) = (tls_Key f = [])))"
proof (intro conjI)
  show "net_gains ps_held (waited d) s (listener_handle r) s1"
    by (rule mode3_ledger.ListenTLS_gains [OF I listen])
  show "net_gains ps_held (waited_twice d e) s (conn_handle (Some q)) s2"
    by (rule mode3_ledger.DialTLSContext_gains [OF I J dial])
  show "\<forall>l. r = Inr l \<longrightarrow> tl_tracked l \<and> \<not> tl_closed l \<and> i \<in> set (lr_listeners (n_live s1)) \<and> \<not> n_shutdown s
         \<and> (\<exists>c. cfg = Some c \<and> tls_Cert c \<noteq> [] \<and> tls_Key c \<noteq> [])"
    using listen by (auto simp: tls_validate_ok trackedListener_def newTCPListener_def addListener_def Let_def case_prod_beta
        dest!: ListenTLS_ok)
  show "\<forall>c. q = Inr c \<longrightarrow> tc_tracked c \<and> \<not> tc_closed c \<and> tc_peerAddr c \<noteq> None \<and> \<not> n_shutdown s2
         \<and> (\<forall>f. cfg = Some f \<longrightarrow> (tls_Cert f = []) = (tls_Key f = []))"
    using dial by (auto simp: tls_validate_ok trackedConn_def newTCPConn_def Let_def case_prod_beta dest!: DialTLSContext_ok)
qed

lemma tls_leaks_nothing_witness:
  "\<exists>r q x2 y2 s2. fst (ListenTLS (mode3Dispatcher demo_disp) demo_resolver id id 4 ''tcp'' ''x'' (None, [], demo_net)) = r
     \<and> DialTLSContext (mode3Dispatcher demo_disp) demo_resolver id id id 4 Background ''tcp'' ''x'' (None, [], demo_net) = (q, x2, y2, s2)
     \<and> isl r \<and> pendingDials (n_live s2) = 0"
proof -
  obtain r x1 y1 s1 where r: "ListenTLS (mode3Dispatcher demo_disp) demo_resolver id id 4 ''tcp'' ''x'' (None, [], demo_net) = (r, x1, y1, s1)"
    by (metis prod_cases4)
  obtain q x2 y2 s2 where q: "DialTLSContext (mode3Dispatcher demo_disp) demo_resolver id id id 4 Background ''tcp'' ''x'' (None, [], demo_net)
      = (q, x2, y2, s2)" by (metis prod_cases4)
  have "ck_others ps_held (\<lambda>_. 0, 0) id" "others_do ps_held (\<lambda>_. 0, 0) id"
    by (simp_all add: ck_others_def others_do_def drifts_none gains_refl)
  from tls_leaks_nothing [OF this r q] r q show ?thesis
    by (cases r) (auto simp: demo_net_def newLiveRegistry_def net_gains_def waited_twice_def waited_def)
qed

section \<open>Many goroutines resolving pairs\<close>

text \<open>Any number of calls of \<open>registerCKPair\<close>, of different configurations: each has not begun, is about to
  register its pair, to publish the index it got, to give a duplicate back, or has returned.
  \<open>ck_store\<close> are the indexes registered with VPP; an add answers an index that is not in use. The ghost
  \<open>ck_undeleted\<close> holds the duplicates VPP refused to delete.\<close>

datatype ck_pc = CIdle | CAdd string | CPublish string u32 | CDelete string u32 u32 | CReturned string u32 | CFailed

record cksys =
  ck_cache :: ckpair_cache
  ck_store :: "u32 list"
  ck_pcs :: "nat \<Rightarrow> ck_pc"
  ck_undeleted :: "u32 list"

definition ck_at :: "nat \<Rightarrow> ck_pc \<Rightarrow> cksys \<Rightarrow> cksys" where
  "ck_at i p s = s\<lparr>ck_pcs := (ck_pcs s)(i := p)\<rparr>"

inductive ck_step :: "cksys \<Rightarrow> cksys \<Rightarrow> bool" where
  lookup_hit: "ck_pcs s i = CIdle \<Longrightarrow> map_of (ck_cache s) key = Some idx \<Longrightarrow> ck_step s (ck_at i (CReturned key idx) s)"
| lookup_miss: "ck_pcs s i = CIdle \<Longrightarrow> map_of (ck_cache s) key = None \<Longrightarrow> ck_step s (ck_at i (CAdd key) s)"
| add_ok: "ck_pcs s i = CAdd key \<Longrightarrow> idx \<notin> set (ck_store s) \<Longrightarrow>
    ck_step s (ck_at i (CPublish key idx) (s\<lparr>ck_store := idx # ck_store s\<rparr>))"
| add_failed: "ck_pcs s i = CAdd key \<Longrightarrow> ck_step s (ck_at i CFailed s)"
| publish: "ck_pcs s i = CPublish key idx \<Longrightarrow> ck_publish key idx (ck_cache s) = ((used, dup), cache) \<Longrightarrow>
    ck_step s (ck_at i (if dup then CDelete key idx used else CReturned key used) (s\<lparr>ck_cache := cache\<rparr>))"
| delete_ok: "ck_pcs s i = CDelete key idx used \<Longrightarrow>
    ck_step s (ck_at i (CReturned key used) (s\<lparr>ck_store := remove1 idx (ck_store s)\<rparr>))"
| delete_failed: "ck_pcs s i = CDelete key idx used \<Longrightarrow>
    ck_step s (ck_at i (CReturned key used) (s\<lparr>ck_undeleted := idx # ck_undeleted s\<rparr>))"

definition ck_start :: cksys where
  "ck_start = \<lparr>ck_cache = [], ck_store = [], ck_pcs = (\<lambda>_. CIdle), ck_undeleted = []\<rparr>"

text \<open>The index a call holds that is in nobody's reach but its own.\<close>

fun ck_held :: "ck_pc \<Rightarrow> u32 option" where
  "ck_held (CPublish key idx) = Some idx"
| "ck_held (CDelete key idx used) = Some idx"
| "ck_held _ = None"

text \<open>The index a call has decided to return.\<close>

fun ck_used :: "ck_pc \<Rightarrow> (string \<times> u32) option" where
  "ck_used (CDelete key idx used) = Some (key, used)"
| "ck_used (CReturned key used) = Some (key, used)"
| "ck_used _ = None"

definition ck_unique :: "cksys \<Rightarrow> bool" where
  "ck_unique s \<longleftrightarrow> distinct (ck_store s) \<and> distinct (map fst (ck_cache s)) \<and> distinct (map snd (ck_cache s) @ ck_undeleted s)
     \<and> (\<forall>i j idx. ck_held (ck_pcs s i) = Some idx \<longrightarrow> ck_held (ck_pcs s j) = Some idx \<longrightarrow> i = j)
     \<and> (\<forall>i idx. ck_held (ck_pcs s i) = Some idx \<longrightarrow> idx \<notin> snd ` set (ck_cache s) \<union> set (ck_undeleted s))"

definition ck_complete :: "cksys \<Rightarrow> bool" where
  "ck_complete s \<longleftrightarrow> (\<forall>idx. idx \<in> set (ck_store s) \<longleftrightarrow>
     idx \<in> snd ` set (ck_cache s) \<or> idx \<in> set (ck_undeleted s) \<or> (\<exists>i. ck_held (ck_pcs s i) = Some idx))"

definition ck_agree :: "cksys \<Rightarrow> bool" where
  "ck_agree s \<longleftrightarrow> (\<forall>i key idx. ck_used (ck_pcs s i) = Some (key, idx) \<longrightarrow> map_of (ck_cache s) key = Some idx)"

definition ck_inv :: "cksys \<Rightarrow> bool" where
  "ck_inv s \<longleftrightarrow> ck_unique s \<and> ck_complete s \<and> ck_agree s"

lemma ck_at_sel [simp]:
  "ck_cache (ck_at i p s) = ck_cache s" "ck_store (ck_at i p s) = ck_store s" "ck_undeleted (ck_at i p s) = ck_undeleted s"
  "ck_pcs (ck_at i p s) j = (if j = i then p else ck_pcs s j)"
  by (simp_all add: ck_at_def)

text \<open>A step of goroutine \<open>i\<close> that leaves cache and store alone and what \<open>i\<close> holds with it.\<close>

lemma ck_move_inv:
  assumes "ck_inv s" "ck_held p = ck_held (ck_pcs s i)"
    and "\<And>key idx. ck_used p = Some (key, idx) \<Longrightarrow> map_of (ck_cache s) key = Some idx"
  shows "ck_inv (ck_at i p s)"
proof -
  have "ck_held (ck_pcs (ck_at i p s) j) = ck_held (ck_pcs s j)" for j using assms(2) by simp
  moreover from this have "ck_unique (ck_at i p s) = ck_unique s" "ck_complete (ck_at i p s) = ck_complete s"
    unfolding ck_unique_def ck_complete_def by (simp_all only: ck_at_sel(1-3))
  ultimately show ?thesis using assms by (simp add: ck_inv_def ck_agree_def)
qed

lemma update_new: "map_of al k = None \<Longrightarrow> AList.update k v al = al @ [(k, v)]"
  by (induction al) auto

lemma ck_publish_cases:
  assumes "ck_publish key idx cache = ((used, dup), cache')"
  obtains (Dup) "map_of cache key = Some used" "dup" "cache' = cache"
  | (New) "map_of cache key = None" "\<not> dup" "used = idx" "cache' = cache @ [(key, idx)]"
  using assms by (cases "map_of cache key") (auto simp: ck_publish_def update_new)

lemma ck_holder:
  assumes "ck_inv s" "ck_held (ck_pcs s i) = Some idx"
  shows "idx \<notin> snd ` set (ck_cache s) \<union> set (ck_undeleted s)" "ck_held (ck_pcs s j) = Some idx \<longleftrightarrow> j = i"
proof -
  from assms have "ck_unique s" by (simp add: ck_inv_def)
  with assms(2) show "idx \<notin> snd ` set (ck_cache s) \<union> set (ck_undeleted s)" "ck_held (ck_pcs s j) = Some idx \<longleftrightarrow> j = i"
    unfolding ck_unique_def by blast+
qed

text \<open>What goroutine \<open>i\<close> holds, apart from the others.\<close>

lemma ck_complete_split:
  "ck_complete s \<longleftrightarrow> (\<forall>idx. idx \<in> set (ck_store s) \<longleftrightarrow> idx \<in> snd ` set (ck_cache s) \<or> idx \<in> set (ck_undeleted s)
     \<or> ck_held (ck_pcs s i) = Some idx \<or> (\<exists>j. j \<noteq> i \<and> ck_held (ck_pcs s j) = Some idx))"
  unfolding ck_complete_def by metis

lemma ck_step_inv:
  assumes "ck_step s s'" "ck_inv s"
  shows "ck_inv s'"
  using assms
proof (induction rule: ck_step.induct)
  case (add_ok s i key idx)
  then have "idx \<notin> snd ` set (ck_cache s) \<union> set (ck_undeleted s)" "\<And>j. ck_held (ck_pcs s j) \<noteq> Some idx"
    by (auto simp: ck_inv_def ck_complete_def)
  with add_ok show ?case
    by (auto simp: ck_inv_def ck_unique_def ck_complete_split [where i = i] ck_agree_def)
next
  case (publish s i key idx used dup cache)
  from publish(2) show ?case
  proof (cases rule: ck_publish_cases)
    case Dup
    with publish show ?thesis by (auto intro!: ck_move_inv)
  next
    case New
    have "ck_held (ck_pcs s i) = Some idx" using publish by simp
    note held = ck_holder [OF publish(3) this]
    have new: "key \<notin> fst ` set (ck_cache s)" using New(1) by (simp add: map_of_eq_None_iff)
    have "ck_unique (ck_at i (CReturned key idx) (s\<lparr>ck_cache := ck_cache s @ [(key, idx)]\<rparr>))"
      using publish held new by (auto simp: ck_inv_def ck_unique_def)
    moreover have "ck_complete (ck_at i (CReturned key idx) (s\<lparr>ck_cache := ck_cache s @ [(key, idx)]\<rparr>))"
      using publish held by (auto simp: ck_inv_def ck_complete_split [where i = i])
    moreover have "ck_agree (ck_at i (CReturned key idx) (s\<lparr>ck_cache := ck_cache s @ [(key, idx)]\<rparr>))"
      using publish New by (auto simp: ck_inv_def ck_agree_def map_add_def)
    ultimately show ?thesis using New by (simp add: ck_inv_def)
  qed
next
  case (delete_ok s i key idx used)
  then have "ck_held (ck_pcs s i) = Some idx" by simp
  note held = ck_holder [OF delete_ok(2) this]
  let ?s = "ck_at i (CReturned key used) (s\<lparr>ck_store := remove1 idx (ck_store s)\<rparr>)"
  from delete_ok have uc: "ck_unique s" "ck_complete s" "ck_agree s" by (simp_all add: ck_inv_def)
  then have "ck_unique ?s" "distinct (ck_store s)" by (auto simp: ck_unique_def)
  moreover from this(2) have "ck_complete ?s"
    using delete_ok(1) held uc(2) by (auto simp: ck_complete_split [where i = i])
  moreover have "ck_agree ?s" using delete_ok(1) uc(3) by (auto simp: ck_agree_def) (metis ck_used.simps(1))
  ultimately show ?case by (simp add: ck_inv_def)
next
  case (delete_failed s i key idx used)
  then have "ck_held (ck_pcs s i) = Some idx" by simp
  note held = ck_holder [OF delete_failed(2) this]
  let ?s = "ck_at i (CReturned key used) (s\<lparr>ck_undeleted := idx # ck_undeleted s\<rparr>)"
  from delete_failed have uc: "ck_unique s" "ck_complete s" "ck_agree s" by (simp_all add: ck_inv_def)
  then have "ck_unique ?s" using held by (auto simp: ck_unique_def)
  moreover have "ck_complete ?s"
    using delete_failed(1) held uc(2) by (auto simp: ck_complete_split [where i = i])
  moreover have "ck_agree ?s" using delete_failed(1) uc(3) by (auto simp: ck_agree_def) (metis ck_used.simps(1))
  ultimately show ?case by (simp add: ck_inv_def)
qed (auto intro!: ck_move_inv)

lemma ck_inv_reach: "ck_step\<^sup>*\<^sup>* ck_start s \<Longrightarrow> ck_inv s"
  by (induction rule: rtranclp_induct)
    (simp_all add: ck_step_inv, simp add: ck_inv_def ck_unique_def ck_complete_def ck_agree_def ck_start_def)

text \<open>C30. Concurrent dials and listens register a certificate pair once. In every interleaving of any number of
  calls, provided VPP never hands out an index twice while it is in use: keys and indexes of the cache
  correspond one to one, calls that returned for the same key returned the same index, the cached one,
  and that index is registered with VPP. Once no call is in flight, the pairs registered are exactly
  those of the cache and the duplicates VPP refused to delete, each once.\<close>

theorem ckpairs_registered_once:
  assumes "ck_step\<^sup>*\<^sup>* ck_start s"
  shows "distinct (map fst (ck_cache s)) \<and> distinct (map snd (ck_cache s))
    \<and> (\<forall>i key idx. ck_pcs s i = CReturned key idx \<longrightarrow> map_of (ck_cache s) key = Some idx \<and> idx \<in> set (ck_store s))
    \<and> ((\<forall>i. ck_held (ck_pcs s i) = None) \<longrightarrow> mset (ck_store s) = mset (map snd (ck_cache s) @ ck_undeleted s))"
proof (intro conjI allI impI)
  from ck_inv_reach [OF assms] have inv: "ck_unique s" "ck_complete s" "ck_agree s" by (simp_all add: ck_inv_def)
  then show "distinct (map fst (ck_cache s))" "distinct (map snd (ck_cache s))" by (simp_all add: ck_unique_def)
  fix i key idx assume "ck_pcs s i = CReturned key idx"
  then have "ck_used (ck_pcs s i) = Some (key, idx)" by simp
  with inv(3) show m: "map_of (ck_cache s) key = Some idx" unfolding ck_agree_def by blast
  from map_of_SomeD [OF m] have "idx \<in> snd ` set (ck_cache s)" by force
  with inv(2) show "idx \<in> set (ck_store s)" by (simp add: ck_complete_def)
next
  from ck_inv_reach [OF assms] have inv: "ck_unique s" "ck_complete s" by (simp_all add: ck_inv_def)
  assume "\<forall>i. ck_held (ck_pcs s i) = None"
  with inv(2) have "set (ck_store s) = set (map snd (ck_cache s) @ ck_undeleted s)" by (auto simp: ck_complete_def)
  moreover have "distinct (ck_store s)" "distinct (map snd (ck_cache s) @ ck_undeleted s)" using inv(1) by (simp_all only: ck_unique_def)
  ultimately show "mset (ck_store s) = mset (map snd (ck_cache s) @ ck_undeleted s)" using set_eq_iff_mset_eq_distinct by blast
qed

text \<open>Two calls race for the same pair, the second gives its index back.\<close>

lemma ckpairs_registered_once_witness:
  "\<exists>s :: cksys. ck_pcs s 0 = CReturned ''k'' 7 \<and> ck_pcs s 1 = CReturned ''k'' 7 \<and> ck_store s = [7]
     \<and> map_of (ck_cache s) ''k'' = Some 7 \<and> 7 \<in> set (ck_store s)"
proof -
  let ?a = "ck_at 1 (CAdd ''k'') (ck_at 0 (CAdd ''k'') ck_start)"
  let ?b = "ck_at 0 (CPublish ''k'' 7) (?a\<lparr>ck_store := [7]\<rparr>)"
  let ?c = "ck_at 1 (CPublish ''k'' 9) (?b\<lparr>ck_store := [9, 7]\<rparr>)"
  let ?d = "ck_at 0 (CReturned ''k'' 7) (?c\<lparr>ck_cache := [(''k'', 7)]\<rparr>)"
  let ?e = "ck_at 1 (CDelete ''k'' 9 7) (?d\<lparr>ck_cache := [(''k'', 7)]\<rparr>)"
  let ?f = "ck_at 1 (CReturned ''k'' 7) (?e\<lparr>ck_store := [7]\<rparr>)"
  have "ck_step ck_start (ck_at 0 (CAdd ''k'') ck_start)" by (rule ck_step.lookup_miss) (simp_all add: ck_start_def)
  moreover have "ck_step (ck_at 0 (CAdd ''k'') ck_start) ?a" by (rule ck_step.lookup_miss) (simp_all add: ck_start_def)
  moreover have "ck_step ?a ?b" using ck_step.add_ok [of ?a 0 "''k''" 7] by (simp add: ck_start_def)
  moreover have "ck_step ?b ?c" using ck_step.add_ok [of ?b 1 "''k''" 9] by (simp add: ck_start_def)
  moreover have "ck_step ?c ?d"
    using ck_step.publish [of ?c 0 "''k''" 7 7 False "[(''k'', 7)]"] by (simp add: ck_publish_def ck_start_def)
  moreover have "ck_step ?d ?e"
    using ck_step.publish [of ?d 1 "''k''" 9 7 True "[(''k'', 7)]"] by (simp add: ck_publish_def)
  moreover have "ck_step ?e ?f" using ck_step.delete_ok [of ?e 1 "''k''" 9 7] by simp
  ultimately have run: "ck_step\<^sup>*\<^sup>* ck_start ?f" by (meson rtranclp.rtrancl_refl rtranclp.rtrancl_into_rtrancl)
  have sel: "ck_pcs ?f 0 = CReturned ''k'' 7" "ck_pcs ?f 1 = CReturned ''k'' 7" "ck_store ?f = [7]" by simp_all
  from ckpairs_registered_once [OF run, THEN conjunct2, THEN conjunct2, THEN conjunct1, rule_format, OF sel(1)] sel
  show ?thesis by blast
qed

end
