(* ===== verification/Shutdown.thy ===== *)
theory Shutdown
  imports Tls
begin

text \<open>
  Shutdown (\<open>shutdown.go\<close>) over the whole process: the net layer, the objects its registry tracks, and
  the dispatcher below. The first part says what \<open>shutdownStarted\<close> does to every public call, the
  second runs \<open>ShutdownWithTimeout\<close> with the other goroutines interfering wherever it waits or
  leaves a lock.
\<close>

section \<open>Calls made after shutdown has begun\<close>

text \<open>The call failed with \<open>ErrClosed\<close> and did not enter \<open>vclpoll\<close>.\<close>

definition refused :: "string \<Rightarrow> 's net \<Rightarrow> (net_error + 'a) option \<times> 'o \<times> 's net \<Rightarrow> bool" where
  "refused op s r \<longleftrightarrow> (\<exists>a. fst r = Some (Inl (opErrorAddr op a ErrClosed))) \<and> n_poll (snd (snd r)) = n_poll s"

definition untouched :: "'s net \<Rightarrow> 'a \<times> 'o \<times> 's net \<Rightarrow> bool" where
  "untouched s r \<longleftrightarrow> n_poll (snd (snd r)) = n_poll s"

lemma tcp_opError_shutdown [simp]:
  "n_shutdown s \<Longrightarrow> tcp_opError D op e (c, s) = (opErrorAddr op (Some (TCPAddr (peerOrZero c))) e, c, s)"
  by (simp add: tcp_opError_def tcp_RemoteAddr_def peerOrZero_def split: option.split)

lemma tcp_closeResult_shutdown: "n_shutdown s \<Longrightarrow> snd (tcp_closeResult D r (c, s)) = (c, s)"
  by (simp add: tcp_closeResult_def split: sum.split)

lemmas shutdown_checks = readStateError_def writeStateError_def read_check_def write_check_def ioStateError_def
  closedStateError_def udp_readStateError_def udp_writeStateError_def packet_write_check_def packet_read_check_def

lemma io_refused:
  assumes "n_shutdown s"
  shows "\<not> tc_readShutdown c \<Longrightarrow> refused ''read'' s (tcp_Read D I (Suc fuel) len (c, s))"
    "\<not> tc_writeShutdown c \<Longrightarrow> (\<exists>a. tcp_Write D I (Suc fuel) b (c, s) = (Some (0, Some (opErrorAddr ''write'' a ErrClosed)), c, s))"
    "refused ''read'' s (udp_Read D K (Suc fuel) len (u, s))"
    "refused ''write'' s (udp_Write D K (Suc fuel) b (u, s))"
    "refused ''read'' s (udp_ReadFrom D K (Suc fuel) len (u, s))"
    "refused ''write'' s (udp_WriteTo D K (Suc fuel) b addr (u, s))"
    "refused ''write'' s (packet_WriteTo D L (Suc fuel) b addr (q, s))"
    "refused ''read'' s (packet_ReadFrom M ready (Suc fuel) len (q, s))"
  using assms
  by (auto simp: refused_def tcp_Read_def tcp_Write_def tcp_readError_def shutdown_checks udp_Read_def udp_Write_def
      udp_ReadFrom_def udp_WriteTo_def udp_result_def packet_WriteTo_def packet_result_def packet_read_error_def)

lemma tcp_controls_untouched:
  assumes "n_shutdown s"
  shows "untouched s (tcp_Close D (c, s))" "untouched s (tcp_CloseRead D (c, s))" "untouched s (tcp_CloseWrite D (c, s))"
    "untouched s (tcp_SetDeadline D t (c, s))" "untouched s (tcp_SetReadDeadline D t (c, s))"
    "untouched s (tcp_SetWriteDeadline D t (c, s))" "untouched s (tcp_LocalAddr D (c, s))" "untouched s (tcp_RemoteAddr D (c, s))"
  using assms
  by (simp_all add: untouched_def tcp_Close_def tcp_CloseRead_def tcp_CloseWrite_def tcp_SetDeadline_def tcp_SetReadDeadline_def
      tcp_SetWriteDeadline_def tcp_LocalAddr_def tcp_RemoteAddr_def shutdown_checks Let_def case_prod_beta
      tcp_closeResult_shutdown split: option.split)

lemma other_controls_untouched:
  assumes "n_shutdown s"
  shows "untouched s (udp_Close D (u, s))" "untouched s (udp_setDeadlines r w t (u, s))" "untouched s (udp_LocalAddr D (u, s))"
    "untouched s (packet_setDeadlines r w t (q, s))" "untouched s (listener_Close D (l, s))"
  using assms
  by (simp_all add: untouched_def udp_Close_def udp_setDeadlines_def udp_LocalAddr_def packet_setDeadlines_def listener_Close_def
      shutdown_checks Let_def case_prod_beta split: option.split)

lemma opens_refused:
  assumes "n_shutdown s"
  shows "AcceptContext D I i ctx (l, s) = (Some (Inl (accept_opError l ErrClosed)), l, s)"
    "Listen D R i network address s = (Inl (opError ''listen'' network address ErrClosed), s)"
    "ListenPacket D R i network address s = (Inl (opError ''listen'' network address ErrClosed), s)"
    "ListenTLS D R sha J i network address (cfg, cache, s) = (Inl (opError ''listen'' network address ErrClosed), cfg, cache, s)"
    "DialContext D R K HE i timeout cause ctx network address s = (Some (Inl (opError ''dial'' network address ErrClosed)), s)"
    "fst (DialTimeout D R K HE i network address timeout s) = Some (Inl (opError ''dial'' network address ErrClosed))"
    "n_poll (snd (DialTimeout D R K HE i network address timeout s)) = n_poll s"
    "DialTLSContext D R sha J K i ctx network address (cfg, cache, s) = (Inl (opError ''dial'' network address ErrClosed), cfg, cache, s)"
  using assms
  by (simp_all add: AcceptContext_def Listen_def ListenPacket_def ListenTLS_def DialContext_def DialTLSContext_def
      listenTarget_def listen_opError_def dial_opError_def tls_validate_def DialTimeout_def vclnet_DialContext_def Let_def case_prod_beta)

lemma half_closed_io:
  assumes "n_shutdown s"
  shows "tcp_Read D I (Suc fuel) len (c, s) = (Some (Inl (if tc_readShutdown c then EOF
      else opErrorAddr ''read'' (Some (TCPAddr (peerOrZero c))) ErrClosed)), c, s)"
    "tcp_Write D I (Suc fuel) b (c, s) = (Some (0, Some (opErrorAddr ''write'' (Some (TCPAddr (peerOrZero c)))
      (if tc_writeShutdown c then StdErrClosed else ErrClosed))), c, s)"
  using assms by (simp_all add: tcp_Read_def tcp_Write_def tcp_readError_def shutdown_checks)

text \<open>A packet connection's \<open>Close\<close> closes its peers whether or not the process is shutting down; the socket it
  was opened with it leaves to the teardown.\<close>

lemma close_peers_poll:
  "n_shutdown (snd (fold (close_peer D) is' (q, s))) = n_shutdown s
   \<and> n_poll (snd (fold (close_peer D) is' (q, s))) = fold (\<lambda>i w. snd (d_close D (pe_vlsh (peer_of q i)) w)) is' (n_poll s)"
proof (induction is' arbitrary: q s)
  case (Cons i is')
  have "pe_vlsh (peer_of (q\<lparr>pc_shut := i # pc_shut q\<rparr>) j) = pe_vlsh (peer_of q j)" for j by (simp add: peer_of_def)
  with Cons.IH show ?case by (simp add: close_peer_def on_poll_def case_prod_beta)
qed simp

lemma packet_close_after_shutdown:
  assumes "n_shutdown s"
  shows "n_poll (snd (packet_Close_begin (q, s))) = n_poll s"
    "fst (packet_Close_finish D (q, s)) = None"
    "n_poll (snd (snd (packet_Close_finish D (q, s))))
       = fold (\<lambda>i w. snd (d_close D (pe_vlsh (peer_of q i)) w)) (map snd (pc_peers q)) (n_poll s)"
  using assms close_peers_poll [of D "map snd (pc_peers q)" q s]
  by (simp_all add: packet_Close_begin_def packet_Close_finish_def Let_def case_prod_beta)

text \<open>C3. Once shutdown has begun nothing enters \<open>vclpoll\<close> but the closing of packet connections. For every
  dispatcher below and every state of the objects: accepts, listens and dials (TLS too) fail with
  \<open>ErrClosed\<close> before they reach \<open>vclpoll\<close>, and so do the reads and writes of all connections, but that on a side of a
  TCP connection that was half-closed before a read still answers \<open>io.EOF\<close> and a write \<open>net.ErrClosed\<close>, which do not reach
  it either. Nor do closing a listener or a TCP or UDP connection,
  half-closing, asking for addresses and setting deadlines. So the drain of \<open>Shutdown\<close>, which comes after the flag is
  set, lets no connection write what it still has to send. The exception is \<open>Close\<close> of a packet
  connection: it tests the flag for the socket it listens on alone, and closes with
  \<open>vclpoll.Close\<close> the session of each peer in its table, of nothing else.\<close>

theorem only_packet_close_enters_vclpoll_after_shutdown:
  assumes sd: "n_shutdown s"
  shows "tcp_Read D I (Suc fuel) len (c, s) = (Some (Inl (if tc_readShutdown c then EOF
        else opErrorAddr ''read'' (Some (TCPAddr (peerOrZero c))) ErrClosed)), c, s)
    \<and> tcp_Write D I (Suc fuel) b (c, s) = (Some (0, Some (opErrorAddr ''write'' (Some (TCPAddr (peerOrZero c)))
        (if tc_writeShutdown c then StdErrClosed else ErrClosed))), c, s)
    \<and> refused ''read'' s (udp_Read D K (Suc fuel) len (u, s)) \<and> refused ''write'' s (udp_Write D K (Suc fuel) b (u, s))
    \<and> refused ''read'' s (udp_ReadFrom D K (Suc fuel) len (u, s)) \<and> refused ''write'' s (udp_WriteTo D K (Suc fuel) b addr (u, s))
    \<and> refused ''write'' s (packet_WriteTo D L (Suc fuel) b addr (q, s)) \<and> refused ''read'' s (packet_ReadFrom O' ready (Suc fuel) len (q, s))
    \<and> AcceptContext D M i ctx (l, s) = (Some (Inl (accept_opError l ErrClosed)), l, s)
    \<and> Listen D R i network address s = (Inl (opError ''listen'' network address ErrClosed), s)
    \<and> ListenPacket D R i network address s = (Inl (opError ''listen'' network address ErrClosed), s)
    \<and> ListenTLS D R sha N i network address (cfg, cache, s) = (Inl (opError ''listen'' network address ErrClosed), cfg, cache, s)
    \<and> DialContext D R J HE i timeout cause ctx network address s = (Some (Inl (opError ''dial'' network address ErrClosed)), s)
    \<and> (fst (DialTimeout D R J HE i network address timeout s) = Some (Inl (opError ''dial'' network address ErrClosed))
       \<and> n_poll (snd (DialTimeout D R J HE i network address timeout s)) = n_poll s)
    \<and> DialTLSContext D R sha N J i ctx network address (cfg, cache, s) = (Inl (opError ''dial'' network address ErrClosed), cfg, cache, s)
    \<and> untouched s (tcp_Close D (c, s)) \<and> untouched s (tcp_CloseRead D (c, s)) \<and> untouched s (tcp_CloseWrite D (c, s))
    \<and> untouched s (tcp_LocalAddr D (c, s)) \<and> untouched s (tcp_RemoteAddr D (c, s)) \<and> untouched s (tcp_SetDeadline D t (c, s))
    \<and> untouched s (udp_Close D (u, s)) \<and> untouched s (udp_LocalAddr D (u, s)) \<and> untouched s (udp_setDeadlines r w t (u, s))
    \<and> untouched s (listener_Close D (l, s)) \<and> untouched s (packet_setDeadlines r w t (q, s))
    \<and> n_poll (snd (packet_Close_begin (q, s))) = n_poll s \<and> fst (packet_Close_finish D (q, s)) = None
    \<and> n_poll (snd (snd (packet_Close_finish D (q, s))))
        = fold (\<lambda>i w. snd (d_close D (pe_vlsh (peer_of q i)) w)) (map snd (pc_peers q)) (n_poll s)"
  using half_closed_io [OF sd] io_refused(3-) [OF sd] opens_refused [OF sd] tcp_controls_untouched [OF sd]
    other_controls_untouched [OF sd] packet_close_after_shutdown [OF sd]
  by (intro conjI)

lemma only_packet_close_enters_vclpoll_after_shutdown_witness:
  "tcp_Write (mode3Dispatcher demo_disp) id 1 [65] (demo_tcp, demo_net\<lparr>n_shutdown := True\<rparr>)
     = (Some (0, Some (opErrorAddr ''write'' (Some (TCPAddr zeroAddr)) ErrClosed)), demo_tcp, demo_net\<lparr>n_shutdown := True\<rparr>)"
proof -
  have "n_shutdown (demo_net\<lparr>n_shutdown := True\<rparr>)" by simp
  from only_packet_close_enters_vclpoll_after_shutdown [OF this, of "mode3Dispatcher demo_disp" id 0 0 demo_tcp "[65]",
      THEN conjunct2, THEN conjunct1]
  show ?thesis by (simp add: peerOrZero_def demo_tcp_def newTCPConn_def Let_def case_prod_beta)
qed

section \<open>The process\<close>

text \<open>The net layer, the objects behind the pointers of the registry, \<open>shutdownOnce\<close> and \<open>shutdownDone\<close>.\<close>

record 's app =
  ap_net :: "'s net"
  ap_listener :: "nat \<Rightarrow> tcpListener option"
  ap_conn :: "nat \<Rightarrow> net_conn option"
  ap_packet :: "nat \<Rightarrow> packetConn option"
  ap_once :: bool
  ap_done :: nat

text \<open>\<open>l.Close()\<close>, \<open>c.Close()\<close>, \<open>pc.Close()\<close> through \<open>liveCloser\<close>; the error is dropped.\<close>

definition closeListener :: "'s dispatcher \<Rightarrow> nat \<Rightarrow> 's app \<Rightarrow> 's app" where
  "closeListener D i a = (case ap_listener a i of
       None \<Rightarrow> a
     | Some l \<Rightarrow> (let (_, l, s) = listener_Close D (l, ap_net a) in a\<lparr>ap_listener := (ap_listener a)(i \<mapsto> l), ap_net := s\<rparr>))"

definition conn_Close :: "'s dispatcher \<Rightarrow> net_conn \<times> 's net \<Rightarrow> net_conn \<times> 's net" where
  "conn_Close D x = (case x of
       (TCPConn c, s) \<Rightarrow> map_prod TCPConn id (snd (tcp_Close D (c, s)))
     | (UDPConn c, s) \<Rightarrow> map_prod UDPConn id (snd (udp_Close D (c, s))))"

definition closeConn :: "'s dispatcher \<Rightarrow> nat \<Rightarrow> 's app \<Rightarrow> 's app" where
  "closeConn D i a = (case ap_conn a i of
       None \<Rightarrow> a
     | Some c \<Rightarrow> (let (c, s) = conn_Close D (c, ap_net a) in a\<lparr>ap_conn := (ap_conn a)(i \<mapsto> c), ap_net := s\<rparr>))"

text \<open>A packet connection's \<open>Close\<close> waits for its loops: \<open>P\<close> is what the process does until they have
  returned, \<open>None\<close> if they never do. A caller who finds another goroutine in \<open>closeOnce\<close> waits for it, and \<open>P\<close> is
  what the process does until that goroutine has finished.\<close>

definition closePacket :: "'s dispatcher \<Rightarrow> (nat \<Rightarrow> 's app \<Rightarrow> 's app option) \<Rightarrow> nat \<Rightarrow> 's app \<Rightarrow> 's app option" where
  "closePacket D P i a = (case ap_packet a i of
       None \<Rightarrow> Some a
     | Some c \<Rightarrow>
         (case pc_close c of
            CloseDone \<Rightarrow> Some a
          | AwaitLoops \<Rightarrow>
              (case P i a of
                 None \<Rightarrow> None
               | Some a \<Rightarrow>
                   (case ap_packet a i of
                      None \<Rightarrow> None
                    | Some c \<Rightarrow> if pc_close c = CloseDone then Some a else None))
          | NotClosing \<Rightarrow>
              (let (c, s) = packet_Close_begin (c, ap_net a)
               in case P i (a\<lparr>ap_packet := (ap_packet a)(i \<mapsto> c), ap_net := s\<rparr>) of
                    None \<Rightarrow> None
                  | Some a \<Rightarrow>
                      (case ap_packet a i of
                         None \<Rightarrow> None
                       | Some c \<Rightarrow>
                           (let (_, c, s) = packet_Close_finish D (c, ap_net a)
                            in Some (a\<lparr>ap_packet := (ap_packet a)(i \<mapsto> c), ap_net := s\<rparr>))))))"

text \<open>The snapshots range over a map, in whatever order \<open>ord\<close> Go picks.\<close>

definition snapshotListeners :: "(nat list \<Rightarrow> nat list) \<Rightarrow> 's app \<Rightarrow> nat list" where
  "snapshotListeners ord a = ord (lr_listeners (n_live (ap_net a)))"

definition snapshotConns :: "(nat list \<Rightarrow> nat list) \<Rightarrow> 's app \<Rightarrow> nat list" where
  "snapshotConns ord a = ord (lr_conns (n_live (ap_net a)))"

definition snapshotPacketConns :: "(nat list \<Rightarrow> nat list) \<Rightarrow> 's app \<Rightarrow> nat list" where
  "snapshotPacketConns ord a = ord (lr_packetConns (n_live (ap_net a)))"

section \<open>ShutdownWithTimeout\<close>

text \<open>\<open>waitDrain\<close>: \<open>W t ch\<close> is what the process does until \<open>ch\<close> is closed or, if \<open>t\<close> is positive, the timer
  fires; \<open>None\<close>: neither happens.\<close>

definition waitDrain :: "(int \<Rightarrow> nat \<Rightarrow> 's app \<Rightarrow> 's app option) \<Rightarrow> int \<Rightarrow> 's app \<Rightarrow> (bool \<times> 's app) option" where
  "waitDrain W timeout a =
     (case waitDrain_begin (n_live (ap_net a)) (n_heap (ap_net a)) of
        (None, r, H) \<Rightarrow> Some (True, a)
      | (Some ch, r, H) \<Rightarrow>
          map_option (\<lambda>a. (isDrained (n_live (ap_net a)), a)) (W timeout ch (a\<lparr>ap_net := (ap_net a)\<lparr>n_live := r, n_heap := H\<rparr>\<rparr>)))"

text \<open>\<open>J\<close>: what other goroutines do after a close has returned.\<close>

definition sd_mark :: "'s app \<Rightarrow> 's app" where
  "sd_mark a = a\<lparr>ap_once := True,
     ap_net := (ap_net a)\<lparr>n_shutdown := True, n_heap := close_chan (ap_done a) (n_heap (ap_net a))\<rparr>\<rparr>"

definition sd_listeners :: "'s dispatcher \<Rightarrow> ('s app \<Rightarrow> 's app) \<Rightarrow> (nat list \<Rightarrow> nat list) \<Rightarrow> 's app \<Rightarrow> 's app" where
  "sd_listeners D J ord a = fold (\<lambda>i a. J (closeListener D i a)) (snapshotListeners ord a) a"

definition sd_drain :: "(int \<Rightarrow> nat \<Rightarrow> 's app \<Rightarrow> 's app option) \<Rightarrow> int \<Rightarrow> 's app \<Rightarrow> 's app option" where
  "sd_drain W drainTimeout a = (if drainTimeout \<ge> 0 then map_option snd (waitDrain W drainTimeout a) else Some a)"

definition sd_conns :: "'s dispatcher \<Rightarrow> ('s app \<Rightarrow> 's app) \<Rightarrow> (nat list \<Rightarrow> nat list) \<Rightarrow> 's app \<Rightarrow> 's app" where
  "sd_conns D J ord a = fold (\<lambda>i a. J (closeConn D i a)) (snapshotConns ord a) a"

fun closePackets :: "'s dispatcher \<Rightarrow> ('s app \<Rightarrow> 's app) \<Rightarrow> (nat \<Rightarrow> 's app \<Rightarrow> 's app option) \<Rightarrow> nat list \<Rightarrow> 's app \<Rightarrow> 's app option" where
  "closePackets D J P [] a = Some a"
| "closePackets D J P (i # is') a = (case closePacket D P i a of None \<Rightarrow> None | Some a \<Rightarrow> closePackets D J P is' (J a))"

definition sd_packets :: "'s dispatcher \<Rightarrow> ('s app \<Rightarrow> 's app) \<Rightarrow> (nat \<Rightarrow> 's app \<Rightarrow> 's app option) \<Rightarrow> (nat list \<Rightarrow> nat list)
    \<Rightarrow> 's app \<Rightarrow> 's app option" where
  "sd_packets D J P ord a = closePackets D J P (snapshotPacketConns ord a) a"

definition sd_teardown :: "disp_env \<Rightarrow> proc_state app \<Rightarrow> proc_state app" where
  "sd_teardown X a = a\<lparr>ap_net := (ap_net a)\<lparr>n_poll := AppDestroy X (StopPoller X (BeginShutdown (n_poll (ap_net a))))\<rparr>\<rparr>"

definition ShutdownWithTimeout :: "disp_env \<Rightarrow> (proc_state app \<Rightarrow> proc_state app) \<Rightarrow> (int \<Rightarrow> nat \<Rightarrow> proc_state app \<Rightarrow> proc_state app option)
    \<Rightarrow> (nat \<Rightarrow> proc_state app \<Rightarrow> proc_state app option) \<Rightarrow> (nat list \<Rightarrow> nat list) \<Rightarrow> int \<Rightarrow> proc_state app \<Rightarrow> proc_state app option" where
  "ShutdownWithTimeout X J W P ord drainTimeout a =
     (if ap_once a then Some a
      else
        (case sd_drain W drainTimeout (sd_listeners (vclpoll X) J ord (sd_mark a)) of
           None \<Rightarrow> None
         | Some a \<Rightarrow> map_option (sd_teardown X) (sd_packets (vclpoll X) J P ord (sd_conns (vclpoll X) J ord a))))"

definition defaultDrainTimeout :: int where "defaultDrainTimeout = 5000000000"

definition Shutdown :: "disp_env \<Rightarrow> (proc_state app \<Rightarrow> proc_state app) \<Rightarrow> (int \<Rightarrow> nat \<Rightarrow> proc_state app \<Rightarrow> proc_state app option)
    \<Rightarrow> (nat \<Rightarrow> proc_state app \<Rightarrow> proc_state app option) \<Rightarrow> (nat list \<Rightarrow> nat list) \<Rightarrow> proc_state app \<Rightarrow> proc_state app option" where
  "Shutdown X J W P ord = ShutdownWithTimeout X J W P ord defaultDrainTimeout"

definition ShutdownDone :: "'s app \<Rightarrow> nat" where
  "ShutdownDone a = ap_done a"

section \<open>What Shutdown has done when it returns\<close>

definition conn_closed :: "net_conn \<Rightarrow> bool" where
  "conn_closed c = (case c of TCPConn c \<Rightarrow> tc_closed c | UDPConn c \<Rightarrow> uc_closed c)"

text \<open>\<open>closeOnce\<close> has run only on closed objects, and the pointers in the registry are objects.\<close>

definition conn_once :: "net_conn \<Rightarrow> bool" where
  "conn_once c = (case c of TCPConn c \<Rightarrow> tc_closeOnce c | UDPConn c \<Rightarrow> uc_closeOnce c)"

definition app_ok :: "'s app \<Rightarrow> bool" where
  "app_ok a \<longleftrightarrow> (\<forall>i l. ap_listener a i = Some l \<longrightarrow> tl_closeOnce l \<longrightarrow> tl_closed l)
     \<and> (\<forall>i c. ap_conn a i = Some c \<longrightarrow> conn_once c \<longrightarrow> conn_closed c)
     \<and> (\<forall>i c. ap_packet a i = Some c \<longrightarrow> pc_close c \<noteq> NotClosing \<longrightarrow> pc_closed c)
     \<and> set (lr_listeners (n_live (ap_net a))) \<subseteq> dom (ap_listener a) \<and> set (lr_conns (n_live (ap_net a))) \<subseteq> dom (ap_conn a)
     \<and> set (lr_packetConns (n_live (ap_net a))) \<subseteq> dom (ap_packet a)"

text \<open>Whatever a goroutine does: flags and channels stay set and closed, objects stay, closed ones closed.\<close>

definition stays :: "('o \<Rightarrow> bool) \<Rightarrow> (nat \<Rightarrow> 'o option) \<Rightarrow> (nat \<Rightarrow> 'o option) \<Rightarrow> bool" where
  "stays cl m m' \<longleftrightarrow> (\<forall>i c. m i = Some c \<longrightarrow> (\<exists>c'. m' i = Some c' \<and> (cl c \<longrightarrow> cl c')))"

definition app_grows :: "'s app \<Rightarrow> 's app \<Rightarrow> bool" where
  "app_grows a a' \<longleftrightarrow> (app_ok a \<longrightarrow> app_ok a') \<and> (n_shutdown (ap_net a) \<longrightarrow> n_shutdown (ap_net a')) \<and> (ap_once a \<longrightarrow> ap_once a')
     \<and> set (closed_chans (n_heap (ap_net a))) \<subseteq> set (closed_chans (n_heap (ap_net a')))
     \<and> stays tl_closed (ap_listener a) (ap_listener a') \<and> stays conn_closed (ap_conn a) (ap_conn a')
     \<and> stays pc_closed (ap_packet a) (ap_packet a')"

lemma stays_refl [simp]: "stays cl m m"
  by (simp add: stays_def)

lemma stays_upd: "(\<forall>c. m i = Some c \<longrightarrow> cl c \<longrightarrow> cl c') \<Longrightarrow> stays cl m (m(i \<mapsto> c'))"
  by (auto simp: stays_def)

lemma stays_trans: "stays cl m m' \<Longrightarrow> stays cl m' m'' \<Longrightarrow> stays cl m m''"
  unfolding stays_def by metis

lemma app_grows_refl [simp]: "app_grows a a"
  by (simp add: app_grows_def)

lemma app_grows_trans: "app_grows a b \<Longrightarrow> app_grows b c \<Longrightarrow> app_grows a c"
  unfolding app_grows_def by (blast intro: stays_trans)

lemma close_chan_set [simp]: "set (closed_chans (close_chan c H)) = insert c (set (closed_chans H))"
  by (auto simp: close_chan_def)

lemma notify_closed_chans: "set (closed_chans H) \<subseteq> set (closed_chans (snd (notifyIfDrained r H)))"
  by (auto simp: notifyIfDrained_def split: option.split)

lemma interrupt_closed_chans: "set (closed_chans H) \<subseteq> set (closed_chans (snd (interrupt d H)))"
  by (auto simp: interrupt_def closeCurrentLocked_def)

text \<open>A close keeps the flag, closes channels only, adds nothing to the registry, and leaves the object closed.\<close>

definition registered_within :: "liveRegistry \<Rightarrow> liveRegistry \<Rightarrow> bool" where
  "registered_within r r' \<longleftrightarrow> set (lr_listeners r) \<subseteq> set (lr_listeners r') \<and> set (lr_conns r) \<subseteq> set (lr_conns r')
     \<and> set (lr_packetConns r) \<subseteq> set (lr_packetConns r')"

lemma registered_within_simps [simp]:
  "registered_within r r" "registered_within (fst (removeListener i r H)) r" "registered_within (fst (removeConn i r H)) r"
  "registered_within (fst (removePacketConn i r H)) r"
  by (auto simp: registered_within_def removeListener_def removeConn_def removePacketConn_def deleteListener_def deleteConn_def
      deletePacketConn_def notifyIfDrained_def split: option.split)

lemma registered_within_trans: "registered_within r r' \<Longrightarrow> registered_within r' r'' \<Longrightarrow> registered_within r r''"
  by (auto simp: registered_within_def)

definition net_grows :: "'s net \<Rightarrow> 's net \<Rightarrow> bool" where
  "net_grows s s' \<longleftrightarrow> n_shutdown s' = n_shutdown s \<and> set (closed_chans (n_heap s)) \<subseteq> set (closed_chans (n_heap s'))
     \<and> registered_within (n_live s') (n_live s)"

lemma net_grows_trans: "net_grows s t \<Longrightarrow> net_grows t u \<Longrightarrow> net_grows s u"
  by (auto simp: net_grows_def intro: registered_within_trans)

lemma net_grows_steps [simp]:
  "net_grows s s" "net_grows s (snd (on_poll f s))" "net_grows s (snd (on_deadline interrupt d s))"
  "net_grows s (on_live (removeListener i) s)" "net_grows s (on_live (removeConn i) s)"
  "net_grows s (on_live (removePacketConn i) s)" "net_grows s (s\<lparr>n_heap := close_chan c (n_heap s)\<rparr>)"
  by (auto simp: net_grows_def intro: subsetD [OF interrupt_closed_chans])
    (auto simp: removeListener_def removeConn_def removePacketConn_def intro: subsetD [OF notify_closed_chans])

lemmas net_grows_next = net_grows_trans [OF _ net_grows_steps(2)] net_grows_trans [OF _ net_grows_steps(3)]
  net_grows_trans [OF _ net_grows_steps(4)] net_grows_trans [OF _ net_grows_steps(5)]
  net_grows_trans [OF _ net_grows_steps(6)] net_grows_trans [OF _ net_grows_steps(7)]

lemma listener_Close_grows:
  assumes "listener_Close D (l, s) = (e, l', s')"
  shows "net_grows s s'" "tl_closed l \<Longrightarrow> tl_closed l'" "(tl_closeOnce l \<longrightarrow> tl_closed l) \<Longrightarrow> tl_closed l'"
  using assms by (auto simp: listener_Close_def Let_def case_prod_beta split: if_splits intro!: net_grows_next)

lemma tcp_Close_grows:
  assumes "tcp_Close D (c, s) = (e, c', s')"
  shows "net_grows s s'" "tc_closed c \<Longrightarrow> tc_closed c'" "(tc_closeOnce c \<longrightarrow> tc_closed c) \<Longrightarrow> tc_closed c'"
proof -
  have "net_grows s s' \<and> (tc_closed c \<longrightarrow> tc_closed c') \<and> ((tc_closeOnce c \<longrightarrow> tc_closed c) \<longrightarrow> tc_closed c')"
  proof (cases "tc_closeOnce c")
    case True
    with assms show ?thesis by (auto simp: tcp_Close_def)
  next
    case False
    with assms have "(c', s') = snd (tcp_Close D (c, s))" by simp
    with False show ?thesis
      by (auto simp: tcp_Close_def Let_def case_prod_beta closeResult_closed intro!: net_grows_next split: if_splits)
  qed
  then show "net_grows s s'" "tc_closed c \<Longrightarrow> tc_closed c'" "(tc_closeOnce c \<longrightarrow> tc_closed c) \<Longrightarrow> tc_closed c'" by simp_all
qed

lemma udp_Close_grows:
  assumes "udp_Close D (c, s) = (e, c', s')"
  shows "net_grows s s'" "uc_closed c \<Longrightarrow> uc_closed c'" "(uc_closeOnce c \<longrightarrow> uc_closed c) \<Longrightarrow> uc_closed c'"
  using assms by (auto simp: udp_Close_def Let_def case_prod_beta split: if_splits intro!: net_grows_next)

lemma conn_Close_grows:
  assumes "conn_Close D (c, s) = (c', s')"
  shows "net_grows s s'" "conn_closed c \<Longrightarrow> conn_closed c'" "(conn_once c \<longrightarrow> conn_closed c) \<Longrightarrow> conn_closed c'"
proof -
  have "net_grows s s' \<and> (conn_closed c \<longrightarrow> conn_closed c') \<and> ((conn_once c \<longrightarrow> conn_closed c) \<longrightarrow> conn_closed c')"
  proof (cases c)
    case (TCPConn t)
    obtain e t' z where t: "tcp_Close D (t, s) = (e, t', z)" by (rule prod_cases3)
    from assms TCPConn t tcp_Close_grows [OF t] show ?thesis
      by (auto simp: conn_Close_def conn_closed_def conn_once_def)
  next
    case (UDPConn u)
    obtain e u' z where u: "udp_Close D (u, s) = (e, u', z)" by (rule prod_cases3)
    from assms UDPConn u udp_Close_grows [OF u] show ?thesis
      by (auto simp: conn_Close_def conn_closed_def conn_once_def)
  qed
  then show "net_grows s s'" "conn_closed c \<Longrightarrow> conn_closed c'" "(conn_once c \<longrightarrow> conn_closed c) \<Longrightarrow> conn_closed c'"
    by simp_all
qed

lemma packet_Close_grows:
  assumes "packet_Close_begin (c, s) = (c', s')"
  shows "net_grows s s'" "pc_closed c'"
  using assms by (auto simp: packet_Close_begin_def Let_def case_prod_beta intro!: net_grows_next)

lemma fold_close_peer_grows:
  "net_grows s (snd (fold (close_peer D) is' (c, s)))" "pc_closed (fst (fold (close_peer D) is' (c, s))) = pc_closed c"
proof (induction is' arbitrary: c s)
  case (Cons i is')
  { case 1 then show ?case using Cons(1) by (auto simp: close_peer_def intro: net_grows_trans [OF net_grows_steps(2)]) }
  { case 2 then show ?case using Cons(2) by (simp add: close_peer_def) }
qed simp_all

lemma packet_finish_grows:
  assumes "packet_Close_finish D (c, s) = (e, c', s')"
  shows "net_grows s s'" "pc_closed c' = pc_closed c"
  using assms fold_close_peer_grows [where s = s and D = D and is' = "map snd (pc_peers c)" and c = c]
  by (auto simp: packet_Close_finish_def Let_def case_prod_beta split: if_splits intro!: net_grows_next)

lemma app_growsI:
  assumes "net_grows (ap_net a) (ap_net a')" "ap_once a \<longrightarrow> ap_once a'" "app_ok a \<longrightarrow> app_ok a'"
    "stays tl_closed (ap_listener a) (ap_listener a')" "stays conn_closed (ap_conn a) (ap_conn a')"
    "stays pc_closed (ap_packet a) (ap_packet a')"
  shows "app_grows a a'"
  using assms by (simp add: app_grows_def net_grows_def)

lemma app_ok_upd:
  assumes "app_ok a" "net_grows (ap_net a) s"
  shows "(tl_closeOnce l \<longrightarrow> tl_closed l) \<Longrightarrow> app_ok (a\<lparr>ap_listener := (ap_listener a)(i \<mapsto> l), ap_net := s\<rparr>)"
    "(conn_once c \<longrightarrow> conn_closed c) \<Longrightarrow> app_ok (a\<lparr>ap_conn := (ap_conn a)(i \<mapsto> c), ap_net := s\<rparr>)"
    "(pc_close q \<noteq> NotClosing \<longrightarrow> pc_closed q) \<Longrightarrow> app_ok (a\<lparr>ap_packet := (ap_packet a)(i \<mapsto> q), ap_net := s\<rparr>)"
  using assms by (auto simp: app_ok_def net_grows_def registered_within_def)

lemma app_growsD:
  assumes "app_grows a b"
  shows "app_ok a \<Longrightarrow> app_ok b" "n_shutdown (ap_net a) \<Longrightarrow> n_shutdown (ap_net b)" "ap_once a \<Longrightarrow> ap_once b"
    "ch \<in> set (closed_chans (n_heap (ap_net a))) \<Longrightarrow> ch \<in> set (closed_chans (n_heap (ap_net b)))"
    "ap_listener a i = Some l \<Longrightarrow> tl_closed l \<Longrightarrow> \<exists>l'. ap_listener b i = Some l' \<and> tl_closed l'"
    "ap_conn a i = Some c \<Longrightarrow> conn_closed c \<Longrightarrow> \<exists>c'. ap_conn b i = Some c' \<and> conn_closed c'"
    "ap_packet a i = Some q \<Longrightarrow> pc_closed q \<Longrightarrow> \<exists>q'. ap_packet b i = Some q' \<and> pc_closed q'"
  using assms unfolding app_grows_def stays_def by blast+

lemma there_grows:
  assumes "app_grows a b"
  shows "ap_listener a i \<noteq> None \<Longrightarrow> ap_listener b i \<noteq> None" "ap_conn a i \<noteq> None \<Longrightarrow> ap_conn b i \<noteq> None"
    "ap_packet a i \<noteq> None \<Longrightarrow> ap_packet b i \<noteq> None"
  using assms unfolding app_grows_def stays_def by blast+

text \<open>The object behind a pointer is closed.\<close>

definition listener_gone :: "nat \<Rightarrow> 's app \<Rightarrow> bool" where
  "listener_gone i a \<longleftrightarrow> (\<exists>l. ap_listener a i = Some l \<and> tl_closed l)"

definition conn_gone :: "nat \<Rightarrow> 's app \<Rightarrow> bool" where
  "conn_gone i a \<longleftrightarrow> (\<exists>c. ap_conn a i = Some c \<and> conn_closed c)"

definition packet_gone :: "nat \<Rightarrow> 's app \<Rightarrow> bool" where
  "packet_gone i a \<longleftrightarrow> (\<exists>c. ap_packet a i = Some c \<and> pc_closed c)"

lemma gone_grows:
  "app_grows a b \<Longrightarrow> listener_gone i a \<Longrightarrow> listener_gone i b" "app_grows a b \<Longrightarrow> conn_gone i a \<Longrightarrow> conn_gone i b"
  "app_grows a b \<Longrightarrow> packet_gone i a \<Longrightarrow> packet_gone i b"
  unfolding listener_gone_def conn_gone_def packet_gone_def by (blast dest: app_growsD(5-7))+

lemma closeListener_grows:
  "app_grows a (closeListener D i a)"
  "app_ok a \<Longrightarrow> ap_listener (closeListener D i a) i = Some l \<Longrightarrow> tl_closed l"
proof -
  have "app_grows a (closeListener D i a) \<and> (\<forall>l. app_ok a \<and> ap_listener (closeListener D i a) i = Some l \<longrightarrow> tl_closed l)"
  proof (cases "ap_listener a i")
    case (Some l)
    obtain e l' s' where c: "listener_Close D (l, ap_net a) = (e, l', s')" by (rule prod_cases3)
    note g = listener_Close_grows [OF c]
    have eq: "closeListener D i a = a\<lparr>ap_listener := (ap_listener a)(i \<mapsto> l'), ap_net := s'\<rparr>"
      using Some c by (simp add: closeListener_def)
    show ?thesis unfolding eq using Some g
      by (auto intro!: app_growsI stays_upd app_ok_upd) (auto simp: app_ok_def)
  qed (simp add: closeListener_def)
  then show "app_grows a (closeListener D i a)"
    "app_ok a \<Longrightarrow> ap_listener (closeListener D i a) i = Some l \<Longrightarrow> tl_closed l" by blast+
qed

lemma closeConn_grows:
  "app_grows a (closeConn D i a)"
  "app_ok a \<Longrightarrow> ap_conn (closeConn D i a) i = Some c \<Longrightarrow> conn_closed c"
proof -
  have "app_grows a (closeConn D i a) \<and> (\<forall>c. app_ok a \<and> ap_conn (closeConn D i a) i = Some c \<longrightarrow> conn_closed c)"
  proof (cases "ap_conn a i")
    case (Some c)
    obtain c' s' where c: "conn_Close D (c, ap_net a) = (c', s')" by fastforce
    note g = conn_Close_grows [OF c]
    have eq: "closeConn D i a = a\<lparr>ap_conn := (ap_conn a)(i \<mapsto> c'), ap_net := s'\<rparr>"
      using Some c by (simp add: closeConn_def)
    show ?thesis unfolding eq using Some g
      by (auto intro!: app_growsI stays_upd app_ok_upd) (auto simp: app_ok_def)
  qed (simp add: closeConn_def)
  then show "app_grows a (closeConn D i a)"
    "app_ok a \<Longrightarrow> ap_conn (closeConn D i a) i = Some c \<Longrightarrow> conn_closed c" by blast+
qed

lemma closePacket_grows:
  assumes P: "\<And>i a a'. P i a = Some a' \<Longrightarrow> app_grows a a'" and run: "closePacket D P i a = Some a'" and ok: "app_ok a"
  shows "app_grows a a' \<and> (\<forall>c. ap_packet a' i = Some c \<longrightarrow> pc_closed c)"
proof (cases "ap_packet a i")
  case None
  with run show ?thesis by (auto simp: closePacket_def)
next
  case (Some c)
  show ?thesis
  proof (cases "pc_close c")
    case CloseDone
    with run Some ok show ?thesis by (auto simp: closePacket_def app_ok_def)
  next
    case AwaitLoops
    with run Some have a': "P i a = Some a'" by (auto simp: closePacket_def split: option.splits if_splits)
    from AwaitLoops Some ok have "pc_closed c" by (simp add: app_ok_def)
    with P [OF a'] Some show ?thesis using app_growsD(7) [OF P [OF a'], of i c] by auto
  next
    case NotClosing
    obtain c1 s1 where b: "packet_Close_begin (c, ap_net a) = (c1, s1)" by fastforce
    have g1: "net_grows (ap_net a) s1" "pc_closed c1" using packet_Close_grows [OF b] by simp_all
    let ?a1 = "a\<lparr>ap_packet := (ap_packet a)(i \<mapsto> c1), ap_net := s1\<rparr>"
    from run Some NotClosing b obtain a2 where a2: "P i ?a1 = Some a2"
      by (auto simp: closePacket_def Let_def split: option.splits)
    have "app_grows a ?a1" using g1 ok by (auto intro!: app_growsI stays_upd app_ok_upd)
    with P [OF a2] have g2: "app_grows a a2" "app_grows ?a1 a2" by (blast intro: app_grows_trans)+
    from app_growsD(7) [OF g2(2), of i c1] g1(2) obtain c2 where c2: "ap_packet a2 i = Some c2" "pc_closed c2" by auto
    obtain e c3 s3 where f: "packet_Close_finish D (c2, ap_net a2) = (e, c3, s3)" by (rule prod_cases3)
    from run Some NotClosing b a2 c2 f have a': "a' = a2\<lparr>ap_packet := (ap_packet a2)(i \<mapsto> c3), ap_net := s3\<rparr>"
      by (simp add: closePacket_def)
    have "app_grows a2 a'"
      unfolding a' using packet_finish_grows [OF f] c2 by (auto intro!: app_growsI stays_upd app_ok_upd)
    with g2(1) have "app_grows a a'" by (rule app_grows_trans)
    moreover have "ap_packet a' i = Some c3" "pc_closed c3" using packet_finish_grows(2) [OF f] c2(2) by (simp_all add: a')
    ultimately show ?thesis by simp
  qed
qed

section \<open>Sequences of closes\<close>

text \<open>What \<open>Shutdown\<close> needs of a \<open>liveCloser\<close>: \<open>close i\<close> closes the object behind \<open>i\<close> if there is one, and
  whatever else happens leaves it closed.\<close>

locale live_closer =
  fixes close :: "nat \<Rightarrow> 's app \<Rightarrow> 's app" and there gone :: "nat \<Rightarrow> 's app \<Rightarrow> bool"
  assumes close_grows: "app_grows a (close i a)"
    and close_closes: "app_ok a \<Longrightarrow> there i a \<Longrightarrow> gone i (close i a)"
    and there_stays: "app_grows a b \<Longrightarrow> there i a \<Longrightarrow> there i b"
    and gone_stays: "app_grows a b \<Longrightarrow> gone i a \<Longrightarrow> gone i b"
begin

lemma close_all_grows:
  assumes J: "\<And>a. app_grows a (J a)"
  shows "app_grows a (fold (\<lambda>i a. J (close i a)) xs a)"
proof (induction xs arbitrary: a)
  case (Cons x xs)
  have "app_grows a (J (close x a))" using close_grows J by (rule app_grows_trans)
  with Cons show ?case by (auto intro: app_grows_trans)
qed simp

lemma close_all_closes:
  assumes J: "\<And>a. app_grows a (J a)" and "app_ok a" "\<forall>i \<in> set xs. there i a" "i \<in> set xs"
  shows "gone i (fold (\<lambda>i a. J (close i a)) xs a)"
  using assms(2-)
proof (induction xs arbitrary: a)
  case (Cons x xs)
  have g: "app_grows a (J (close x a))" using close_grows J by (rule app_grows_trans)
  show ?case
  proof (cases "i = x")
    case True
    with Cons.prems have "gone i (J (close x a))" by (auto intro: gone_stays [OF J] close_closes)
    then show ?thesis using close_all_grows [OF J, of "J (close x a)" xs] by (simp add: gone_stays)
  next
    case False
    with Cons.prems have "i \<in> set xs" "\<forall>j \<in> set xs. there j (J (close x a))" using there_stays [OF g] by auto
    with Cons.IH [OF app_growsD(1) [OF g Cons.prems(1)]] show ?thesis by simp
  qed
qed simp

end

interpretation listeners: live_closer "closeListener D" "\<lambda>i a. ap_listener a i \<noteq> None" listener_gone for D
proof (unfold_locales, goal_cases)
  case (2 a i)
  then show ?case
    using closeListener_grows(2) [of a D i]
    by (auto simp: listener_gone_def closeListener_def Let_def case_prod_beta split: option.splits)
qed (rule closeListener_grows(1), erule (1) there_grows(1), erule (1) gone_grows(1))

interpretation conns: live_closer "closeConn D" "\<lambda>i a. ap_conn a i \<noteq> None" conn_gone for D
proof (unfold_locales, goal_cases)
  case (2 a i)
  then show ?case
    using closeConn_grows(2) [of a D i]
    by (auto simp: conn_gone_def closeConn_def Let_def case_prod_beta split: option.splits)
qed (rule closeConn_grows(1), erule (1) there_grows(2), erule (1) gone_grows(2))

lemma closePackets_grows:
  assumes P: "\<And>i a a'. P i a = Some a' \<Longrightarrow> app_grows a a'" and J: "\<And>a. app_grows a (J a)"
    and run: "closePackets D J P xs a = Some a'" and ok: "app_ok a"
  shows "app_grows a a'" "(\<forall>i \<in> set xs. ap_packet a i \<noteq> None) \<Longrightarrow> i \<in> set xs \<Longrightarrow> packet_gone i a'"
proof -
  have "app_grows a a' \<and> ((\<forall>i \<in> set xs. ap_packet a i \<noteq> None) \<longrightarrow> (\<forall>i \<in> set xs. packet_gone i a'))"
    using run ok
  proof (induction xs arbitrary: a)
    case (Cons x xs)
    then obtain b where b: "closePacket D P x a = Some b" "closePackets D J P xs (J b) = Some a'"
      by (auto split: option.splits)
    from closePacket_grows [OF P b(1) Cons.prems(2)] have g: "app_grows a b" "\<forall>c. ap_packet b x = Some c \<longrightarrow> pc_closed c" by auto
    from g(1) J have gJ: "app_grows a (J b)" by (rule app_grows_trans)
    from Cons.IH [OF b(2) app_growsD(1) [OF gJ Cons.prems(2)]] have g': "app_grows (J b) a'"
      "(\<forall>i \<in> set xs. ap_packet (J b) i \<noteq> None) \<longrightarrow> (\<forall>i \<in> set xs. packet_gone i a')" by auto
    have "packet_gone i a'" if there: "\<forall>i \<in> set (x # xs). ap_packet a i \<noteq> None" and i: "i \<in> set (x # xs)" for i
    proof (cases "i = x")
      case True
      from there there_grows(3) [OF g(1), of x] g(2) have "packet_gone x b" by (auto simp: packet_gone_def)
      with True J g'(1) show ?thesis by (blast intro: gone_grows(3))
    next
      case False
      from there there_grows(3) [OF gJ] have "\<forall>i \<in> set xs. ap_packet (J b) i \<noteq> None" by simp
      with g'(2) False i show ?thesis by auto
    qed
    with gJ g'(1) show ?case by (blast intro: app_grows_trans)
  qed simp
  then show "app_grows a a'" "(\<forall>i \<in> set xs. ap_packet a i \<noteq> None) \<Longrightarrow> i \<in> set xs \<Longrightarrow> packet_gone i a'" by auto
qed

lemma sd_mark_grows:
  "app_grows a (sd_mark a)" "app_ok a \<Longrightarrow> app_ok (sd_mark a)" "n_shutdown (ap_net (sd_mark a))" "ap_once (sd_mark a)"
  "ap_done a \<in> set (closed_chans (n_heap (ap_net (sd_mark a))))"
  "lr_listeners (n_live (ap_net (sd_mark a))) = lr_listeners (n_live (ap_net a))"
  by (auto simp: sd_mark_def app_grows_def app_ok_def)

lemma drain_grows:
  assumes W: "\<And>t ch a a'. W t ch a = Some a' \<Longrightarrow> app_grows a a'" and run: "sd_drain W t a = Some a'"
  shows "app_grows a a'"
proof -
  have "app_grows a (a\<lparr>ap_net := (ap_net a)\<lparr>n_live := r, n_heap := H\<rparr>\<rparr>)"
    if "waitDrain_begin (n_live (ap_net a)) (n_heap (ap_net a)) = (x, r, H)" for x r H
    using that by (auto simp: app_grows_def app_ok_def waitDrain_begin_def new_chan_def Let_def split: if_splits option.splits)
  then show ?thesis
    using run by (auto simp: sd_drain_def waitDrain_def split: if_splits prod.splits option.splits dest!: W intro: app_grows_trans)
qed

lemma teardown_mode2:
  assumes "ps_active p = Mode2Selected" and "p' = AppDestroy X (StopPoller X (BeginShutdown p))"
  shows "stopping (ps_m2 p') \<and> \<not> appLive (ps_m2 p') \<and> submit F f (ps_m2 p') = (Inl PollErrClosed, ps_m2 p')"
proof -
  let ?m = "mode2_stop (de_workers X) (de_polls X) (mode2_beginShutdown (ps_m2 p))"
  have m: "stopping ?m \<and> \<not> appLive ?m"
    using stop_workers [where s = "mode2_beginShutdown (ps_m2 p)" and V = "de_workers X" and polls = "de_polls X"]
    by (cases "stopping (ps_m2 p)") (simp_all add: mode2_beginShutdown_def mode2_stop_def)
  have p': "ps_m2 p' = mode2_appDestroy (de_workers X) (de_polls X) ?m"
    using assms by (simp add: BeginShutdown_def StopPoller_def AppDestroy_def)
  have "stopping (ps_m2 p') \<and> \<not> appLive (ps_m2 p')"
    using m by (simp add: p' mode2_appDestroy_def mode2_stop_def at_worker_def Let_def)
  then show ?thesis by (simp add: submit_def)
qed

lemma teardown_mode3:
  assumes "ps_active p = Mode3Selected" and "p' = AppDestroy X (StopPoller X (BeginShutdown p))"
  shows "\<not> ps_appLive p' \<and> \<not> ps_appCreated p'"
  using assms
  by (simp add: BeginShutdown_def StopPoller_def AppDestroy_def on_thread_def mode3AppDestroy_def case_prod_beta)

text \<open>The stages of \<open>Shutdown\<close>: each closes what its snapshot holds, and none reopens anything.\<close>

lemma stage_grows:
  assumes J: "\<And>a. app_grows a (J a)"
  shows "app_grows a (sd_listeners D J ord a)" "app_grows a (sd_conns D J ord a)"
  unfolding sd_listeners_def sd_conns_def
  by (rule listeners.close_all_grows [OF J], rule conns.close_all_grows [OF J])

lemma stage_closes:
  assumes J: "\<And>a. app_grows a (J a)" and ord: "\<And>xs. set (ord xs) = set xs" and ok: "app_ok a"
  shows "i \<in> set (lr_listeners (n_live (ap_net a))) \<Longrightarrow> listener_gone i (sd_listeners D J ord a)"
    "i \<in> set (lr_conns (n_live (ap_net a))) \<Longrightarrow> conn_gone i (sd_conns D J ord a)"
proof -
  show "listener_gone i (sd_listeners D J ord a)" if "i \<in> set (lr_listeners (n_live (ap_net a)))"
    unfolding sd_listeners_def using ok ord that
    by (auto intro!: listeners.close_all_closes [OF J] simp: snapshotListeners_def app_ok_def)
  show "conn_gone i (sd_conns D J ord a)" if "i \<in> set (lr_conns (n_live (ap_net a)))"
    unfolding sd_conns_def using ok ord that
    by (auto intro!: conns.close_all_closes [OF J] simp: snapshotConns_def app_ok_def)
qed

lemma packets_stage:
  assumes J: "\<And>a. app_grows a (J a)" and P: "\<And>i a a'. P i a = Some a' \<Longrightarrow> app_grows a a'"
    and run: "sd_packets D J P ord a = Some a'" and ok: "app_ok a"
  shows "app_grows a a'"
    "(\<And>xs. set (ord xs) = set xs) \<Longrightarrow> \<forall>i \<in> set (lr_packetConns (n_live (ap_net a))). packet_gone i a'"
proof -
  show "app_grows a a'" by (rule closePackets_grows(1) [OF _ J run [unfolded sd_packets_def] ok]) (rule P)
  assume ord: "\<And>xs. set (ord xs) = set xs"
  show "\<forall>i \<in> set (lr_packetConns (n_live (ap_net a))). packet_gone i a'"
  proof
    fix i assume "i \<in> set (lr_packetConns (n_live (ap_net a)))"
    then have "\<forall>i \<in> set (snapshotPacketConns ord a). ap_packet a i \<noteq> None" "i \<in> set (snapshotPacketConns ord a)"
      using ok ord by (auto simp: snapshotPacketConns_def app_ok_def)
    then show "packet_gone i a'"
      by (rule closePackets_grows(2) [OF _ J run [unfolded sd_packets_def] ok, rotated]) (rule P)
  qed
qed

lemma shutdown_stages:
  assumes run: "ShutdownWithTimeout X J W P ord t a = Some a'" and new: "\<not> ap_once a" and ok: "app_ok a"
    and others: "\<And>a. app_grows a (J a)" "\<And>t ch a a'. W t ch a = Some a' \<Longrightarrow> app_grows a a'"
      "\<And>i a a'. P i a = Some a' \<Longrightarrow> app_grows a a'"
  obtains b c where "sd_drain W t (sd_listeners (vclpoll X) J ord (sd_mark a)) = Some b"
    "sd_packets (vclpoll X) J P ord (sd_conns (vclpoll X) J ord b) = Some c" "a' = sd_teardown X c"
    "app_grows (sd_mark a) (sd_listeners (vclpoll X) J ord (sd_mark a))" "app_grows (sd_listeners (vclpoll X) J ord (sd_mark a)) b"
    "app_grows b (sd_conns (vclpoll X) J ord b)" "app_grows (sd_conns (vclpoll X) J ord b) c"
    "app_ok b" "app_ok (sd_conns (vclpoll X) J ord b)"
proof -
  let ?l = "sd_listeners (vclpoll X) J ord (sd_mark a)"
  from run new obtain b c where b: "sd_drain W t ?l = Some b"
    and c: "sd_packets (vclpoll X) J P ord (sd_conns (vclpoll X) J ord b) = Some c" and a': "a' = sd_teardown X c"
    by (auto simp: ShutdownWithTimeout_def split: option.splits)
  let ?k = "sd_conns (vclpoll X) J ord b"
  have g: "app_grows (sd_mark a) ?l" "app_grows b ?k" by (rule stage_grows [OF others(1)])+
  have gb: "app_grows ?l b" using others(2) b by (rule drain_grows)
  have okb: "app_ok b" using gb app_growsD(1) [OF g(1) sd_mark_grows(2) [OF ok]] by (rule app_growsD(1))
  have okk: "app_ok ?k" using g(2) okb by (rule app_growsD(1))
  have "app_grows ?k c" by (rule packets_stage(1) [OF others(1) _ c okk]) (rule others(3))
  with b c a' g(1) gb g(2) show ?thesis using okb okk by (rule that)
qed

lemma teardown_admits_nothing:
  "case ps_active (n_poll (ap_net c)) of
     Mode3Selected \<Rightarrow> \<not> ps_appLive (n_poll (ap_net (sd_teardown X c))) \<and> \<not> ps_appCreated (n_poll (ap_net (sd_teardown X c)))
   | Mode2Selected \<Rightarrow> \<forall>F (f :: mode2 \<Rightarrow> unit poll_result \<times> mode2). fst (submit F f (ps_m2 (n_poll (ap_net (sd_teardown X c))))) = Inl PollErrClosed"
proof (cases "ps_active (n_poll (ap_net c))")
  case Mode3Selected
  then show ?thesis using teardown_mode3 [OF Mode3Selected refl, of X] by (simp add: sd_teardown_def)
next
  case Mode2Selected
  then show ?thesis by (simp add: sd_teardown_def teardown_mode2 [OF Mode2Selected refl])
qed

text \<open>C2. What \<open>Shutdown\<close> has done when it returns, whatever the other goroutines do where it waits or leaves
  a lock, provided they never reopen what is closed. It is over for good: the flag and the closed
  channel \<open>shutdownDone\<close> stay, and a second call changes nothing. Every listener that was in the
  registry is closed before the drain begins; every connection in the registry when the drain ends,
  and every packet connection in it after those, is closed before the dispatcher is touched, which
  is then told to reject work, stopped and destroyed, in this order. Afterwards the selected
  dispatcher admits nothing.\<close>

theorem shutdown_order:
  assumes run: "ShutdownWithTimeout X J W P ord t a = Some a'" and new: "\<not> ap_once a" and ok: "app_ok a"
    and others: "\<And>a. app_grows a (J a)" "\<And>t ch a a'. W t ch a = Some a' \<Longrightarrow> app_grows a a'"
      "\<And>i a a'. P i a = Some a' \<Longrightarrow> app_grows a a'"
    and ord: "\<And>xs. set (ord xs) = set xs"
  shows "ap_once a' \<and> n_shutdown (ap_net a') \<and> ap_done a \<in> set (closed_chans (n_heap (ap_net a')))
    \<and> ShutdownWithTimeout X J W P ord t' a' = Some a'
    \<and> (\<forall>i \<in> set (lr_listeners (n_live (ap_net a))). listener_gone i (sd_listeners (vclpoll X) J ord (sd_mark a)))
    \<and> (\<exists>b c. sd_drain W t (sd_listeners (vclpoll X) J ord (sd_mark a)) = Some b
        \<and> sd_packets (vclpoll X) J P ord (sd_conns (vclpoll X) J ord b) = Some c
        \<and> (\<forall>i \<in> set (lr_conns (n_live (ap_net b))). conn_gone i c)
        \<and> (\<forall>i \<in> set (lr_packetConns (n_live (ap_net (sd_conns (vclpoll X) J ord b)))). packet_gone i c)
        \<and> (\<forall>i \<in> set (lr_listeners (n_live (ap_net a))). listener_gone i c)
        \<and> a' = c\<lparr>ap_net := (ap_net c)\<lparr>n_poll := AppDestroy X (StopPoller X (BeginShutdown (n_poll (ap_net c))))\<rparr>\<rparr>
        \<and> (case ps_active (n_poll (ap_net c)) of
             Mode3Selected \<Rightarrow> \<not> ps_appLive (n_poll (ap_net a')) \<and> \<not> ps_appCreated (n_poll (ap_net a'))
           | Mode2Selected \<Rightarrow> \<forall>F (f :: mode2 \<Rightarrow> unit poll_result \<times> mode2). fst (submit F f (ps_m2 (n_poll (ap_net a')))) = Inl PollErrClosed))"
proof -
  let ?D = "vclpoll X"
  let ?l = "sd_listeners ?D J ord (sd_mark a)"
  obtain b c where st: "sd_drain W t ?l = Some b" "sd_packets ?D J P ord (sd_conns ?D J ord b) = Some c" "a' = sd_teardown X c"
    and g: "app_grows (sd_mark a) ?l" "app_grows ?l b" "app_grows b (sd_conns ?D J ord b)" "app_grows (sd_conns ?D J ord b) c"
    and okb: "app_ok b" "app_ok (sd_conns ?D J ord b)"
    by (rule shutdown_stages [OF run new ok others])
  note mk = sd_mark_grows [of a]
  have lg: "\<forall>i \<in> set (lr_listeners (n_live (ap_net a))). listener_gone i ?l"
    using stage_closes(1) [OF others(1) ord mk(2) [OF ok]] mk(6) by simp
  have gc: "app_grows ?l c" by (rule app_grows_trans [OF app_grows_trans [OF g(2,3)] g(4)])
  have lc: "\<forall>i \<in> set (lr_listeners (n_live (ap_net a))). listener_gone i c" using lg gc gone_grows(1) by blast
  have cc: "\<forall>i \<in> set (lr_conns (n_live (ap_net b))). conn_gone i c"
    using stage_closes(2) [OF others(1) ord okb(1)] g(4) gone_grows(2) by blast
  have pc: "\<forall>i \<in> set (lr_packetConns (n_live (ap_net (sd_conns ?D J ord b)))). packet_gone i c"
    by (rule packets_stage(2) [OF others(1) _ st(2) okb(2) ord]) (rule others(3))
  have fin: "ap_once c" "n_shutdown (ap_net c)" "ap_done a \<in> set (closed_chans (n_heap (ap_net c)))"
    using app_growsD(2-4) [OF app_grows_trans [OF g(1) gc]] mk(3-5) by blast+
  show ?thesis
    by (intro conjI lg; (rule exI [of _ b], rule exI [of _ c], intro conjI st(1,2) cc pc lc teardown_admits_nothing [of X c, folded st(3)])?)
      (use fin st(3) in \<open>simp_all add: sd_teardown_def ShutdownWithTimeout_def\<close>)
qed

text \<open>A process with one listener.\<close>

definition demo_app :: "proc_state app" where
  "demo_app = (let (l, s) = trackedListener 3 5 AddrInfo_zero demo_net
     in \<lparr>ap_net = s, ap_listener = [3 \<mapsto> l], ap_conn = Map.empty, ap_packet = Map.empty, ap_once = False, ap_done = 9\<rparr>)"

lemma demo_shutdown_returns:
  assumes "ap_packet a = Map.empty"
  shows "\<exists>a'. ShutdownWithTimeout X id (\<lambda>_ _. Some) (\<lambda>_. Some) ord t a = Some a'"
proof -
  have keep: "ap_packet (closeListener D i a) = ap_packet a" "ap_packet (closeConn D i a) = ap_packet a"
    for D :: "proc_state dispatcher" and i a
    by (simp_all add: closeListener_def closeConn_def case_prod_beta split: option.split)
  have folds: "ap_packet (fold (\<lambda>i a. id (closeListener D i a)) xs a) = ap_packet a"
    "ap_packet (fold (\<lambda>i a. id (closeConn D i a)) xs a) = ap_packet a" for D :: "proc_state dispatcher" and xs a
    by (induction xs arbitrary: a) (simp_all add: keep)
  have packets: "closePackets D id (\<lambda>_. Some) xs a = Some a" if "ap_packet a = Map.empty" for D xs and a :: "proc_state app"
    using that by (induction xs) (simp_all add: closePacket_def)
  have drain: "\<exists>b. sd_drain (\<lambda>_ _. Some) t a = Some b \<and> ap_packet b = ap_packet a" for a :: "proc_state app"
    by (auto simp: sd_drain_def waitDrain_def case_prod_beta split: option.splits)
  let ?a = "sd_listeners (vclpoll X) id ord (sd_mark a)"
  obtain b where b: "sd_drain (\<lambda>_ _. Some) t ?a = Some b" "ap_packet b = ap_packet ?a" using drain by blast
  have "ap_packet ?a = Map.empty" unfolding sd_listeners_def folds using assms by (simp add: sd_mark_def)
  with b(2) have "ap_packet (sd_conns (vclpoll X) id ord b) = Map.empty" unfolding sd_conns_def folds by simp
  from packets [OF this] b(1) show ?thesis by (simp add: ShutdownWithTimeout_def sd_packets_def)
qed

lemma demo_app_packets: "ap_packet demo_app = Map.empty"
  by (simp add: demo_app_def trackedListener_def Let_def case_prod_beta)

lemma shutdown_order_witness:
  "\<exists>a'. ShutdownWithTimeout demo_disp id (\<lambda>_ _. Some) (\<lambda>_. Some) id (-1) demo_app = Some a'
     \<and> n_shutdown (ap_net a') \<and> ap_once a'
     \<and> listener_gone 3 (sd_listeners (vclpoll demo_disp) id id (sd_mark demo_app))"
proof -
  have ok: "app_ok demo_app" "\<not> ap_once demo_app" "3 \<in> set (lr_listeners (n_live (ap_net demo_app)))"
    by (auto simp: demo_app_def trackedListener_def newTCPListener_def addListener_def demo_net_def newLiveRegistry_def
        app_ok_def Let_def case_prod_beta new_chan_def)
  from demo_shutdown_returns [OF demo_app_packets]
  obtain a' where run: "ShutdownWithTimeout demo_disp id (\<lambda>_ _. Some) (\<lambda>_. Some) id (-1) demo_app = Some a'" by blast
  have ids: "app_grows a (id a)" "set (id xs) = set xs" for a :: "proc_state app" and xs :: "nat list" by simp_all
  have "Some a = Some b \<Longrightarrow> app_grows a b" for a b :: "proc_state app" by simp
  from shutdown_order [OF run ok(2,1) ids(1) this this ids(2)] ok(3) run show ?thesis by blast
qed

end
