(* ===== verification/Signals.thy ===== *)
theory Signals
  imports Shutdown
begin

text \<open>
  The rest of \<open>shutdown.go\<close>: \<open>InstallSignalHandler\<close> and the goroutine it starts, with the calls of \<open>Shutdown\<close> that
  application goroutines make themselves, as a step relation. \<open>ShutdownWithTimeout\<close> of theory \<open>Shutdown\<close> is the
  body that \<open>shutdownOnce\<close> runs: its effect is taken when it returns, and nobody passes \<open>shutdownOnce\<close> meanwhile.
\<close>

section \<open>State\<close>

text \<open>\<open>InstallSignalHandler\<close> before its compare-and-swap (absent), after winning it, after \<open>signal.Notify\<close>, at the end.\<close>

datatype install_pc = Installing | Notified | Installed

text \<open>The goroutine it starts: \<open><-ch\<close>, \<open>Shutdown()\<close>, \<open>os.Exit(0)\<close>.\<close>

datatype handler_pc = AwaitingSignal | ShuttingDown

text \<open>A call of \<open>ShutdownWithTimeout\<close>: before \<open>shutdownOnce\<close>, inside its function, returned.\<close>

datatype shutdown_pc = ShutdownIdle | ShutdownCalled int | ShutdownRunning int | ShutdownReturned

datatype goroutine = HandlerOf nat | Application nat

text \<open>Callers of \<open>InstallSignalHandler\<close> have numbers, and so have the channels they make: \<open>sg_notified\<close> are those
  registered with \<open>signal.Notify\<close>, \<open>sg_pending\<close> those whose buffer of one is full. \<open>sg_runs\<close> counts the runs of
  \<open>shutdownOnce\<close>'s function, \<open>sg_delivered\<close> tells that a signal found a registered channel; \<open>sg_killed\<close>: a signal
  found none, and its default action has ended the process.\<close>

record signals =
  sg_app :: "proc_state app"
  sg_installed :: bool
  sg_install :: "nat \<Rightarrow> install_pc option"
  sg_notified :: "nat list"
  sg_pending :: "nat \<Rightarrow> bool"
  sg_handler :: "nat \<Rightarrow> handler_pc option"
  sg_shutdown :: "goroutine \<Rightarrow> shutdown_pc"
  sg_once :: "goroutine option"
  sg_runs :: nat
  sg_delivered :: bool
  sg_killed :: bool
  sg_exit :: "int option"

definition sg_start :: "proc_state app \<Rightarrow> signals" where
  "sg_start a = \<lparr>sg_app = a, sg_installed = False, sg_install = Map.empty, sg_notified = [], sg_pending = (\<lambda>_. False),
     sg_handler = Map.empty, sg_shutdown = (\<lambda>_. ShutdownIdle), sg_once = None, sg_runs = 0, sg_delivered = False,
     sg_killed = False, sg_exit = None\<rparr>"

definition sg_alive :: "signals \<Rightarrow> bool" where
  "sg_alive s \<longleftrightarrow> \<not> sg_killed s \<and> sg_exit s = None"

section \<open>Steps\<close>

text \<open>\<open>app_step\<close>: whatever the other goroutines do to the process, \<open>shutdownOnce\<close> apart.\<close>

inductive sg_step :: "disp_env \<Rightarrow> (proc_state app \<Rightarrow> proc_state app) \<Rightarrow> (int \<Rightarrow> nat \<Rightarrow> proc_state app \<Rightarrow> proc_state app option)
    \<Rightarrow> (nat \<Rightarrow> proc_state app \<Rightarrow> proc_state app option) \<Rightarrow> (nat list \<Rightarrow> nat list) \<Rightarrow> signals \<Rightarrow> signals \<Rightarrow> bool"
  for X J W P ord where
  install_won: "sg_alive s \<Longrightarrow> sg_install s i = None \<Longrightarrow> \<not> sg_installed s \<Longrightarrow>
    sg_step X J W P ord s (s\<lparr>sg_installed := True, sg_install := (sg_install s)(i \<mapsto> Installing)\<rparr>)"
| install_again: "sg_alive s \<Longrightarrow> sg_install s i = None \<Longrightarrow> sg_installed s \<Longrightarrow>
    sg_step X J W P ord s (s\<lparr>sg_install := (sg_install s)(i \<mapsto> Installed)\<rparr>)"
| notify: "sg_alive s \<Longrightarrow> sg_install s i = Some Installing \<Longrightarrow>
    sg_step X J W P ord s (s\<lparr>sg_install := (sg_install s)(i \<mapsto> Notified), sg_notified := i # sg_notified s\<rparr>)"
| spawn: "sg_alive s \<Longrightarrow> sg_install s i = Some Notified \<Longrightarrow>
    sg_step X J W P ord s (s\<lparr>sg_install := (sg_install s)(i \<mapsto> Installed), sg_handler := (sg_handler s)(i \<mapsto> AwaitingSignal)\<rparr>)"
| signal: "sg_alive s \<Longrightarrow> sg_notified s \<noteq> [] \<Longrightarrow>
    sg_step X J W P ord s (s\<lparr>sg_delivered := True, sg_pending := (\<lambda>i. sg_pending s i \<or> i \<in> set (sg_notified s))\<rparr>)"
| signal_default: "sg_alive s \<Longrightarrow> sg_notified s = [] \<Longrightarrow> sg_step X J W P ord s (s\<lparr>sg_killed := True\<rparr>)"
| receive: "sg_alive s \<Longrightarrow> sg_handler s i = Some AwaitingSignal \<Longrightarrow> sg_pending s i \<Longrightarrow>
    sg_step X J W P ord s (s\<lparr>sg_pending := (sg_pending s)(i := False), sg_handler := (sg_handler s)(i \<mapsto> ShuttingDown),
      sg_shutdown := (sg_shutdown s)(HandlerOf i := ShutdownCalled defaultDrainTimeout)\<rparr>)"
| call_shutdown: "sg_alive s \<Longrightarrow> sg_shutdown s (Application k) = ShutdownIdle \<or> sg_shutdown s (Application k) = ShutdownReturned \<Longrightarrow>
    sg_step X J W P ord s (s\<lparr>sg_shutdown := (sg_shutdown s)(Application k := ShutdownCalled t)\<rparr>)"
| once_enter: "sg_alive s \<Longrightarrow> sg_shutdown s g = ShutdownCalled t \<Longrightarrow> sg_once s = None \<Longrightarrow> \<not> ap_once (sg_app s) \<Longrightarrow>
    sg_step X J W P ord s (s\<lparr>sg_once := Some g, sg_shutdown := (sg_shutdown s)(g := ShutdownRunning t)\<rparr>)"
| once_leave: "sg_alive s \<Longrightarrow> sg_shutdown s g = ShutdownRunning t \<Longrightarrow> ShutdownWithTimeout X J W P ord t (sg_app s) = Some a \<Longrightarrow>
    sg_step X J W P ord s (s\<lparr>sg_app := a, sg_once := None, sg_runs := Suc (sg_runs s),
      sg_shutdown := (sg_shutdown s)(g := ShutdownReturned)\<rparr>)"
| once_done: "sg_alive s \<Longrightarrow> sg_shutdown s g = ShutdownCalled t \<Longrightarrow> sg_once s = None \<Longrightarrow> ap_once (sg_app s) \<Longrightarrow>
    sg_step X J W P ord s (s\<lparr>sg_shutdown := (sg_shutdown s)(g := ShutdownReturned)\<rparr>)"
| exit: "sg_alive s \<Longrightarrow> sg_handler s i = Some ShuttingDown \<Longrightarrow> sg_shutdown s (HandlerOf i) = ShutdownReturned \<Longrightarrow>
    sg_step X J W P ord s (s\<lparr>sg_exit := Some 0\<rparr>)"
| app_step: "sg_alive s \<Longrightarrow> sg_once s = None \<Longrightarrow> app_grows (sg_app s) a \<Longrightarrow> ap_once a = ap_once (sg_app s) \<Longrightarrow>
    sg_step X J W P ord s (s\<lparr>sg_app := a\<rparr>)"

section \<open>Invariant\<close>

text \<open>Nothing of caller \<open>i\<close> is there but perhaps its returned call; what there is of the winner \<open>w\<close>.\<close>

definition uninvolved :: "signals \<Rightarrow> nat \<Rightarrow> bool" where
  "uninvolved s i \<longleftrightarrow> sg_install s i \<noteq> Some Installing \<and> sg_install s i \<noteq> Some Notified \<and> sg_handler s i = None
     \<and> \<not> sg_pending s i \<and> sg_shutdown s (HandlerOf i) = ShutdownIdle"

definition winner :: "signals \<Rightarrow> nat \<Rightarrow> bool" where
  "winner s w \<longleftrightarrow> sg_install s w \<noteq> None
   \<and> (sg_install s w = Some Installing \<longrightarrow> sg_notified s = [] \<and> sg_handler s w = None \<and> \<not> sg_pending s w)
   \<and> (sg_install s w = Some Notified \<longrightarrow> sg_notified s = [w] \<and> sg_handler s w = None)
   \<and> (sg_install s w = Some Installed \<longrightarrow> sg_notified s = [w] \<and> sg_handler s w \<noteq> None)
   \<and> (sg_handler s w \<noteq> Some ShuttingDown \<longrightarrow> sg_shutdown s (HandlerOf w) = ShutdownIdle)
   \<and> (sg_delivered s = (sg_pending s w \<or> sg_handler s w = Some ShuttingDown))"

definition one_handler :: "signals \<Rightarrow> bool" where
  "one_handler s \<longleftrightarrow>
     (if sg_installed s then (\<exists>w. winner s w \<and> (\<forall>i. i \<noteq> w \<longrightarrow> uninvolved s i))
      else sg_notified s = [] \<and> \<not> sg_delivered s \<and> (\<forall>i. uninvolved s i \<and> sg_install s i = None))"

text \<open>The state comes from a run of \<open>shutdownOnce\<close>'s function.\<close>

definition after_shutdown :: "disp_env \<Rightarrow> (proc_state app \<Rightarrow> proc_state app) \<Rightarrow> (int \<Rightarrow> nat \<Rightarrow> proc_state app \<Rightarrow> proc_state app option)
    \<Rightarrow> (nat \<Rightarrow> proc_state app \<Rightarrow> proc_state app option) \<Rightarrow> (nat list \<Rightarrow> nat list) \<Rightarrow> proc_state app \<Rightarrow> bool" where
  "after_shutdown X J W P ord a \<longleftrightarrow> (\<exists>a0 b a1 t. \<not> ap_once a0 \<and> ShutdownWithTimeout X J W P ord t a0 = Some a1
     \<and> a1 = sd_teardown X b \<and> n_shutdown (ap_net a1) \<and> app_grows a1 a)"

lemma after_shutdown_grows: "after_shutdown X J W P ord a \<Longrightarrow> app_grows a a' \<Longrightarrow> after_shutdown X J W P ord a'"
  unfolding after_shutdown_def by (blast intro: app_grows_trans)

text \<open>\<open>shutdownOnce\<close>: its function is run by the goroutine that holds it, once; what it left is what the process went on from.\<close>

definition once_ok :: "disp_env \<Rightarrow> (proc_state app \<Rightarrow> proc_state app) \<Rightarrow> (int \<Rightarrow> nat \<Rightarrow> proc_state app \<Rightarrow> proc_state app option)
    \<Rightarrow> (nat \<Rightarrow> proc_state app \<Rightarrow> proc_state app option) \<Rightarrow> (nat list \<Rightarrow> nat list) \<Rightarrow> signals \<Rightarrow> bool" where
  "once_ok X J W P ord s \<longleftrightarrow> app_ok (sg_app s)
     \<and> (\<forall>g t. sg_shutdown s g = ShutdownRunning t \<longrightarrow> sg_once s = Some g \<and> \<not> ap_once (sg_app s))
     \<and> (\<forall>g. sg_shutdown s g = ShutdownReturned \<longrightarrow> ap_once (sg_app s))
     \<and> (sg_once s \<noteq> None \<longrightarrow> \<not> ap_once (sg_app s))
     \<and> (if ap_once (sg_app s)
        then sg_runs s = 1 \<and> after_shutdown X J W P ord (sg_app s)
        else sg_runs s = 0)
     \<and> (\<forall>c. sg_exit s = Some c \<longrightarrow> c = 0 \<and> sg_delivered s \<and> ap_once (sg_app s))"

lemma sg_start_inv:
  "one_handler (sg_start a)" "app_ok a \<Longrightarrow> \<not> ap_once a \<Longrightarrow> once_ok X J W P ord (sg_start a)"
  by (simp_all add: sg_start_def one_handler_def uninvolved_def once_ok_def)

text \<open>A step of a caller that is not in the way of the others.\<close>

lemma one_handlerI:
  assumes "sg_installed s" "winner s w" "\<And>i. i \<noteq> w \<Longrightarrow> uninvolved s i"
  shows "one_handler s"
  using assms by (auto simp: one_handler_def)

lemma one_handler_step:
  assumes "sg_step X J W P ord s s'" "one_handler s"
  shows "one_handler s'"
proof (cases "sg_installed s")
  case False
  with assms(2) have none: "sg_notified s = []" "\<not> sg_delivered s" "\<And>i. uninvolved s i" "\<And>i. sg_install s i = None"
    by (auto simp: one_handler_def)
  from assms(1) False none show ?thesis
    by cases (auto simp: one_handler_def uninvolved_def winner_def)
next
  case True
  with assms(2) obtain w where w: "winner s w" and others: "\<And>i. i \<noteq> w \<Longrightarrow> uninvolved s i" by (auto simp: one_handler_def)
  have mine: "i = w" if "sg_install s i = Some Installing \<or> sg_install s i = Some Notified \<or> sg_handler s i \<noteq> None
      \<or> sg_shutdown s (HandlerOf i) \<noteq> ShutdownIdle" for i
    using that others [of i] by (cases "i = w") (auto simp: uninvolved_def)
  from assms(1) have "sg_installed s' \<and> winner s' w \<and> (\<forall>i. i \<noteq> w \<longrightarrow> uninvolved s' i)"
  proof cases
    case (notify i)
    with mine have "i = w" by blast
    with notify w others True show ?thesis by (auto simp: winner_def uninvolved_def)
  next
    case (spawn i)
    with mine have "i = w" by blast
    with spawn w others True show ?thesis by (auto simp: winner_def uninvolved_def)
  next
    case (receive i)
    with mine have "i = w" by blast
    with receive w others True show ?thesis by (auto simp: winner_def uninvolved_def)
  next
    case signal
    with w have "sg_notified s = [w]"
      by (cases "sg_install s w"; cases "the (sg_install s w)") (auto simp: winner_def)
    with signal w others True show ?thesis by (auto simp: winner_def uninvolved_def)
  next
    case (once_enter g t)
    with mine have "g = HandlerOf i \<Longrightarrow> i = w" for i by fastforce
    with once_enter w others True show ?thesis by (auto simp: winner_def uninvolved_def)
  next
    case (once_leave g t a)
    with mine have "g = HandlerOf i \<Longrightarrow> i = w" for i by fastforce
    with once_leave w others True show ?thesis by (auto simp: winner_def uninvolved_def)
  next
    case (once_done g t)
    with mine have "g = HandlerOf i \<Longrightarrow> i = w" for i by fastforce
    with once_done w others True show ?thesis by (auto simp: winner_def uninvolved_def)
  qed (use w others True in \<open>auto simp: winner_def uninvolved_def\<close>)
  then show ?thesis by (auto simp: one_handler_def)
qed

section \<open>The whole of Shutdown only closes\<close>

text \<open>What the other goroutines may do where \<open>Shutdown\<close> waits, as in \<open>shutdown_order\<close>.\<close>

definition others_grow :: "(proc_state app \<Rightarrow> proc_state app) \<Rightarrow> (int \<Rightarrow> nat \<Rightarrow> proc_state app \<Rightarrow> proc_state app option)
    \<Rightarrow> (nat \<Rightarrow> proc_state app \<Rightarrow> proc_state app option) \<Rightarrow> bool" where
  "others_grow J W P \<longleftrightarrow> (\<forall>a. app_grows a (J a)) \<and> (\<forall>t ch a a'. W t ch a = Some a' \<longrightarrow> app_grows a a')
     \<and> (\<forall>i a a'. P i a = Some a' \<longrightarrow> app_grows a a')"

lemma teardown_grows: "app_grows c (sd_teardown X c)"
  by (auto simp: app_grows_def app_ok_def sd_teardown_def)

lemma shutdown_grows:
  assumes "others_grow J W P" "ShutdownWithTimeout X J W P ord t a = Some a'" "app_ok a" "\<not> ap_once a"
  shows "app_grows a a'" "ap_once a'" "n_shutdown (ap_net a')" "\<exists>b. a' = sd_teardown X b"
proof -
  from assms(1) have others: "\<And>a. app_grows a (J a)" "\<And>t ch a a'. W t ch a = Some a' \<Longrightarrow> app_grows a a'"
    "\<And>i a a'. P i a = Some a' \<Longrightarrow> app_grows a a'"
    by (auto simp: others_grow_def)
  obtain c where c: "a' = sd_teardown X c" "app_grows (sd_mark a) c"
  proof (rule shutdown_stages [OF assms(2,4,3) others])
    fix b c
    assume "a' = sd_teardown X c" "app_grows (sd_mark a) (sd_listeners (vclpoll X) J ord (sd_mark a))"
      "app_grows (sd_listeners (vclpoll X) J ord (sd_mark a)) b" "app_grows b (sd_conns (vclpoll X) J ord b)"
      "app_grows (sd_conns (vclpoll X) J ord b) c"
    with that show thesis by (blast intro: app_grows_trans)
  qed
  from c(2) teardown_grows have m: "app_grows (sd_mark a) a'" unfolding c(1) by (rule app_grows_trans)
  with sd_mark_grows(1) show "app_grows a a'" by (rule app_grows_trans)
  show "ap_once a'" "n_shutdown (ap_net a')" using app_growsD(2,3) [OF m] sd_mark_grows(3,4) by blast+
  show "\<exists>b. a' = sd_teardown X b" using c(1) by blast
qed

lemma handler_is_winner:
  assumes "one_handler s" "sg_handler s i = Some p"
  shows "sg_installed s" "winner s i"
proof -
  from assms have inst: "sg_installed s" by (auto simp: one_handler_def uninvolved_def split: if_splits)
  with assms(1) obtain w where "winner s w" "\<And>j. j \<noteq> w \<Longrightarrow> uninvolved s j" by (auto simp: one_handler_def)
  with assms(2) inst show "sg_installed s" "winner s i" by (cases "i = w"; fastforce simp: uninvolved_def)+
qed

lemma once_ok_step:
  assumes others: "others_grow J W P" and step: "sg_step X J W P ord s s'" and ok: "once_ok X J W P ord s" "one_handler s"
  shows "once_ok X J W P ord s'"
  using step
proof cases
  case (once_enter g t)
  with ok(1) show ?thesis by (auto simp: once_ok_def)
next
  case (once_leave g t a)
  from ok(1) once_leave have pre: "app_ok (sg_app s)" "\<not> ap_once (sg_app s)" "sg_once s = Some g" "sg_runs s = 0"
    by (auto simp: once_ok_def)
  note a = shutdown_grows [OF others once_leave(4) pre(1,2)]
  from a(1) pre(1) have "app_ok a" by (rule app_growsD(1))
  moreover have "sg_shutdown s' g' \<noteq> ShutdownRunning t'" for g' t'
    using ok(1) once_leave pre(3) by (auto simp: once_ok_def)
  moreover have "after_shutdown X J W P ord a"
    using pre(2) once_leave(4) a(3,4) unfolding after_shutdown_def by (blast intro: app_grows_refl)
  ultimately show ?thesis using a(2) once_leave pre(4) by (simp add: once_ok_def sg_alive_def)
next
  case (exit i)
  with handler_is_winner [OF ok(2)] have "sg_delivered s" by (simp add: winner_def)
  with ok(1) exit show ?thesis by (auto simp: once_ok_def)
next
  case (app_step a)
  from ok(1) app_step have "app_ok a" by (auto simp: once_ok_def dest: app_growsD(1))
  with ok(1) app_step show ?thesis by (auto simp: once_ok_def sg_alive_def intro: after_shutdown_grows)
qed (use ok in \<open>auto simp: once_ok_def sg_alive_def\<close>)

lemma sg_steps_inv:
  assumes "others_grow J W P" "app_ok a" "\<not> ap_once a" "(sg_step X J W P ord)\<^sup>*\<^sup>* (sg_start a) s"
  shows "one_handler s \<and> once_ok X J W P ord s"
  using assms(4)
proof (induction rule: rtranclp_induct)
  case base
  show ?case using sg_start_inv assms(2,3) by blast
next
  case (step s s')
  with one_handler_step [of X J W P ord s s'] once_ok_step [OF assms(1), of X ord s s'] show ?case by blast
qed

section \<open>Exit by signal\<close>

text \<open>C4. The signal handler, whatever the order of its installers, of signals and of the application's own
  calls of \<open>Shutdown\<close>. However often it is installed, at most one goroutine waits for signals, on one channel; a
  signal that found it registered is waiting in its channel or being served, so it is not lost; the function of
  \<open>shutdownOnce\<close> runs at most once. The process exits, with code 0, only after \<open>ShutdownWithTimeout\<close> has
  run to its end, whoever called it: the dispatcher was told to stop and the application destroyed, and everything closed
  then is still closed.\<close>

theorem signal_exit_after_shutdown:
  assumes "others_grow J W P" "app_ok a" "\<not> ap_once a" and steps: "(sg_step X J W P ord)\<^sup>*\<^sup>* (sg_start a) s"
  shows "(\<forall>i j. sg_handler s i \<noteq> None \<and> sg_handler s j \<noteq> None \<longrightarrow> i = j) \<and> length (sg_notified s) \<le> 1
    \<and> (sg_delivered s \<longrightarrow> (\<exists>i. sg_pending s i \<or> sg_handler s i = Some ShuttingDown))
    \<and> sg_runs s \<le> 1
    \<and> (\<forall>c. sg_exit s = Some c \<longrightarrow> c = 0 \<and> sg_delivered s \<and> sg_runs s = 1
        \<and> (\<exists>a0 b a1 t. \<not> ap_once a0 \<and> ShutdownWithTimeout X J W P ord t a0 = Some a1 \<and> a1 = sd_teardown X b
            \<and> n_shutdown (ap_net a1) \<and> app_grows a1 (sg_app s)))"
proof -
  from sg_steps_inv [OF assms] have inv: "one_handler s" "once_ok X J W P ord s" by blast+
  have one: "i = j" if "sg_handler s i \<noteq> None" "sg_handler s j \<noteq> None" for i j
  proof -
    from that(1) handler_is_winner(1) [OF inv(1)] have "sg_installed s" by blast
    with inv(1) obtain w where "\<forall>k. k \<noteq> w \<longrightarrow> uninvolved s k" by (auto simp: one_handler_def)
    with that have "i = w" "j = w" by (auto simp: uninvolved_def)
    then show ?thesis by simp
  qed
  have chan: "length (sg_notified s) \<le> 1" "sg_delivered s \<longrightarrow> (\<exists>i. sg_pending s i \<or> sg_handler s i = Some ShuttingDown)"
  proof -
    show "length (sg_notified s) \<le> 1"
    proof (cases "sg_installed s")
      case True
      with inv(1) obtain w where "winner s w" by (auto simp: one_handler_def)
      then show ?thesis by (cases "sg_install s w"; cases "the (sg_install s w)") (auto simp: winner_def)
    qed (use inv(1) in \<open>simp add: one_handler_def\<close>)
    show "sg_delivered s \<longrightarrow> (\<exists>i. sg_pending s i \<or> sg_handler s i = Some ShuttingDown)"
      using inv(1) by (auto simp: one_handler_def winner_def split: if_splits)
  qed
  have runs: "sg_runs s \<le> 1" using inv(2) by (auto simp: once_ok_def split: if_splits)
  have exit: "c = 0 \<and> sg_delivered s \<and> sg_runs s = 1 \<and> after_shutdown X J W P ord (sg_app s)" if "sg_exit s = Some c" for c
    using inv(2) that by (auto simp: once_ok_def)
  show ?thesis using one chan runs exit unfolding after_shutdown_def by blast
qed

text \<open>The process of one listener: a handler is installed, a signal arrives, \<open>Shutdown\<close> runs, the process exits.\<close>

lemma demo_app_new: "app_ok demo_app" "\<not> ap_once demo_app"
  by (auto simp: demo_app_def trackedListener_def newTCPListener_def addListener_def demo_net_def newLiveRegistry_def
      app_ok_def Let_def case_prod_beta new_chan_def)

lemma demo_signal_run:
  "\<exists>s. (sg_step demo_disp id (\<lambda>_ _. Some) (\<lambda>_. Some) id)\<^sup>*\<^sup>* (sg_start demo_app) s \<and> sg_exit s = Some 0"
proof -
  let ?R = "sg_step demo_disp id (\<lambda>_ _. Some) (\<lambda>_. Some) id"
  obtain a where a: "ShutdownWithTimeout demo_disp id (\<lambda>_ _. Some) (\<lambda>_. Some) id defaultDrainTimeout demo_app = Some a"
    using demo_shutdown_returns [OF demo_app_packets] by blast
  let ?s1 = "(sg_start demo_app)\<lparr>sg_installed := True, sg_install := [0 \<mapsto> Installing]\<rparr>"
  let ?s2 = "?s1\<lparr>sg_install := [0 \<mapsto> Notified], sg_notified := [0]\<rparr>"
  let ?s3 = "?s2\<lparr>sg_install := [0 \<mapsto> Installed], sg_handler := [0 \<mapsto> AwaitingSignal]\<rparr>"
  let ?s4 = "?s3\<lparr>sg_delivered := True, sg_pending := (\<lambda>i. i = 0)\<rparr>"
  let ?s5 = "?s4\<lparr>sg_pending := (\<lambda>i. i = 0)(0 := False), sg_handler := [0 \<mapsto> ShuttingDown],
    sg_shutdown := (\<lambda>_. ShutdownIdle)(HandlerOf 0 := ShutdownCalled defaultDrainTimeout)\<rparr>"
  let ?s6 = "?s5\<lparr>sg_once := Some (HandlerOf 0), sg_shutdown := (\<lambda>_. ShutdownIdle)(HandlerOf 0 := ShutdownRunning defaultDrainTimeout)\<rparr>"
  let ?s7 = "?s6\<lparr>sg_app := a, sg_once := None, sg_runs := 1, sg_shutdown := (\<lambda>_. ShutdownIdle)(HandlerOf 0 := ShutdownReturned)\<rparr>"
  let ?s8 = "?s7\<lparr>sg_exit := Some 0\<rparr>"
  have live: "sg_alive (sg_start demo_app)" "sg_alive ?s1" "sg_alive ?s2" "sg_alive ?s3" "sg_alive ?s4" "sg_alive ?s5" "sg_alive ?s6"
    "sg_alive ?s7"
    by (simp_all add: sg_alive_def sg_start_def)
  have st1: "?R (sg_start demo_app) ?s1"
    using sg_step.install_won [OF live(1), of 0] by (simp add: sg_start_def)
  have st2: "?R ?s1 ?s2" using sg_step.notify [OF live(2), of 0] by (simp add: sg_start_def)
  have st3: "?R ?s2 ?s3" using sg_step.spawn [OF live(3), of 0] by (simp add: sg_start_def)
  have st4: "?R ?s3 ?s4" using sg_step.signal [OF live(4)] by (simp add: sg_start_def)
  have st5: "?R ?s4 ?s5" using sg_step.receive [OF live(5), of 0] by (simp add: sg_start_def)
  have st6: "?R ?s5 ?s6" using sg_step.once_enter [OF live(6), of "HandlerOf 0"] demo_app_new(2) by (simp add: sg_start_def)
  have st7: "?R ?s6 ?s7" using sg_step.once_leave [OF live(7), of "HandlerOf 0" defaultDrainTimeout demo_disp id _ _ id a] a
    by (simp add: sg_start_def)
  have st8: "?R ?s7 ?s8" using sg_step.exit [OF live(8), of 0] by (simp add: sg_start_def)
  have "?R\<^sup>*\<^sup>* (sg_start demo_app) ?s8"
    by (rule converse_rtranclp_into_rtranclp [where r = ?R, OF st1], rule converse_rtranclp_into_rtranclp [where r = ?R, OF st2],
        rule converse_rtranclp_into_rtranclp [where r = ?R, OF st3], rule converse_rtranclp_into_rtranclp [where r = ?R, OF st4],
        rule converse_rtranclp_into_rtranclp [where r = ?R, OF st5], rule converse_rtranclp_into_rtranclp [where r = ?R, OF st6],
        rule converse_rtranclp_into_rtranclp [where r = ?R, OF st7], rule r_into_rtranclp [where r = ?R, OF st8])
  then show ?thesis by (intro exI [of _ ?s8]) simp
qed

lemma signal_exit_after_shutdown_witness:
  "\<exists>s. (sg_step demo_disp id (\<lambda>_ _. Some) (\<lambda>_. Some) id)\<^sup>*\<^sup>* (sg_start demo_app) s \<and> sg_exit s = Some 0
     \<and> sg_runs s = 1 \<and> n_shutdown (ap_net (sg_app s))"
proof -
  obtain s where s: "(sg_step demo_disp id (\<lambda>_ _. Some) (\<lambda>_. Some) id)\<^sup>*\<^sup>* (sg_start demo_app) s" "sg_exit s = Some 0"
    using demo_signal_run by blast
  have "others_grow id (\<lambda>_ _. Some) (\<lambda>_. Some)" by (simp add: others_grow_def)
  from signal_exit_after_shutdown [OF this demo_app_new s(1)] s(2) obtain a1 where "sg_runs s = 1" "n_shutdown (ap_net a1)"
    "app_grows a1 (sg_app s)" by blast
  with s app_growsD(2) show ?thesis by blast
qed

text \<open>Only the winner installs: a second caller returns at once, perhaps before the first has called \<open>signal.Notify\<close>,
  and a signal then still has its default action although \<open>InstallSignalHandler\<close> has returned to that caller.\<close>

lemma second_installer_unprotected:
  "\<exists>s. (sg_step X J W P ord)\<^sup>*\<^sup>* (sg_start a) s \<and> sg_install s 1 = Some Installed \<and> sg_killed s"
proof -
  let ?R = "sg_step X J W P ord"
  let ?s1 = "(sg_start a)\<lparr>sg_installed := True, sg_install := [0 \<mapsto> Installing]\<rparr>"
  let ?s2 = "?s1\<lparr>sg_install := [0 \<mapsto> Installing, 1 \<mapsto> Installed]\<rparr>"
  have st1: "?R (sg_start a) ?s1" using sg_step.install_won [of "sg_start a" 0] by (simp add: sg_start_def sg_alive_def)
  have st2: "?R ?s1 ?s2" using sg_step.install_again [of ?s1 1] by (simp add: sg_start_def sg_alive_def)
  have st3: "?R ?s2 (?s2\<lparr>sg_killed := True\<rparr>)" by (rule sg_step.signal_default) (simp_all add: sg_start_def sg_alive_def)
  have "?R\<^sup>*\<^sup>* (sg_start a) (?s2\<lparr>sg_killed := True\<rparr>)"
    by (rule converse_rtranclp_into_rtranclp [where r = ?R, OF st1], rule converse_rtranclp_into_rtranclp [where r = ?R, OF st2],
        rule r_into_rtranclp [where r = ?R, OF st3])
  then show ?thesis by (intro exI [of _ "?s2\<lparr>sg_killed := True\<rparr>"]) simp
qed

end
