(* ===== verification/Transport.thy ===== *)
theory Transport
  imports Dialing
begin

text \<open>
  The HTTP helpers of \<open>transport.go\<close>: an \<open>http.Transport\<close> whose connections are dialled through VPP, as the
  record of the fields it sets. \<open>net/http\<close> itself is not part of the repository: what its transport does with
  these fields is documented there, and the only one that leads back into this code is \<open>DialContext\<close>.
\<close>

section \<open>The dialer's options\<close>

record Dialer =
  Timeout :: int
  FallbackDelay :: int

definition defaultFallbackDelay :: int where "defaultFallbackDelay = 250000000"

definition fallbackDelay :: "Dialer \<Rightarrow> int" where
  "fallbackDelay d = (if FallbackDelay d = 0 then defaultFallbackDelay else FallbackDelay d)"

text \<open>\<open>d.DialContext\<close> with its options: \<open>HE delay\<close> is the race of several addresses, a new one every \<open>delay\<close>, and \<open>cause\<close> is what
  ends the context that \<open>Timeout\<close> bounds, if it ends.\<close>

type_synonym 's race = "int \<Rightarrow> goContext \<Rightarrow> inetAddr list \<Rightarrow> 's net \<Rightarrow> (net_error + tcpConn) option \<times> 's net"
type_synonym 's dial_fun = "goContext \<Rightarrow> string \<Rightarrow> string \<Rightarrow> 's net \<Rightarrow> (net_error + net_conn) option \<times> 's net"

definition Dialer_DialContext :: "'s dispatcher \<Rightarrow> resolver \<Rightarrow> ('s net \<Rightarrow> 's net) \<Rightarrow> 's race \<Rightarrow> nat \<Rightarrow> net_error \<Rightarrow> Dialer \<Rightarrow> 's dial_fun" where
  "Dialer_DialContext D R I HE i cause d ctx network address s =
     DialContext D R I (HE (fallbackDelay d)) i (Timeout d) cause ctx network address s"

section \<open>Transports and clients\<close>

definition dialContextForHTTP :: "'s dispatcher \<Rightarrow> resolver \<Rightarrow> ('s net \<Rightarrow> 's net) \<Rightarrow> 's race \<Rightarrow> nat \<Rightarrow> net_error \<Rightarrow> Dialer \<Rightarrow> 's dial_fun" where
  "dialContextForHTTP D R I HE i cause d ctx network addr s = Dialer_DialContext D R I HE i cause d ctx network addr s"

text \<open>Durations are in nanoseconds.\<close>

record 's http_transport =
  ht_DialContext :: "'s dial_fun"
  ht_MaxIdleConns :: int
  ht_MaxIdleConnsPerHost :: int
  ht_IdleConnTimeout :: int
  ht_TLSHandshakeTimeout :: int
  ht_ExpectContinueTimeout :: int
  ht_DisableKeepAlives :: bool

definition Transport :: "'s dispatcher \<Rightarrow> resolver \<Rightarrow> ('s net \<Rightarrow> 's net) \<Rightarrow> 's race \<Rightarrow> nat \<Rightarrow> net_error \<Rightarrow> Dialer option \<Rightarrow> 's http_transport" where
  "Transport D R I HE i cause d =
     (let d = (case d of None \<Rightarrow> \<lparr>Timeout = 0, FallbackDelay = 0\<rparr> | Some d \<Rightarrow> d)
      in \<lparr>ht_DialContext = dialContextForHTTP D R I HE i cause d, ht_MaxIdleConns = 100, ht_MaxIdleConnsPerHost = 10,
          ht_IdleConnTimeout = 90 * 1000000000, ht_TLSHandshakeTimeout = 10 * 1000000000,
          ht_ExpectContinueTimeout = 1 * 1000000000, ht_DisableKeepAlives = False\<rparr>)"

definition DefaultTransport :: "'s dispatcher \<Rightarrow> resolver \<Rightarrow> ('s net \<Rightarrow> 's net) \<Rightarrow> 's race \<Rightarrow> nat \<Rightarrow> net_error \<Rightarrow> 's http_transport" where
  "DefaultTransport D R I HE i cause = Transport D R I HE i cause None"

text \<open>An \<open>http.Client\<close> with no field set but \<open>Transport\<close>.\<close>

record 's http_client =
  hc_Transport :: "'s http_transport"

definition NewHTTPClient :: "'s dispatcher \<Rightarrow> resolver \<Rightarrow> ('s net \<Rightarrow> 's net) \<Rightarrow> 's race \<Rightarrow> nat \<Rightarrow> net_error \<Rightarrow> 's http_client" where
  "NewHTTPClient D R I HE i cause = \<lparr>hc_Transport = DefaultTransport D R I HE i cause\<rparr>"

section \<open>What an HTTP client dials\<close>

text \<open>Whatever the request's context and address, a dial of the default client behaves as \<open>vclnet.DialContext\<close>, whose
  dialer has no options: no timeout of its own, so the context is the only bound, and Happy Eyeballs starts a new
  address every 250 ms.\<close>

lemma withTimeout_none [simp]: "withTimeout 0 c ctx s = (ctx, s)" "cancel_ctx 0 ctx s = s"
  by (simp_all add: withTimeout_def cancel_ctx_def)

lemma http_dial_is_package_dial:
  "ht_DialContext (hc_Transport (NewHTTPClient D R I HE i cause)) ctx network addr s
    = vclnet_DialContext D R I (HE 250000000) i ctx network addr s"
  by (simp add: NewHTTPClient_def DefaultTransport_def Transport_def dialContextForHTTP_def Dialer_DialContext_def
      vclnet_DialContext_def DialContext_def fallbackDelay_def defaultFallbackDelay_def
      split: sum.split option.split)

text \<open>After \<open>Shutdown\<close> an HTTP client, whatever its dialer, opens no connection.\<close>

lemma http_dial_after_shutdown:
  assumes "n_shutdown s"
  shows "ht_DialContext (Transport D R I HE i cause d) ctx network addr s = (Some (Inl (dial_opError network addr ErrClosed)), s)"
  using assms by (simp add: Transport_def dialContextForHTTP_def Dialer_DialContext_def DialContext_def Let_def)

end
