(* ===== verification/ByteStream.thy ===== *)
theory ByteStream
  imports Ledger
begin

text \<open>
  \<open>vclpoll\<close> as a byte stream: the calls without a cancellation channel, \<open>Read\<close>, \<open>Write\<close> and \<open>AcceptFull\<close>
  with the methods of both dispatchers behind them, \<open>CloseVLSH\<close> and \<open>WakeVLSH\<close>, and the contract of a session's two directions,
  which extends \<open>byte_sink\<close> of theory \<open>Dispatch\<close> by the bytes received. Mode 3 is shown to meet it.
\<close>

section \<open>Calls that cannot be cancelled\<close>

definition mode3Read :: "cgo \<Rightarrow> nat \<Rightarrow> handle \<Rightarrow> nat \<Rightarrow> (world, u8 list poll_result option) state" where
  "mode3Read V fuel vlsh n = mode3ReadContext V fuel vlsh n"

definition mode3Write :: "cgo \<Rightarrow> nat \<Rightarrow> handle \<Rightarrow> u8 list \<Rightarrow> (world, nat poll_result option) state" where
  "mode3Write V fuel vlsh p = mode3WriteContext V fuel vlsh p"

definition mode3AcceptFull :: "cgo \<Rightarrow> nat \<Rightarrow> handle \<Rightarrow> (world, (handle \<times> AddrInfo) poll_result option) state" where
  "mode3AcceptFull V fuel listener = mode3AcceptFullContext V fuel listener"

text \<open>In Mode 2 the channel is an argument of the waits: \<open>nil\<close> here.\<close>

definition mode2_read :: "disp_env \<Rightarrow> handle \<Rightarrow> nat \<Rightarrow> mode2 \<Rightarrow> u8 list poll_result option \<times> mode2" where
  "mode2_read X h len = mode2_readContext (de_workers X) (de_wait X None) h len (de_fuel X)"

definition mode2_write :: "disp_env \<Rightarrow> handle \<Rightarrow> u8 list \<Rightarrow> mode2 \<Rightarrow> nat poll_result option \<times> mode2" where
  "mode2_write X h p = mode2_writeContext (de_workers X) (de_wait X None) h p (de_fuel X)"

definition mode2_acceptFull :: "disp_env \<Rightarrow> handle \<Rightarrow> mode2 \<Rightarrow> (handle \<times> AddrInfo \<times> vclpoll_error option) option \<times> mode2" where
  "mode2_acceptFull X h = mode2_acceptFullContext (de_workers X) (de_wait X None) (de_accept X None) h (de_fuel X)"

definition PollRead :: "disp_env \<Rightarrow> handle \<Rightarrow> nat \<Rightarrow> proc_state \<Rightarrow> u8 list poll_result option \<times> proc_state" where
  "PollRead X vlsh len s =
     (case ps_active s of
        Mode3Selected \<Rightarrow> on_thread (mode3Read (de_thread X) (de_fuel X) vlsh len) s
      | Mode2Selected \<Rightarrow> on_mode2 (mode2_read X vlsh len) s)"

definition PollWrite :: "disp_env \<Rightarrow> handle \<Rightarrow> u8 list \<Rightarrow> proc_state \<Rightarrow> nat poll_result option \<times> proc_state" where
  "PollWrite X vlsh p s =
     (case ps_active s of
        Mode3Selected \<Rightarrow> on_thread (mode3Write (de_thread X) (de_fuel X) vlsh p) s
      | Mode2Selected \<Rightarrow> on_mode2 (mode2_write X vlsh p) s)"

definition PollAcceptFull :: "disp_env \<Rightarrow> handle \<Rightarrow> proc_state \<Rightarrow> (handle \<times> AddrInfo \<times> vclpoll_error option) option \<times> proc_state" where
  "PollAcceptFull X listener s =
     (case ps_active s of
        Mode3Selected \<Rightarrow> map_prod (map_option accept_full_reply) id (on_thread (mode3AcceptFull (de_thread X) (de_fuel X) listener) s)
      | Mode2Selected \<Rightarrow> on_mode2 (mode2_acceptFull X listener) s)"

lemma calls_without_context:
  "PollRead X h len s = d_readContext (vclpoll X) h len None s"
  "PollWrite X h p s = d_writeContext (vclpoll X) h p None s"
  "PollAcceptFull X h s = d_acceptFullContext (vclpoll X) h None s"
  by (simp_all add: PollRead_def PollWrite_def PollAcceptFull_def vclpoll_def currentDispatcher_def mode3_sel mode2_sel
      mode3Read_def mode3Write_def mode3AcceptFull_def mode2_read_def mode2_write_def mode2_acceptFull_def
      split: selected.split)

text \<open>\<open>CloseVLSH\<close>, for sessions nobody was given, and \<open>WakeVLSH\<close>, with what each mode does.\<close>

definition mode3CloseVLSH :: "disp_env \<Rightarrow> handle \<Rightarrow> proc_state \<Rightarrow> proc_state" where
  "mode3CloseVLSH X vlsh s =
     snd (on_thread (pin (de_thread X) (vclpoll_close (de_thread X) vlsh)) (s\<lparr>ps_poller := pollUnregister X vlsh (ps_poller s)\<rparr>))"

definition mode2_closeVLSH :: "disp_env \<Rightarrow> handle \<Rightarrow> mode2 \<Rightarrow> mode2" where
  "mode2_closeVLSH X h s = snd (mode2_close (de_workers X) (de_fate X) (de_loops X) h s)"

definition PollCloseVLSH :: "disp_env \<Rightarrow> handle \<Rightarrow> proc_state \<Rightarrow> proc_state" where
  "PollCloseVLSH X vlsh s =
     (case ps_active s of
        Mode3Selected \<Rightarrow> mode3CloseVLSH X vlsh s
      | Mode2Selected \<Rightarrow> s\<lparr>ps_m2 := mode2_closeVLSH X vlsh (ps_m2 s)\<rparr>)"

definition WakeVLSH :: "disp_env \<Rightarrow> handle \<Rightarrow> proc_state \<Rightarrow> proc_state" where
  "WakeVLSH X vlsh s =
     (case ps_active s of
        Mode3Selected \<Rightarrow> s\<lparr>ps_poller := pollUnregister X vlsh (ps_poller s)\<rparr>
      | Mode2Selected \<Rightarrow> snd (on_mode2 (wakeVLSH (de_workers X) (de_fate X) vlsh) s))"

text \<open>\<open>CloseVLSH\<close> closes as \<open>Close\<close> does, in both modes, and drops the error.\<close>

lemma closeVLSH_is_close: "PollCloseVLSH X h s = snd (d_close (vclpoll X) h s)"
  by (auto simp: PollCloseVLSH_def vclpoll_def currentDispatcher_def mode3_sel mode2_sel mode3CloseVLSH_def mode3Close_def
      mode3Close_vls_def mode2_closeVLSH_def on_thread_def on_mode2_def case_prod_beta pin_def rawClose_def
      split: selected.split)

lemma wakeVLSH_is_wake: "WakeVLSH X h s = d_wakeVLSH (vclpoll X) h s"
  by (simp add: WakeVLSH_def vclpoll_def currentDispatcher_def mode3_sel mode2_sel split: selected.split)

text \<open>The two calls of \<open>Shutdown\<close> in Mode 3: no operation that wakes re-enters VLS, then the poller stops.\<close>

definition mode3BeginShutdown :: "proc_state \<Rightarrow> proc_state" where
  "mode3BeginShutdown s = s\<lparr>ps_appLive := False\<rparr>"

definition mode3StopPoller :: "disp_env \<Rightarrow> proc_state \<Rightarrow> proc_state" where
  "mode3StopPoller X s = s\<lparr>ps_poller := poller_stop X (ps_poller s)\<rparr>"

lemma mode3_stops:
  "ps_active s = Mode3Selected \<Longrightarrow> StopPoller X (BeginShutdown s) = mode3StopPoller X (mode3BeginShutdown s)"
  by (simp add: StopPoller_def BeginShutdown_def mode3StopPoller_def mode3BeginShutdown_def)

section \<open>The two directions of a session\<close>

locale byte_stream = byte_sink D sent
  for D :: "'s dispatcher" and sent :: "handle \<Rightarrow> 's \<Rightarrow> u8 list" +
  fixes received :: "handle \<Rightarrow> 's \<Rightarrow> u8 list"
  assumes read_ok: "d_readContext D h len ch p = (Some (Inr bs), p') \<Longrightarrow> received h p' = received h p @ bs"
    and read_failed: "d_readContext D h len ch p = (Some (Inl e), p') \<Longrightarrow> received h p' = received h p"
    and read_sends_nothing: "d_readContext D h len ch p = (r, p') \<Longrightarrow> sent h p' = sent h p"
    and write_receives_nothing: "d_writeContext D h bs ch p = (q, p') \<Longrightarrow> received h p' = received h p"
    and peer_receives_nothing: "received h (snd (d_getPeerAddr D h' p)) = received h p"
    and close_quiet: "sent h (snd (d_close D h' p)) = sent h p" "received h (snd (d_close D h' p)) = received h p"
begin

text \<open>The copying loop of the clients: what is left of a buffer after a write that took \<open>w\<close> bytes.\<close>

lemma write_rest:
  assumes "d_writeContext D h (drop k bs) ch p = (Some (Inr w), p')" "sent h p = out @ take k bs"
  shows "sent h p' = out @ take (k + w) bs"
  using write_ok [OF assms(1)] assms(2) by (simp add: take_add)

end

section \<open>Mode 3 as a byte stream\<close>

text \<open>What VLS delivered to a session's reads, according to the calling thread's history.\<close>

fun received_bytes :: "handle \<Rightarrow> world \<Rightarrow> u8 list" where
  "received_bytes h [] = []"
| "received_bytes h ((VlsRead h' n, r) # w) =
     (if h' = h \<and> 0 \<le> rv r then received_bytes h w @ copy_into (nat (rv r)) (r_data r) else received_bytes h w)"
| "received_bytes h (_ # w) = received_bytes h w"

definition ps_received :: "handle \<Rightarrow> proc_state \<Rightarrow> u8 list" where
  "ps_received h s = received_bytes h (ps_hist s)"

lemma received_enter [simp]: "received_bytes h (snd (run_state (enterVLS V) w)) = received_bytes h w"
  by (simp add: enterVLS_def registerThisThread_def vclpoll_register_worker_def)

lemma received_exit [simp]: "received_bytes h (snd (run_state (exitVLS V) w)) = received_bytes h w"
  by (simp add: exitVLS_def)

text \<open>A retry loop whose attempt keeps a measure of the history keeps it; one whose successful attempt
  appends to the stream appends once.\<close>

lemma retry_keeps:
  assumes att: "\<And>w. f (snd (run_state att w)) = f w"
    and ev: "\<And>g r w. f ((GoEvent g, r) # w) = f w" and ent: "\<And>w. f (snd (run_state (enterVLS V) w)) = f w"
    and ext: "\<And>w. f (snd (run_state (exitVLS V) w)) = f w"
  shows "f (snd (run_state (m3_retry V n att h' ev0 (Some e0)) w)) = f w"
proof (induction n arbitrary: w)
  case (Suc n)
  let ?w = "(GoEvent LoadAppLive, vls V w (GoEvent LoadAppLive)) # w"
  obtain q w' where a: "run_state att ?w = (q, w')" by fastforce
  with att [of ?w] have "f w' = f w" by (simp add: ev)
  with a show ?case by (cases q) (auto simp: ev ent ext Suc.IH split: if_splits sum.splits)
qed simp

lemma received_read_loop:
  assumes att: "\<And>w. received_bytes h (snd (run_state att w))
      = (case fst (run_state att w) of Inl e \<Rightarrow> received_bytes h w | Inr bs \<Rightarrow> received_bytes h w @ bs)"
    and "fst (run_state (m3_retry V n att h' ev (Some e0)) w) = Some r"
  shows "received_bytes h (snd (run_state (m3_retry V n att h' ev (Some e0)) w))
    = (case r of Inl e \<Rightarrow> received_bytes h w | Inr bs \<Rightarrow> received_bytes h w @ bs)"
  using assms(2)
proof (induction n arbitrary: w)
  case (Suc n)
  let ?w = "(GoEvent LoadAppLive, vls V w (GoEvent LoadAppLive)) # w"
  obtain q w' where a: "run_state att ?w = (q, w')" by fastforce
  show ?case
    using Suc.prems att [of ?w] a by (cases q) (auto simp: Suc.IH split: if_splits sum.splits)
qed simp

definition thread_read :: "cgo \<Rightarrow> handle \<Rightarrow> nat \<Rightarrow> (world, u8 list poll_result) state" where
  "thread_read V h n = do { (r, bs) \<leftarrow> vclpoll_read V h n; State_Monad.return (rv_result ''read'' r (copy_into (nat r) bs)) }"

lemma received_read_attempt:
  "received_bytes h (snd (run_state (thread_read V h n) w))
    = (case fst (run_state (thread_read V h n) w) of Inl e \<Rightarrow> received_bytes h w | Inr bs \<Rightarrow> received_bytes h w @ bs)"
  by (cases "0 \<le> rv (vls V w (VlsRead h n))") (simp_all add: thread_read_def vclpoll_read_def)

lemma received_read:
  assumes "fst (run_state (mode3ReadContext V n h len) w) = Some r"
  shows "received_bytes h (snd (run_state (mode3ReadContext V n h len) w))
    = (case r of Inl e \<Rightarrow> received_bytes h w | Inr bs \<Rightarrow> received_bytes h w @ bs)"
  using assms received_read_loop [OF received_read_attempt, where h' = h and w = "snd (run_state (enterVLS V) w)"]
  by (cases r) (auto simp: mode3ReadContext_def thread_read_def [symmetric] split: if_splits)

lemma read_sends_nothing3: "sent_bytes h (snd (run_state (mode3ReadContext V n h' len) w)) = sent_bytes h w"
  by (auto simp: mode3ReadContext_def vclpoll_read_def intro!: trans [OF retry_keeps [where f = "sent_bytes h"]])

lemma write_receives_nothing3: "received_bytes h (snd (run_state (mode3WriteContext V n h' bs) w)) = received_bytes h w"
  by (auto simp: mode3WriteContext_def vclpoll_write_def intro!: trans [OF retry_keeps [where f = "received_bytes h"]])

lemma close_quiet3:
  "sent_bytes h (snd (run_state (mode3Close_vls V h') w)) = sent_bytes h w"
  "received_bytes h (snd (run_state (mode3Close_vls V h') w)) = received_bytes h w"
  by (simp_all add: mode3Close_vls_def pin_def rawClose_def vclpoll_close_def)

interpretation mode3_stream: byte_stream "mode3Dispatcher X" ps_sent ps_received for X
proof
  fix h len ch p bs p' e r q h'
  show "d_readContext (mode3Dispatcher X) h len ch p = (Some (Inr bs), p') \<Longrightarrow> ps_received h p' = ps_received h p @ bs"
    "d_readContext (mode3Dispatcher X) h len ch p = (Some (Inl e), p') \<Longrightarrow> ps_received h p' = ps_received h p"
    by (auto simp: mode3_sel on_thread_def case_prod_beta ps_received_def received_read)
  show "d_readContext (mode3Dispatcher X) h len ch p = (r, p') \<Longrightarrow> ps_sent h p' = ps_sent h p"
    by (auto simp: mode3_sel on_thread_def case_prod_beta ps_sent_def read_sends_nothing3)
  show "d_writeContext (mode3Dispatcher X) h bs ch p = (q, p') \<Longrightarrow> ps_received h p' = ps_received h p"
    by (auto simp: mode3_sel on_thread_def case_prod_beta ps_received_def write_receives_nothing3)
  show "ps_sent h (snd (d_close (mode3Dispatcher X) h' p)) = ps_sent h p"
    "ps_received h (snd (d_close (mode3Dispatcher X) h' p)) = ps_received h p"
    by (simp_all add: mode3_sel mode3Close_def on_thread_def case_prod_beta ps_sent_def ps_received_def close_quiet3)
  show "ps_received h (snd (d_getPeerAddr (mode3Dispatcher X) h' p)) = ps_received h p"
    by (simp add: mode3_sel on_thread_def case_prod_beta mode3GetPeerAddr_def pin_def vclpoll_get_peer_addr_def ps_received_def)
qed

section \<open>Streams of sessions that are owned\<close>

text \<open>A stream whose reads and writes open and close nothing.\<close>

locale owned_stream = byte_stream D sent received + session_ledger D held
  for D :: "'s dispatcher" and sent received :: "handle \<Rightarrow> 's \<Rightarrow> u8 list" and held :: "handle \<Rightarrow> 's \<Rightarrow> int" +
  assumes stream_gains_nothing: "gains held p (-1) (snd (d_readContext D h len ch p))"
    "gains held p (-1) (snd (d_writeContext D h bs ch p))"

lemma balance_attempts:
  "balance k (snd (run_state (thread_read V h n) w)) = balance k w"
  "balance k (snd (run_state (enterVLS V) w)) = balance k w" "balance k (snd (run_state (exitVLS V) w)) = balance k w"
  by (simp_all add: thread_read_def vclpoll_read_def balance_simps enterVLS_def exitVLS_def registerThisThread_def
      vclpoll_register_worker_def)

lemma balance_stream3:
  "balance k (snd (run_state (mode3ReadContext V n h len) w)) = balance k w"
  "balance k (snd (run_state (mode3WriteContext V n h bs) w)) = balance k w"
  by (auto simp: mode3ReadContext_def mode3WriteContext_def balance_attempts balance_simps vclpoll_write_def
      thread_read_def [symmetric] intro!: trans [OF retry_keeps [where f = "balance k"]])

interpretation mode3_owned: owned_stream "mode3Dispatcher X" ps_sent ps_received ps_held for X
  by unfold_locales (simp_all add: mode3_sel gains_def ps_held_def balance_stream3 on_thread_def case_prod_beta owns_def)

end
