(* ===== verification/Echo.thy ===== *)
theory Echo
  imports ByteStream "HOL-Library.Sublist"
begin

text \<open>
  The low-level examples, \<open>examples/echo_server\<close> and \<open>examples/echo_client\<close>: clients of \<open>vclpoll\<close> alone. Their
  loops are proved against the contract \<open>owned_stream\<close> of theory \<open>ByteStream\<close>. Each loop has a fuel; \<open>None\<close>: it
  has not returned. The log lines are not modelled, what a program prints or dies of is its result.
\<close>

section \<open>Writing a whole buffer\<close>

text \<open>\<open>for written < n { w, err := Write(conn, buf[written:n]); if err != nil {...}; written += w }\<close>, of both
  programs; the result is the error it stopped at.\<close>

fun writeAll :: "'s dispatcher \<Rightarrow> handle \<Rightarrow> nat \<Rightarrow> u8 list \<Rightarrow> nat \<Rightarrow> 's \<Rightarrow> vclpoll_error option option \<times> 's" where
  "writeAll D conn 0 buf written s = (None, s)"
| "writeAll D conn (Suc fuel) buf written s =
     (if written < length buf then
        (case d_writeContext D conn (drop written buf) None s of
           (None, s) \<Rightarrow> (None, s)
         | (Some (Inl err), s) \<Rightarrow> (Some (Some err), s)
         | (Some (Inr w), s) \<Rightarrow> writeAll D conn fuel buf (written + w) s)
      else (Some None, s))"

section \<open>The server\<close>

datatype served_until = PeerClosed | ReadFailed vclpoll_error | WriteFailed vclpoll_error

fun serve_loop :: "'s dispatcher \<Rightarrow> handle \<Rightarrow> nat \<Rightarrow> 's \<Rightarrow> served_until option \<times> 's" where
  "serve_loop D conn 0 s = (None, s)"
| "serve_loop D conn (Suc fuel) s =
     (case d_readContext D conn 4096 None s of
        (None, s) \<Rightarrow> (None, s)
      | (Some (Inl err), s) \<Rightarrow> (Some (ReadFailed err), s)
      | (Some (Inr buf), s) \<Rightarrow>
          if length buf = 0 then (Some PeerClosed, s)
          else
            (case writeAll D conn fuel buf 0 s of
               (None, s) \<Rightarrow> (None, s)
             | (Some (Some err), s) \<Rightarrow> (Some (WriteFailed err), s)
             | (Some None, s) \<Rightarrow> serve_loop D conn fuel s))"

text \<open>With \<open>defer vclpoll.Close(conn)\<close>.\<close>

definition serveConn :: "'s dispatcher \<Rightarrow> handle \<Rightarrow> nat \<Rightarrow> 's \<Rightarrow> served_until option \<times> 's" where
  "serveConn D conn fuel s =
     (case serve_loop D conn fuel s of
        (None, s) \<Rightarrow> (None, s)
      | (Some r, s) \<Rightarrow> (Some r, snd (d_close D conn s)))"

text \<open>The loop of \<open>main\<close>, with the handles given to goroutines so far; \<open>J conn\<close> is what these do, the new one for
  \<open>conn\<close> among them, until the next \<open>Accept\<close> begins.\<close>

fun serve_accepts :: "'s dispatcher \<Rightarrow> (handle \<Rightarrow> 's \<Rightarrow> 's) \<Rightarrow> nat \<Rightarrow> handle \<Rightarrow> handle list \<Rightarrow> 's
    \<Rightarrow> (handle list \<times> vclpoll_error) option \<times> 's" where
  "serve_accepts D J 0 listener spawned s = (None, s)"
| "serve_accepts D J (Suc fuel) listener spawned s =
     (case d_accept D listener s of
        (None, s) \<Rightarrow> (None, s)
      | (Some (conn, peerIP, peerPort, Some err), s) \<Rightarrow> (Some (spawned, err), snd (d_close D listener s))
      | (Some (conn, peerIP, peerPort, None), s) \<Rightarrow> serve_accepts D J fuel listener (spawned @ [conn]) (J conn s))"

text \<open>What ends a program: \<open>log.Fatal\<close>, which runs no deferred call, or the end of \<open>main\<close>.\<close>

datatype 'a program_end = Fatal string "vclpoll_error option" | Returned 'a

definition echo_server_main :: "disp_env \<Rightarrow> (handle \<Rightarrow> proc_state \<Rightarrow> proc_state) \<Rightarrow> nat \<Rightarrow> bool \<Rightarrow> 64 word \<Rightarrow> proc_state
    \<Rightarrow> (handle list \<times> vclpoll_error) program_end option \<times> proc_state" where
  "echo_server_main X J fuel vcl_config port s =
     (if \<not> vcl_config then (Some (Fatal ''VCL_CONFIG'' None), s)
      else
        (case AppInit X ''vclnet-echo-server'' s of
           (Some err, s) \<Rightarrow> (Some (Fatal ''AppInit'' (Some err)), s)
         | (None, s) \<Rightarrow>
             (case d_listenTCP4 (vclpoll X) (0, 0, 0, 0) (ucast port) 32 s of
                (Inl err, s) \<Rightarrow> (Some (Fatal ''ListenTCP4'' (Some err)), s)
              | (Inr listener, s) \<Rightarrow> map_prod (map_option Returned) id (serve_accepts (vclpoll X) J fuel listener [] s))))"

section \<open>The client\<close>

text \<open>\<open>Read(conn, in[read:])\<close> stores what it reads behind what \<open>in\<close> already holds.\<close>

definition store_at :: "nat \<Rightarrow> u8 list \<Rightarrow> u8 list \<Rightarrow> u8 list" where
  "store_at k bs buf = take (length buf) (take k buf @ bs @ drop (k + length bs) buf)"

fun readFull :: "'s dispatcher \<Rightarrow> handle \<Rightarrow> nat \<Rightarrow> u8 list \<Rightarrow> nat \<Rightarrow> 's \<Rightarrow> u8 list program_end option \<times> 's" where
  "readFull D conn 0 buf k s = (None, s)"
| "readFull D conn (Suc fuel) buf k s =
     (if k < length buf then
        (case d_readContext D conn (length buf - k) None s of
           (None, s) \<Rightarrow> (None, s)
         | (Some (Inl err), s) \<Rightarrow> (Some (Fatal ''Read'' (Some err)), s)
         | (Some (Inr bs), s) \<Rightarrow>
             if length bs = 0 then (Some (Fatal ''peer closed before full echo'' None), s)
             else readFull D conn fuel (store_at k bs buf) (k + length bs) s)
      else (Some (Returned buf), s))"

text \<open>From the connection to the end of \<open>main\<close>: the bytes it prints.\<close>

definition echo_exchange :: "'s dispatcher \<Rightarrow> handle \<Rightarrow> nat \<Rightarrow> u8 list \<Rightarrow> 's \<Rightarrow> u8 list program_end option \<times> 's" where
  "echo_exchange D conn fuel out s =
     (case writeAll D conn fuel out 0 s of
        (None, s) \<Rightarrow> (None, s)
      | (Some (Some err), s) \<Rightarrow> (Some (Fatal ''Write'' (Some err)), s)
      | (Some None, s) \<Rightarrow>
          (case readFull D conn fuel (replicate (length out) 0) 0 s of
             (Some (Returned buf), s) \<Rightarrow> (Some (Returned buf), snd (d_close D conn s))
           | (r, s) \<Rightarrow> (r, s)))"

text \<open>\<open>strconv.ParseUint(s, 10, 16)\<close>: decimal digits, at most 65535.\<close>

definition digit_value :: "char \<Rightarrow> nat option" where
  "digit_value c = (if of_char CHR ''0'' \<le> (of_char c :: nat) \<and> of_char c \<le> (of_char CHR ''9'' :: nat)
     then Some (of_char c - of_char CHR ''0'') else None)"

fun parse_digits :: "string \<Rightarrow> nat \<Rightarrow> nat option" where
  "parse_digits [] n = Some n"
| "parse_digits (c # cs) n = (case digit_value c of
       None \<Rightarrow> None
     | Some d \<Rightarrow> if 10 * n + d > 65535 then None else parse_digits cs (10 * n + d))"

text \<open>\<open>%d\<close> of \<open>fmt\<close>.\<close>

fun decimal :: "nat \<Rightarrow> string" where
  "decimal n = (if n < 10 then [char_of (48 + n)] else decimal (n div 10) @ [char_of (48 + n mod 10)])"

declare decimal.simps [simp del]

definition decimal_int :: "int \<Rightarrow> string" where
  "decimal_int k = (if k < 0 then ''-'' @ decimal (nat (- k)) else decimal (nat k))"

definition ParseUint16 :: "string \<Rightarrow> nat option" where
  "ParseUint16 s = (if s = [] then None else parse_digits s 0)"

text \<open>\<open>net.SplitHostPort\<close> and \<open>net.ParseIP\<close> followed by \<open>To4\<close> are parameters; an error of any of the three is fatal.\<close>

definition parseIPv4HostPort :: "(string \<Rightarrow> (string \<times> string) option) \<Rightarrow> (string \<Rightarrow> ip4 option) \<Rightarrow> string \<Rightarrow> (ip4 \<times> u16) option" where
  "parseIPv4HostPort SplitHostPort ParseIP4 s =
     (case SplitHostPort s of
        None \<Rightarrow> None
      | Some (host, portStr) \<Rightarrow>
          (case ParseIP4 host of
             None \<Rightarrow> None
           | Some ip \<Rightarrow> (case ParseUint16 portStr of None \<Rightarrow> None | Some p \<Rightarrow> Some (ip, word_of_nat p))))"

definition echo_client_main :: "disp_env \<Rightarrow> (string \<Rightarrow> (string \<times> string) option) \<Rightarrow> (string \<Rightarrow> ip4 option) \<Rightarrow> nat \<Rightarrow> bool
    \<Rightarrow> string \<Rightarrow> u8 list \<Rightarrow> proc_state \<Rightarrow> u8 list program_end option \<times> proc_state" where
  "echo_client_main X SplitHostPort ParseIP4 fuel vcl_config addr msg s =
     (if \<not> vcl_config then (Some (Fatal ''VCL_CONFIG'' None), s)
      else
        (case parseIPv4HostPort SplitHostPort ParseIP4 addr of
           None \<Rightarrow> (Some (Fatal ''invalid -addr'' None), s)
         | Some (ip4, port) \<Rightarrow>
             (case AppInit X ''vclnet-echo-client'' s of
                (Some err, s) \<Rightarrow> (Some (Fatal ''AppInit'' (Some err)), s)
              | (None, s) \<Rightarrow>
                  (case d_dialTCP4 (vclpoll X) ip4 port s of
                     (Inl err, s) \<Rightarrow> (Some (Fatal ''DialTCP4'' (Some err)), s)
                   | (Inr conn, s) \<Rightarrow> echo_exchange (vclpoll X) conn fuel msg s))))"

section \<open>What they transfer\<close>

lemma length_store_at [simp]: "length (store_at k bs buf) = length buf"
  by (auto simp: store_at_def)

lemma store_at_take:
  assumes "k < length buf"
  shows "take (length buf) (take (k + length bs) (store_at k bs buf) @ inp) = take (length buf) (take k buf @ bs @ inp)"
proof (cases "k + length bs \<le> length buf")
  case True
  with assms have "store_at k bs buf = take k buf @ bs @ drop (k + length bs) buf" by (simp add: store_at_def)
  with assms show ?thesis by simp
next
  case False
  with assms have "store_at k bs buf = take (length buf) (take k buf @ bs)" by (simp add: store_at_def)
  with assms False show ?thesis by simp
qed

lemma digit_value_digit: "d < 10 \<Longrightarrow> digit_value (char_of (48 + d)) = Some d"
  by (simp add: digit_value_def)

lemma parse_digits_append:
  "parse_digits (xs @ ys) k = (case parse_digits xs k of None \<Rightarrow> None | Some m \<Rightarrow> parse_digits ys m)"
  by (induction xs arbitrary: k) (simp_all split: option.split)

text \<open>A port that is printed is read back.\<close>

lemma ParseUint16_decimal: "n < 65536 \<Longrightarrow> ParseUint16 (decimal n) = Some n"
proof -
  have ne: "decimal n \<noteq> []" for n by (subst decimal.simps) simp
  have "n < 65536 \<longrightarrow> parse_digits (decimal n) 0 = Some n"
  proof (induction n rule: decimal.induct)
    case (1 n)
    show ?case
    proof (cases "n < 10")
      case True
      then show ?thesis by (simp add: decimal.simps [of n] digit_value_digit)
    next
      case False
      then show ?thesis
        using 1 digit_value_digit [of "n mod 10"]
        by (subst decimal.simps) (auto simp: parse_digits_append)
    qed
  qed
  with ne show "n < 65536 \<Longrightarrow> ParseUint16 (decimal n) = Some n" by (simp add: ParseUint16_def)
qed

lemma ParseUint16_bound: "ParseUint16 s = Some p \<Longrightarrow> p < 65536"
proof -
  have "parse_digits cs n = Some p \<Longrightarrow> n < 65536 \<Longrightarrow> p < 65536" for cs n
    by (induction cs arbitrary: n) (auto split: option.splits if_splits)
  then show "ParseUint16 s = Some p \<Longrightarrow> p < 65536" by (auto simp: ParseUint16_def split: if_splits)
qed

text \<open>What a run has added to the two directions of a session: it read \<open>inp\<close> and wrote the first \<open>k\<close> bytes of it.\<close>

definition relayed :: "u8 list \<times> u8 list \<Rightarrow> u8 list \<times> u8 list \<Rightarrow> bool \<Rightarrow> bool" where
  "relayed before after whole \<longleftrightarrow> (\<exists>inp k. snd after = snd before @ inp \<and> fst after = fst before @ take k inp
     \<and> (whole \<longrightarrow> length inp \<le> k))"

lemma relayed_refl [simp]: "relayed x x c"
  by (auto simp: relayed_def)

text \<open>A round: it reads \<open>bs\<close> and writes \<open>k\<close> bytes of it.\<close>

lemma relayed_round: "relayed (o1, i1) (o1 @ take k bs, i1 @ bs) (length bs \<le> k)"
  by (auto simp: relayed_def)

lemma relayed_trans:
  assumes "relayed x y True" "relayed y z c"
  shows "relayed x z c"
proof -
  from assms(1) obtain a where a: "snd y = snd x @ a" "fst y = fst x @ a" by (auto simp: relayed_def)
  from assms(2) obtain b k where b: "snd z = snd y @ b" "fst z = fst y @ take k b" "c \<longrightarrow> length b \<le> k"
    by (auto simp: relayed_def)
  have "fst z = fst x @ take (length a + k) (a @ b)" "snd z = snd x @ (a @ b)" using a b by simp_all
  with b(3) show ?thesis unfolding relayed_def by (intro exI [of _ "a @ b"] exI [of _ "length a + k"]) simp
qed

lemma relayed_prefix: "relayed ([], []) (out, inp) c \<Longrightarrow> prefix out inp \<and> (c \<longrightarrow> out = inp)"
  by (auto simp: relayed_def take_is_prefix)

context owned_stream begin

lemma writeAll_sends:
  assumes "writeAll D h fuel buf k s = (Some r, s')" "sent h s = out @ take k buf"
  shows "\<exists>k'. sent h s' = out @ take k' buf \<and> (r = None \<longrightarrow> length buf \<le> k')"
    "received h s' = received h s" "gains held s (-1) s'"
proof -
  have "(\<exists>k'. sent h s' = out @ take k' buf \<and> (r = None \<longrightarrow> length buf \<le> k')) \<and> received h s' = received h s \<and> gains held s (-1) s'"
    using assms
  proof (induction fuel arbitrary: k s)
    case (Suc fuel)
    show ?case
    proof (cases "k < length buf")
      case False
      with Suc.prems have "r = None \<and> s' = s" by auto
      with False Suc.prems(2) show ?thesis by (auto simp: gains_refl intro!: exI [of _ k])
    next
      case True
      obtain q p where w: "d_writeContext D h (drop k buf) None s = (q, p)" by fastforce
      note quiet = write_receives_nothing [OF w] stream_gains_nothing(2) [of s h "drop k buf" None, unfolded w snd_conv]
      from Suc.prems True w obtain q1 where q: "q = Some q1" by (cases q) auto
      show ?thesis
      proof (cases q1)
        case (Inl e)
        with Suc.prems True w q have "r = Some e" "s' = p" by auto
        moreover have "sent h p = sent h s" using w q Inl write_failed by blast
        ultimately show ?thesis using Suc.prems(2) quiet by auto
      next
        case (Inr n)
        with Suc.prems(1) True w q have run: "writeAll D h fuel buf (k + n) p = (Some r, s')" by simp
        from w q Inr have "d_writeContext D h (drop k buf) None s = (Some (Inr n), p)" by simp
        from Suc.IH [OF run write_rest [OF this Suc.prems(2)]] quiet show ?thesis
          by (auto intro: gains_none)
      qed
    qed
  qed simp
  then show "\<exists>k'. sent h s' = out @ take k' buf \<and> (r = None \<longrightarrow> length buf \<le> k')"
    "received h s' = received h s" "gains held s (-1) s'" by blast+
qed

text \<open>What is written is what was read, and nothing is read before all of it has been written.\<close>

lemma serve_loop_relays:
  assumes "serve_loop D h fuel s = (Some r, s')"
  shows "relayed (sent h s, received h s) (sent h s', received h s') (\<forall>e. r \<noteq> WriteFailed e) \<and> gains held s (-1) s'"
  using assms
proof (induction fuel arbitrary: s)
  case (Suc fuel)
  obtain q p where rd: "d_readContext D h 4096 None s = (q, p)" by fastforce
  have quiet: "sent h p = sent h s" "gains held s (-1) p"
    using rd read_sends_nothing stream_gains_nothing(1) [of s h 4096 None, unfolded rd snd_conv] by blast+
  from Suc.prems rd obtain q1 where q: "q = Some q1" by (cases q) auto
  show ?case
  proof (cases q1)
    case (Inl e)
    with Suc.prems rd q have "s' = p" by auto
    moreover have "received h p = received h s" using rd q Inl read_failed by blast
    ultimately show ?thesis using quiet by simp
  next
    case (Inr buf)
    then have got: "received h p = received h s @ buf" using rd q read_ok by blast
    show ?thesis
    proof (cases "buf = []")
      case True
      with Suc.prems rd q Inr got quiet show ?thesis by auto
    next
      case False
      with Suc.prems rd q Inr obtain w p1 where w: "writeAll D h fuel buf 0 p = (Some w, p1)"
        by (cases "fst (writeAll D h fuel buf 0 p)") (auto split: prod.splits)
      from writeAll_sends [OF w, of "sent h s"] quiet(1) got obtain k where
        k: "sent h p1 = sent h s @ take k buf" "w = None \<longrightarrow> length buf \<le> k" "received h p1 = received h s @ buf"
          "gains held p (-1) p1" by auto
      have g1: "gains held s (-1) p1" using quiet(2) k(4) by (rule gains_none) simp
      from relayed_round have rnd: "relayed (sent h s, received h s) (sent h p1, received h p1) (length buf \<le> k)"
        by (simp add: k relayed_round)
      show ?thesis
      proof (cases w)
        case (Some e)
        with Suc.prems rd q Inr False w have "r = WriteFailed e" "s' = p1" by auto
        with rnd g1 show ?thesis by (auto simp: relayed_def)
      next
        case None
        with Suc.prems rd q Inr False w have "serve_loop D h fuel p1 = (Some r, s')" by simp
        from Suc.IH [OF this] rnd k(2) None g1 show ?thesis by (auto intro: relayed_trans gains_none)
      qed
    qed
  qed
qed simp

lemma serveConn_relays:
  assumes "serveConn D h fuel s = (Some r, s')"
  shows "relayed (sent h s, received h s) (sent h s', received h s') (\<forall>e. r \<noteq> WriteFailed e) \<and> loses held s h s'"
proof -
  from assms obtain p where p: "serve_loop D h fuel s = (Some r, p)" "s' = snd (d_close D h p)"
    by (auto simp: serveConn_def split: prod.splits option.splits)
  from serve_loop_relays [OF p(1)] close_loses [of p h] close_quiet [of h h p] p(2) show ?thesis
    by (auto simp: gains_def loses_def)
qed

lemma readFull_stores:
  assumes "readFull D h fuel buf k s = (Some (Returned b), s')"
  shows "\<exists>inp. received h s' = received h s @ inp \<and> sent h s' = sent h s \<and> gains held s (-1) s'
    \<and> b = take (length buf) (take k buf @ inp) \<and> length buf \<le> k + length inp"
  using assms
proof (induction fuel arbitrary: buf k s)
  case (Suc fuel)
  show ?case
  proof (cases "k < length buf")
    case False
    with Suc.prems show ?thesis by (auto simp: gains_refl)
  next
    case True
    obtain q p where rd: "d_readContext D h (length buf - k) None s = (q, p)" by fastforce
    with Suc.prems True obtain bs where bs: "q = Some (Inr bs)" "bs \<noteq> []"
      and run: "readFull D h fuel (store_at k bs buf) (k + length bs) p = (Some (Returned b), s')"
      by (auto split: option.splits sum.splits if_splits)
    from Suc.IH [OF run] obtain inp where ih: "received h s' = received h p @ inp" "sent h s' = sent h p" "gains held p (-1) s'"
      "b = take (length buf) (take (k + length bs) (store_at k bs buf) @ inp)" "length buf \<le> k + length bs + length inp"
      using True by (auto simp: length_store_at)
    have "sent h p = sent h s" using rd by (rule read_sends_nothing)
    moreover have "gains held s (-1) s'"
      using stream_gains_nothing(1) [of s h "length buf - k" None, unfolded rd snd_conv] ih(3) by (rule gains_none) simp
    moreover have "received h p = received h s @ bs" using rd unfolding bs(1) by (rule read_ok)
    moreover have "b = take (length buf) (take k buf @ bs @ inp)"
      using ih(4) store_at_take [of k buf bs inp] True by simp
    ultimately show ?thesis using ih(1,2,5) by (intro exI [of _ "bs @ inp"]) simp
  qed
qed simp

lemma exchange_stores:
  assumes "echo_exchange D h fuel out s = (Some (Returned b), s')"
  shows "\<exists>inp. received h s' = received h s @ inp \<and> sent h s' = sent h s @ out \<and> loses held s h s'
    \<and> b = take (length out) inp \<and> length out \<le> length inp"
proof -
  from assms obtain p p1 where w: "writeAll D h fuel out 0 s = (Some None, p)"
    and rd: "readFull D h fuel (replicate (length out) 0) 0 p = (Some (Returned b), p1)" "s' = snd (d_close D h p1)"
    by (cases "writeAll D h fuel out 0 s") (auto simp: echo_exchange_def split: prod.splits option.splits program_end.splits)
  from writeAll_sends [OF w, of "sent h s"] have "sent h p = sent h s @ out" "received h p = received h s" "gains held s (-1) p"
    by auto
  moreover from readFull_stores [OF rd(1)] obtain inp where "received h p1 = received h p @ inp" "sent h p1 = sent h p"
    "gains held p (-1) p1" "b = take (length out) inp" "length out \<le> length inp" by auto
  ultimately show ?thesis using close_loses [of p1 h] rd(2)
    by (intro exI [of _ inp]) (auto simp: close_quiet gains_def loses_def)
qed

end

text \<open>The fuel is only a bound: if no call blocks for ever and every write takes a byte, a buffer of \<open>n\<close> bytes needs
  \<open>n\<close> writes, and the whole exchange of the client no more than \<open>n\<close> writes and \<open>n\<close> reads.\<close>

lemma writeAll_returns:
  assumes calls: "\<And>bs p. bs \<noteq> [] \<Longrightarrow> \<exists>r p'. d_writeContext D h bs None p = (Some r, p') \<and> r \<noteq> Inr 0"
    and "length buf - k < fuel"
  shows "fst (writeAll D h fuel buf k s) \<noteq> None"
  using assms(2)
proof (induction fuel arbitrary: k s)
  case (Suc fuel)
  show ?case
  proof (cases "k < length buf")
    case True
    then obtain r p where r: "d_writeContext D h (drop k buf) None s = (Some r, p)" "r \<noteq> Inr 0"
      using calls [of "drop k buf" s] by auto
    show ?thesis
    proof (cases r)
      case (Inr w)
      with r(2) True Suc.prems have "length buf - (k + w) < fuel" by auto
      from Suc.IH [OF this, of p] r(1) True Inr show ?thesis by simp
    qed (use r True in simp)
  qed simp
qed simp

lemma readFull_returns:
  assumes calls: "\<And>n p. 0 < n \<Longrightarrow> \<exists>r p'. d_readContext D h n None p = (Some r, p')"
    and "length buf - k < fuel"
  shows "fst (readFull D h fuel buf k s) \<noteq> None"
  using assms(2)
proof (induction fuel arbitrary: buf k s)
  case (Suc fuel)
  show ?case
  proof (cases "k < length buf")
    case True
    then obtain r p where r: "d_readContext D h (length buf - k) None s = (Some r, p)"
      using calls [of "length buf - k" s] by auto
    show ?thesis
    proof (cases r)
      case (Inr bs)
      show ?thesis
      proof (cases "bs = []")
        case True
        with r Inr \<open>k < length buf\<close> show ?thesis by simp
      next
        case False
        then have "0 < length bs" by simp
        with True Suc.prems have "length buf - (k + length bs) < fuel" by linarith
        then have "length (store_at k bs buf) - (k + length bs) < fuel" by simp
        from Suc.IH [OF this, of p] r True Inr False show ?thesis by simp
      qed
    qed (use r True in simp)
  qed simp
qed simp

lemma exchange_returns:
  assumes "\<And>bs p. bs \<noteq> [] \<Longrightarrow> \<exists>r p'. d_writeContext D h bs None p = (Some r, p') \<and> r \<noteq> Inr 0"
    and "\<And>n p. 0 < n \<Longrightarrow> \<exists>r p'. d_readContext D h n None p = (Some r, p')" and "length msg < fuel"
  shows "fst (echo_exchange D h fuel msg s) \<noteq> None"
proof -
  have w: "fst (writeAll D h fuel msg 0 s) \<noteq> None" by (rule writeAll_returns) (use assms in auto)
  have r: "fst (readFull D h fuel (replicate (length msg) 0) 0 p) \<noteq> None" for p
    by (rule readFull_returns) (use assms in auto)
  obtain q p where "writeAll D h fuel msg 0 s = (q, p)" by (rule prod.exhaust)
  with w r [of p] show ?thesis
    by (cases "readFull D h fuel (replicate (length msg) 0) 0 p")
      (auto simp: echo_exchange_def split: option.split program_end.split)
qed

section \<open>The programs on Mode 3\<close>

text \<open>The echo server echoes: when a connection's goroutine has returned, the bytes it wrote to the session
  are a prefix of those it read from it, in order, and all of them unless a write failed; it has closed the
  session once and opened or closed nothing else. Writes that VLS takes in part lose and repeat nothing.\<close>

theorem echo_server_echoes:
  assumes "serveConn (mode3Dispatcher X) conn fuel s = (Some r, s')"
  shows "\<exists>inp k. ps_received conn s' = ps_received conn s @ inp \<and> ps_sent conn s' = ps_sent conn s @ take k inp
    \<and> (r = PeerClosed \<or> (\<exists>e. r = ReadFailed e) \<longrightarrow> length inp \<le> k)
    \<and> (\<forall>h \<ge> 0. ps_held h s' = ps_held h s - owns conn h)"
proof -
  from mode3_owned.serveConn_relays [OF assms] obtain inp k where
    "ps_received conn s' = ps_received conn s @ inp" "ps_sent conn s' = ps_sent conn s @ take k inp"
    "(\<forall>e. r \<noteq> WriteFailed e) \<longrightarrow> length inp \<le> k" "loses ps_held s conn s'"
    by (auto simp: relayed_def)
  then show ?thesis by (intro exI [of _ inp] exI [of _ k]) (auto simp: loses_def)
qed

text \<open>A peer that sends two bytes and closes, to a VLS that takes one byte at a time.\<close>

definition echo_vls :: cgo where
  "echo_vls = \<lparr>tid = 1, vls = \<lambda>w c. (case c of
       VlsRead h n \<Rightarrow> if received_bytes h w = [] then (ok_reply 2)\<lparr>r_data := [7, 8]\<rparr> else ok_reply 0
     | _ \<Rightarrow> ok_reply 1)\<rparr>"

definition echo_disp :: disp_env where
  "echo_disp = demo_disp\<lparr>de_thread := echo_vls, de_fuel := 2\<rparr>"

lemma echo_disp_sel [simp]: "de_thread echo_disp = echo_vls" "de_fuel echo_disp = 2"
  by (simp_all add: echo_disp_def demo_disp_def)

lemma echo_vls_calls [simp]:
  "rv (vls echo_vls w (GoEvent g)) = 1" "rv (vls echo_vls w (VlsWrite h bs)) = 1"
  "vls echo_vls w (VlsRead h n) = (if received_bytes h w = [] then (ok_reply 2)\<lparr>r_data := [7, 8]\<rparr> else ok_reply 0)"
  by (simp_all add: echo_vls_def ok_reply_def)

lemma echo_read:
  "0 < n \<Longrightarrow> fst (d_readContext (mode3Dispatcher echo_disp) h n ch s) = Some (Inr (if ps_received h s = [] then [7, 8] else []))"
  by (simp add: mode3_sel mode3ReadContext_def vclpoll_read_def ps_received_def eval_nat_numeral ok_reply_def copy_into_def)

lemma echo_write:
  "bs \<noteq> [] \<Longrightarrow> fst (d_writeContext (mode3Dispatcher echo_disp) h bs ch s) = Some (Inr 1)"
  by (simp add: mode3_sel mode3WriteContext_def vclpoll_write_def eval_nat_numeral)

lemma echo_write_two:
  "\<exists>p. writeAll (mode3Dispatcher echo_disp) h 3 [7, 8] 0 s = (Some None, p)"
proof -
  obtain p where p: "d_writeContext (mode3Dispatcher echo_disp) h [7, 8] None s = (Some (Inr 1), p)"
    using echo_write [of "[7, 8]" h None s] by (cases "d_writeContext (mode3Dispatcher echo_disp) h [7, 8] None s") auto
  obtain p1 where "d_writeContext (mode3Dispatcher echo_disp) h [8] None p = (Some (Inr 1), p1)"
    using echo_write [of "[8]" h None p] by (cases "d_writeContext (mode3Dispatcher echo_disp) h [8] None p") auto
  with p show ?thesis by (simp add: eval_nat_numeral)
qed

lemma echo_server_run:
  "\<exists>s'. serveConn (mode3Dispatcher echo_disp) 6 4 proc_init = (Some PeerClosed, s') \<and> ps_received 6 s' = [7, 8]"
proof -
  let ?D = "mode3Dispatcher echo_disp"
  have none: "ps_received 6 proc_init = []" by (simp add: ps_received_def proc_init_def)
  obtain p where p: "d_readContext ?D 6 4096 None proc_init = (Some (Inr [7, 8]), p)"
    using echo_read [of 4096 6 None proc_init] none by (cases "d_readContext ?D 6 4096 None proc_init") auto
  obtain p1 where p1: "writeAll ?D 6 3 [7, 8] 0 p = (Some None, p1)" using echo_write_two by blast
  have r: "ps_received 6 p1 = [7, 8]"
    using mode3_owned.writeAll_sends(2) [OF p1, of "ps_sent 6 p"] mode3_stream.read_ok [OF p] none by simp
  then obtain p2 where p2: "d_readContext ?D 6 4096 None p1 = (Some (Inr []), p2)"
    using echo_read [of 4096 6 None p1] by (cases "d_readContext ?D 6 4096 None p1") auto
  let ?s = "snd (d_close ?D 6 p2)"
  have "serveConn ?D 6 4 proc_init = (Some PeerClosed, ?s)"
    using p p1 p2 by (simp add: serveConn_def numeral_eq_Suc)
  moreover have "ps_received 6 ?s = [7, 8]"
    using mode3_stream.read_ok [OF p2] r by (simp add: mode3_stream.close_quiet)
  ultimately show ?thesis by blast
qed

lemma echo_client_run:
  "\<exists>s'. echo_exchange (mode3Dispatcher echo_disp) 5 3 [7, 8] proc_init = (Some (Returned [7, 8]), s')
     \<and> ps_received 5 s' = [7, 8]"
proof -
  let ?D = "mode3Dispatcher echo_disp"
  have none: "ps_received 5 proc_init = []" by (simp add: ps_received_def proc_init_def)
  obtain p where p: "writeAll ?D 5 3 [7, 8] 0 proc_init = (Some None, p)" using echo_write_two by blast
  have n: "ps_received 5 p = []" using mode3_owned.writeAll_sends(2) [OF p, of "ps_sent 5 proc_init"] none by simp
  then obtain p1 where p1: "d_readContext ?D 5 2 None p = (Some (Inr [7, 8]), p1)"
    using echo_read [of 2 5 None p] by (cases "d_readContext ?D 5 2 None p") auto
  with p have "echo_exchange ?D 5 3 [7, 8] proc_init = (Some (Returned [7, 8]), snd (d_close ?D 5 p1))"
    by (simp add: echo_exchange_def eval_nat_numeral store_at_def)
  moreover have "ps_received 5 (snd (d_close ?D 5 p1)) = [7, 8]"
    using mode3_stream.read_ok [OF p1] n by (simp add: mode3_stream.close_quiet)
  ultimately show ?thesis by blast
qed

lemma echo_server_echoes_witness:
  "\<exists>s'. serveConn (mode3Dispatcher echo_disp) 6 4 proc_init = (Some PeerClosed, s') \<and> ps_sent 6 s' = [7, 8] \<and> ps_held 6 s' = -1"
proof -
  have none: "ps_received 6 proc_init = []" "ps_sent 6 proc_init = []" "ps_held 6 proc_init = 0"
    by (simp_all add: ps_received_def ps_sent_def ps_held_def proc_init_def)
  obtain s where run: "serveConn (mode3Dispatcher echo_disp) 6 4 proc_init = (Some PeerClosed, s)" "ps_received 6 s = [7, 8]"
    using echo_server_run by blast
  from echo_server_echoes [OF run(1)] obtain inp k where "ps_received 6 s = ps_received 6 proc_init @ inp"
    "ps_sent 6 s = ps_sent 6 proc_init @ take k inp" "length inp \<le> k"
    "\<forall>h \<ge> 0. ps_held h s = ps_held h proc_init - owns 6 h" by blast
  with none run show ?thesis by (intro exI [of _ s]) (simp add: owns_def)
qed

text \<open>C23. A message comes back: \<open>net\<close> is a network that delivers in order what was written to it, possibly not all
  of it yet. If the client of \<open>examples/echo_client\<close> ends with what it prints, on one VLS, and the server's
  goroutine for that connection has run on another, then the client prints the message it sent, it has
  sent it once, and both have closed their sessions.\<close>

theorem echo_round_trip:
  assumes client: "echo_exchange (mode3Dispatcher X) c fuel msg s = (Some (Returned printed), s')"
    and server: "serveConn (mode3Dispatcher Y) d fuel' t = (Some r, t')"
    and fresh: "ps_sent c s = []" "ps_received c s = []" "ps_sent d t = []" "ps_received d t = []"
    and net: "prefix (ps_received d t') (ps_sent c s')" "prefix (ps_received c s') (ps_sent d t')"
  shows "printed = msg \<and> ps_sent c s' = msg \<and> ps_sent d t' = msg
    \<and> (\<forall>h \<ge> 0. ps_held h s' = ps_held h s - owns c h \<and> ps_held h t' = ps_held h t - owns d h)"
proof -
  from mode3_owned.exchange_stores [OF client] fresh obtain inp where c: "ps_received c s' = inp" "ps_sent c s' = msg"
    "loses ps_held s c s'" "printed = take (length msg) inp" "length msg \<le> length inp" by auto
  from mode3_owned.serveConn_relays [OF server] fresh have d: "prefix (ps_sent d t') (ps_received d t')" "loses ps_held t d t'"
    using relayed_prefix by auto
  from net d(1) c(1,2) have chain: "prefix inp (ps_sent d t')" "prefix (ps_sent d t') msg" by (auto intro: prefix_order.trans)
  with c(5) have "inp = msg" by (auto simp: prefix_def)
  with chain have "ps_sent d t' = msg" by (simp add: prefix_order.antisym)
  with \<open>inp = msg\<close> c d(2) show ?thesis by (simp add: loses_def)
qed

lemma echo_round_trip_witness:
  "\<exists>s' t'. echo_exchange (mode3Dispatcher echo_disp) 5 3 [7, 8] proc_init = (Some (Returned [7, 8]), s')
     \<and> serveConn (mode3Dispatcher echo_disp) 6 4 proc_init = (Some PeerClosed, t') \<and> ps_sent 6 t' = [7, 8]"
proof -
  let ?D = "mode3Dispatcher echo_disp"
  have none: "ps_received h proc_init = []" "ps_sent h proc_init = []" for h
    by (simp_all add: ps_received_def ps_sent_def proc_init_def)
  from echo_server_run obtain t' where t': "serveConn ?D 6 4 proc_init = (Some PeerClosed, t')" "ps_received 6 t' = [7, 8]" by blast
  from echo_client_run obtain s' where s': "echo_exchange ?D 5 3 [7, 8] proc_init = (Some (Returned [7, 8]), s')"
    and got: "ps_received 5 s' = [7, 8]" by blast
  from mode3_owned.exchange_stores [OF s'] none have c: "ps_sent 5 s' = [7, 8]" by auto
  have "relayed ([], []) (ps_sent 6 t', [7, 8]) True"
    using mode3_owned.serveConn_relays [OF t'(1)] none t'(2) by simp
  then have "ps_sent 6 t' = [7, 8]" by (auto dest: relayed_prefix)
  with echo_round_trip [OF s' t'(1) none(2,1) none(2,1)] c got t' s' show ?thesis by auto
qed

end
