(* ===== verification/EchoNet.thy ===== *)
theory EchoNet
  imports Echo Dialing
begin

text \<open>
  The examples on the public interface: \<open>examples/echo_server_net\<close>, \<open>examples/echo_server_v6\<close> and
  \<open>examples/echo_client_net\<close>, over \<open>tcpConn\<close> and \<open>tcpListener\<close>. \<open>io.Copy\<close> of the standard library is modelled
  with them: \<open>tcpConn\<close> has neither \<open>WriteTo\<close> nor \<open>ReadFrom\<close>, so it copies through a buffer of 32 KB.
\<close>

section \<open>io.Copy\<close>

datatype copy_end = CopyDone | CopyFailed net_error | InvalidWrite | ShortWrite

fun io_Copy :: "'s dispatcher \<Rightarrow> (tcpConn \<times> 's net \<Rightarrow> tcpConn \<times> 's net) \<Rightarrow> nat \<Rightarrow> nat
    \<Rightarrow> tcpConn \<times> 's net \<Rightarrow> (nat \<times> copy_end) option \<times> tcpConn \<times> 's net" where
  "io_Copy D I 0 written x = (None, x)"
| "io_Copy D I (Suc fuel) written x =
     (case tcp_Read D I fuel 32768 x of
        (None, x) \<Rightarrow> (None, x)
      | (Some (Inl er), x) \<Rightarrow> (Some (written, if er = EOF then CopyDone else CopyFailed er), x)
      | (Some (Inr buf), x) \<Rightarrow>
          if length buf > 0 then
            (case tcp_Write D I fuel buf x of
               (None, x) \<Rightarrow> (None, x)
             | (Some (nw, ew), x) \<Rightarrow>
                 (let invalid = length buf < nw;
                      nw = (if invalid then 0 else nw);
                      written = written + nw
                  in case ew of
                       Some e \<Rightarrow> (Some (written, CopyFailed e), x)
                     | None \<Rightarrow>
                         if invalid then (Some (written, InvalidWrite), x)
                         else if length buf \<noteq> nw then (Some (written, ShortWrite), x)
                         else io_Copy D I fuel written x))
          else io_Copy D I fuel written x)"

section \<open>The servers\<close>

text \<open>\<open>handleEcho\<close> and the function literal of \<open>echo_server_v6\<close>: \<open>io.Copy(conn, conn)\<close>, then the deferred \<open>Close\<close>.\<close>

definition handleEcho :: "'s dispatcher \<Rightarrow> (tcpConn \<times> 's net \<Rightarrow> tcpConn \<times> 's net) \<Rightarrow> nat
    \<Rightarrow> tcpConn \<times> 's net \<Rightarrow> (nat \<times> copy_end) option \<times> tcpConn \<times> 's net" where
  "handleEcho D I fuel x =
     (case io_Copy D I fuel 0 x of
        (None, x) \<Rightarrow> (None, x)
      | (Some r, x) \<Rightarrow> (Some r, snd (tcp_Close D x)))"

text \<open>The loop of \<open>main\<close> and its deferred \<open>ln.Close()\<close>; \<open>ids\<close> are the addresses of the connections to come, \<open>J\<close> what
  the goroutines do from the start of the one for this connection on.\<close>

fun accept_conns :: "'s dispatcher \<Rightarrow> (tcpListener \<times> 's net \<Rightarrow> tcpListener \<times> 's net) \<Rightarrow> (tcpConn \<Rightarrow> tcpListener \<times> 's net \<Rightarrow> tcpListener \<times> 's net)
    \<Rightarrow> nat list \<Rightarrow> tcpConn list \<Rightarrow> tcpListener \<times> 's net \<Rightarrow> (tcpConn list \<times> net_error) option \<times> tcpListener \<times> 's net" where
  "accept_conns D I J [] spawned x = (None, x)"
| "accept_conns D I J (i # ids) spawned x =
     (case Accept D I i x of
        (None, x) \<Rightarrow> (None, x)
      | (Some (Inl err), x) \<Rightarrow> (Some (spawned, err), snd (listener_Close D x))
      | (Some (Inr conn), x) \<Rightarrow> accept_conns D I J ids (spawned @ [conn]) (J conn x))"

text \<open>\<open>main\<close> of both, for the network and address each listens on; \<open>i\<close> is the listener's address.\<close>

definition echo_net_main :: "disp_env \<Rightarrow> resolver \<Rightarrow> (string \<Rightarrow> int option) \<Rightarrow> (string \<Rightarrow> string option)
    \<Rightarrow> (tcpListener \<times> proc_state net \<Rightarrow> tcpListener \<times> proc_state net)
    \<Rightarrow> (tcpConn \<Rightarrow> tcpListener \<times> proc_state net \<Rightarrow> tcpListener \<times> proc_state net) \<Rightarrow> nat \<Rightarrow> nat list \<Rightarrow> bool
    \<Rightarrow> string \<Rightarrow> string \<Rightarrow> string \<Rightarrow> proc_state net \<Rightarrow> ((string \<times> net_error option) + tcpConn list \<times> net_error) option \<times> proc_state net" where
  "echo_net_main X R atoi env I J i ids vcl_config app network addr s =
     (if \<not> vcl_config then (Some (Inl (''VCL_CONFIG'', None)), s)
      else
        (case Init X atoi env app s of
           (Some err, s) \<Rightarrow> (Some (Inl (''vclnet.Init'', Some err)), s)
         | (None, s) \<Rightarrow>
             (case Listen (vclpoll X) R i network addr s of
                (Inl err, s) \<Rightarrow> (Some (Inl (''vclnet.Listen'', Some err)), s)
              | (Inr l, s) \<Rightarrow> map_prod (map_option Inr) snd (accept_conns (vclpoll X) I J ids [] (l, s)))))"

text \<open>\<open>:port\<close> on either family, and the IPv6 loopback; the rest of the two programs is the same.\<close>

definition echo_server_net_main :: "disp_env \<Rightarrow> resolver \<Rightarrow> (string \<Rightarrow> int option) \<Rightarrow> (string \<Rightarrow> string option)
    \<Rightarrow> (tcpListener \<times> proc_state net \<Rightarrow> tcpListener \<times> proc_state net)
    \<Rightarrow> (tcpConn \<Rightarrow> tcpListener \<times> proc_state net \<Rightarrow> tcpListener \<times> proc_state net) \<Rightarrow> nat \<Rightarrow> nat list \<Rightarrow> bool \<Rightarrow> int
    \<Rightarrow> proc_state net \<Rightarrow> ((string \<times> net_error option) + tcpConn list \<times> net_error) option \<times> proc_state net" where
  "echo_server_net_main X R atoi env I J i ids vcl_config port =
     echo_net_main X R atoi env I J i ids vcl_config ''echo-server-net'' ''tcp'' ('':'' @ decimal_int port)"

definition echo_server_v6_main :: "disp_env \<Rightarrow> resolver \<Rightarrow> (string \<Rightarrow> int option) \<Rightarrow> (string \<Rightarrow> string option)
    \<Rightarrow> (tcpListener \<times> proc_state net \<Rightarrow> tcpListener \<times> proc_state net)
    \<Rightarrow> (tcpConn \<Rightarrow> tcpListener \<times> proc_state net \<Rightarrow> tcpListener \<times> proc_state net) \<Rightarrow> nat \<Rightarrow> nat list \<Rightarrow> bool \<Rightarrow> int
    \<Rightarrow> proc_state net \<Rightarrow> ((string \<times> net_error option) + tcpConn list \<times> net_error) option \<times> proc_state net" where
  "echo_server_v6_main X R atoi env I J i ids vcl_config port =
     echo_net_main X R atoi env I J i ids vcl_config ''echo-server-v6'' ''tcp6'' (''[::1]:'' @ decimal_int port)"

section \<open>The client\<close>

text \<open>\<open>conn.Read(in[read:])\<close> until the buffer is full; any error, \<open>io.EOF\<close> too, is fatal.\<close>

fun net_readFull :: "'s dispatcher \<Rightarrow> (tcpConn \<times> 's net \<Rightarrow> tcpConn \<times> 's net) \<Rightarrow> nat \<Rightarrow> u8 list \<Rightarrow> nat
    \<Rightarrow> tcpConn \<times> 's net \<Rightarrow> (net_error + u8 list) option \<times> tcpConn \<times> 's net" where
  "net_readFull D I 0 buf k x = (None, x)"
| "net_readFull D I (Suc fuel) buf k x =
     (if k < length buf then
        (case tcp_Read D I fuel (length buf - k) x of
           (None, x) \<Rightarrow> (None, x)
         | (Some (Inl err), x) \<Rightarrow> (Some (Inl err), x)
         | (Some (Inr bs), x) \<Rightarrow> net_readFull D I fuel (store_at k bs buf) (k + length bs) x)
      else (Some (Inr buf), x))"

definition net_exchange :: "'s dispatcher \<Rightarrow> (tcpConn \<times> 's net \<Rightarrow> tcpConn \<times> 's net) \<Rightarrow> nat \<Rightarrow> u8 list
    \<Rightarrow> tcpConn \<times> 's net \<Rightarrow> (net_error + u8 list) option \<times> tcpConn \<times> 's net" where
  "net_exchange D I fuel out x =
     (case tcp_Write D I fuel out x of
        (None, x) \<Rightarrow> (None, x)
      | (Some (_, Some err), x) \<Rightarrow> (Some (Inl err), x)
      | (Some (_, None), x) \<Rightarrow>
          (case net_readFull D I fuel (replicate (length out) 0) 0 x of
             (Some (Inr buf), x) \<Rightarrow> (Some (Inr buf), snd (tcp_Close D x))
           | (r, x) \<Rightarrow> (r, x)))"

text \<open>\<open>main\<close>; \<open>HE\<close> is the race of several addresses, \<open>i\<close> the new connection's address.\<close>

definition echo_client_net_main :: "disp_env \<Rightarrow> resolver \<Rightarrow> (string \<Rightarrow> int option) \<Rightarrow> (string \<Rightarrow> string option)
    \<Rightarrow> (proc_state net \<Rightarrow> proc_state net)
    \<Rightarrow> (goContext \<Rightarrow> inetAddr list \<Rightarrow> proc_state net \<Rightarrow> (net_error + tcpConn) option \<times> proc_state net)
    \<Rightarrow> (tcpConn \<times> proc_state net \<Rightarrow> tcpConn \<times> proc_state net) \<Rightarrow> nat \<Rightarrow> nat \<Rightarrow> bool \<Rightarrow> string \<Rightarrow> u8 list
    \<Rightarrow> proc_state net \<Rightarrow> ((string \<times> net_error option) + u8 list) option \<times> proc_state net" where
  "echo_client_net_main X R atoi env I HE J i fuel vcl_config addr msg s =
     (if \<not> vcl_config then (Some (Inl (''VCL_CONFIG'', None)), s)
      else
        (case Init X atoi env ''echo-client-net'' s of
           (Some err, s) \<Rightarrow> (Some (Inl (''vclnet.Init'', Some err)), s)
         | (None, s) \<Rightarrow>
             (case Dial (vclpoll X) R I HE i ''tcp'' addr s of
                (None, s) \<Rightarrow> (None, s)
              | (Some (Inl err), s) \<Rightarrow> (Some (Inl (''vclnet.Dial'', Some err)), s)
              | (Some (Inr (UDPConn c)), s) \<Rightarrow> (None, s)
              | (Some (Inr (TCPConn c)), s) \<Rightarrow>
                  (case net_exchange (vclpoll X) J fuel msg (c, s) of
                     (None, x) \<Rightarrow> (None, snd x)
                   | (Some (Inl err), x) \<Rightarrow> (Some (Inl (''Write or Read'', Some err)), snd x)
                   | (Some (Inr bs), x) \<Rightarrow> (Some (Inr bs), snd x)))))"

section \<open>What they transfer\<close>

text \<open>\<open>Dial\<close> on \<open>tcp\<close> answers no UDP connection, so the branch for one above is never taken.\<close>

lemma dial_tcp_is_tcp: "fst (Dial D R I HE i ''tcp'' addr s) \<noteq> Some (Inr (UDPConn c))"
proof -
  have "map_option (map_sum id TCPConn) q \<noteq> Some (Inr (UDPConn c))" for q :: "(net_error + tcpConn) option"
    by (cases q; cases "the q") auto
  then show ?thesis
    by (simp add: Dial_def vclnet_DialContext_def DialContext_def isUDP_def Let_def case_prod_beta dial_opError_def
        split: sum.splits option.splits)
qed

lemma map_result_eq: "map_prod f id y = (a, b) \<longleftrightarrow> f (fst y) = a \<and> snd y = b"
  by (cases y) simp

context byte_stream begin

text \<open>The connection of session \<open>h\<close>, after \<open>out\<close> has been sent and \<open>inp\<close> received.\<close>

abbreviation stands :: "handle \<Rightarrow> u8 list \<Rightarrow> u8 list \<Rightarrow> tcpConn \<times> 's net \<Rightarrow> bool" where
  "stands h out inp x \<equiv> tc_vlsh (fst x) = h \<and> sent h (n_poll (snd x)) = out \<and> received h (n_poll (snd x)) = inp"

lemma stands_opError: "stands h out inp x \<Longrightarrow> stands h out inp (snd (tcp_opError D op e x))"
  using peer_quiet peer_receives_nothing
  by (auto simp: tcp_opError_def tcp_RemoteAddr_def on_poll_def case_prod_beta split: option.splits sum.splits)

lemma io_loop_receives:
  assumes I: "\<And>out inp x. stands h out inp x \<Longrightarrow> stands h out inp (I x)"
    and "io_loop check (\<lambda>c. d_readContext D (tc_vlsh c) len (ch c)) I fuel x = (Some r, x')" "stands h out inp x"
  shows "stands h out (inp @ (case r of Inl e \<Rightarrow> [] | Inr bs \<Rightarrow> bs)) x'"
  using assms(2,3)
proof (induction fuel arbitrary: x)
  case (Suc fuel)
  show ?case
  proof (cases "check x")
    case (Some e)
    with Suc.prems show ?thesis by auto
  next
    case None
    obtain q p where rd: "d_readContext D h len (ch (fst x)) (n_poll (snd x)) = (q, p)" by fastforce
    with Suc.prems None obtain q1 where q: "q = Some q1" by (cases q) (auto simp: on_poll_def)
    let ?y = "(fst x, (snd x)\<lparr>n_poll := p\<rparr>)"
    have "stands h out (inp @ (case q1 of Inl e \<Rightarrow> [] | Inr bs \<Rightarrow> bs)) ?y"
      using rd q Suc.prems(2) read_ok read_failed read_sends_nothing by (cases q1) fastforce+
    then have y: "stands h out (inp @ (case q1 of Inl e \<Rightarrow> [] | Inr bs \<Rightarrow> bs)) (I ?y)" by (rule I)
    show ?thesis
    proof (cases q1)
      case (Inr bs)
      with Suc.prems None rd q y show ?thesis by (auto simp: on_poll_def)
    next
      case (Inl pe)
      show ?thesis
      proof (cases "poll_err (Inl pe :: u8 list poll_result)" rule: mapIOError_cases)
        case ok
        then show ?thesis by (simp add: poll_err_def)
      next
        case retry
        with Suc.prems None rd q Inl
        have "io_loop check (\<lambda>c. d_readContext D (tc_vlsh c) len (ch c)) I fuel (I ?y) = (Some r, x')" by (simp add: on_poll_def)
        moreover from y Inl have "stands h out inp (I ?y)" by simp
        ultimately show ?thesis by (rule Suc.IH)
      next
        case (failed e)
        with Suc.prems None rd q Inl y show ?thesis by (auto simp: on_poll_def)
      qed
    qed
  qed
qed simp

lemma read_receives:
  assumes I: "\<And>out inp x. stands h out inp x \<Longrightarrow> stands h out inp (I x)"
    and "tcp_Read D I fuel len x = (Some r, x')" "stands h out inp x"
  shows "stands h out (inp @ (case r of Inl e \<Rightarrow> [] | Inr bs \<Rightarrow> bs)) x'"
proof -
  have err: "stands h out inp (snd (tcp_readError D e y))" if "stands h out inp y" for e y
    using that stands_opError [OF that] by (simp add: tcp_readError_def)
  show ?thesis
  proof (cases "read_check x = None \<and> len \<noteq> 0")
    case False
    with assms(2,3) err [OF assms(3)] show ?thesis by (auto simp: tcp_Read_def map_result_eq split: option.splits if_splits)
  next
    case True
    let ?loop = "io_loop read_check (\<lambda>c. d_readContext D (tc_vlsh c) len (Some (waitChannel (tc_readDeadline c)))) I fuel x"
    obtain q y where q: "?loop = (q, y)" by (rule prod.exhaust)
    with True assms(2) obtain q1 where q1: "q = Some q1" by (cases q) (auto simp: tcp_Read_def)
    have y: "stands h out (inp @ (case q1 of Inl e \<Rightarrow> [] | Inr bs \<Rightarrow> bs)) y"
      by (rule io_loop_receives [OF _ q [unfolded q1] assms(3)]) (rule I; assumption)
    show ?thesis
    proof (cases q1)
      case (Inl e)
      with y have "stands h out inp y" by simp
      with True assms(2) q q1 Inl err [of y e] show ?thesis by (auto simp: tcp_Read_def map_result_eq)
    next
      case (Inr bs)
      with True assms(2) q q1 y show ?thesis by (auto simp: tcp_Read_def split: if_splits)
    qed
  qed
qed

lemma opError_receives [simp]:
  "tc_vlsh (fst (snd (tcp_opError D op e y))) = tc_vlsh (fst y)"
  "received h (n_poll (snd (snd (tcp_opError D op e y)))) = received h (n_poll (snd y))"
  using peer_receives_nothing
  by (auto simp: tcp_opError_def tcp_RemoteAddr_def on_poll_def case_prod_beta split: option.splits sum.splits)

lemma write_loop_receives:
  assumes I: "\<And>x. received h (n_poll (snd (I x))) = received h (n_poll (snd x))" "\<And>x. tc_vlsh (fst (I x)) = tc_vlsh (fst x)"
    and "tcp_write_loop D I fuel b k x = (Some r, x')" "tc_vlsh (fst x) = h"
  shows "tc_vlsh (fst x') = h \<and> received h (n_poll (snd x')) = received h (n_poll (snd x))"
  using assms(3,4)
proof (induction fuel arbitrary: k x)
  case (Suc fuel)
  show ?case
  proof (cases "k < length b \<and> write_check x = None")
    case False
    with Suc.prems show ?thesis by (auto simp: map_result_eq split: if_splits option.splits)
  next
    case True
    obtain q p where w: "d_writeContext D h (drop k b) (Some (waitChannel (tc_writeDeadline (fst x)))) (n_poll (snd x)) = (q, p)"
      by fastforce
    with Suc.prems True obtain q1 where q: "q = Some q1" by (cases q) (auto simp: on_poll_def)
    let ?y = "I (fst x, (snd x)\<lparr>n_poll := p\<rparr>)"
    have y: "tc_vlsh (fst ?y) = h" "received h (n_poll (snd ?y)) = received h (n_poll (snd x))"
      using I Suc.prems(2) write_receives_nothing [OF w] by simp_all
    have "map_prod (\<lambda>e. Some (k, Some e)) id (tcp_opError D ''write'' e ?y) = (Some r, x') \<Longrightarrow> ?thesis" for e
      using y by (auto simp: map_result_eq)
    moreover have "tcp_write_loop D I fuel b j ?y = (Some r, x') \<Longrightarrow> ?thesis" for j
      using Suc.IH y by metis
    ultimately show ?thesis
      using Suc.prems True w q
      by (cases "poll_err q1" rule: mapIOError_cases) (auto simp: on_poll_def Let_def split: if_splits)
  qed
qed simp

lemma write_stands:
  assumes I: "\<And>x. sent h (n_poll (snd (I x))) = sent h (n_poll (snd x))" "\<And>x. received h (n_poll (snd (I x))) = received h (n_poll (snd x))"
      "\<And>x. tc_vlsh (fst (I x)) = tc_vlsh (fst x)"
    and run: "tcp_Write D I fuel b x = (Some (n, e), x')" and x: "stands h out inp x"
  shows "stands h (out @ take n b) inp x' \<and> (e = None \<longrightarrow> length b \<le> n)"
proof -
  have "tc_vlsh (fst x') = h \<and> received h (n_poll (snd x')) = inp"
    using run x write_loop_receives [OF I(2,3), of fuel b 0 x "(n, e)" x'] stands_opError [OF x]
    by (auto simp: tcp_Write_def map_result_eq split: option.splits if_splits)
  moreover obtain c s c' s' where xs: "x = (c, s)" "x' = (c', s')" by fastforce
  moreover have "sent (tc_vlsh c) (n_poll s') = sent (tc_vlsh c) (n_poll s) @ take n b \<and> (e = None \<longrightarrow> length b \<le> n)"
    by (rule write_sends) (use I run x xs in auto)
  ultimately show ?thesis using x by auto
qed

lemma close_keeps [simp]:
  "tc_vlsh (fst (snd (tcp_Close D x))) = tc_vlsh (fst x)"
  "sent h (n_poll (snd (snd (tcp_Close D x)))) = sent h (n_poll (snd x))"
  "received h (n_poll (snd (snd (tcp_Close D x)))) = received h (n_poll (snd x))"
proof -
  obtain c s where x: "x = (c, s)" by fastforce
  have "tc_vlsh (fst (snd (tcp_Close D x))) = tc_vlsh (fst x)
    \<and> sent h (n_poll (snd (snd (tcp_Close D x)))) = sent h (n_poll (snd x))
    \<and> received h (n_poll (snd (snd (tcp_Close D x)))) = received h (n_poll (snd x))"
    by (cases "tc_closeOnce c")
      (auto simp: x tcp_Close_def Let_def case_prod_beta closeResult_closed close_quiet)
  then show "tc_vlsh (fst (snd (tcp_Close D x))) = tc_vlsh (fst x)"
    "sent h (n_poll (snd (snd (tcp_Close D x)))) = sent h (n_poll (snd x))"
    "received h (n_poll (snd (snd (tcp_Close D x)))) = received h (n_poll (snd x))" by blast+
qed

text \<open>\<open>I\<close> leaves the session's two directions alone.\<close>

abbreviation undisturbed :: "handle \<Rightarrow> (tcpConn \<times> 's net \<Rightarrow> tcpConn \<times> 's net) \<Rightarrow> bool" where
  "undisturbed h I \<equiv> \<forall>x. sent h (n_poll (snd (I x))) = sent h (n_poll (snd x))
     \<and> received h (n_poll (snd (I x))) = received h (n_poll (snd x)) \<and> tc_vlsh (fst (I x)) = tc_vlsh (fst x)"

lemma copy_relays:
  assumes I: "undisturbed h I"
    and "io_Copy D I fuel n0 x = (Some (n, e), x')" "stands h out inp x"
  shows "\<exists>more k. stands h (out @ take k more) (inp @ more) x' \<and> (e = CopyDone \<longrightarrow> length more \<le> k \<and> n = n0 + length more)"
  using assms(2,3)
proof (induction fuel arbitrary: n0 x out inp)
  case (Suc fuel)
  from I have I': "stands h o1 i1 y \<Longrightarrow> stands h o1 i1 (I y)" for o1 i1 y by blast
  obtain q y where q: "tcp_Read D I fuel 32768 x = (q, y)" by (rule prod.exhaust)
  with Suc.prems obtain q1 where q1: "q = Some q1" by (cases q) auto
  have y: "stands h out (inp @ (case q1 of Inl e \<Rightarrow> [] | Inr bs \<Rightarrow> bs)) y"
    by (rule read_receives [OF _ q [unfolded q1] Suc.prems(2)]) (rule I'; assumption)
  show ?case
  proof (cases q1)
    case (Inl er)
    with Suc.prems q q1 y show ?thesis by (auto split: if_splits intro!: exI [of _ "[]"])
  next
    case (Inr bs)
    show ?thesis
    proof (cases "bs = []")
      case True
      with Suc.prems q q1 Inr have "io_Copy D I fuel n0 y = (Some (n, e), x')" by simp
      moreover from y True Inr have "stands h out inp y" by simp
      ultimately show ?thesis by (rule Suc.IH)
    next
      case False
      obtain w z where w: "tcp_Write D I fuel bs y = (w, z)" by (rule prod.exhaust)
      with Suc.prems q q1 Inr False obtain nw ew where w1: "w = Some (nw, ew)" by (cases w) auto
      have z: "stands h (out @ take nw bs) (inp @ bs) z \<and> (ew = None \<longrightarrow> length bs \<le> nw)"
        using I y Inr by (intro write_stands [OF _ _ _ w [unfolded w1]]) auto
      show ?thesis
      proof (cases "ew = None \<and> nw = length bs")
        case True
        with Suc.prems q q1 Inr False w w1 have "io_Copy D I fuel (n0 + length bs) z = (Some (n, e), x')" by (simp add: Let_def)
        moreover from z True have "stands h (out @ bs) (inp @ bs) z" by simp
        ultimately obtain more k where more: "stands h ((out @ bs) @ take k more) ((inp @ bs) @ more) x'"
          "e = CopyDone \<longrightarrow> length more \<le> k \<and> n = n0 + length bs + length more" using Suc.IH by blast
        from more(1) have "stands h (out @ take (length bs + k) (bs @ more)) (inp @ (bs @ more)) x'" by simp
        with more(2) show ?thesis by (intro exI [of _ "bs @ more"] exI [of _ "length bs + k"]) auto
      next
        case stop: False
        with Suc.prems q q1 Inr False w w1 z have "x' = z" "e \<noteq> CopyDone"
          by (auto simp: Let_def split: option.splits if_splits)
        with z show ?thesis by (intro exI [of _ bs] exI [of _ nw]) auto
      qed
    qed
  qed
qed simp

lemma handleEcho_relays:
  assumes I: "undisturbed h I" and run: "handleEcho D I fuel x = (Some (n, e), x')" and x: "stands h out inp x"
  shows "\<exists>more k. stands h (out @ take k more) (inp @ more) x' \<and> (e = CopyDone \<longrightarrow> length more \<le> k \<and> n = length more)"
proof -
  from run obtain y where y: "io_Copy D I fuel 0 x = (Some (n, e), y)" "x' = snd (tcp_Close D y)"
    by (auto simp: handleEcho_def split: prod.splits option.splits)
  from copy_relays [OF I y(1) x] show ?thesis by (simp add: y(2))
qed

lemma net_readFull_stores:
  assumes I: "undisturbed h I"
    and "net_readFull D I fuel buf k x = (Some (Inr b), x')" "stands h out inp x"
  shows "\<exists>more. stands h out (inp @ more) x' \<and> b = take (length buf) (take k buf @ more) \<and> length buf \<le> k + length more"
  using assms(2,3)
proof (induction fuel arbitrary: buf k x inp)
  case (Suc fuel)
  from I have I': "stands h o1 i1 y \<Longrightarrow> stands h o1 i1 (I y)" for o1 i1 y by blast
  show ?case
  proof (cases "k < length buf")
    case False
    with Suc.prems show ?thesis by (auto intro!: exI [of _ "[]"])
  next
    case True
    obtain q y where q: "tcp_Read D I fuel (length buf - k) x = (q, y)" by (rule prod.exhaust)
    with Suc.prems True obtain bs where q1: "q = Some (Inr bs)" by (cases q) (auto split: sum.splits)
    have y: "stands h out (inp @ (case Inr bs :: net_error + u8 list of Inl e \<Rightarrow> [] | Inr bs \<Rightarrow> bs)) y"
      by (rule read_receives [OF _ q [unfolded q1] Suc.prems(2)]) (rule I'; assumption)
    from Suc.prems True q q1 have "net_readFull D I fuel (store_at k bs buf) (k + length bs) y = (Some (Inr b), x')" by simp
    from Suc.IH [OF this] y obtain more where more: "stands h out ((inp @ bs) @ more) x'"
      "b = take (length buf) (take (k + length bs) (store_at k bs buf) @ more)" "length buf \<le> k + length bs + length more"
      by auto
    then show ?thesis using store_at_take [OF True, of bs more] by (intro exI [of _ "bs @ more"]) simp
  qed
qed simp

lemma net_exchange_stores:
  assumes I: "undisturbed h I" and run: "net_exchange D I fuel msg x = (Some (Inr b), x')" and x: "stands h out inp x"
  shows "\<exists>more k. stands h (out @ take k msg) (inp @ more) x' \<and> length msg \<le> k \<and> b = take (length msg) more \<and> length msg \<le> length more"
proof -
  from run obtain k y where w: "tcp_Write D I fuel msg x = (Some (k, None), y)"
    by (cases "tcp_Write D I fuel msg x") (auto simp: net_exchange_def split: option.splits)
  have y: "stands h (out @ take k msg) inp y \<and> (None = (None :: net_error option) \<longrightarrow> length msg \<le> k)"
    using I x by (intro write_stands [OF _ _ _ w]) auto
  from run w obtain z where z: "net_readFull D I fuel (replicate (length msg) 0) 0 y = (Some (Inr b), z)" "x' = snd (tcp_Close D z)"
    by (auto simp: net_exchange_def split: prod.splits option.splits sum.splits)
  from net_readFull_stores [OF I z(1)] y obtain more where "stands h (out @ take k msg) (inp @ more) z"
    "b = take (length msg) more" "length msg \<le> length more" by fastforce
  with y z(2) show ?thesis by (intro exI [of _ more] exI [of _ k]) auto
qed

end

section \<open>The servers on Mode 3\<close>

lemma close_called: "tc_closeOnce (fst (snd (tcp_Close D x)))"
proof -
  obtain c s where x: "x = (c, s)" by fastforce
  show ?thesis
    by (cases "tc_closeOnce c") (auto simp: x tcp_Close_def Let_def case_prod_beta closeResult_closed)
qed

text \<open>C24. On Mode 3 the echo servers on the public interface echo, through \<open>tcpConn\<close>, its deadlines and \<open>io.Copy\<close>, as long as
  the session of a connection is used by the goroutine that serves it alone. When that goroutine has returned, what it sent on the session is a prefix of what it received, in order,
  and all of it, the number \<open>io.Copy\<close> reports, if it ended without an error; \<open>Close\<close> has been called. The other
  goroutines \<open>I\<close> may move deadlines or close, but neither send nor receive on the session. Mode 3 is what these servers run
  on unless \<open>VCLNET_VLS_MODE\<close> or \<open>VCLNET_WORKERS\<close> select Mode 2, about which the theorem says nothing.\<close>

theorem echo_net_echoes:
  assumes "\<And>x. ps_sent (tc_vlsh c) (n_poll (snd (I x))) = ps_sent (tc_vlsh c) (n_poll (snd x))"
    and "\<And>x. ps_received (tc_vlsh c) (n_poll (snd (I x))) = ps_received (tc_vlsh c) (n_poll (snd x))"
    and "\<And>x. tc_vlsh (fst (I x)) = tc_vlsh (fst x)"
    and run: "handleEcho (mode3Dispatcher X) I fuel (c, s) = (Some (n, e), c', s')"
  shows "\<exists>inp k. ps_received (tc_vlsh c) (n_poll s') = ps_received (tc_vlsh c) (n_poll s) @ inp
    \<and> ps_sent (tc_vlsh c) (n_poll s') = ps_sent (tc_vlsh c) (n_poll s) @ take k inp
    \<and> (e = CopyDone \<longrightarrow> length inp \<le> k \<and> n = length inp) \<and> tc_closeOnce c'"
proof -
  have "tc_closeOnce c'"
    using run close_called [of "mode3Dispatcher X"] by (auto simp: handleEcho_def split: prod.splits option.splits) (metis fst_conv snd_conv)
  with mode3_stream.handleEcho_relays [OF _ run, of "tc_vlsh c"] assms(1-3) show ?thesis by fastforce
qed

lemma echo_net_read:
  assumes "n_now s = 5" "\<not> n_shutdown s"
  shows "\<exists>p. tcp_Read (mode3Dispatcher echo_disp) id (Suc fuel) 32768 (demo_tcp, s)
    = (Some (if ps_received 6 (n_poll s) = [] then Inr [7, 8] else Inl EOF), demo_tcp, s\<lparr>n_poll := p\<rparr>)"
proof -
  obtain p where p: "d_readContext (mode3Dispatcher echo_disp) 6 32768 (Some 3) (n_poll s)
      = (Some (Inr (if ps_received 6 (n_poll s) = [] then [7, 8] else [])), p)"
    using echo_read [of 32768 6 "Some 3" "n_poll s"]
    by (cases "d_readContext (mode3Dispatcher echo_disp) 6 32768 (Some 3) (n_poll s)") auto
  with assms show ?thesis
    by (intro exI [of _ p]) (simp add: tcp_Read_def tcp_readError_def read_check_def readStateError_def ioStateError_def
        expired_def on_poll_def waitChannel_def Let_def)
qed

lemma echo_net_write:
  assumes "n_now s = 5" "\<not> n_shutdown s"
  shows "\<exists>p. tcp_Write (mode3Dispatcher echo_disp) id (fuel + 3) [7, 8] (demo_tcp, s) = (Some (2, None), demo_tcp, s\<lparr>n_poll := p\<rparr>)"
proof -
  obtain p where p: "d_writeContext (mode3Dispatcher echo_disp) 6 [7, 8] (Some 4) (n_poll s) = (Some (Inr 1), p)"
    using echo_write [of "[7, 8]" 6 "Some 4" "n_poll s"]
    by (cases "d_writeContext (mode3Dispatcher echo_disp) 6 [7, 8] (Some 4) (n_poll s)") auto
  obtain p1 where "d_writeContext (mode3Dispatcher echo_disp) 6 [8] (Some 4) p = (Some (Inr 1), p1)"
    using echo_write [of "[8]" 6 "Some 4" p]
    by (cases "d_writeContext (mode3Dispatcher echo_disp) 6 [8] (Some 4) p") auto
  with p assms show ?thesis
    by (intro exI [of _ p1]) (simp add: tcp_Write_def write_check_def writeStateError_def ioStateError_def
        expired_def on_poll_def waitChannel_def Let_def eval_nat_numeral)
qed

lemma echo_net_run:
  "\<exists>c s. handleEcho (mode3Dispatcher echo_disp) id 5 (demo_tcp, demo_net) = (Some (2, CopyDone), c, s)"
proof -
  let ?D = "mode3Dispatcher echo_disp"
  have none: "ps_received 6 (n_poll demo_net) = []" by (simp add: ps_received_def proc_init_def)
  obtain p where p: "tcp_Read ?D id 4 32768 (demo_tcp, demo_net) = (Some (Inr [7, 8]), demo_tcp, demo_net\<lparr>n_poll := p\<rparr>)"
    using echo_net_read [of demo_net 3] none by auto
  have got: "ps_received 6 p = [7, 8]"
    using mode3_stream.read_receives [OF _ p, of 6 "[]" "[]"] none by (simp add: ps_sent_def proc_init_def)
  obtain p1 where p1: "tcp_Write ?D id 4 [7, 8] (demo_tcp, demo_net\<lparr>n_poll := p\<rparr>) = (Some (2, None), demo_tcp, demo_net\<lparr>n_poll := p1\<rparr>)"
    using echo_net_write [of "demo_net\<lparr>n_poll := p\<rparr>" 1] by auto
  have got1: "ps_received 6 p1 = [7, 8]"
    using mode3_stream.write_stands [OF _ _ _ p1, of 6 "ps_sent 6 p" "[7, 8]"] got by simp
  obtain p2 where p2: "tcp_Read ?D id 3 32768 (demo_tcp, demo_net\<lparr>n_poll := p1\<rparr>) = (Some (Inl EOF), demo_tcp, demo_net\<lparr>n_poll := p2\<rparr>)"
    using echo_net_read [of "demo_net\<lparr>n_poll := p1\<rparr>" 2] got1 by auto
  have "io_Copy ?D id (Suc 3) 2 (demo_tcp, demo_net\<lparr>n_poll := p1\<rparr>) = (Some (2, CopyDone), demo_tcp, demo_net\<lparr>n_poll := p2\<rparr>)"
    by (subst io_Copy.simps(2)) (simp add: p2)
  then have "io_Copy ?D id (Suc 4) 0 (demo_tcp, demo_net) = (Some (2, CopyDone), demo_tcp, demo_net\<lparr>n_poll := p2\<rparr>)"
    by (subst io_Copy.simps(2)) (simp add: p p1 Let_def)
  then show ?thesis by (simp add: handleEcho_def)
qed

lemma echo_net_echoes_witness:
  "\<exists>c s. handleEcho (mode3Dispatcher echo_disp) id 5 (demo_tcp, demo_net) = (Some (2, CopyDone), c, s)
     \<and> length (ps_sent 6 (n_poll s)) = 2 \<and> ps_sent 6 (n_poll s) = ps_received 6 (n_poll s)"
proof -
  obtain c s where run: "handleEcho (mode3Dispatcher echo_disp) id 5 (demo_tcp, demo_net) = (Some (2, CopyDone), c, s)"
    using echo_net_run by blast
  from echo_net_echoes [OF _ _ _ run] obtain inp k where "ps_received 6 (n_poll s) = ps_received 6 proc_init @ inp"
    "ps_sent 6 (n_poll s) = ps_sent 6 proc_init @ take k inp" "length inp \<le> k" "2 = length inp" by auto
  with run show ?thesis by (simp add: ps_received_def ps_sent_def proc_init_def)
qed

end
