(* ===== verification/ShardLoops.thy ===== *)
theory ShardLoops
  imports ShardListener "HOL-Library.Multiset"
begin

text \<open>
  The accept loops of a Mode 2 sharded listener (\<open>acceptLoop\<close> in \<open>internal/vclpoll/shard_listener.go\<close>) and the
  channel they fan into. The loops, the consumers and a closer run concurrently; their steps
  interleave as an inductive relation, and a submitted operation is one step. Lists of handles
  record what became of each connection; which connections a step has registered is read off the
  dispatcher's table, not off what the loop does next.
\<close>

section \<open>Accept loops\<close>

text \<open>Where a shard's accept goroutine is: at the top of its loop, sending a result (and whether it
  ends after that), about to submit a new waiter, parked with it, or gone.\<close>

datatype loop_pc =
    LTop
  | LSend shardAcceptResult bool
  | LJoin waiter
  | LParked waiter
  | LExited

text \<open>The submitted accept: like \<open>accept_attempt\<close>, on the raw listener.\<close>

definition shard_accept :: "(nat \<Rightarrow> cgo) \<Rightarrow> nat \<Rightarrow> handle \<Rightarrow> mode2 \<Rightarrow> (handle \<times> AddrInfo) poll_result \<times> mode2" where
  "shard_accept V i raw s =
     (case at_worker i (on_worker (rawAcceptFull (V i) raw)) s of
        (Inl e, s) \<Rightarrow> (Inl e, s)
      | (Inr (conn, addr), s) \<Rightarrow>
          (case registerSession V i conn s of
             (Inl e, s) \<Rightarrow> (Inl e, s)
           | (Inr public, s) \<Rightarrow> (Inr (public, addr), s)))"

definition acceptC_cap :: "shardedListener \<Rightarrow> nat" where
  "acceptC_cap sl = length (sl_shards sl) * 4"

text \<open>The accept, and where the loop is after it. \<open>ch\<close> is the channel made for a waiter.\<close>

definition loop_accept :: "(nat \<Rightarrow> cgo) \<Rightarrow> (mode2 \<Rightarrow> submit_fate) \<Rightarrow> nat \<Rightarrow> handle \<Rightarrow> nat \<Rightarrow> mode2 \<Rightarrow> loop_pc \<times> mode2" where
  "loop_accept V F i raw ch s =
     (case submit F (shard_accept V i raw) s of
        (Inr (public, addr), s) \<Rightarrow> (LSend \<lparr>sa_handle = public, sa_addr = addr, sa_err = None\<rparr> False, s)
      | (Inl e, s) \<Rightarrow>
          if \<not> isAgainError e then (LSend \<lparr>sa_handle = 0, sa_addr = AddrInfo_zero, sa_err = Some e\<rparr> True, s)
          else (LJoin \<lparr>wt_vlsh = raw, wt_events = epollIn, wt_ready = ch\<rparr>, s))"

text \<open>The waiter is added to the worker's epoll set; if that fails the loop ends or goes back to its top.\<close>

definition loop_join :: "(nat \<Rightarrow> cgo) \<Rightarrow> (mode2 \<Rightarrow> submit_fate) \<Rightarrow> nat \<Rightarrow> nat \<Rightarrow> handle \<Rightarrow> waiter \<Rightarrow> mode2 \<Rightarrow> loop_pc \<times> mode2" where
  "loop_join V F n i raw x s =
     (case submit F (at_worker i (addWaiterRaw (V i) raw x)) s of
        (Inl e, s) \<Rightarrow> (if sl_stopped (listeners s ! n) \<or> quiesced_closed (workers s ! i) then LExited else LTop, s)
      | (Inr _, s) \<Rightarrow> (LParked x, s))"

section \<open>The system around one sharded listener\<close>

text \<open>
  \<open>ls_accepted\<close>: the connections the loops have registered; \<open>ls_lost\<close>: those whose worker quiesced
  before it could answer; \<open>ls_taken\<close>: delivered to a consumer; \<open>ls_dropped\<close>: dropped by a loop that
  took the \<open>stopCh\<close> case; \<open>ls_drained\<close> and \<open>ls_kept\<close>: found queued by the close, and gone from the
  dispatcher's table after it or still there; \<open>ls_refused\<close>: those whose \<open>closeVLSH\<close> answered an error.
\<close>

record lsys =
  ls_d :: mode2
  ls_pcs :: "loop_pc list"
  ls_accepted :: "handle list"
  ls_lost :: "handle list"
  ls_taken :: "handle list"
  ls_dropped :: "handle list"
  ls_drained :: "handle list"
  ls_kept :: "handle list"
  ls_refused :: "handle list"
  ls_closed :: bool

definition sl_of :: "nat \<Rightarrow> lsys \<Rightarrow> shardedListener" where
  "sl_of n L = listeners (ls_d L) ! n"

text \<open>The session a step has registered, by the dispatcher before and after: the counter has moved to a valid
  handle, and that handle has an owner.\<close>

definition registered :: "mode2 \<Rightarrow> mode2 \<Rightarrow> handle list" where
  "registered s s' = (let h = sint (nextHandle s')
     in if nextHandle s' \<noteq> nextHandle s \<and> 0 < h \<and> map_of (owners s') h \<noteq> None then [h] else [])"

fun pc_results :: "loop_pc \<Rightarrow> shardAcceptResult list" where
  "pc_results (LSend r fin) = [r]"
| "pc_results _ = []"

text \<open>The queued connections whose close, one after the other, answers an error.\<close>

fun close_errors :: "(nat \<Rightarrow> cgo) \<Rightarrow> (mode2 \<Rightarrow> submit_fate) \<Rightarrow> handle list \<Rightarrow> mode2 \<Rightarrow> handle list" where
  "close_errors V F [] s = []"
| "close_errors V F (h # hs) s =
     (let (r, s) = closeSessionHandle V F h s in (if isl r then [h] else []) @ close_errors V F hs s)"

text \<open>
  One step of the system around listener \<open>n\<close>: a loop (\<open>Top_...\<close>, \<open>Send_...\<close>, \<open>Join\<close>, \<open>Parked_...\<close>), a
  consumer, the closer, or something else that goes on in the dispatcher and leaves this
  listener's record alone (\<open>Other\<close>). A \<open>select\<close> with several ready cases may take any of them.
\<close>

inductive ls_step :: "(nat \<Rightarrow> cgo) \<Rightarrow> (mode2 \<Rightarrow> submit_fate) \<Rightarrow> nat \<Rightarrow> lsys \<Rightarrow> lsys \<Rightarrow> bool" for V F n where
  Top_exit: "\<lbrakk>k < length (ls_pcs L); ls_pcs L ! k = LTop; sl_shards (sl_of n L) ! k = (i, raw);
      sl_stopped (sl_of n L) \<or> quiesced_closed (workers (ls_d L) ! i)\<rbrakk>
    \<Longrightarrow> ls_step V F n L (L\<lparr>ls_pcs := (ls_pcs L)[k := LExited]\<rparr>)"
| Top_accept: "\<lbrakk>k < length (ls_pcs L); ls_pcs L ! k = LTop; sl_shards (sl_of n L) ! k = (i, raw);
      \<not> sl_stopped (sl_of n L); \<not> quiesced_closed (workers (ls_d L) ! i);
      loop_accept V F i raw ch (ls_d L) = (pc, s)\<rbrakk>
    \<Longrightarrow> ls_step V F n L (L\<lparr>ls_d := s, ls_pcs := (ls_pcs L)[k := pc],
          ls_accepted := registered (ls_d L) s @ ls_accepted L,
          ls_lost := (if F (ls_d L) = AnswerLost then registered (ls_d L) s else []) @ ls_lost L\<rparr>)"
| Send_ok: "\<lbrakk>k < length (ls_pcs L); ls_pcs L ! k = LSend r fin;
      length (sl_acceptC (sl_of n L)) < acceptC_cap (sl_of n L)\<rbrakk>
    \<Longrightarrow> ls_step V F n L (L\<lparr>ls_d := set_sl n (\<lambda>sl. sl\<lparr>sl_acceptC := sl_acceptC sl @ [r]\<rparr>) (ls_d L),
          ls_pcs := (ls_pcs L)[k := if fin then LExited else LTop]\<rparr>)"
| Send_stop: "\<lbrakk>k < length (ls_pcs L); ls_pcs L ! k = LSend r fin; sl_stopped (sl_of n L)\<rbrakk>
    \<Longrightarrow> ls_step V F n L (L\<lparr>ls_pcs := (ls_pcs L)[k := LExited], ls_dropped := conns [r] @ ls_dropped L\<rparr>)"
| Join: "\<lbrakk>k < length (ls_pcs L); ls_pcs L ! k = LJoin x; sl_shards (sl_of n L) ! k = (i, raw);
      fresh_waiter x (workers (ls_d L) ! i); loop_join V F n i raw x (ls_d L) = (pc, s)\<rbrakk>
    \<Longrightarrow> ls_step V F n L (L\<lparr>ls_d := s, ls_pcs := (ls_pcs L)[k := pc]\<rparr>)"
| Parked_ready: "\<lbrakk>k < length (ls_pcs L); ls_pcs L ! k = LParked x; sl_shards (sl_of n L) ! k = (i, raw);
      waiterIsReady x (workers (ls_d L) ! i)\<rbrakk>
    \<Longrightarrow> ls_step V F n L (L\<lparr>ls_pcs := (ls_pcs L)[k := LTop]\<rparr>)"
| Parked_stop: "\<lbrakk>k < length (ls_pcs L); ls_pcs L ! k = LParked x; sl_shards (sl_of n L) ! k = (i, raw);
      sl_stopped (sl_of n L);
      submit F (at_worker i (\<lambda>w. (Inr (), cancelWaiterRaw (V i) raw x w))) (ls_d L) = (r, s)\<rbrakk>
    \<Longrightarrow> ls_step V F n L (L\<lparr>ls_d := s, ls_pcs := (ls_pcs L)[k := LExited]\<rparr>)"
| Parked_quiesced: "\<lbrakk>k < length (ls_pcs L); ls_pcs L ! k = LParked x; sl_shards (sl_of n L) ! k = (i, raw);
      quiesced_closed (workers (ls_d L) ! i)\<rbrakk>
    \<Longrightarrow> ls_step V F n L (L\<lparr>ls_pcs := (ls_pcs L)[k := LExited]\<rparr>)"
| Consume: "\<lbrakk>sl_acceptC (sl_of n L) = r # rs\<rbrakk>
    \<Longrightarrow> ls_step V F n L (L\<lparr>ls_d := set_sl n (\<lambda>sl. sl\<lparr>sl_acceptC := rs\<rparr>) (ls_d L),
          ls_taken := conns [r] @ ls_taken L\<rparr>)"
| Close_begin: "\<lbrakk>\<not> sl_stopped (sl_of n L)\<rbrakk>
    \<Longrightarrow> ls_step V F n L (L\<lparr>ls_d := set_sl n (\<lambda>sl. sl\<lparr>sl_stopped := True\<rparr>) (ls_d L)\<rparr>)"
| Close_finish: "\<lbrakk>sl_stopped (sl_of n L); \<not> ls_closed L; set (ls_pcs L) \<subseteq> {LExited};
      q = conns (sl_acceptC (sl_of n L)); closeShardedListener_finish V F n (ls_d L) = (e, s)\<rbrakk>
    \<Longrightarrow> ls_step V F n L (L\<lparr>ls_d := s,
          ls_drained := filter (\<lambda>h. map_of (owners s) h = None) q @ ls_drained L,
          ls_kept := filter (\<lambda>h. map_of (owners s) h \<noteq> None) q @ ls_kept L,
          ls_refused := close_errors V F q (set_sl n (\<lambda>sl. sl\<lparr>sl_acceptC := []\<rparr>) (ls_d L)) @ ls_refused L,
          ls_closed := True\<rparr>)"
| Other: "\<lbrakk>length (listeners s) = length (listeners (ls_d L)); listeners s ! n = listeners (ls_d L) ! n\<rbrakk>
    \<Longrightarrow> ls_step V F n L (L\<lparr>ls_d := s\<rparr>)"

inductive ls_reach :: "(nat \<Rightarrow> cgo) \<Rightarrow> (mode2 \<Rightarrow> submit_fate) \<Rightarrow> nat \<Rightarrow> lsys \<Rightarrow> lsys \<Rightarrow> bool" for V F n L0 where
  ls_refl: "ls_reach V F n L0 L0"
| ls_next: "ls_reach V F n L0 L \<Longrightarrow> ls_step V F n L L' \<Longrightarrow> ls_reach V F n L0 L'"

text \<open>\<open>startAcceptLoops\<close>.\<close>

definition ls_start :: "nat \<Rightarrow> mode2 \<Rightarrow> lsys" where
  "ls_start n s = \<lparr>ls_d = s, ls_pcs = replicate (length (sl_shards (listeners s ! n))) LTop, ls_accepted = [], ls_lost = [],
     ls_taken = [], ls_dropped = [], ls_drained = [], ls_kept = [], ls_refused = [], ls_closed = False\<rparr>"

section \<open>Registering and closing\<close>

lemma shard_accept_listeners [simp]: "listeners (snd (shard_accept V i raw s)) = listeners s"
  by (simp add: shard_accept_def case_prod_beta split: sum.split)

lemma loop_listeners:
  "loop_accept V F i raw ch s = (pc, s') \<Longrightarrow> listeners s' = listeners s"
  "loop_join V F n i raw x s = (pc, s') \<Longrightarrow> listeners s' = listeners s"
  using submit_listeners [of "shard_accept V i raw" s F] submit_listeners [of "at_worker i (addWaiterRaw (V i) raw x)" s F]
  by (auto simp: loop_accept_def loop_join_def split: prod.splits sum.splits if_splits)

text \<open>A registration shows in the table exactly if it succeeds.\<close>

lemma valid_id: "0 < sint (n :: u32) \<longleftrightarrow> n \<noteq> 0 \<and> \<not> n > maxVirtualHandle"
proof
  assume n: "0 < sint n"
  have "uint n = take_bit 32 (sint n)" by (simp add: uint_sint)
  also have "\<dots> = sint n" using n sint_lt [of n] by (simp add: take_bit_int_eq_self)
  finally show "n \<noteq> 0 \<and> \<not> n > maxVirtualHandle"
    using n sint_lt [of n] by (auto simp: word_less_def maxVirtualHandle_def push_bit_eq_mult)
next
  assume "n \<noteq> 0 \<and> \<not> n > maxVirtualHandle"
  with id_bounds(2) [of "n - 1"] show "0 < sint n" by simp
qed

lemma registered_registerSession:
  "nextHandle s0 = nextHandle s \<Longrightarrow> registered s0 (snd (registerSession V i raw s)) = (case fst (registerSession V i raw s) of Inl e \<Rightarrow> [] | Inr p \<Rightarrow> [p])"
  by (auto simp: registered_def registerSession_def case_prod_beta Let_def update_conv' valid_id split: sum.split)

lemma registered_shard_accept:
  "registered s (snd (shard_accept V i raw s)) = (case fst (shard_accept V i raw s) of Inl e \<Rightarrow> [] | Inr x \<Rightarrow> [fst x])"
proof (cases "fst (at_worker i (on_worker (rawAcceptFull (V i) raw)) s)")
  case (Inl e)
  then show ?thesis by (simp add: shard_accept_def case_prod_beta registered_def)
next
  case (Inr x)
  let ?s1 = "snd (at_worker i (on_worker (rawAcceptFull (V i) raw)) s)"
  have "registered s (snd (registerSession V i (fst x) ?s1)) = (case fst (registerSession V i (fst x) ?s1) of Inl e \<Rightarrow> [] | Inr p \<Rightarrow> [p])"
    by (rule registered_registerSession) simp
  with Inr show ?thesis by (simp add: shard_accept_def case_prod_beta split: sum.split)
qed

text \<open>What a loop has registered it is about to send, unless the answer was lost.\<close>

lemma loop_accept_registers:
  assumes "loop_accept V F i raw ch s = (pc, s')"
  shows "registered s s' = conns (pc_results pc) @ (if F s = AnswerLost then registered s s' else [])"
proof (cases rule: submit_cases [of F "shard_accept V i raw" s])
  case 1
  with assms show ?thesis
    by (auto simp: loop_accept_def case_prod_beta registered_def isAgainError_def conns_def split: sum.splits)
next
  case 2
  with assms show ?thesis
    by (auto simp: loop_accept_def case_prod_beta isAgainError_def conns_def split: sum.splits)
next
  case 3
  with assms registered_shard_accept [of s V i raw] show ?thesis
    by (auto simp: loop_accept_def case_prod_beta conns_def split: sum.splits if_splits)
qed

text \<open>A close that answers without error has removed the session, and no close adds one.\<close>

lemma closeSessionHandle_owners:
  "owners (snd (closeSessionHandle V F h s)) = owners s \<and> isl (fst (closeSessionHandle V F h s))
   \<or> owners (snd (closeSessionHandle V F h s)) = AList.delete h (owners s)"
proof (cases "map_of (owners s) h")
  case None
  then show ?thesis by (simp add: closeSessionHandle_def with_lookup_def lookup_def)
next
  case (Some x)
  show ?thesis
  proof (cases x)
    case (SessionRef i raw)
    let ?f = "\<lambda>s. case at_worker i (ownedRaw (V i) h raw) s of
         (Inl e, s) \<Rightarrow> (Inl e, s)
       | (Inr raw, s) \<Rightarrow>
           (let (_, s) = at_worker i (\<lambda>w. ((), removeWaiters (V i) h raw w)) s;
                (closeErr, s) = close_raw V i raw s
            in (closeErr, unregisterSession i h s))"
    have eq: "closeSessionHandle V F h s = submit F ?f s"
      using Some SessionRef by (simp add: closeSessionHandle_def with_lookup_def lookup_def)
    have "owners (snd (?f s)) = owners s \<and> isl (fst (?f s)) \<or> owners (snd (?f s)) = AList.delete h (owners s)"
      by (cases "fst (at_worker i (ownedRaw (V i) h raw) s)") (simp_all add: case_prod_beta Let_def unregisterSession_def)
    then show ?thesis unfolding eq by (cases rule: submit_cases [of F ?f s]) auto
  qed (use Some in \<open>simp add: closeSessionHandle_def with_lookup_def lookup_def\<close>)
qed

lemma close_dom: "map_of (owners (snd (closeSessionHandle V F h s))) k \<noteq> None \<Longrightarrow> map_of (owners s) k \<noteq> None"
  "map_of (owners (snd (closeSessionHandle V F h s))) h \<noteq> None \<Longrightarrow> isl (fst (closeSessionHandle V F h s))"
  using closeSessionHandle_owners [of V F h s] by (auto simp: AList.delete_conv' split: if_splits)

lemma closes_dom:
  "map_of (owners (fold (\<lambda>h s. snd (closeSessionHandle V F h s)) hs s)) k \<noteq> None
   \<Longrightarrow> map_of (owners s) k \<noteq> None \<and> (k \<in> set hs \<longrightarrow> k \<in> set (close_errors V F hs s))"
proof (induction hs arbitrary: s)
  case (Cons h hs)
  let ?c = "closeSessionHandle V F h s"
  from Cons.prems have "map_of (owners (fold (\<lambda>h s. snd (closeSessionHandle V F h s)) hs (snd ?c))) k \<noteq> None" by simp
  from Cons.IH [OF this] close_dom [where V = V and F = F and h = h and s = s] show ?case
    by (auto simp: case_prod_beta)
qed simp

text \<open>What the end of the close leaves in the table was refused.\<close>

lemma closeRawShards_owners [simp]: "owners (snd (closeRawShards V F shards s)) = owners s"
proof (induction shards arbitrary: s)
  case (Cons x shards)
  obtain i raw where x: "x = (i, raw)" by fastforce
  have "owners (snd (submit F (\<lambda>s. close_raw V i raw
            (snd (at_worker i (\<lambda>w. ((), removeWaitersRaw (V i) raw w)) s))) s)) = owners s"
    by (rule submit_inv [where P = "\<lambda>t. owners t = owners s"]) simp_all
  with Cons show ?case by (simp add: x case_prod_beta Let_def)
qed simp

lemma finish_kept:
  assumes "closeShardedListener_finish V F n s = (e, s')" "map_of (owners s') h \<noteq> None"
    "h \<in> set (conns (sl_acceptC (listeners s ! n)))"
  shows "h \<in> set (close_errors V F (conns (sl_acceptC (listeners s ! n))) (set_sl n (\<lambda>sl. sl\<lparr>sl_acceptC := []\<rparr>) s))"
proof -
  let ?t = "closeDrained V F (sl_acceptC (listeners s ! n)) (set_sl n (\<lambda>sl. sl\<lparr>sl_acceptC := []\<rparr>) s)"
  from assms(1) have "owners s' = AList.delete (sl_public (listeners ?t ! n)) (owners ?t)"
    by (auto simp: closeShardedListener_finish_def case_prod_beta Let_def)
  with assms(2) have "map_of (owners ?t) h \<noteq> None" by (auto simp: AList.delete_conv' split: if_splits)
  with assms(3) closes_dom show ?thesis unfolding closeDrained_def by blast
qed

section \<open>Where the accepted connections are\<close>

text \<open>The connections a loop is about to send.\<close>

definition in_flight :: "lsys \<Rightarrow> handle list" where
  "in_flight L = concat (map (\<lambda>pc. conns (pc_results pc)) (ls_pcs L))"

text \<open>What has become of the connections registered.\<close>

definition ls_placed :: "nat \<Rightarrow> lsys \<Rightarrow> handle multiset" where
  "ls_placed n L = mset (in_flight L) + mset (conns (sl_acceptC (sl_of n L))) + mset (ls_taken L) + mset (ls_dropped L)
     + mset (ls_drained L) + mset (ls_kept L) + mset (ls_lost L)"

definition ls_inv :: "(mode2 \<Rightarrow> submit_fate) \<Rightarrow> nat \<Rightarrow> lsys \<Rightarrow> bool" where
  "ls_inv F n L \<longleftrightarrow> n < length (listeners (ls_d L))
     \<and> mset (ls_accepted L) = ls_placed n L
     \<and> (\<not> sl_stopped (sl_of n L) \<longrightarrow> ls_dropped L = [] \<and> ls_drained L = [] \<and> ls_kept L = [] \<and> \<not> ls_closed L)
     \<and> set (ls_kept L) \<subseteq> set (ls_refused L) \<and> (ls_lost L \<noteq> [] \<longrightarrow> (\<exists>t. F t = AnswerLost))
     \<and> length (sl_acceptC (sl_of n L)) \<le> acceptC_cap (sl_of n L)
     \<and> (ls_closed L \<longrightarrow> sl_stopped (sl_of n L) \<and> sl_acceptC (sl_of n L) = [] \<and> set (ls_pcs L) \<subseteq> {LExited})"

text \<open>A step of loop \<open>k\<close> that leaves the listener's record alone.\<close>

lemma mset_concat_update:
  assumes "k < length xs" "xs ! k = x"
  shows "mset (concat (map f (xs[k := y]))) + mset (f x) = mset (concat (map f xs)) + mset (f y)"
proof -
  have x: "map f xs = map f (take k xs) @ f x # map f (drop (Suc k) xs)"
    using id_take_nth_drop [OF assms(1)] unfolding assms(2) by (metis list.simps(9) map_append)
  have y: "map f (xs[k := y]) = map f (take k xs) @ f y # map f (drop (Suc k) xs)"
    by (simp add: upd_conv_take_nth_drop [OF assms(1)])
  show ?thesis unfolding x y by simp
qed

lemma conns_simps [simp]:
  "conns [] = []" "conns (r # rs) = (if sa_err r = None then [sa_handle r] else []) @ conns rs"
  "conns (rs @ rs') = conns rs @ conns rs'"
  by (simp_all add: conns_def)

lemma in_flight_step:
  assumes "k < length (ls_pcs L)" "ls_pcs L ! k = pc" "ls_pcs L' = (ls_pcs L)[k := pc']"
  shows "mset (in_flight L') + mset (conns (pc_results pc)) = mset (in_flight L) + mset (conns (pc_results pc'))"
  using mset_concat_update [OF assms(1,2), of "\<lambda>pc. conns (pc_results pc)" pc'] by (simp add: in_flight_def assms(3))

lemma in_flight_exited: "set (ls_pcs L) \<subseteq> {LExited} \<Longrightarrow> in_flight L = []"
  by (auto simp: in_flight_def)

lemma exited_not:
  "set (ls_pcs L) \<subseteq> {LExited} \<Longrightarrow> k < length (ls_pcs L) \<Longrightarrow> ls_pcs L ! k = pc \<Longrightarrow> pc = LExited"
  using nth_mem [of k "ls_pcs L"] by auto

lemma place_arith:
  fixes A :: "'a multiset"
  assumes "A = Fl + X + D + Lo" "Fl' + R = Fl + R'" "A' + D + Lo + R = A + D' + Lo' + R'"
  shows "A' = Fl' + X + D' + Lo'"
proof (rule multiset_eqI)
  fix x
  from assms [THEN arg_cong, of "\<lambda>m. count m x"] show "count A' x = count (Fl' + X + D' + Lo') x" by simp
qed

text \<open>A loop moves on, leaving the listener alone and placing what it registered.\<close>

lemma ls_inv_loop:
  assumes inv: "ls_inv F n L" and k: "k < length (ls_pcs L)" "ls_pcs L ! k = pc" "pc \<noteq> LExited"
    and L': "ls_pcs L' = (ls_pcs L)[k := pc']" "listeners (ls_d L') = listeners (ls_d L)"
      "ls_taken L' = ls_taken L" "ls_drained L' = ls_drained L" "ls_kept L' = ls_kept L" "ls_refused L' = ls_refused L"
      "ls_closed L' = ls_closed L"
    and stop: "ls_dropped L' \<noteq> ls_dropped L \<longrightarrow> sl_stopped (sl_of n L)"
    and lost: "ls_lost L' \<noteq> ls_lost L \<longrightarrow> (\<exists>t. F t = AnswerLost)"
    and placed: "mset (ls_accepted L') + mset (ls_dropped L) + mset (ls_lost L) + mset (conns (pc_results pc))
      = mset (ls_accepted L) + mset (ls_dropped L') + mset (ls_lost L') + mset (conns (pc_results pc'))"
  shows "ls_inv F n L'"
proof -
  have open_: "\<not> ls_closed L" using inv k exited_not [of L k pc] by (auto simp: ls_inv_def)
  have "mset (ls_accepted L) = mset (in_flight L) + (mset (conns (sl_acceptC (sl_of n L))) + mset (ls_taken L)
      + mset (ls_drained L) + mset (ls_kept L)) + mset (ls_dropped L) + mset (ls_lost L)"
    using inv by (simp add: ls_inv_def ls_placed_def)
  from place_arith [OF this in_flight_step [OF k(1,2) L'(1)] placed] have "mset (ls_accepted L') = ls_placed n L'"
    using L'(2-5) by (simp add: ls_placed_def sl_of_def)
  note placed' = this
  have sl: "sl_of n L' = sl_of n L" by (simp add: sl_of_def L'(2))
  from inv have "\<not> sl_stopped (sl_of n L) \<longrightarrow> ls_dropped L = []" "ls_lost L \<noteq> [] \<longrightarrow> (\<exists>t. F t = AnswerLost)"
    by (simp_all add: ls_inv_def)
  then have st: "\<not> sl_stopped (sl_of n L) \<longrightarrow> ls_dropped L' = []" "ls_lost L' \<noteq> [] \<longrightarrow> (\<exists>t. F t = AnswerLost)"
    using stop lost by metis+
  show ?thesis
    using inv open_ st placed' by (simp add: ls_inv_def sl L'(2-7))
qed

lemma ls_step_inv:
  assumes "ls_step V F n L L'" and inv: "ls_inv F n L"
  shows "ls_inv F n L'"
  using assms(1)
proof cases
  case (Top_exit k i raw)
  then show ?thesis by (intro ls_inv_loop [OF inv, of k LTop L' LExited]) simp_all
next
  case (Top_accept k i raw ch pc s)
  note r = loop_accept_registers [OF Top_accept(7)]
  show ?thesis
    by (rule ls_inv_loop [OF inv, of k LTop L' pc])
      (use Top_accept r [THEN arg_cong, of mset] loop_listeners(1) [OF Top_accept(7)] in \<open>auto split: if_splits\<close>)
next
  case (Send_ok k r fin)
  with in_flight_step [of k L "LSend r fin" L' "if fin then LExited else LTop"] inv exited_not [of L k "LSend r fin"]
  show ?thesis by (auto simp: ls_inv_def ls_placed_def sl_of_def set_sl_def acceptC_cap_def split: if_splits)
next
  case (Send_stop k r fin)
  then show ?thesis by (intro ls_inv_loop [OF inv, of k "LSend r fin" L' LExited]) auto
next
  case (Join k x i raw pc s)
  have "conns (pc_results pc) = []" "listeners s = listeners (ls_d L)"
    using Join(6) loop_listeners(2) [OF Join(6)] by (auto simp: loop_join_def split: prod.splits sum.splits if_splits)
  with Join show ?thesis by (intro ls_inv_loop [OF inv, of k "LJoin x" L' pc]) simp_all
next
  case (Parked_ready k x i raw)
  then show ?thesis by (intro ls_inv_loop [OF inv, of k "LParked x" L' LTop]) simp_all
next
  case (Parked_stop k x i raw r s)
  have "listeners s = listeners (ls_d L)"
    using Parked_stop(6) submit_listeners [of "at_worker i (\<lambda>w. (Inr (), cancelWaiterRaw (V i) raw x w))" "ls_d L" F]
    by simp
  with Parked_stop show ?thesis by (intro ls_inv_loop [OF inv, of k "LParked x" L' LExited]) simp_all
next
  case (Parked_quiesced k x i raw)
  then show ?thesis by (intro ls_inv_loop [OF inv, of k "LParked x" L' LExited]) simp_all
next
  case (Consume r rs)
  with inv show ?thesis
    by (auto simp: ls_inv_def ls_placed_def sl_of_def set_sl_def acceptC_cap_def in_flight_def)
next
  case Close_begin
  with inv show ?thesis
    by (auto simp: ls_inv_def ls_placed_def sl_of_def set_sl_def acceptC_cap_def in_flight_def)
next
  case (Close_finish q e s)
  have l: "listeners s = (listeners (ls_d L))[n := (listeners (ls_d L) ! n)\<lparr>sl_acceptC := []\<rparr>]"
    using finish_listeners [of V F n "ls_d L"] Close_finish(6) by simp
  have "h \<in> set (ls_refused L')" if "h \<in> set (ls_kept L')" for h
    using that inv finish_kept [OF Close_finish(6), of h] by (auto simp: Close_finish(1,5) sl_of_def ls_inv_def)
  moreover have "mset q = mset (filter (\<lambda>h. map_of (owners s) h = None) q) + mset (filter (\<lambda>h. map_of (owners s) h \<noteq> None) q)"
    by (simp add: multiset_partition)
  ultimately show ?thesis
    using inv l Close_finish(2-5) in_flight_exited [of L]
    unfolding ls_inv_def ls_placed_def by (simp add: Close_finish(1) sl_of_def acceptC_cap_def in_flight_def subset_iff ac_simps)
next
  case (Other s)
  with inv show ?thesis
    by (auto simp: ls_inv_def ls_placed_def sl_of_def acceptC_cap_def in_flight_def)
qed

section \<open>A concrete listener\<close>

text \<open>The two workers of \<open>demo_mode2\<close>, and a listener with one shard, raw handle 5, on the first.\<close>

definition demo_listening :: mode2 where
  "demo_listening = demo_mode2\<lparr>listeners := [\<lparr>sl_public = 2, sl_shards = [(0, 5)], sl_acceptC = [], sl_stopped = False\<rparr>],
     owners := [(1, SessionRef 0 4), (2, ShardedRef 0)], nextHandle := 2\<rparr>"

lemma demo_listening_sel:
  "workers demo_listening = [demo_parked, newWorker 1 False]" "nextHandle demo_listening = 2"
  "owners demo_listening = [(1, SessionRef 0 4), (2, ShardedRef 0)]" "\<not> stopping demo_listening" "appLive demo_listening"
  "listeners demo_listening = [\<lparr>sl_public = 2, sl_shards = [(0, 5)], sl_acceptC = [], sl_stopped = False\<rparr>]"
  by (simp_all add: demo_listening_def)

text \<open>The accept of the concrete environment: connection 1, public handle 3.\<close>

lemma demo_loop_accept:
  obtains a s where "loop_accept demo_V demo_F 0 5 3 demo_listening
      = (LSend \<lparr>sa_handle = 3, sa_addr = a, sa_err = None\<rparr> False, s)"
    "map_of (owners s) 3 = Some (SessionRef 0 1)" "listeners s = listeners demo_listening" "\<not> stopping s" "appLive s" "nextHandle s = 3"
proof -
  have v: "vclIndex demo_parked = 0"
    by (simp add: demo_parked_def joinWaitSet_def demo_worker_def newWorker_def worker_add_def on_worker_def
        split: sum.split)
  obtain a where ac: "\<And>w. fst (run_state (rawAcceptFull demo_cgo 5) w) = Inr (1, a)"
    by (simp add: rawAcceptFull_def vclpoll_accept_nb_full_def ep_out_def case_prod_beta)
  let ?s1 = "snd (at_worker 0 (on_worker (rawAcceptFull demo_cgo 5)) demo_listening)"
  have "fst (checkOwnership demo_cgo 1 (workers ?s1 ! 0)) = Inr ()"
    by (simp add: checkOwnership_def rawSessionWorker_def vclpoll_session_worker_def Let_def case_prod_beta
        demo_listening_sel v)
  then obtain s where "registerSession demo_V 0 1 ?s1 = (Inr 3, s)" "map_of (owners s) 3 = Some (SessionRef 0 1)"
      "listeners s = listeners demo_listening" "\<not> stopping s" "appLive s" "nextHandle s = 3"
    by (simp add: registerSession_def case_prod_beta Let_def demo_listening_sel maxVirtualHandle_def
        push_bit_eq_mult update_conv' word_less_def at_worker_def)
  then show ?thesis
    using ac that [of a s] by (simp add: loop_accept_def submit_def shard_accept_def demo_listening_sel case_prod_beta)
qed

text \<open>A run: the loop accepts, the listener is closed while the loop is about to send, and the loop
  takes the \<open>stopCh\<close> case.\<close>

lemma demo_drop_run:
  obtains L where "ls_reach demo_V demo_F 0 (ls_start 0 demo_listening) L" "ls_closed L" "ls_dropped L = [3]"
    "map_of (owners (ls_d L)) 3 = Some (SessionRef 0 1)" "ls_accepted L = [3]" "ls_taken L = []" "ls_drained L = []" "ls_kept L = []"
proof -
  from demo_loop_accept obtain a s where l: "loop_accept demo_V demo_F 0 5 3 demo_listening
      = (LSend \<lparr>sa_handle = 3, sa_addr = a, sa_err = None\<rparr> False, s)"
    "map_of (owners s) 3 = Some (SessionRef 0 1)" "listeners s = listeners demo_listening" "\<not> stopping s" "appLive s" "nextHandle s = 3"
    by metis
  let ?r = "\<lparr>sa_handle = 3, sa_addr = a, sa_err = None\<rparr>"
  let ?L0 = "ls_start 0 demo_listening"
  define L1 where "L1 = ?L0\<lparr>ls_d := s, ls_pcs := [LSend ?r False], ls_accepted := [3]\<rparr>"
  define L2 where "L2 = L1\<lparr>ls_d := set_sl 0 (\<lambda>sl. sl\<lparr>sl_stopped := True\<rparr>) s\<rparr>"
  define L3 where "L3 = L2\<lparr>ls_pcs := [LExited], ls_dropped := [3]\<rparr>"
  obtain e s4 where f: "closeShardedListener_finish demo_V demo_F 0 (ls_d L3) = (e, s4)" by fastforce
  define L4 where "L4 = L3\<lparr>ls_d := s4, ls_drained := [], ls_closed := True\<rparr>"
  have q: "\<not> quiesced_closed demo_parked"
    by (simp add: demo_parked_def joinWaitSet_def demo_worker_def newWorker_def worker_add_def on_worker_def split: sum.split)
  have reg: "registered demo_listening s = [3]" using l by (simp add: registered_def demo_listening_sel)
  have "ls_step demo_V demo_F 0 ?L0 L1"
    using Top_accept [of 0 ?L0 0 0 5 demo_V demo_F 3 "LSend ?r False" s] l(1) q reg
    by (simp add: L1_def ls_start_def sl_of_def demo_listening_sel)
  moreover have "ls_step demo_V demo_F 0 L1 L2"
    using Close_begin [of 0 L1 demo_V demo_F] l(3)
    by (simp add: L1_def L2_def ls_start_def sl_of_def demo_listening_sel)
  moreover have "ls_step demo_V demo_F 0 L2 L3"
    using Send_stop [of 0 L2 ?r False 0 demo_V demo_F] l(3)
    by (simp add: L1_def L2_def L3_def ls_start_def sl_of_def set_sl_def demo_listening_sel)
  moreover have "ls_step demo_V demo_F 0 L3 L4"
    using Close_finish [of 0 L3 "[]" demo_V demo_F e s4] f l(3)
    by (simp add: L1_def L2_def L3_def L4_def ls_start_def sl_of_def set_sl_def demo_listening_sel)
  ultimately have "ls_reach demo_V demo_F 0 ?L0 L4"
    by (meson ls_refl ls_next)
  moreover have "map_of (owners s4) 3 = Some (SessionRef 0 1)"
    using f l(2,3) by (auto simp: closeShardedListener_finish_def closeDrained_def L3_def L2_def L1_def set_sl_def
        demo_listening_sel case_prod_beta Let_def AList.delete_conv' submit_def split: if_splits)
  ultimately show ?thesis
    using that [of L4] by (simp add: L4_def L3_def L2_def L1_def ls_start_def)
qed

section \<open>Properties\<close>

text \<open>C14. No accepted connection gets lost on its way through the fan-in channel, whatever the accept
  loops, the consumers and a closer do, and whatever becomes of the operations submitted. Every connection a
  loop has entered in the dispatcher's table is about to be sent, queued, taken by a consumer, was
  dropped by a loop that saw \<open>stopCh\<close>, or was found by the drain; the drain has closed it, and it is gone
  from the table, unless \<open>closeVLSH\<close> answered an error for it. Only where the worker quiesced before it
  could answer does the loop not hear of a connection. Nothing is dropped or drained while the
  listener is open; the channel never exceeds its capacity; and after the close none is in flight or queued.\<close>

theorem accepted_connections_accounted:
  assumes "ls_reach V F n (ls_start n s) L" and "n < length (listeners s)" and "sl_acceptC (listeners s ! n) = []"
  shows "mset (ls_accepted L) = mset (in_flight L) + mset (conns (sl_acceptC (sl_of n L))) + mset (ls_taken L)
         + mset (ls_dropped L) + mset (ls_drained L) + mset (ls_kept L) + mset (ls_lost L)
     \<and> set (ls_kept L) \<subseteq> set (ls_refused L)
     \<and> (ls_lost L \<noteq> [] \<longrightarrow> (\<exists>t. F t = AnswerLost))
     \<and> (\<not> sl_stopped (sl_of n L) \<longrightarrow> ls_dropped L = [] \<and> ls_drained L = [] \<and> ls_kept L = [])
     \<and> length (sl_acceptC (sl_of n L)) \<le> acceptC_cap (sl_of n L)
     \<and> (ls_closed L \<longrightarrow> in_flight L = [] \<and> sl_acceptC (sl_of n L) = [])"
proof -
  have "ls_inv F n L"
    using assms(1)
  proof induction
    case ls_refl
    have "concat (map (\<lambda>pc. conns (pc_results pc)) (replicate k LTop)) = []" for k
      by (induction k) simp_all
    with assms(2,3) show ?case by (simp add: ls_inv_def ls_placed_def ls_start_def sl_of_def in_flight_def)
  next
    case (ls_next L L')
    from ls_step_inv [OF ls_next(2,3)] show ?case .
  qed
  then show ?thesis by (simp add: ls_inv_def ls_placed_def in_flight_exited)
qed

lemma accepted_connections_accounted_witness:
  "\<exists>L :: lsys. ls_closed L \<and> ls_accepted L = [3] \<and> mset (ls_accepted L) = mset (ls_taken L) + mset (ls_dropped L) + mset (ls_drained L)"
proof -
  obtain L where L: "ls_reach demo_V demo_F 0 (ls_start 0 demo_listening) L" "ls_closed L" "ls_accepted L = [3]" "ls_kept L = []"
    using demo_drop_run by metis
  have "0 < length (listeners demo_listening)" "sl_acceptC (listeners demo_listening ! 0) = []"
    by (simp_all add: demo_listening_sel)
  from accepted_connections_accounted [OF L(1) this] L(2-4)
  have "mset (ls_accepted L) = mset (ls_taken L) + mset (ls_dropped L) + mset (ls_drained L)" by simp
  with L show ?thesis by blast
qed

text \<open>Closing a sharded listener can leak a connection: a run exists in which an accept loop that is
  about to deliver an accepted, registered connection sees \<open>stopCh\<close> and drops it; after the close has
  finished the connection is still registered, and nobody was given its handle.\<close>

theorem close_can_leak_accepted_connection:
  "\<exists>V F s L h. ls_reach V F 0 (ls_start 0 s) L \<and> ls_closed L \<and> ls_accepted L = [h] \<and> ls_taken L = []
     \<and> ls_drained L = [] \<and> map_of (owners (ls_d L)) h \<noteq> None"
proof -
  obtain L where L: "ls_reach demo_V demo_F 0 (ls_start 0 demo_listening) L" "ls_closed L" "ls_dropped L = [3]"
    "map_of (owners (ls_d L)) 3 = Some (SessionRef 0 1)" "ls_accepted L = [3]" "ls_taken L = []" "ls_drained L = []"
    using demo_drop_run by metis
  then have "map_of (owners (ls_d L)) 3 \<noteq> None" by simp
  with L show ?thesis by blast
qed

end
