(* ===== verification/HandleTable.thy ===== *)
theory HandleTable
  imports Mode2Wait ShardLoops
begin

text \<open>
  The contract of the Mode 2 dispatcher towards its clients: a table of open handles that are never
  given out twice, and a pool of accepted connections that wait to be given out. The table is an abstract
  machine that knows nothing of workers, raw handles, channels or VLS, and the dispatcher (\<open>mode2.go\<close>,
  \<open>shard_listener.go\<close>) refines it: each request, on a session or on a sharded listener, and each step of an
  accept loop is a step of the table with the result the client sees, so what holds of all runs of the
  table holds of the dispatcher.
\<close>

section \<open>Runs and simulation\<close>

fun run_cmds :: "('cmd \<Rightarrow> 'c \<Rightarrow> 'out \<times> 'c) \<Rightarrow> 'cmd list \<Rightarrow> 'c \<Rightarrow> 'out list \<times> 'c" where
  "run_cmds step [] c = ([], c)"
| "run_cmds step (x # xs) c = (case step x c of (r, c) \<Rightarrow> map_prod ((#) r) id (run_cmds step xs c))"

inductive spec_run :: "('cmd \<Rightarrow> 'out \<Rightarrow> 'a \<Rightarrow> 'a \<Rightarrow> bool) \<Rightarrow> 'cmd list \<Rightarrow> 'out list \<Rightarrow> 'a \<Rightarrow> 'a \<Rightarrow> bool" for step where
  spec_Nil: "spec_run step [] [] a a"
| spec_Cons: "step x r a b \<Longrightarrow> spec_run step xs rs b c \<Longrightarrow> spec_run step (x # xs) (r # rs) a c"

inductive_cases spec_run_NilE: "spec_run step [] rs a b"
inductive_cases spec_run_ConsE: "spec_run step (x # xs) rs a c"

text \<open>A concrete machine \<open>step\<close> that simulates \<open>spec\<close> through \<open>abs\<close>; \<open>inv xs\<close> holds where the commands \<open>xs\<close> are
  still in range.\<close>

locale simulation =
  fixes step :: "'cmd \<Rightarrow> 'c \<Rightarrow> 'out \<times> 'c" and spec :: "'cmd \<Rightarrow> 'out \<Rightarrow> 'a \<Rightarrow> 'a \<Rightarrow> bool"
    and abs :: "'c \<Rightarrow> 'a" and inv :: "'cmd list \<Rightarrow> 'c \<Rightarrow> bool"
  assumes simulates: "inv (x # xs) c \<Longrightarrow> step x c = (r, c') \<Longrightarrow> spec x r (abs c) (abs c') \<and> inv xs c'"
begin

lemma runs_refine: "inv xs c \<Longrightarrow> run_cmds step xs c = (rs, c') \<Longrightarrow> spec_run spec xs rs (abs c) (abs c')"
proof (induction xs arbitrary: c c' rs)
  case (Cons x xs)
  obtain r c1 where st: "step x c = (r, c1)" by fastforce
  obtain rs1 c2 where run: "run_cmds step xs c1 = (rs1, c2)" by fastforce
  from simulates [OF Cons.prems(1) st] have s: "spec x r (abs c) (abs c1)" "inv xs c1" by simp_all
  from Cons.prems(2) st run have "rs = r # rs1" "c' = c2" by simp_all
  with Cons.IH [OF s(2) run] s(1) show ?case by (simp add: spec_Cons)
qed (simp add: spec_Nil)

end

section \<open>The table\<close>

text \<open>The open handles, the last number used, and the accepted connections nobody has been given yet.\<close>

record handleTable =
  ht_open :: "handle set"
  ht_last :: int
  ht_pool :: "handle multiset"

text \<open>A request of a client (\<open>Req\<close>), a listen, or a step of an accept loop: one accept on a worker's raw
  listener, sending a result to the channel of listener \<open>n\<close>, dropping a connection.\<close>

datatype d_cmd =
    Req m2_cmd
  | Listen listen_call
  | LoopAccept nat handle
  | LoopSend nat shardAcceptResult
  | LoopDrop handle

text \<open>What the client of a request sees: a new handle, one from the pool, success or an error. \<open>Accepted\<close> is what an
  accept loop sees.\<close>

datatype m2_out = Issued handle | Given handle | Accepted handle | Done | Failed vclpoll_error

fun opens :: "m2_cmd \<Rightarrow> bool" where
  "opens (M2Close h) = False"
| "opens (M2Read h n) = False"
| "opens (M2Write h p) = False"
| "opens (M2Shutdown h how) = False"
| "opens _ = True"

fun issues :: "d_cmd \<Rightarrow> bool" where
  "issues (Req c) = opens c"
| "issues (Listen l) = True"
| "issues (LoopAccept i raw) = True"
| "issues _ = False"

fun on_handle :: "d_cmd \<Rightarrow> handle option" where
  "on_handle (Req (M2Accept h)) = Some h"
| "on_handle (Req (M2Close h)) = Some h"
| "on_handle (Req (M2Read h n)) = Some h"
| "on_handle (Req (M2Write h p)) = Some h"
| "on_handle (Req (M2Shutdown h how)) = Some h"
| "on_handle _ = None"

definition usable :: "d_cmd \<Rightarrow> handleTable \<Rightarrow> bool" where
  "usable c t \<longleftrightarrow> (\<forall>h. on_handle c = Some h \<longrightarrow> h \<in> ht_open t)"

definition add_handle :: "handle \<Rightarrow> handleTable \<Rightarrow> handleTable" where
  "add_handle h t = t\<lparr>ht_open := insert h (ht_open t), ht_last := h\<rparr>"

text \<open>A request on a handle that is not open fails with \<open>ErrClosed\<close>. One that opens a session or a listener issues a
  handle above all earlier ones, or fails, where numbers may be used up; if the answer of the worker
  is lost the handle is open although the caller was told \<open>ErrClosed\<close>. An accept loop issues a handle likewise,
  to the pool, and an accept on a listener takes one from there. A close that returns without
  error has removed its handle, one that fails may have; closing a listener takes connections out of the
  pool and may close those, and no other. Everything else leaves the table alone.\<close>

inductive ht_step :: "d_cmd \<Rightarrow> m2_out \<Rightarrow> handleTable \<Rightarrow> handleTable \<Rightarrow> bool" where
  ht_closed: "\<not> usable c t \<Longrightarrow> ht_step c (Failed PollErrClosed) t t"
| ht_issue: "issues c \<Longrightarrow> usable c t \<Longrightarrow> ht_last t < h \<Longrightarrow> h < 2 ^ 31 \<Longrightarrow> ht_step c (Issued h) t (add_handle h t)"
| ht_lost: "issues c \<Longrightarrow> usable c t \<Longrightarrow> ht_last t < h \<Longrightarrow> h < 2 ^ 31 \<Longrightarrow>
    ht_step c (Failed PollErrClosed) t (add_handle h t)"
| ht_fail: "issues c \<Longrightarrow> usable c t \<Longrightarrow> ht_last t \<le> n \<Longrightarrow> ht_step c (Failed e) t (t\<lparr>ht_last := n\<rparr>)"
| ht_accepted: "ht_last t < h \<Longrightarrow> h < 2 ^ 31 \<Longrightarrow>
    ht_step (LoopAccept i raw) (Accepted h) t ((add_handle h t)\<lparr>ht_pool := add_mset h (ht_pool t)\<rparr>)"
| ht_send: "ht_step (LoopSend n r) Done t t"
| ht_drop: "ht_step (LoopDrop h) Done t (t\<lparr>ht_pool := ht_pool t - {#h#}\<rparr>)"
| ht_drop_none: "ht_step (LoopDrop h) Done t t"
| ht_give: "l \<in> ht_open t \<Longrightarrow> h \<in># ht_pool t \<Longrightarrow> ht_step (Req (M2Accept l)) (Given h) t (t\<lparr>ht_pool := ht_pool t - {#h#}\<rparr>)"
| ht_close: "h \<in> ht_open t \<Longrightarrow> r = Done \<or> r = Failed e \<Longrightarrow> taken \<subseteq># ht_pool t \<Longrightarrow> S \<subseteq> set_mset taken \<Longrightarrow>
    ht_step (Req (M2Close h)) r t (t\<lparr>ht_open := ht_open t - {h} - S, ht_pool := ht_pool t - taken\<rparr>)"
| ht_close_fail: "h \<in> ht_open t \<Longrightarrow> ht_step (Req (M2Close h)) (Failed e) t t"
| ht_use: "\<not> issues c \<Longrightarrow> usable c t \<Longrightarrow> c \<noteq> Req (M2Close h) \<Longrightarrow> on_handle c = Some h \<Longrightarrow> r = Done \<or> r = Failed e \<Longrightarrow> ht_step c r t t"

text \<open>Handles in use and in the pool were issued, and the pool holds each once.\<close>

definition ht_ok :: "handleTable \<Rightarrow> bool" where
  "ht_ok t \<longleftrightarrow> (\<forall>h \<in> ht_open t. h \<le> ht_last t) \<and> (\<forall>h. count (ht_pool t) h \<le> 1) \<and> (\<forall>h \<in># ht_pool t. h \<le> ht_last t)"

lemma ht_step_last: "ht_step c r t t' \<Longrightarrow> ht_last t \<le> ht_last t'"
  by (cases rule: ht_step.cases) (auto simp: add_handle_def)

lemma ht_ok_shrink:
  assumes "ht_ok t" "ht_open t' \<subseteq> ht_open t" "ht_last t' = ht_last t" "ht_pool t' = ht_pool t - N"
  shows "ht_ok t'"
proof -
  have "count (ht_pool t - N) h \<le> 1" for h
    using assms(1) unfolding ht_ok_def count_diff by (blast intro: order_trans [OF diff_le_self])
  with assms show ?thesis by (auto simp: ht_ok_def simp del: count_diff dest: in_diffD)
qed

lemma ht_step_ok: "ht_step c r t t' \<Longrightarrow> ht_ok t \<Longrightarrow> ht_ok t'"
proof (induction rule: ht_step.induct)
  case (ht_accepted t h i raw)
  then have "h \<notin># ht_pool t" by (auto simp: ht_ok_def)
  with ht_accepted show ?case by (fastforce simp: ht_ok_def add_handle_def not_in_iff)
next
  case (ht_close h t r e taken S)
  show ?case by (rule ht_ok_shrink [OF ht_close(5), where N = taken]) auto
next
  case (ht_drop h t)
  then show ?case by (rule ht_ok_shrink [where N = "{#h#}"]) simp_all
next
  case (ht_give l t h)
  show ?case by (rule ht_ok_shrink [OF ht_give(3), where N = "{#h#}"]) simp_all
qed (fastforce simp: ht_ok_def add_handle_def)+

text \<open>One step for the handles: what is new is above all earlier ones, what is closed stays closed.\<close>

lemma ht_step_handles:
  assumes "ht_step c r t t'"
  shows "h \<le> ht_last t \<Longrightarrow> h \<notin> ht_open t \<Longrightarrow> h \<notin> ht_open t'"
    "r = Issued k \<or> r = Accepted k \<Longrightarrow> ht_last t < k \<and> k < 2 ^ 31 \<and> k = ht_last t' \<and> k \<in> ht_open t'"
    "on_handle c = Some h \<Longrightarrow> h \<notin> ht_open t \<Longrightarrow> r = Failed PollErrClosed \<and> t' = t"
    "c = Req (M2Close h) \<Longrightarrow> r = Done \<Longrightarrow> h \<notin> ht_open t'"
  using assms by (cases rule: ht_step.cases; force simp: add_handle_def usable_def)+

text \<open>And for the pool: only an accept loop adds to it, only a new handle, and what is given out leaves it.\<close>

lemma ht_step_pool:
  assumes "ht_step c r t t'"
  shows "r = Given k \<Longrightarrow> k \<in># ht_pool t \<and> ht_pool t' = ht_pool t - {#k#}"
    "k \<in># ht_pool t' \<Longrightarrow> k \<in># ht_pool t \<or> r = Accepted k \<and> ht_last t < k"
  using assms by (cases rule: ht_step.cases; force simp: add_handle_def dest: in_diffD)+

text \<open>What every run of the table keeps: the handles issued increase, none is given out twice, and one that is
  closed stays closed.\<close>

fun issued_handles :: "m2_out list \<Rightarrow> handle list" where
  "issued_handles [] = []"
| "issued_handles (Issued h # rs) = h # issued_handles rs"
| "issued_handles (Accepted h # rs) = h # issued_handles rs"
| "issued_handles (_ # rs) = issued_handles rs"

fun client_handles :: "m2_out list \<Rightarrow> handle list" where
  "client_handles [] = []"
| "client_handles (Issued h # rs) = h # client_handles rs"
| "client_handles (Given h # rs) = h # client_handles rs"
| "client_handles (_ # rs) = client_handles rs"

lemma ht_run_issues:
  assumes "spec_run ht_step cs rs t t'"
  shows "sorted_wrt (<) (issued_handles rs) \<and> (\<forall>h \<in> set (issued_handles rs). ht_last t < h \<and> h < 2 ^ 31) \<and> ht_last t \<le> ht_last t'"
  using assms
proof (induction rule: spec_run.induct)
  case (spec_Cons c r a b cs rs t')
  note s = ht_step_last [OF spec_Cons(1)] ht_step_handles(2) [OF spec_Cons(1)]
  show ?case using spec_Cons.IH s by (cases r) auto
qed simp

lemma ht_run_gives:
  assumes "spec_run ht_step cs rs t t'" "ht_ok t"
  shows "distinct (client_handles rs) \<and> (\<forall>h \<in> set (client_handles rs). h \<in># ht_pool t \<or> ht_last t < h)"
  using assms
proof (induction rule: spec_run.induct)
  case (spec_Cons c r a b cs rs t')
  note ok = ht_step_ok [OF spec_Cons(1,4)]
  have old: "h \<le> ht_last a" if "h \<in># ht_pool a" for h using that spec_Cons.prems by (auto simp: ht_ok_def)
  have source: "h \<in># ht_pool a \<or> ht_last a < h" if "h \<in> set (client_handles rs)" for h
    using that spec_Cons.IH [OF ok] ht_step_pool(2) [OF spec_Cons(1), of h] ht_step_last [OF spec_Cons(1)] by fastforce
  show ?case
  proof (cases r)
    case (Issued h)
    then have h: "ht_last a < h" "h = ht_last b" using ht_step_handles(2) [OF spec_Cons(1)] by blast+
    have "h \<notin># ht_pool b" using old [of h] h ht_step_pool(2) [OF spec_Cons(1), of h] Issued by auto
    with spec_Cons.IH [OF ok] h source show ?thesis by (auto simp: Issued)
  next
    case (Given h)
    then have h: "h \<in># ht_pool a" "ht_pool b = ht_pool a - {#h#}" using ht_step_pool(1) [OF spec_Cons(1)] by blast+
    have "count (ht_pool a) h \<le> 1" using spec_Cons.prems by (simp add: ht_ok_def)
    with h have "h \<notin># ht_pool b" by (simp add: not_in_iff)
    moreover have "\<not> ht_last b < h" using old [OF h(1)] ht_step_last [OF spec_Cons(1)] by simp
    ultimately show ?thesis using spec_Cons.IH [OF ok] h(1) source by (auto simp: Given)
  qed (use spec_Cons.IH [OF ok] source in simp_all)
qed simp

lemma ht_run_closed:
  assumes "spec_run ht_step cs rs t t'" "h \<le> ht_last t" "h \<notin> ht_open t"
  shows "h \<notin> ht_open t' \<and> (\<forall>i < length cs. on_handle (cs ! i) = Some h \<longrightarrow> rs ! i = Failed PollErrClosed)"
  using assms
proof (induction rule: spec_run.induct)
  case (spec_Cons c r a b cs rs t')
  note s = ht_step_last [OF spec_Cons(1)] ht_step_handles(1,3) [OF spec_Cons(1)]
  from spec_Cons.prems s have b: "h \<le> ht_last b" "h \<notin> ht_open b" by (simp_all add: order_trans)
  from spec_Cons.IH [OF b] s(3) spec_Cons.prems show ?case by (auto simp: nth_Cons split: nat.split)
qed simp

lemma ht_run_close:
  assumes "spec_run ht_step cs rs t t'" "ht_ok t" "i < j" "j < length cs" "cs ! i = Req (M2Close h)" "rs ! i = Done"
    "on_handle (cs ! j) = Some h"
  shows "rs ! j = Failed PollErrClosed"
  using assms
proof (induction arbitrary: i j rule: spec_run.induct)
  case (spec_Cons c r a b cs rs t')
  then obtain j' where j: "j = Suc j'" by (cases j) auto
  note s = ht_step_last [OF spec_Cons(1)] ht_step_handles(3,4) [OF spec_Cons(1)]
  show ?case
  proof (cases i)
    case 0
    with spec_Cons.prems have c: "c = Req (M2Close h)" "r = Done" by simp_all
    have "h \<in> ht_open a"
    proof (rule ccontr)
      assume "h \<notin> ht_open a"
      with s(2) [of h] c show False by simp
    qed
    with s(1) s(3) [of h] c spec_Cons.prems(1) have "h \<le> ht_last b" "h \<notin> ht_open b" by (auto simp: ht_ok_def)
    from ht_run_closed [OF spec_Cons(2) this] j spec_Cons.prems show ?thesis by simp
  next
    case (Suc i')
    with spec_Cons.prems j show ?thesis by (auto intro: spec_Cons.IH [of i' j'] ht_step_ok [OF spec_Cons(1)])
  qed
qed simp

section \<open>The dispatcher\<close>

definition out_open :: "handle poll_result \<Rightarrow> m2_out" where
  "out_open r = (case r of Inl e \<Rightarrow> Failed e | Inr h \<Rightarrow> Issued h)"

definition out_open1 :: "(handle \<times> 'a) poll_result \<Rightarrow> m2_out" where
  "out_open1 r = (case r of Inl e \<Rightarrow> Failed e | Inr (h, x) \<Rightarrow> Issued h)"

definition out_done :: "'a poll_result \<Rightarrow> m2_out" where
  "out_done r = (case r of Inl e \<Rightarrow> Failed e | Inr x \<Rightarrow> Done)"

lemma out_simps [simp]:
  "(\<exists>e. out_open r = Failed e) \<or> (\<exists>h. out_open r = Issued h)" "(\<exists>e. out_open1 q = Failed e) \<or> (\<exists>h. out_open1 q = Issued h)"
  "out_open (Inl e) = Failed e" "out_open1 (Inl e) = Failed e"
  by (auto simp: out_open_def out_open1_def split: sum.split)

text \<open>One request and what the caller sees.\<close>

fun m2_exec :: "(nat \<Rightarrow> cgo) \<Rightarrow> (mode2 \<Rightarrow> submit_fate) \<Rightarrow> m2_cmd \<Rightarrow> mode2 \<Rightarrow> m2_out \<times> mode2" where
  "m2_exec V F (M2BindUDP4 a p) s = map_prod out_open id (mode2_bindUDP4 V F a p s)"
| "m2_exec V F (M2BindUDP6 a p) s = map_prod out_open id (mode2_bindUDP6 V F a p s)"
| "m2_exec V F (M2ConnectTCP4 a p) s = map_prod out_open1 id (mode2_connectTCP4Start V F a p s)"
| "m2_exec V F (M2ConnectTCP6 a p) s = map_prod out_open1 id (mode2_connectTCP6Start V F a p s)"
| "m2_exec V F (M2ConnectTLS4 a p c v) s = map_prod out_open1 id (mode2_connectTLS4Start V F a p c v s)"
| "m2_exec V F (M2ConnectTLS6 a p c v) s = map_prod out_open1 id (mode2_connectTLS6Start V F a p c v s)"
| "m2_exec V F (M2ConnectUDP4 a p) s = map_prod out_open1 id (mode2_connectUDP4Start V F a p s)"
| "m2_exec V F (M2ConnectUDP6 a p) s = map_prod out_open1 id (mode2_connectUDP6Start V F a p s)"
| "m2_exec V F (M2Accept l) s = map_prod out_open1 id (accept_attempt V F l s)"
| "m2_exec V F (M2Close h) s = map_prod out_done id (closeSessionHandle V F h s)"
| "m2_exec V F (M2Read h n) s = map_prod out_done id (read_attempt V F h n s)"
| "m2_exec V F (M2Write h p) s = map_prod out_done id (write_attempt V F h p s)"
| "m2_exec V F (M2Shutdown h how) s = map_prod out_done id (mode2_shutdown V F h how s)"

text \<open>The pool: what the loops are about to send (\<open>fl\<close>) and what is queued in the channels.\<close>

definition queued :: "mode2 \<Rightarrow> handle list" where
  "queued s = concat (map (\<lambda>sl. conns (sl_acceptC sl)) (listeners s))"

definition abs_table :: "handle list \<Rightarrow> mode2 \<Rightarrow> handleTable" where
  "abs_table fl s = \<lparr>ht_open = dom (map_of (owners s)), ht_last = uint (nextHandle s), ht_pool = mset fl + mset (queued s)\<rparr>"

lemma abs_table_sel [simp]:
  "ht_open (abs_table fl s) = dom (map_of (owners s))" "ht_last (abs_table fl s) = uint (nextHandle s)"
  "ht_pool (abs_table fl s) = mset fl + mset (queued s)"
  by (simp_all add: abs_table_def)

lemma queued_cong: "listeners s' = listeners s \<Longrightarrow> queued s' = queued s"
  by (simp add: queued_def)

lemma sessionCall_listeners [simp]: "listeners (snd (sessionCall V F h fn s)) = listeners s"
  by (auto simp: sessionCall_def with_lookup_def split: option.split sum.split intro!: submit_listeners)

lemma unregisterSession_listeners [simp]: "listeners (unregisterSession i h s) = listeners s"
  by (simp add: unregisterSession_def)

lemma queued_ops [simp]:
  "queued (snd (at_worker i f s)) = queued s" "queued (snd (pickWorker s)) = queued s" "queued (snd (close_raw V i raw s)) = queued s"
  "queued (snd (registerSession V i raw s)) = queued s" "queued (unregisterSession i h s) = queued s"
  "queued (snd (sessionCall V F h fn s)) = queued s" "queued (s\<lparr>d_panicked := b\<rparr>) = queued s"
  by (rule queued_cong, simp add: pickWorker_def)+

text \<open>Opening, as the table sees it.\<close>

definition table_opens :: "m2_out \<Rightarrow> handleTable \<Rightarrow> handleTable \<Rightarrow> bool" where
  "table_opens r t t' \<longleftrightarrow> (case r of
       Issued h \<Rightarrow> ht_last t < h \<and> h < 2 ^ 31 \<and> t' = add_handle h t
     | Failed e \<Rightarrow> ht_open t' = ht_open t \<and> ht_last t \<le> ht_last t' \<and> ht_pool t' = ht_pool t
     | _ \<Rightarrow> False)"

lemma abs_at_worker [simp]: "abs_table fl (snd (at_worker i f s)) = abs_table fl s" "abs_table fl (snd (pickWorker s)) = abs_table fl s"
  by (simp_all add: abs_table_def)

lemma registerSession_opening:
  assumes "uint (nextHandle s) + 1 < 2 ^ 32"
  shows "table_opens (out_open (fst (registerSession V i raw s))) (abs_table fl s) (abs_table fl (snd (registerSession V i raw s)))"
proof -
  let ?id = "nextHandle s + 1" and ?r = "registerSession V i raw s"
  have c: "counts (handle_of (fst ?r)) s (snd ?r)" by (rule registerSession_counts)
  show ?thesis
  proof (cases "fst ?r")
    case (Inl e)
    then have "owners (snd ?r) = owners s"
      by (auto simp: registerSession_def case_prod_beta Let_def split: sum.splits if_splits)
    with Inl c assms show ?thesis by (auto simp: table_opens_def out_open_def counts_def)
  next
    case (Inr h)
    then have "owners (snd ?r) = AList.update h (SessionRef i raw) (owners s)"
      by (auto simp: registerSession_def case_prod_beta Let_def split: sum.splits if_splits)
    with Inr c assms show ?thesis
      by (auto simp: table_opens_def out_open_def counts_def add_handle_def abs_table_def update_conv')
  qed
qed

text \<open>A body that opens, behind \<open>submit\<close>: its answer may be lost or the request refused.\<close>

lemma submit_opens:
  assumes "table_opens (g (fst (f s))) (abs_table fl s) (abs_table fl (snd (f s)))" "\<And>e. g (Inl e) = Failed e" "issues c" "usable c (abs_table fl s)"
    "\<And>x. (\<exists>e. g x = Failed e) \<or> (\<exists>h. g x = Issued h)"
  shows "ht_step c (g (fst (submit F f s))) (abs_table fl s) (abs_table fl (snd (submit F f s)))"
proof -
  have fail: "ht_step c (Failed e) (abs_table fl s) t'"
    if "ht_open t' = ht_open (abs_table fl s)" "ht_last (abs_table fl s) \<le> ht_last t'" "ht_pool t' = ht_pool (abs_table fl s)" for e t'
  proof -
    have "t' = (abs_table fl s)\<lparr>ht_last := ht_last t'\<rparr>" using that(1,3) by (cases t') (simp add: abs_table_def)
    with ht_fail [OF assms(3,4) that(2)] show ?thesis by metis
  qed
  show ?thesis
  proof (cases rule: submit_cases [of F f s])
    case 1
    with assms(2) fail [of "abs_table fl s"] show ?thesis by simp
  next
    case 2
    show ?thesis
    proof (cases "g (fst (f s))")
      case (Issued h)
      with assms(1,3,4) have "ht_step c (Failed PollErrClosed) (abs_table fl s) (add_handle h (abs_table fl s))"
        by (auto simp: table_opens_def intro: ht_lost)
      with 2 Issued assms(1,2) show ?thesis by (simp add: table_opens_def)
    next
      case (Failed e)
      with 2 assms(1,2) fail show ?thesis by (simp add: table_opens_def)
    qed (use assms(5) [of "fst (f s)"] in auto)
  next
    case 3
    show ?thesis
    proof (cases "g (fst (f s))")
      case (Issued h)
      with assms(1,3,4) have "ht_step c (Issued h) (abs_table fl s) (add_handle h (abs_table fl s))"
        by (auto simp: table_opens_def intro: ht_issue)
      with 3 Issued assms(1) show ?thesis by (simp add: table_opens_def)
    next
      case (Failed e)
      with 3 assms(1) fail show ?thesis by (simp add: table_opens_def)
    qed (use assms(5) [of "fst (f s)"] in auto)
  qed
qed

lemma issue_opens:
  assumes "uint (nextHandle s) + 1 < 2 ^ 32"
  shows "table_opens (out_open (map_sum id fst (fst (issue V i hf m s)))) (abs_table fl s) (abs_table fl (snd (issue V i hf m s)))"
proof -
  let ?s = "snd (at_worker i (on_worker m) s)"
  have "uint (nextHandle ?s) + 1 < 2 ^ 32" using assms by simp
  from registerSession_opening [OF this, of V i "hf x" for x]
  have reg: "table_opens (out_open (fst (registerSession V i (hf x) ?s))) (abs_table fl s)
      (abs_table fl (snd (registerSession V i (hf x) ?s)))" for x by simp
  show ?thesis
  proof (cases "fst (at_worker i (on_worker m) s)")
    case (Inl e)
    then show ?thesis by (simp add: issue_def case_prod_beta out_open_def table_opens_def)
  next
    case (Inr x)
    with reg [of x] show ?thesis
      by (cases "fst (registerSession V i (hf x) ?s)") (simp_all add: issue_def case_prod_beta out_open_def)
  qed
qed

lemma create_issue:
  "create V F fn s =
     (let (i, s) = pickWorker s
      in submit F (\<lambda>s. (map_sum id fst (fst (issue V i id (fn (V i)) s)), snd (issue V i id (fn (V i)) s))) s)"
proof -
  have "(case at_worker i (on_worker (fn (V i))) s of
          (Inl e, s) \<Rightarrow> (Inl e, s)
        | (Inr raw, s) \<Rightarrow> registerSession V i raw s)
      = (map_sum id fst (fst (issue V i id (fn (V i)) s)), snd (issue V i id (fn (V i)) s))" for i s
    by (simp add: issue_def case_prod_beta prod_eq_iff split: sum.split)
  then show ?thesis by (simp only: create_def)
qed

lemma create_step:
  assumes "uint (nextHandle s) + 1 < 2 ^ 32" "issues c" "usable c (abs_table fl s)"
  shows "ht_step c (out_open (fst (create V F fn s))) (abs_table fl s) (abs_table fl (snd (create V F fn s)))"
  using submit_opens [where g = out_open and s = "snd (pickWorker s)" and c = c and F = F
      and f = "\<lambda>t. (map_sum id fst (fst (issue V (fst (pickWorker s)) id (fn (V (fst (pickWorker s)))) t)),
        snd (issue V (fst (pickWorker s)) id (fn (V (fst (pickWorker s)))) t))"]
    issue_opens [of "snd (pickWorker s)" V "fst (pickWorker s)" id "fn (V (fst (pickWorker s)))"] assms
  by (simp add: create_issue case_prod_beta)

lemma createConnect_step:
  assumes "uint (nextHandle s) + 1 < 2 ^ 32" "issues c" "usable c (abs_table fl s)"
  shows "ht_step c (out_open1 (fst (createConnect V F fn s))) (abs_table fl s) (abs_table fl (snd (createConnect V F fn s)))"
proof -
  let ?i = "fst (pickWorker s)"
  have o: "out_open1 (map_sum id (\<lambda>(p, x). (p, snd x)) r) = out_open (map_sum id fst r)" for r :: "(handle \<times> handle \<times> bool) poll_result"
    by (cases r) (auto simp: out_open_def out_open1_def)
  show ?thesis
    using submit_opens [where g = out_open1 and s = "snd (pickWorker s)" and c = c and F = F
        and f = "\<lambda>t. (map_sum id (\<lambda>(p, x). (p, snd x)) (fst (issue V ?i fst (fn (V ?i)) t)), snd (issue V ?i fst (fn (V ?i)) t))"]
      issue_opens [of "snd (pickWorker s)" V ?i fst "fn (V ?i)"] assms
    by (simp add: createConnect_issue case_prod_beta o)
qed

lemma accept_step:
  assumes "uint (nextHandle s) + 1 < 2 ^ 32" "lookupShardedListener l s = None"
  shows "ht_step (Req (M2Accept l)) (out_open1 (fst (accept_attempt V F l s))) (abs_table fl s) (abs_table fl (snd (accept_attempt V F l s)))"
proof (cases "map_of (owners s) l")
  case None
  then show ?thesis by (auto simp: accept_attempt_def with_lookup_def lookup_def usable_def intro!: ht_closed)
next
  case (Some x)
  then obtain i raw where x: "x = SessionRef i raw" using assms(2) by (cases x) (auto simp: lookupShardedListener_def)
  let ?f = "\<lambda>s. case at_worker i (ownedRaw (V i) l raw) s of
         (Inl e, s) \<Rightarrow> (Inl e, s)
       | (Inr raw, s) \<Rightarrow>
           (case at_worker i (on_worker (rawAcceptFull (V i) raw)) s of
              (Inl e, s) \<Rightarrow> (Inl e, s)
            | (Inr (conn, addr), s) \<Rightarrow>
                (case registerSession V i conn s of
                   (Inl e, s) \<Rightarrow> (Inl e, s)
                 | (Inr public, s) \<Rightarrow> (Inr (public, addr), s)))"
  let ?s1 = "snd (at_worker i (ownedRaw (V i) l raw) s)"
  have body: "table_opens (out_open1 (fst (?f s))) (abs_table fl s) (abs_table fl (snd (?f s)))"
  proof (cases "fst (at_worker i (ownedRaw (V i) l raw) s)")
    case (Inl e)
    then show ?thesis by (simp add: case_prod_beta table_opens_def)
  next
    case (Inr raw')
    let ?x = "issue V i fst (rawAcceptFull (V i) raw') ?s1"
    have "?f s = (map_sum id (\<lambda>(p, x). (p, snd x)) (fst ?x), snd ?x)"
      using Inr by (simp add: issue_def case_prod_beta prod_eq_iff split: sum.split)
    moreover have "out_open1 (map_sum id (\<lambda>(p, x). (p, snd x)) r) = out_open (map_sum id fst r)"
      for r :: "(handle \<times> handle \<times> AddrInfo) poll_result"
      by (cases r) (auto simp: out_open_def out_open1_def)
    ultimately show ?thesis using issue_opens [of ?s1 V i fst "rawAcceptFull (V i) raw'"] assms(1) by simp
  qed
  have "accept_attempt V F l s = submit F ?f s"
    using Some x by (simp add: accept_attempt_def with_lookup_def lookup_def)
  then show ?thesis
    using submit_opens [where g = out_open1 and f = ?f and s = s and c = "Req (M2Accept l)" and F = F, OF body] Some
    by (simp add: usable_def domI)
qed

lemma out_done_cases: "out_done r = Done \<or> (\<exists>e. out_done r = Failed e)" "out_done (Inl e) = Failed e"
  by (auto simp: out_done_def split: sum.split)

lemma abs_close [simp]: "abs_table fl (snd (close_raw V i raw s)) = abs_table fl s"
  by (simp add: abs_table_def)

lemma abs_unregister: "abs_table fl (unregisterSession i h s) = (abs_table fl s)\<lparr>ht_open := ht_open (abs_table fl s) - {h}\<rparr>"
  by (auto simp: abs_table_def AList.delete_conv' split: if_splits)

lemma close_step:
  assumes "lookupShardedListener h s = None"
  shows "ht_step (Req (M2Close h)) (out_done (fst (closeSessionHandle V F h s))) (abs_table fl s) (abs_table fl (snd (closeSessionHandle V F h s)))"
proof (cases "map_of (owners s) h")
  case None
  then show ?thesis
    by (auto simp: closeSessionHandle_def with_lookup_def lookup_def usable_def out_done_def intro!: ht_closed)
next
  case (Some x)
  then obtain i raw where x: "x = SessionRef i raw" using assms by (cases x) (auto simp: lookupShardedListener_def)
  let ?f = "\<lambda>s. case at_worker i (ownedRaw (V i) h raw) s of
         (Inl e, s) \<Rightarrow> (Inl e, s)
       | (Inr raw, s) \<Rightarrow>
           (let (_, s) = at_worker i (\<lambda>w. ((), removeWaiters (V i) h raw w)) s;
                (closeErr, s) = close_raw V i raw s
            in (closeErr, unregisterSession i h s))"
  have eq: "closeSessionHandle V F h s = submit F ?f s"
    using Some x by (simp add: closeSessionHandle_def with_lookup_def lookup_def)
  have "h \<in> ht_open (abs_table fl s)" using Some by auto
  note opened = this
  have steps: "ht_step (Req (M2Close h)) (out_done r) (abs_table fl s) ((abs_table fl s)\<lparr>ht_open := ht_open (abs_table fl s) - {h}\<rparr>)"
    for r :: "unit poll_result"
    using out_done_cases(1) [of r] ht_close [OF opened, of "out_done r" _ "{#}" "{}"] by (auto simp: abs_table_def)
  note fails = ht_close_fail [OF opened]
  have f: "abs_table fl (snd (?f s)) = (abs_table fl s)\<lparr>ht_open := ht_open (abs_table fl s) - {h}\<rparr>
      \<or> abs_table fl (snd (?f s)) = abs_table fl s \<and> (\<exists>e. fst (?f s) = Inl e)"
    by (cases "fst (at_worker i (ownedRaw (V i) h raw) s)") (auto simp: case_prod_beta Let_def abs_unregister)
  show ?thesis unfolding eq
  proof (cases rule: submit_cases [of F ?f s])
    case 1
    with fails show "ht_step (Req (M2Close h)) (out_done (fst (submit F ?f s))) (abs_table fl s) (abs_table fl (snd (submit F ?f s)))"
      by (simp add: out_done_cases(2))
  next
    case 2
    with fails steps [of "Inl PollErrClosed"] f
    show "ht_step (Req (M2Close h)) (out_done (fst (submit F ?f s))) (abs_table fl s) (abs_table fl (snd (submit F ?f s)))"
      by (auto simp: out_done_cases(2))
  next
    case 3
    with steps fails f show "ht_step (Req (M2Close h)) (out_done (fst (submit F ?f s))) (abs_table fl s) (abs_table fl (snd (submit F ?f s)))"
      by (auto simp: out_done_cases(2))
  qed
qed

lemma sessionCall_step:
  assumes "on_handle c = Some h" "\<not> issues c" "\<And>k. c \<noteq> Req (M2Close k)"
  shows "ht_step c (out_done (fst (sessionCall V F h fn s))) (abs_table fl s) (abs_table fl (snd (sessionCall V F h fn s)))"
proof -
  note fr = sessionCall_frame [of h s V F fn]
  then have same: "abs_table fl (snd (sessionCall V F h fn s)) = abs_table fl s" by (simp add: abs_table_def only_owner_def)
  show ?thesis
  proof (cases "map_of (owners s) h")
    case None
    with fr assms(1) show ?thesis by (auto simp: out_done_def usable_def intro!: ht_closed)
  next
    case (Some x)
    with assms(1) have "usable c (abs_table fl s)" by (auto simp: usable_def)
    with assms same out_done_cases(1) show ?thesis by (metis ht_use)
  qed
qed

text \<open>The requests on sessions.\<close>

lemma m2_exec_step:
  assumes "uint (nextHandle s) + 1 < 2 ^ 32" "\<And>h. c = M2Accept h \<or> c = M2Close h \<Longrightarrow> lookupShardedListener h s = None"
  shows "ht_step (Req c) (fst (m2_exec V F c s)) (abs_table fl s) (abs_table fl (snd (m2_exec V F c s)))"
  using assms(2)
  by (cases c) (simp_all add: create_step [OF assms(1)] createConnect_step [OF assms(1)] accept_step [OF assms(1)]
      close_step sessionCall_step usable_def mode2_bindUDP4_def mode2_bindUDP6_def mode2_connectTCP4Start_def
      mode2_connectTCP6Start_def mode2_connectTLS4Start_def mode2_connectTLS6Start_def mode2_connectUDP4Start_def
      mode2_connectUDP6Start_def session_op_defs)

section \<open>Listeners\<close>

text \<open>What an accept answers the client.\<close>

fun out_given :: "handle \<times> AddrInfo \<times> vclpoll_error option \<Rightarrow> m2_out" where
  "out_given (h, a, None) = Given h"
| "out_given (h, a, Some e) = Failed e"

text \<open>A client's request, on either kind of handle. \<open>G\<close>: whether the \<open>select\<close> of an accept takes a result that is
  ready. A listener is closed in one step, when its loops have returned: what they and the consumers
  do before that comes before it in the run.\<close>

fun client_exec :: "(nat \<Rightarrow> cgo) \<Rightarrow> (mode2 \<Rightarrow> submit_fate) \<Rightarrow> (mode2 \<Rightarrow> bool) \<Rightarrow> m2_cmd \<Rightarrow> mode2 \<Rightarrow> m2_out \<times> mode2" where
  "client_exec V F G (M2Accept l) s = (case lookupShardedListener l s of
       Some n \<Rightarrow> map_prod out_given id (sharded_accept (\<lambda>_ s. (G s, s)) n s)
     | None \<Rightarrow> m2_exec V F (M2Accept l) s)"
| "client_exec V F G (M2Close h) s = map_prod out_done id (mode2_close V F (\<lambda>_ s. s) h s)"
| "client_exec V F G c s = m2_exec V F c s"

text \<open>One command on the dispatcher and the connections the accept loops are about to send.\<close>

fun d_exec :: "(nat \<Rightarrow> cgo) \<Rightarrow> (mode2 \<Rightarrow> submit_fate) \<Rightarrow> (mode2 \<Rightarrow> bool) \<Rightarrow> d_cmd \<Rightarrow> mode2 \<times> handle list
    \<Rightarrow> m2_out \<times> mode2 \<times> handle list" where
  "d_exec V F G (Req c) (s, fl) = (case client_exec V F G c s of (r, s) \<Rightarrow> (r, s, fl))"
| "d_exec V F G (Listen l) (s, fl) = (case mode2_listen V F l s of (r, s) \<Rightarrow> (out_open r, s, fl))"
| "d_exec V F G (LoopAccept i raw) (s, fl) = (case submit F (shard_accept V i raw) s of
       (Inr (h, a), s) \<Rightarrow> (Accepted h, s, h # fl)
     | (Inl e, s) \<Rightarrow> (Failed e, s, fl))"
| "d_exec V F G (LoopSend n r) (s, fl) =
     (if n < length (listeners s) \<and> (sa_err r = None \<longrightarrow> sa_handle r \<in> set fl) then
        (Done, set_sl n (\<lambda>sl. sl\<lparr>sl_acceptC := sl_acceptC sl @ [r]\<rparr>) s, if sa_err r = None then remove1 (sa_handle r) fl else fl)
      else (Done, s, fl))"
| "d_exec V F G (LoopDrop h) (s, fl) = (Done, s, remove1 h fl)"

text \<open>The table knows each listener under its own handle.\<close>

definition listeners_ok :: "mode2 \<Rightarrow> bool" where
  "listeners_ok s \<longleftrightarrow> (\<forall>h n. map_of (owners s) h = Some (ShardedRef n) \<longrightarrow> n < length (listeners s) \<and> sl_public (listeners s ! n) = h)"

definition refs_from :: "mode2 \<Rightarrow> mode2 \<Rightarrow> bool" where
  "refs_from s s' \<longleftrightarrow> listeners s' = listeners s
     \<and> (\<forall>h n. map_of (owners s') h = Some (ShardedRef n) \<longrightarrow> map_of (owners s) h = Some (ShardedRef n))"

lemma listeners_ok_from: "listeners_ok s \<Longrightarrow> refs_from s s' \<Longrightarrow> listeners_ok s'"
  unfolding listeners_ok_def refs_from_def by metis

lemma refs_from_refl [simp]: "refs_from s s"
  by (simp add: refs_from_def)

lemma refs_from_ops [simp]:
  "refs_from s (snd (at_worker i f t)) = refs_from s t" "refs_from s (snd (pickWorker t)) = refs_from s t"
  "refs_from s (snd (close_raw V i raw t)) = refs_from s t" "refs_from s (t\<lparr>d_panicked := b\<rparr>) = refs_from s t"
  by (simp_all add: refs_from_def pickWorker_def)

lemma refs_from_register: "refs_from s t \<Longrightarrow> refs_from s (snd (registerSession V i raw t))"
  by (auto simp: registerSession_def refs_from_def case_prod_beta Let_def update_conv' split: sum.split)

lemma refs_from_unregister: "refs_from s t \<Longrightarrow> refs_from s (unregisterSession i h t)"
  by (auto simp: unregisterSession_def refs_from_def Let_def AList.delete_conv' split: if_splits)

lemma m2_exec_refs: "refs_from s (snd (m2_exec V F c s))"
proof -
  have create: "refs_from s (snd (create V F fn s))" for fn
    unfolding create_def
    by (auto simp: case_prod_beta split: sum.split intro!: submit_inv [where P = "refs_from s"] refs_from_register)
  have connect: "refs_from s (snd (createConnect V F fn s))" for fn
    unfolding createConnect_def
    by (auto simp: case_prod_beta split: sum.split intro!: submit_inv [where P = "refs_from s"] refs_from_register)
  have accept: "refs_from s (snd (accept_attempt V F l s))" for l
    unfolding accept_attempt_def with_lookup_def
    by (auto simp: case_prod_beta split: sum.split option.split intro!: submit_inv [where P = "refs_from s"] refs_from_register)
  have close: "refs_from s (snd (closeSessionHandle V F h s))" for h
    unfolding closeSessionHandle_def with_lookup_def
    by (auto simp: case_prod_beta Let_def split: sum.split option.split intro!: submit_inv [where P = "refs_from s"] refs_from_unregister)
  have session: "refs_from s (snd (sessionCall V F h fn s))" for h and fn :: "cgo \<Rightarrow> handle \<Rightarrow> worker \<Rightarrow> 'a poll_result \<times> worker"
    using sessionCall_frame [of h s V F fn] by (simp add: refs_from_def)
  show ?thesis
    by (cases c) (simp_all add: create connect accept close session mode2_bindUDP4_def mode2_bindUDP6_def mode2_connectTCP4Start_def
      mode2_connectTCP6Start_def mode2_connectTLS4Start_def mode2_connectTLS6Start_def mode2_connectUDP4Start_def
      mode2_connectUDP6Start_def session_op_defs)
qed

lemma m2_exec_next: "uint (nextHandle s) + 1 < 2 ^ 32 \<Longrightarrow> uint (nextHandle (snd (m2_exec V F c s))) \<le> uint (nextHandle s) + 1"
proof -
  assume lt: "uint (nextHandle s) + 1 < 2 ^ 32"
  have "snd (m2_exec V F c s) = snd (m2_step V F c s)" by (cases c) simp_all
  with m2_step_counts [of V F c s] lt show ?thesis by (auto simp: counts_def)
qed

text \<open>The channels.\<close>

lemma queued_set_sl:
  assumes "n < length (listeners s)"
  shows "mset (queued (set_sl n f s)) + mset (conns (sl_acceptC (listeners s ! n))) = mset (queued s) + mset (conns (sl_acceptC (f (listeners s ! n))))"
  using mset_concat_update [OF assms refl, of "\<lambda>sl. conns (sl_acceptC sl)" "f (listeners s ! n)"] by (simp add: queued_def set_sl_def)

lemma set_sl_sel [simp]:
  "owners (set_sl n f s) = owners s" "nextHandle (set_sl n f s) = nextHandle s" "length (listeners (set_sl n f s)) = length (listeners s)"
  "n < length (listeners s) \<Longrightarrow> listeners (set_sl n f s) ! n = f (listeners s ! n)"
  by (simp_all add: set_sl_def)

lemma set_sl_public: "(\<And>sl. sl_public (f sl) = sl_public sl) \<Longrightarrow> sl_public (listeners (set_sl n f s) ! m) = sl_public (listeners s ! m)"
  by (cases "n < length (listeners s)"; cases "m = n") (simp_all add: set_sl_def list_update_beyond)

lemma listeners_ok_set_sl: "(\<And>sl. sl_public (f sl) = sl_public sl) \<Longrightarrow> listeners_ok s \<Longrightarrow> listeners_ok (set_sl n f s)"
  by (simp add: listeners_ok_def set_sl_public)

text \<open>Accepting on a listener.\<close>

lemma ht_same: "issues c \<Longrightarrow> usable c t \<Longrightarrow> ht_step c (Failed e) t t"
  using ht_fail [of c t "ht_last t" e] by simp

lemma sharded_accept_step:
  assumes "lookupShardedListener l s = Some n" "listeners_ok s"
  shows "ht_step (Req (M2Accept l)) (out_given (fst (sharded_accept (\<lambda>_ s. (G s, s)) n s))) (abs_table fl s)
      (abs_table fl (snd (sharded_accept (\<lambda>_ s. (G s, s)) n s)))"
    "listeners_ok (snd (sharded_accept (\<lambda>_ s. (G s, s)) n s))"
    "nextHandle (snd (sharded_accept (\<lambda>_ s. (G s, s)) n s)) = nextHandle s"
proof -
  have l: "map_of (owners s) l = Some (ShardedRef n)"
    using assms(1) by (auto simp: lookupShardedListener_def split: option.splits owner.splits)
  then have n: "n < length (listeners s)" and u: "usable (Req (M2Accept l)) (abs_table fl s)"
    using assms(2) by (auto simp: listeners_ok_def usable_def)
  let ?x = "sharded_accept (\<lambda>_ s. (G s, s)) n s" and ?t = "abs_table fl s"
  have same: "ht_step (Req (M2Accept l)) (Failed e) ?t ?t" for e by (rule ht_same [OF _ u]) simp
  show "ht_step (Req (M2Accept l)) (out_given (fst ?x)) ?t (abs_table fl (snd ?x))"
  proof (cases "\<exists>r rs. sl_acceptC (listeners s ! n) = r # rs \<and> G s")
    case True
    then obtain r rs where q: "sl_acceptC (listeners s ! n) = r # rs" "G s" by blast
    let ?s = "set_sl n (\<lambda>sl. sl\<lparr>sl_acceptC := rs\<rparr>) s"
    have x: "?x = (accept_answer (Some r), ?s)" using q by (simp add: sharded_accept_def)
    have m: "mset (queued ?s) + mset (conns [r]) = mset (queued s)"
      using queued_set_sl [OF n, of "\<lambda>sl. sl\<lparr>sl_acceptC := rs\<rparr>"] q(1) by (simp split: if_splits)
    show ?thesis
    proof (cases "sa_err r")
      case None
      with m have g: "abs_table fl ?s = ?t\<lparr>ht_pool := ht_pool ?t - {#sa_handle r#}\<rparr>" "sa_handle r \<in># ht_pool ?t"
        by (auto simp: abs_table_def simp flip: m)
      have "ht_step (Req (M2Accept l)) (Given (sa_handle r)) ?t (abs_table fl ?s)"
        unfolding g(1) by (rule ht_give [OF _ g(2)]) (use l in auto)
      with None show ?thesis unfolding x by simp
    next
      case (Some e)
      with m have "abs_table fl ?s = ?t" by (simp add: abs_table_def)
      with Some same show ?thesis unfolding x by simp
    qed
  next
    case False
    then have "?x = (accept_answer None, s)" by (auto simp: sharded_accept_def split: list.split)
    with same show ?thesis by simp
  qed
  show "listeners_ok (snd ?x)" "nextHandle (snd ?x) = nextHandle s"
    using assms(2) by (auto simp: sharded_accept_def case_prod_beta intro!: listeners_ok_set_sl split: list.split)
qed

text \<open>Closing a listener.\<close>

lemma closes_owners:
  "nextHandle (fold (\<lambda>h s. snd (closeSessionHandle V F h s)) hs s) = nextHandle s"
  "map_of (owners (fold (\<lambda>h s. snd (closeSessionHandle V F h s)) hs s)) k \<in> {None, map_of (owners s) k}"
  "k \<notin> set hs \<Longrightarrow> map_of (owners (fold (\<lambda>h s. snd (closeSessionHandle V F h s)) hs s)) k = map_of (owners s) k"
proof -
  have c: "nextHandle (snd (closeSessionHandle V F h s)) = nextHandle s" for h s
    unfolding closeSessionHandle_def with_lookup_def
    by (auto simp: case_prod_beta Let_def unregisterSession_def split: sum.split option.split
        intro!: submit_inv [where P = "\<lambda>t. nextHandle t = nextHandle s"])
  show "nextHandle (fold (\<lambda>h s. snd (closeSessionHandle V F h s)) hs s) = nextHandle s"
    by (induction hs arbitrary: s) (simp_all add: c)
  have o: "map_of (owners (snd (closeSessionHandle V F h s))) k \<in> {None, map_of (owners s) k}"
    "k \<noteq> h \<Longrightarrow> map_of (owners (snd (closeSessionHandle V F h s))) k = map_of (owners s) k" for h s
    using closeSessionHandle_owners [of V F h s] by (auto simp: AList.delete_conv')
  show "map_of (owners (fold (\<lambda>h s. snd (closeSessionHandle V F h s)) hs s)) k \<in> {None, map_of (owners s) k}"
  proof (induction hs arbitrary: s)
    case (Cons h hs)
    from Cons.IH [of "snd (closeSessionHandle V F h s)"] o(1) [of h s] show ?case by auto
  qed simp
  show "k \<notin> set hs \<Longrightarrow> map_of (owners (fold (\<lambda>h s. snd (closeSessionHandle V F h s)) hs s)) k = map_of (owners s) k"
    by (induction hs arbitrary: s) (simp_all add: o(2))
qed

lemma closeRawShards_next [simp]: "nextHandle (snd (closeRawShards V F shards s)) = nextHandle s"
proof (induction shards arbitrary: s)
  case (Cons x shards)
  obtain i raw where x: "x = (i, raw)" by fastforce
  have "nextHandle (snd (submit F (\<lambda>s. close_raw V i raw
            (snd (at_worker i (\<lambda>w. ((), removeWaitersRaw (V i) raw w)) s))) s)) = nextHandle s"
    by (rule submit_inv [where P = "\<lambda>t. nextHandle t = nextHandle s"]) simp_all
  with Cons show ?case by (simp add: x case_prod_beta Let_def)
qed simp

text \<open>The end of the close: the queue is empty, and of its connections and the listener's handle some are gone.\<close>

lemma finish_sel:
  assumes n: "n < length (listeners s)" and fin: "closeShardedListener_finish V F n s = (e, s')"
  defines "q \<equiv> conns (sl_acceptC (listeners s ! n))"
  shows "nextHandle s' = nextHandle s" "map_of (owners s') (sl_public (listeners s ! n)) = None"
    "map_of (owners s') k \<in> {None, map_of (owners s) k}"
    "k \<notin> set q \<Longrightarrow> k \<noteq> sl_public (listeners s ! n) \<Longrightarrow> map_of (owners s') k = map_of (owners s) k"
    "mset (queued s') + mset q = mset (queued s)" "length (listeners s') = length (listeners s)"
    "sl_public (listeners s' ! m) = sl_public (listeners s ! m)"
proof -
  let ?s0 = "set_sl n (\<lambda>sl. sl\<lparr>sl_acceptC := []\<rparr>) s"
  let ?s1 = "fold (\<lambda>h s. snd (closeSessionHandle V F h s)) q ?s0"
  have l: "listeners s' = listeners ?s0"
    using finish_listeners [of V F n s] fin by (simp add: set_sl_def)
  have l1: "listeners ?s1 = listeners ?s0"
    using closeDrained_listeners [of V F "sl_acceptC (listeners s ! n)" ?s0] by (simp add: closeDrained_def q_def)
  have o: "owners s' = AList.delete (sl_public (listeners s ! n)) (owners ?s1)" "nextHandle s' = nextHandle ?s1"
    using fin l1 n by (auto simp: closeShardedListener_finish_def closeDrained_def case_prod_beta Let_def q_def)
  note c = closes_owners(1) [where V = V and F = F and hs = q and s = ?s0]
    closes_owners(2,3) [where V = V and F = F and hs = q and s = ?s0 and k = k]
  show "nextHandle s' = nextHandle s" "map_of (owners s') (sl_public (listeners s ! n)) = None"
    "map_of (owners s') k \<in> {None, map_of (owners s) k}"
    "k \<notin> set q \<Longrightarrow> k \<noteq> sl_public (listeners s ! n) \<Longrightarrow> map_of (owners s') k = map_of (owners s) k"
    using c by (auto simp: o AList.delete_conv')
  show "mset (queued s') + mset q = mset (queued s)"
    using queued_set_sl [OF n, of "\<lambda>sl. sl\<lparr>sl_acceptC := []\<rparr>"] queued_cong [OF l] by (simp add: q_def)
  show "length (listeners s') = length (listeners s)" by (simp add: l)
  show "sl_public (listeners s' ! m) = sl_public (listeners s ! m)" by (simp add: l set_sl_public)
qed

lemma sharded_close_step:
  fixes V :: "nat \<Rightarrow> cgo" and F :: "mode2 \<Rightarrow> submit_fate"
  assumes "lookupShardedListener h s = Some n" "listeners_ok s"
  defines "x \<equiv> mode2_close V F (\<lambda>_ s. s) h s"
  shows "ht_step (Req (M2Close h)) (out_done (fst x)) (abs_table fl s) (abs_table fl (snd x))"
    "listeners_ok (snd x)" "nextHandle (snd x) = nextHandle s"
proof -
  have l: "map_of (owners s) h = Some (ShardedRef n)"
    using assms(1) by (auto simp: lookupShardedListener_def split: option.splits owner.splits)
  then have n: "n < length (listeners s)" and pub: "sl_public (listeners s ! n) = h"
    using assms(2) by (auto simp: listeners_ok_def)
  have h: "h \<in> ht_open (abs_table fl s)" using l by auto
  have "ht_step (Req (M2Close h)) (out_done (fst x)) (abs_table fl s) (abs_table fl (snd x))
    \<and> listeners_ok (snd x) \<and> nextHandle (snd x) = nextHandle s"
  proof (cases "sl_stopped (listeners s ! n)")
    case True
    then have x: "fst x = Inl (Errorf ''panic: close of closed channel'')" "snd x = s\<lparr>d_panicked := True\<rparr>"
      using assms(1) by (simp_all add: x_def mode2_close_def closeShardedListener_def)
    have eq: "abs_table fl (s\<lparr>d_panicked := True\<rparr>) = abs_table fl s" by (simp add: abs_table_def)
    have "ht_step (Req (M2Close h)) (out_done (fst x)) (abs_table fl s) (abs_table fl (snd x))"
      unfolding x out_done_cases(2) eq by (rule ht_close_fail [OF h])
    moreover have "listeners_ok (snd x)" by (rule listeners_ok_from [OF assms(2)]) (simp add: x)
    ultimately show ?thesis by (simp add: x)
  next
    case False
    let ?s0 = "set_sl n (\<lambda>sl. sl\<lparr>sl_stopped := True\<rparr>) s"
    obtain e s' where fin: "closeShardedListener_finish V F n ?s0 = (e, s')" by fastforce
    have x: "fst x = (case e of None \<Rightarrow> Inr () | Some e \<Rightarrow> Inl e)" "snd x = s'"
      using assms(1) False fin by (simp_all add: x_def mode2_close_def closeShardedListener_def split: option.split)
    have n0: "n < length (listeners ?s0)" using n by simp
    note f = finish_sel(1,2,5-7) [OF n0 fin] finish_sel(3,4) [OF n0 fin]
    let ?q = "conns (sl_acceptC (listeners s ! n))" and ?t = "abs_table fl s"
    let ?S = "ht_open ?t - {h} - dom (map_of (owners s'))"
    have q: "mset (queued s') + mset ?q = mset (queued s)"
      using f(3) queued_set_sl [OF n, of "\<lambda>sl. sl\<lparr>sl_stopped := True\<rparr>"] n by simp
    have "k \<in> dom (map_of (owners s)) \<and> k \<noteq> h" if "k \<in> dom (map_of (owners s'))" for k
      using that f(2) f(6) [of k] n pub by auto
    then have "dom (map_of (owners s')) = ht_open ?t - {h} - ?S" by auto
    then have t': "abs_table fl s' = ?t\<lparr>ht_open := ht_open ?t - {h} - ?S, ht_pool := ht_pool ?t - mset ?q\<rparr>"
      using f(1) by (simp add: abs_table_def flip: q)
    have taken: "mset ?q \<subseteq># ht_pool ?t" by (simp flip: q)
    have S: "?S \<subseteq> set_mset (mset ?q)"
    proof
      fix k assume "k \<in> ?S"
      then show "k \<in> set_mset (mset ?q)" using f(7) [of k] n pub by (cases "k \<in> set ?q") (auto simp: domIff)
    qed
    have "out_done (fst x) = Done \<or> out_done (fst x) = Failed (the e)"
      unfolding x by (cases e) (simp_all add: out_done_def)
    from ht_close [OF h this taken S] have "ht_step (Req (M2Close h)) (out_done (fst x)) ?t (abs_table fl s')" unfolding t' .
    moreover have "listeners_ok s'"
      unfolding listeners_ok_def
    proof (intro allI impI)
      fix k m assume "map_of (owners s') k = Some (ShardedRef m)"
      with f(6) [of k] have "map_of (owners s) k = Some (ShardedRef m)" by auto
      with assms(2) f(4,5) show "m < length (listeners s') \<and> sl_public (listeners s' ! m) = k"
        by (simp add: listeners_ok_def set_sl_public)
    qed
    ultimately show ?thesis using f(1) x by simp
  qed
  then show "ht_step (Req (M2Close h)) (out_done (fst x)) (abs_table fl s) (abs_table fl (snd x))"
    "listeners_ok (snd x)" "nextHandle (snd x) = nextHandle s" by simp_all
qed

text \<open>Opening a listener enters nothing in the table until all shards exist.\<close>

definition same_table :: "mode2 \<Rightarrow> mode2 \<Rightarrow> bool" where
  "same_table s s' \<longleftrightarrow> owners s' = owners s \<and> nextHandle s' = nextHandle s \<and> listeners s' = listeners s"

lemma same_table_ops [simp]:
  "same_table s s" "same_table s (snd (at_worker i f t)) = same_table s t" "same_table s (snd (close_raw V i raw t)) = same_table s t"
  by (simp_all add: same_table_def)

lemma closeShards_same: "same_table s t \<Longrightarrow> same_table s (snd (closeShards V F shards t))"
proof (induction shards arbitrary: t)
  case (Cons x shards)
  obtain i raw where x: "x = (i, raw)" by fastforce
  have "same_table s (snd (submit F (close_raw V i raw) t))"
    by (rule submit_inv [where P = "same_table s"]) (simp_all add: Cons.prems)
  from Cons.IH [OF this] show ?case by (simp add: x case_prod_beta split: sum.split)
qed simp

lemma createShards_same: "same_table s t \<Longrightarrow> same_table s (snd (createShards V F fn js shards t))"
proof (induction js arbitrary: t shards)
  case (Cons i js)
  have "same_table s (snd (createShard V fn i t))"
    using Cons.prems by (simp add: createShard_def case_prod_beta split: sum.split)
  with Cons.prems have "same_table s (snd (submit F (createShard V fn i) t))" by (rule submit_inv)
  from Cons.IH [OF this] closeShards_same [OF this] show ?case by (simp add: case_prod_beta split: sum.split)
qed simp

lemma listen_step:
  fixes V :: "nat \<Rightarrow> cgo" and F :: "mode2 \<Rightarrow> submit_fate" and l :: listen_call
  assumes "listeners_ok s" "uint (nextHandle s) + 1 < 2 ^ 31"
  defines "x \<equiv> mode2_listen V F l s"
  shows "ht_step (Listen l) (out_open (fst x)) (abs_table fl s) (abs_table fl (snd x))"
    "listeners_ok (snd x)" "uint (nextHandle (snd x)) \<le> uint (nextHandle s) + 1"
proof -
  obtain fn where "mode2_listen V F l s = newShardedListener V F fn s" using mode2_listen_sharded [of V F l s] by metis
  then have fn: "x = newShardedListener V F fn s" by (simp add: x_def)
  obtain q s1 where c: "createShards V F fn [0..<length (workers s)] [] s = (q, s1)" by fastforce
  have s1: "owners s1 = owners s" "nextHandle s1 = nextHandle s" "listeners s1 = listeners s"
    using createShards_same [of s s V F fn "[0..<length (workers s)]" "[]"] by (simp_all add: c same_table_def)
  have u: "usable (Listen l) t" for t by (simp add: usable_def)
  have "ht_step (Listen l) (out_open (fst x)) (abs_table fl s) (abs_table fl (snd x))
    \<and> listeners_ok (snd x) \<and> uint (nextHandle (snd x)) \<le> uint (nextHandle s) + 1"
  proof (cases q)
    case (Inl e)
    have "abs_table fl s1 = abs_table fl s" "listeners_ok s1"
      using assms(1) s1 by (simp_all add: abs_table_def queued_def listeners_ok_def)
    with Inl s1 ht_same [of "Listen l", OF _ u] show ?thesis by (simp add: fn newShardedListener_def c)
  next
    case (Inr shards)
    let ?id = "nextHandle s + 1"
    let ?sl = "\<lparr>sl_public = sint ?id, sl_shards = shards, sl_acceptC = [], sl_stopped = False\<rparr>"
    have x: "fst x = Inr (sint ?id)" "snd x = s1\<lparr>nextHandle := ?id, listeners := listeners s @ [?sl],
        owners := AList.update (sint ?id) (ShardedRef (length (listeners s))) (owners s)\<rparr>"
      using Inr s1 by (simp_all add: fn newShardedListener_def c Let_def)
    have uid: "uint ?id = uint (nextHandle s) + 1"
      using assms(2) uint_ge_0 [of "nextHandle s"] by (simp add: uint_word_ariths mod_pos_pos_trivial)
    then have nz: "?id \<noteq> 0" using uint_ge_0 [of "nextHandle s"] by (metis uint_0_eq add_nonneg_eq_0_iff zero_le_one zero_neq_one)
    from uid have "\<not> ?id > maxVirtualHandle" using assms(2) by (simp add: word_less_def maxVirtualHandle_def push_bit_eq_mult)
    note id = id_bounds [OF nz this]
    have "abs_table fl (snd x) = add_handle (sint ?id) (abs_table fl s)"
      by (auto simp: x abs_table_def add_handle_def queued_def update_conv' uid id(1))
    moreover have "ht_step (Listen l) (Issued (sint ?id)) (abs_table fl s) (add_handle (sint ?id) (abs_table fl s))"
      by (rule ht_issue) (use u id(1) assms(2) in auto)
    moreover have "listeners_ok (snd x)"
      using assms(1) by (auto simp: listeners_ok_def x update_conv' nth_append intro: less_SucI split: if_splits)
    ultimately show ?thesis by (simp add: x uid out_open_def)
  qed
  then show "ht_step (Listen l) (out_open (fst x)) (abs_table fl s) (abs_table fl (snd x))"
    "listeners_ok (snd x)" "uint (nextHandle (snd x)) \<le> uint (nextHandle s) + 1" by simp_all
qed

text \<open>The accept loops.\<close>

lemma shard_accept_issue:
  "shard_accept V i raw s = (map_sum id (\<lambda>(p, x). (p, snd x)) (fst (issue V i fst (rawAcceptFull (V i) raw) s)),
     snd (issue V i fst (rawAcceptFull (V i) raw) s))"
  by (simp add: shard_accept_def issue_def case_prod_beta prod_eq_iff split: sum.split)

lemma loop_accept_step:
  assumes "uint (nextHandle s) + 1 < 2 ^ 32" and x: "d_exec V F G (LoopAccept i raw) (s, fl) = (r, s', fl')"
  shows "ht_step (LoopAccept i raw) r (abs_table fl s) (abs_table fl' s')"
proof -
  let ?f = "shard_accept V i raw" and ?c = "LoopAccept i raw"
  have u: "usable ?c t" for t by (simp add: usable_def)
  have o: "out_open1 (map_sum id (\<lambda>(p, x). (p, snd x)) q) = out_open (map_sum id fst q)" for q :: "(handle \<times> handle \<times> AddrInfo) poll_result"
    by (cases q) (auto simp: out_open_def out_open1_def)
  have body: "table_opens (out_open1 (fst (?f s))) (abs_table fl s) (abs_table fl (snd (?f s)))"
    unfolding shard_accept_issue fst_conv snd_conv o by (rule issue_opens [OF assms(1)])
  show ?thesis
  proof (cases "fst (submit F ?f s)")
    case (Inl e)
    have "ht_step ?c (out_open1 (fst (submit F ?f s))) (abs_table fl s) (abs_table fl (snd (submit F ?f s)))"
      by (rule submit_opens [where g = out_open1 and f = ?f and s = s, OF body]) (simp_all add: u)
    with x Inl show ?thesis by (auto simp: case_prod_beta)
  next
    case (Inr y)
    from submit_Inr [OF this] have eq: "submit F ?f s = ?f s" .
    with Inr body have t: "uint (nextHandle s) < fst y" "fst y < 2 ^ 31"
      "abs_table fl (snd (?f s)) = add_handle (fst y) (abs_table fl s)"
      by (auto simp: table_opens_def out_open1_def split: prod.splits)
    have r: "r = Accepted (fst y)" "s' = snd (?f s)" "fl' = fst y # fl"
      using x Inr unfolding d_exec.simps eq by (auto simp: case_prod_beta)
    have "abs_table fl' s' = (abs_table fl (snd (?f s)))\<lparr>ht_pool := add_mset (fst y) (ht_pool (abs_table fl (snd (?f s))))\<rparr>"
      by (simp add: r abs_table_def)
    also have "\<dots> = (add_handle (fst y) (abs_table fl s))\<lparr>ht_pool := add_mset (fst y) (ht_pool (abs_table fl s))\<rparr>"
      unfolding t(3) by (simp add: add_handle_def)
    finally show ?thesis unfolding r(1) by (simp only:) (rule ht_accepted; use t in simp)
  qed
qed

section \<open>The dispatcher refines the table\<close>

text \<open>The commands \<open>cs\<close> do not wrap the 32-bit counter; where a listen is among them, whose handle is not checked,
  they do not pass the sign bit.\<close>

definition in_range :: "d_cmd list \<Rightarrow> mode2 \<times> handle list \<Rightarrow> bool" where
  "in_range cs x \<longleftrightarrow> listeners_ok (fst x)
     \<and> uint (nextHandle (fst x)) + int (length cs) < (if \<exists>l. Listen l \<in> set cs then 2 ^ 31 else 2 ^ 32)"

definition abs_d :: "mode2 \<times> handle list \<Rightarrow> handleTable" where
  "abs_d x = abs_table (snd x) (fst x)"

lemma client_exec_step:
  assumes "uint (nextHandle s) + 1 < 2 ^ 32" "listeners_ok s" and x: "client_exec V F G c s = (r, s')"
  shows "ht_step (Req c) r (abs_table fl s) (abs_table fl s')" "listeners_ok s'" "uint (nextHandle s') \<le> uint (nextHandle s) + 1"
proof -
  have m2: "ht_step (Req c) r (abs_table fl s) (abs_table fl s') \<and> listeners_ok s' \<and> uint (nextHandle s') \<le> uint (nextHandle s) + 1"
    if "m2_exec V F c s = (r, s')" "\<And>h. c = M2Accept h \<or> c = M2Close h \<Longrightarrow> lookupShardedListener h s = None"
  proof -
    have "ht_step (Req c) (fst (m2_exec V F c s)) (abs_table fl s) (abs_table fl (snd (m2_exec V F c s)))"
      by (rule m2_exec_step [OF assms(1)]) (rule that(2))
    then show ?thesis
      using listeners_ok_from [OF assms(2) m2_exec_refs, of V F c] m2_exec_next [OF assms(1), of V F c] by (simp add: that(1))
  qed
  have "ht_step (Req c) r (abs_table fl s) (abs_table fl s') \<and> listeners_ok s' \<and> uint (nextHandle s') \<le> uint (nextHandle s) + 1"
  proof (cases "\<exists>h n. (c = M2Accept h \<or> c = M2Close h) \<and> lookupShardedListener h s = Some n")
    case True
    then obtain h n where c: "c = M2Accept h \<or> c = M2Close h" and n: "lookupShardedListener h s = Some n" by blast
    from c show ?thesis
    proof
      assume c: "c = M2Accept h"
      with x n have "r = out_given (fst (sharded_accept (\<lambda>_ s. (G s, s)) n s))" "s' = snd (sharded_accept (\<lambda>_ s. (G s, s)) n s)"
        by (simp_all add: prod_eq_iff)
      with sharded_accept_step [OF n assms(2)] c show ?thesis by simp
    next
      assume c: "c = M2Close h"
      with x have "r = out_done (fst (mode2_close V F (\<lambda>_ s. s) h s))" "s' = snd (mode2_close V F (\<lambda>_ s. s) h s)"
        by (simp_all add: prod_eq_iff)
      with sharded_close_step [OF n assms(2)] c show ?thesis by simp
    qed
  next
    case False
    have "client_exec V F G c s = m2_exec V F c s"
    proof (cases c)
      case (M2Accept h)
      with False show ?thesis by (cases "lookupShardedListener h s") auto
    next
      case (M2Close h)
      with False show ?thesis by (cases "lookupShardedListener h s") (auto simp: mode2_close_def)
    qed simp_all
    with x False m2 show ?thesis by (metis option.exhaust)
  qed
  then show "ht_step (Req c) r (abs_table fl s) (abs_table fl s')" "listeners_ok s'" "uint (nextHandle s') \<le> uint (nextHandle s) + 1"
    by simp_all
qed

lemma loop_send_step:
  assumes "d_exec V F G (LoopSend n q) (s, fl) = (r, s', fl')"
  shows "ht_step (LoopSend n q) r (abs_table fl s) (abs_table fl' s')" "listeners_ok s \<Longrightarrow> listeners_ok s'" "nextHandle s' = nextHandle s"
proof -
  have r: "r = Done" using assms by (auto split: if_splits)
  have "abs_table fl' s' = abs_table fl s"
  proof (cases "n < length (listeners s) \<and> (sa_err q = None \<longrightarrow> sa_handle q \<in> set fl)")
    case True
    let ?s = "set_sl n (\<lambda>sl. sl\<lparr>sl_acceptC := sl_acceptC sl @ [q]\<rparr>) s"
    have "mset (queued ?s) = mset (queued s) + mset (conns [q])"
      using queued_set_sl [of n s "\<lambda>sl. sl\<lparr>sl_acceptC := sl_acceptC sl @ [q]\<rparr>"] True by simp
    moreover have "mset fl = add_mset (sa_handle q) (mset (remove1 (sa_handle q) fl))" if "sa_err q = None"
      using True that by simp
    ultimately show ?thesis using assms True by (auto simp: abs_table_def split: if_splits)
  next
    case False
    with assms show ?thesis by auto
  qed
  then show "ht_step (LoopSend n q) r (abs_table fl s) (abs_table fl' s')" unfolding r by (simp add: ht_send)
  show "listeners_ok s \<Longrightarrow> listeners_ok s'" "nextHandle s' = nextHandle s"
    using assms by (auto intro: listeners_ok_set_sl split: if_splits)
qed

lemma shard_accept_keeps:
  assumes "listeners_ok s" "uint (nextHandle s) + 1 < 2 ^ 32"
  shows "listeners_ok (snd (submit F (shard_accept V i raw) s))" "uint (nextHandle (snd (submit F (shard_accept V i raw) s))) \<le> uint (nextHandle s) + 1"
proof -
  have "refs_from s (snd (shard_accept V i raw s))"
    by (auto simp: shard_accept_def case_prod_beta split: sum.split intro!: refs_from_register)
  from submit_inv [where P = "refs_from s" and f = "shard_accept V i raw" and s = s and F = F, OF refs_from_refl this] show "listeners_ok (snd (submit F (shard_accept V i raw) s))"
    by (rule listeners_ok_from [OF assms(1)])
  let ?s1 = "snd (at_worker i (on_worker (rawAcceptFull (V i) raw)) s)"
  have "uint (nextHandle (snd (shard_accept V i raw s))) \<le> uint (nextHandle s) + 1"
    using assms(2) registerSession_counts [of V i _ ?s1]
    by (auto simp: shard_accept_def case_prod_beta counts_def split: sum.split) (smt (verit) at_worker_sel(4))+
  then show "uint (nextHandle (snd (submit F (shard_accept V i raw) s))) \<le> uint (nextHandle s) + 1"
    by (intro submit_inv [where P = "\<lambda>t. uint (nextHandle t) \<le> uint (nextHandle s) + 1"]) simp_all
qed

lemma d_exec_step:
  assumes inv: "in_range (c # cs) (s, fl)" and x: "d_exec V F G c (s, fl) = (r, s', fl')"
  shows "ht_step c r (abs_table fl s) (abs_table fl' s')" "in_range cs (s', fl')"
proof -
  have ok: "listeners_ok s" and lt: "uint (nextHandle s) + 1 < 2 ^ 32"
    using inv by (auto simp: in_range_def split: if_splits)
  have lt': "uint (nextHandle s) + 1 < 2 ^ 31" if "c = Listen l" for l
    using inv that by (auto simp: in_range_def split: if_splits)
  have "ht_step c r (abs_table fl s) (abs_table fl' s') \<and> listeners_ok s' \<and> uint (nextHandle s') \<le> uint (nextHandle s) + 1"
  proof (cases c)
    case (Req q)
    with x obtain y where "client_exec V F G q s = (r, s')" "fl' = fl" by (auto split: prod.splits)
    with client_exec_step [OF lt ok this(1)] Req show ?thesis by simp
  next
    case (Listen l)
    with x listen_step [OF ok lt' [OF Listen], where V = V and F = F and l = l] show ?thesis by (auto simp: case_prod_beta)
  next
    case (LoopAccept i raw)
    with x have "s' = snd (submit F (shard_accept V i raw) s)" by (auto split: prod.splits sum.splits)
    with shard_accept_keeps [OF ok lt, of F V i raw] loop_accept_step [OF lt x [unfolded LoopAccept]] LoopAccept show ?thesis by simp
  next
    case (LoopSend n q)
    with x loop_send_step [of V F G n q s fl r s' fl'] ok show ?thesis by simp
  next
    case (LoopDrop h)
    with x have r: "r = Done" "s' = s" "fl' = remove1 h fl" by auto
    have "ht_step (LoopDrop h) Done (abs_table fl s) (abs_table fl' s)"
    proof (cases "h \<in> set fl")
      case True
      then have "abs_table fl' s = (abs_table fl s)\<lparr>ht_pool := ht_pool (abs_table fl s) - {#h#}\<rparr>" by (simp add: r abs_table_def)
      then show ?thesis by (simp add: ht_drop del: abs_table_sel)
    next
      case False
      then show ?thesis by (simp add: r ht_drop_none remove1_idem)
    qed
    with LoopDrop r ok show ?thesis by simp
  qed
  then show "ht_step c r (abs_table fl s) (abs_table fl' s')" "in_range cs (s', fl')"
    using inv by (auto simp: in_range_def split: if_splits)
qed

interpretation mode2_table: simulation "d_exec V F G" ht_step abs_d in_range for V F G
proof
  fix c cs x r x' assume "in_range (c # cs) x" "d_exec V F G c x = (r, x')"
  with d_exec_step [of c cs "fst x" "snd x" V F G r "fst x'" "snd x'"]
  show "ht_step c r (abs_d x) (abs_d x') \<and> in_range cs x'" by (simp add: abs_d_def)
qed

lemma demo_close: "fst (closeSessionHandle (\<lambda>_. demo_cgo) (\<lambda>_. Answered) 1 demo_mode2) = Inr ()"
  by (simp add: closeSessionHandle_def with_lookup_def lookup_def submit_def ownedRaw_def demo_owned demo_parked_state
      case_prod_beta Let_def close_raw_def split: sum.split)
    (simp add: at_worker_def case_prod_beta Let_def ownedRaw_def demo_owned demo_parked_state on_worker_def rawClose_def
      vclpoll_close_def split: sum.split)

text \<open>C1. The Mode 2 dispatcher refines the table of handles, sharded listeners included. Whatever VLS and the
  workers answer, a run of requests on sessions and listeners, of listens, and of steps of the accept loops
  is, with the results their callers see, a run of the table, as long as the
  32-bit counter does not wrap and, where listeners are opened, does not reach the sign bit. So the handles issued
  increase; no handle is given out twice, whether a call opened it or an accept took it from a channel; a
  request on a handle that is not open answers \<open>ErrClosed\<close>; and once a close of a handle has returned
  without error, every later request on it answers \<open>ErrClosed\<close>.\<close>

theorem mode2_refines_handle_table:
  assumes "in_range cs (s, fl)" and "ht_ok (abs_table fl s)" and "run_cmds (d_exec V F G) cs (s, fl) = (rs, s', fl')"
  shows "spec_run ht_step cs rs (abs_table fl s) (abs_table fl' s')
    \<and> sorted_wrt (<) (issued_handles rs) \<and> (\<forall>h \<in> set (issued_handles rs). uint (nextHandle s) < h \<and> h < 2 ^ 31)
    \<and> distinct (client_handles rs)
    \<and> (\<forall>h \<in> set (client_handles rs). h \<in> set fl \<or> h \<in> set (queued s) \<or> uint (nextHandle s) < h)
    \<and> (\<forall>h j. h \<le> uint (nextHandle s) \<and> map_of (owners s) h = None \<and> j < length cs \<and> on_handle (cs ! j) = Some h
         \<longrightarrow> rs ! j = Failed PollErrClosed)
    \<and> (\<forall>h i j. cs ! i = Req (M2Close h) \<and> rs ! i = Done \<and> i < j \<and> j < length cs \<and> on_handle (cs ! j) = Some h
         \<longrightarrow> rs ! j = Failed PollErrClosed)"
proof -
  have run: "spec_run ht_step cs rs (abs_table fl s) (abs_table fl' s')"
    using mode2_table.runs_refine [OF assms(1,3)] by (simp add: abs_d_def)
  then show ?thesis
    using ht_run_issues [OF run] ht_run_gives [OF run assms(2)] ht_run_closed [OF run] ht_run_close [OF run assms(2)]
    by (auto simp: dom_def)
qed

lemma mode2_refines_handle_table_witness:
  "\<exists>rs x. run_cmds (d_exec (\<lambda>_. demo_cgo) (\<lambda>_. Answered) (\<lambda>_. True))
       [Req (M2Close 1), Listen (ListenTCP4 (10, 0, 0, 1) 80 16), Req (M2Read 1 8)] (demo_mode2, []) = (rs, x)
     \<and> rs ! 0 = Done \<and> rs ! 2 = Failed PollErrClosed"
proof -
  let ?cs = "[Req (M2Close 1), Listen (ListenTCP4 (10, 0, 0, 1) 80 16), Req (M2Read 1 8)]"
  obtain rs s' fl' where r: "run_cmds (d_exec (\<lambda>_. demo_cgo) (\<lambda>_. Answered) (\<lambda>_. True)) ?cs (demo_mode2, []) = (rs, s', fl')"
    using prod_cases3 by blast
  have q: "queued demo_mode2 = []" by (simp add: queued_def demo_mode2_def newMode2Dispatcher_def)
  have inv: "in_range ?cs (demo_mode2, [])" by (auto simp: in_range_def listeners_ok_def split: if_splits)
  have ok: "ht_ok (abs_table [] demo_mode2)" using q by (auto simp: ht_ok_def split: if_splits)
  have "lookupShardedListener 1 demo_mode2 = None" by (simp add: lookupShardedListener_def)
  then have "client_exec (\<lambda>_. demo_cgo) (\<lambda>_. Answered) (\<lambda>_. True) (M2Close 1) demo_mode2
      = (Done, snd (closeSessionHandle (\<lambda>_. demo_cgo) (\<lambda>_. Answered) 1 demo_mode2))"
    by (simp add: mode2_close_def demo_close out_done_def prod_eq_iff)
  then have first: "rs ! 0 = Done" using r by (auto split: prod.splits)
  have "rs ! 2 = Failed PollErrClosed"
  proof (rule mode2_refines_handle_table [OF inv ok r, THEN conjunct2, THEN conjunct2, THEN conjunct2, THEN conjunct2,
        THEN conjunct2, THEN conjunct2, rule_format])
    show "?cs ! 0 = Req (M2Close 1) \<and> rs ! 0 = Done \<and> (0::nat) < 2 \<and> 2 < length ?cs \<and> on_handle (?cs ! 2) = Some 1"
      using first by simp
  qed
  with r first show ?thesis by blast
qed

end
