(* ===== verification/Submit.thy ===== *)
theory Submit
  imports Mode2 "HOL-Library.Sublist"
begin

text \<open>
  How a request reaches its worker: \<open>submit\<close> of \<open>mode2.go\<close> against the loop of \<open>worker.go\<close>, for one
  worker and any number of goroutines, each channel operation one step. The theory \<open>Mode2\<close> runs a
  request in one go, with one of three fates; here it is shown that the goroutines have no other.
\<close>

section \<open>The queue of a worker\<close>

text \<open>A caller of \<open>submit\<close>: not begun, in its first \<open>select\<close>, in its second, returned.\<close>

datatype 'a submit_pc = SubIdle | SubSend | SubWait | SubReturned "'a poll_result"

text \<open>The worker's goroutine: at the stop check, with \<open>n\<close> operations of its batch to go, in \<open>epoll_wait\<close> with
  its events, before \<open>quiesce\<close>, answering what is left in \<open>opCh\<close>, done with that.\<close>

datatype loop_pc = LTop | LBatch nat | LPoll | LQuiesce | LAnswer | LDone

text \<open>\<open>os_queue\<close> is \<open>opCh\<close>; an operation is named by its caller and \<open>os_op\<close> is what it does. \<open>os_resp\<close> are the
  \<open>resp\<close> channels, of capacity one. Ghosts: what operations were sent, which ran and with what result.\<close>

record 'a opsys =
  os_worker :: worker
  os_op :: "nat \<Rightarrow> 'a worker_op"
  os_queue :: "nat list"
  os_resp :: "nat \<Rightarrow> 'a poll_result option"
  os_pcs :: "nat \<Rightarrow> 'a submit_pc"
  os_loop :: loop_pc
  os_stopping :: bool
  os_appLive :: bool
  os_stopCh :: bool
  os_sent :: "nat list"
  os_ran :: "(nat \<times> 'a poll_result) list"

abbreviation opCh_cap :: nat where "opCh_cap \<equiv> 256"

definition sub_at :: "nat \<Rightarrow> 'a submit_pc \<Rightarrow> 'a opsys \<Rightarrow> 'a opsys" where
  "sub_at i p s = s\<lparr>os_pcs := (os_pcs s)(i := p)\<rparr>"

definition answer :: "nat \<Rightarrow> 'a poll_result \<Rightarrow> 'a opsys \<Rightarrow> 'a opsys" where
  "answer i r s = s\<lparr>os_resp := (os_resp s)(i \<mapsto> r)\<rparr>"

definition refuses :: "'a opsys \<Rightarrow> bool" where
  "refuses s \<longleftrightarrow> os_stopping s \<or> \<not> os_appLive s"

inductive caller_step :: "nat \<Rightarrow> 'a opsys \<Rightarrow> 'a opsys \<Rightarrow> bool" for i where
  check_refused: "os_pcs s i = SubIdle \<Longrightarrow> refuses s \<Longrightarrow> caller_step i s (sub_at i (SubReturned (Inl PollErrClosed)) s)"
| check_ok: "os_pcs s i = SubIdle \<Longrightarrow> \<not> refuses s \<Longrightarrow> caller_step i s (sub_at i SubSend s)"
| send: "os_pcs s i = SubSend \<Longrightarrow> length (os_queue s) < opCh_cap \<Longrightarrow>
    caller_step i s (sub_at i SubWait (s\<lparr>os_queue := os_queue s @ [i], os_sent := os_sent s @ [i]\<rparr>))"
| send_quiesced: "os_pcs s i = SubSend \<Longrightarrow> os_loop s = LDone \<Longrightarrow>
    caller_step i s (sub_at i (SubReturned (Inl PollErrClosed)) s)"
| recv: "os_pcs s i = SubWait \<Longrightarrow> os_resp s i = Some r \<Longrightarrow>
    caller_step i s (sub_at i (SubReturned r) (s\<lparr>os_resp := (os_resp s)(i := None)\<rparr>))"
| recv_quiesced: "os_pcs s i = SubWait \<Longrightarrow> os_loop s = LDone \<Longrightarrow>
    caller_step i s (sub_at i (SubReturned (Inl PollErrClosed)) s)"

text \<open>\<open>polled\<close>: what handling the events makes of the worker; \<open>released\<close>: what \<open>quiesce\<close> does before it looks
  at \<open>opCh\<close>.\<close>

inductive loop_step :: "(worker \<Rightarrow> worker) \<Rightarrow> (worker \<Rightarrow> worker) \<Rightarrow> 'a opsys \<Rightarrow> 'a opsys \<Rightarrow> bool" for polled released where
  loop_stop: "os_loop s = LTop \<Longrightarrow> os_stopCh s \<Longrightarrow> loop_step polled released s (s\<lparr>os_loop := LQuiesce\<rparr>)"
| loop_go: "os_loop s = LTop \<Longrightarrow> \<not> os_stopCh s \<Longrightarrow> loop_step polled released s (s\<lparr>os_loop := LBatch 64\<rparr>)"
| op_refused: "os_loop s = LBatch (Suc n) \<Longrightarrow> os_queue s = i # q \<Longrightarrow> refuses s \<Longrightarrow>
    loop_step polled released s (answer i (Inl PollErrClosed) (s\<lparr>os_queue := q, os_loop := LBatch n\<rparr>))"
| op_run: "os_loop s = LBatch (Suc n) \<Longrightarrow> os_queue s = i # q \<Longrightarrow> \<not> refuses s \<Longrightarrow> os_op s i (os_worker s) = (r, w) \<Longrightarrow>
    loop_step polled released s (answer i r (s\<lparr>os_worker := w, os_queue := q, os_loop := LBatch n, os_ran := os_ran s @ [(i, r)]\<rparr>))"
| batch_empty: "os_loop s = LBatch (Suc n) \<Longrightarrow> os_queue s = [] \<Longrightarrow> loop_step polled released s (s\<lparr>os_loop := LPoll\<rparr>)"
| batch_full: "os_loop s = LBatch 0 \<Longrightarrow> loop_step polled released s (s\<lparr>os_loop := LPoll\<rparr>)"
| poll: "os_loop s = LPoll \<Longrightarrow> loop_step polled released s (s\<lparr>os_worker := polled (os_worker s), os_loop := LTop\<rparr>)"
| release: "os_loop s = LQuiesce \<Longrightarrow> loop_step polled released s (s\<lparr>os_worker := released (os_worker s), os_loop := LAnswer\<rparr>)"
| answer_left: "os_loop s = LAnswer \<Longrightarrow> os_queue s = i # q \<Longrightarrow>
    loop_step polled released s (answer i (Inl PollErrClosed) (s\<lparr>os_queue := q\<rparr>))"
| quiesced: "os_loop s = LAnswer \<Longrightarrow> os_queue s = [] \<Longrightarrow> loop_step polled released s (s\<lparr>os_loop := LDone\<rparr>)"

text \<open>\<open>stop\<close> and \<open>beginShutdown\<close>.\<close>

inductive stop_step :: "'a opsys \<Rightarrow> 'a opsys \<Rightarrow> bool" where
  set_stopping: "stop_step s (s\<lparr>os_stopping := True\<rparr>)"
| close_stopCh: "os_stopping s \<Longrightarrow> stop_step s (s\<lparr>os_stopCh := True\<rparr>)"
| begin_shutdown: "stop_step s (s\<lparr>os_appLive := False\<rparr>)"

inductive op_step :: "(worker \<Rightarrow> worker) \<Rightarrow> (worker \<Rightarrow> worker) \<Rightarrow> 'a opsys \<Rightarrow> 'a opsys \<Rightarrow> bool" for polled released where
  of_caller: "caller_step i s s' \<Longrightarrow> op_step polled released s s'"
| of_loop: "loop_step polled released s s' \<Longrightarrow> op_step polled released s s'"
| of_stop: "stop_step s s' \<Longrightarrow> op_step polled released s s'"

definition op_start :: "worker \<Rightarrow> (nat \<Rightarrow> 'a worker_op) \<Rightarrow> 'a opsys" where
  "op_start w ops = \<lparr>os_worker = w, os_op = ops, os_queue = [], os_resp = Map.empty, os_pcs = (\<lambda>_. SubIdle),
     os_loop = LTop, os_stopping = False, os_appLive = True, os_stopCh = False, os_sent = [], os_ran = []\<rparr>"

section \<open>The fates of a request\<close>

text \<open>What holds of one caller's operation at each point of \<open>submit\<close>: whether it was sent, is queued, what
  \<open>resp\<close> holds, the result it ran with, and whether \<open>quiesced\<close> is closed.\<close>

fun fate_ok :: "'a submit_pc \<Rightarrow> bool \<Rightarrow> bool \<Rightarrow> 'a poll_result option \<Rightarrow> 'a poll_result option \<Rightarrow> bool \<Rightarrow> bool" where
  "fate_ok SubWait was_sent queued resp result over \<longleftrightarrow> was_sent
     \<and> (if queued then resp = None \<and> result = None
        else \<exists>r. resp = Some r \<and> (result = Some r \<or> result = None \<and> r = Inl PollErrClosed))"
| "fate_ok (SubReturned r) was_sent queued resp result over \<longleftrightarrow>
     (queued \<longrightarrow> was_sent \<and> result = None \<and> over)
     \<and> (result = Some r \<or> r = Inl PollErrClosed \<and> (result = None \<or> over))"
| "fate_ok _ was_sent queued resp result over \<longleftrightarrow> \<not> was_sent \<and> \<not> queued \<and> resp = None \<and> result = None"

definition sub_ok :: "'a opsys \<Rightarrow> nat \<Rightarrow> bool" where
  "sub_ok s i \<longleftrightarrow> fate_ok (os_pcs s i) (i \<in> set (os_sent s)) (i \<in> set (os_queue s)) (os_resp s i) (map_of (os_ran s) i) (os_loop s = LDone)"

text \<open>Nothing is sent twice, what has left the queue has been answered, and operations run in the order sent.\<close>

definition op_order :: "'a opsys \<Rightarrow> bool" where
  "op_order s \<longleftrightarrow> distinct (os_sent s) \<and> (\<exists>before. os_sent s = before @ os_queue s \<and> subseq (map fst (os_ran s)) before)
     \<and> (os_loop s \<in> {LQuiesce, LAnswer, LDone} \<longrightarrow> os_stopCh s) \<and> (os_stopCh s \<longrightarrow> os_stopping s)
     \<and> length (os_queue s) \<le> opCh_cap"

definition op_inv :: "'a opsys \<Rightarrow> bool" where
  "op_inv s \<longleftrightarrow> (\<forall>i. sub_ok s i) \<and> op_order s"

lemma fate_done: "fate_ok p a b c d False \<Longrightarrow> fate_ok p a b c d e"
  by (cases p) auto

lemma distinct_subseq: "subseq xs ys \<Longrightarrow> distinct ys \<Longrightarrow> distinct xs"
  by (induction rule: list_emb.induct) (auto dest: list_emb_set)

lemma op_orderD:
  assumes "op_order s"
  shows "distinct (os_sent s)" "os_loop s \<in> {LQuiesce, LAnswer, LDone} \<Longrightarrow> os_stopCh s" "os_stopCh s \<Longrightarrow> os_stopping s"
    "i \<in> set (os_queue s) \<Longrightarrow> i \<in> set (os_sent s)" "distinct (os_queue s)"
    "length (os_queue s) \<le> opCh_cap" "subseq (map fst (os_ran s)) (os_sent s)"
  using assms by (auto simp: op_order_def intro: list_emb_append2 subseq_order.trans)

text \<open>A step of goroutine \<open>i\<close> alone: what the others see is as it was, or \<open>quiesced\<close> has been closed.\<close>

lemma sub_ok_others:
  assumes "sub_ok s j" "os_pcs s' j = os_pcs s j" "j \<in> set (os_sent s') \<longleftrightarrow> j \<in> set (os_sent s)"
    "j \<in> set (os_queue s') \<longleftrightarrow> j \<in> set (os_queue s)" "os_resp s' j = os_resp s j" "map_of (os_ran s') j = map_of (os_ran s) j"
    "os_loop s = LDone \<Longrightarrow> os_loop s' = LDone"
  shows "sub_ok s' j"
  using assms fate_done unfolding sub_ok_def by (cases "os_loop s = LDone") auto

lemma sub_at_sel [simp]:
  "os_worker (sub_at i p s) = os_worker s" "os_queue (sub_at i p s) = os_queue s" "os_resp (sub_at i p s) = os_resp s"
  "os_loop (sub_at i p s) = os_loop s" "os_stopping (sub_at i p s) = os_stopping s" "os_stopCh (sub_at i p s) = os_stopCh s"
  "os_sent (sub_at i p s) = os_sent s" "os_ran (sub_at i p s) = os_ran s" "os_pcs (sub_at i p s) j = (if j = i then p else os_pcs s j)"
  "os_appLive (sub_at i p s) = os_appLive s"
  by (simp_all add: sub_at_def)

lemma answer_sel [simp]:
  "os_worker (answer i r s) = os_worker s" "os_queue (answer i r s) = os_queue s" "os_pcs (answer i r s) = os_pcs s"
  "os_loop (answer i r s) = os_loop s" "os_stopping (answer i r s) = os_stopping s" "os_stopCh (answer i r s) = os_stopCh s"
  "os_sent (answer i r s) = os_sent s" "os_ran (answer i r s) = os_ran s" "os_resp (answer i r s) j = (if j = i then Some r else os_resp s j)"
  "os_appLive (answer i r s) = os_appLive s"
  by (simp_all add: answer_def)

lemma caller_step_inv:
  assumes "caller_step i s s'" and inv: "op_inv s"
  shows "op_inv s'"
proof -
  have i: "fate_ok (os_pcs s i) (i \<in> set (os_sent s)) (i \<in> set (os_queue s)) (os_resp s i) (map_of (os_ran s) i) (os_loop s = LDone)"
    and ord: "op_order s"
    using inv by (simp_all add: op_inv_def sub_ok_def)
  have others: "sub_ok s' j" if j: "j \<noteq> i" for j
  proof -
    have s: "sub_ok s j" using inv by (simp add: op_inv_def)
    show ?thesis using assms(1)
    proof cases
    qed (rule sub_ok_others [OF s]; simp add: j)+
  qed
  have "sub_ok s' i \<and> op_order s'" using assms(1)
  proof cases
    case send
    with i have new: "i \<notin> set (os_sent s)" "os_resp s i = None" "map_of (os_ran s) i = None" by simp_all
    with send ord show ?thesis by (auto simp: sub_ok_def op_order_def)
  next
    case (recv r)
    with i have "i \<notin> set (os_queue s)" "map_of (os_ran s) i = Some r \<or> map_of (os_ran s) i = None \<and> r = Inl PollErrClosed"
      by (simp_all split: if_splits)
    with recv ord show ?thesis by (auto simp: sub_ok_def op_order_def)
  qed (use i ord in \<open>auto simp: sub_ok_def op_order_def split: if_splits\<close>)
  with others show ?thesis unfolding op_inv_def by metis
qed

text \<open>The worker takes the head of the queue: it was waiting for that, unless the queue is nobody's any more.\<close>

lemma head_waits:
  assumes "op_inv s" "os_queue s = i # q" "os_loop s \<noteq> LDone"
  shows "os_pcs s i = SubWait" "os_resp s i = None" "map_of (os_ran s) i = None" "i \<in> set (os_sent s)" "i \<notin> set q"
proof -
  have i: "sub_ok s i" and ord: "op_order s" using assms(1) by (simp_all add: op_inv_def)
  from i assms(2,3) show "os_pcs s i = SubWait" "os_resp s i = None" "map_of (os_ran s) i = None"
    by (cases "os_pcs s i"; simp add: sub_ok_def)+
  from op_orderD(4,5) [OF ord] assms(2) show "i \<in> set (os_sent s)" "i \<notin> set q" by simp_all
qed

text \<open>Answering the head of the queue, with the result it ran with or \<open>ErrClosed\<close>.\<close>

lemma answer_head_inv:
  assumes inv: "op_inv s" and q: "os_queue s = i # q" "os_loop s \<noteq> LDone"
    and s': "os_queue s' = q" "os_sent s' = os_sent s" "os_pcs s' = os_pcs s" "os_resp s' = (os_resp s)(i \<mapsto> r)"
      "os_ran s' = os_ran s \<and> r = Inl PollErrClosed \<or> os_ran s' = os_ran s @ [(i, r)]"
      "os_loop s' \<in> {LQuiesce, LAnswer, LDone} \<longrightarrow> os_loop s \<in> {LQuiesce, LAnswer, LDone}" "os_loop s' \<noteq> LDone"
      "os_stopCh s' = os_stopCh s" "os_stopping s' = os_stopping s"
  shows "op_inv s'"
proof -
  note h = head_waits [OF inv q]
  have ran: "map_of (os_ran s') j = map_of (os_ran s) j" if "j \<noteq> i" for j
    using s'(5) that by (auto simp: map_add_def split: option.split)
  have "sub_ok s' j" for j
  proof (cases "j = i")
    case True
    with h s' q show ?thesis by (auto simp: sub_ok_def map_add_def)
  next
    case False
    have "sub_ok s j" using inv by (simp add: op_inv_def)
    then show ?thesis
      by (rule sub_ok_others) (use False ran s' q in auto)
  qed
  moreover have "op_order s'"
  proof -
    from inv have ord: "op_order s" by (simp add: op_inv_def)
    then obtain before where b: "os_sent s = before @ i # q" "subseq (map fst (os_ran s)) before"
      using q(1) by (auto simp: op_order_def)
    then have "os_sent s' = (before @ [i]) @ os_queue s'" by (simp add: s'(1,2))
    moreover have "subseq (map fst (os_ran s')) (before @ [i])"
      using b(2) s'(5) by (auto intro: subseq_append' list_emb_append2 simp: subseq_append')
    ultimately have "\<exists>before. os_sent s' = before @ os_queue s' \<and> subseq (map fst (os_ran s')) before" by blast
    moreover note op_orderD(1-3,6) [OF ord] q(1) s'(1,2,6,8,9)
    ultimately show ?thesis by (simp add: op_order_def)
  qed
  ultimately show ?thesis by (simp add: op_inv_def)
qed

text \<open>A step that touches neither the queue nor a caller.\<close>

lemma quiet_inv:
  assumes inv: "op_inv s" and s': "os_pcs s' = os_pcs s" "os_sent s' = os_sent s" "os_queue s' = os_queue s"
      "os_resp s' = os_resp s" "os_ran s' = os_ran s" "os_loop s = LDone \<Longrightarrow> os_loop s' = LDone"
      "os_loop s' \<in> {LQuiesce, LAnswer, LDone} \<Longrightarrow> os_stopCh s'" "os_stopCh s' \<Longrightarrow> os_stopping s'"
  shows "op_inv s'"
proof -
  have "sub_ok s' j" for j
    by (rule sub_ok_others [of s]) (use inv s' in \<open>simp_all add: op_inv_def\<close>)
  moreover have "op_order s'" using inv s' by (simp add: op_inv_def op_order_def)
  ultimately show ?thesis by (simp add: op_inv_def)
qed

lemma loop_step_inv:
  assumes "loop_step polled released s s'" and inv: "op_inv s"
  shows "op_inv s'"
proof -
  note ord = op_orderD(2,3) [of s]
  have "op_order s" using inv by (simp add: op_inv_def)
  note quiet = quiet_inv [OF inv] and st = ord [OF this]
  show ?thesis using assms(1)
  proof cases
    case (op_refused n i q)
    show ?thesis by (rule answer_head_inv [OF inv op_refused(3)]) (simp_all add: op_refused answer_def)
  next
    case (op_run n i q r w)
    show ?thesis by (rule answer_head_inv [OF inv op_run(3)]) (simp_all add: op_run answer_def)
  next
    case (answer_left i q)
    show ?thesis by (rule answer_head_inv [OF inv answer_left(3)]) (simp_all add: answer_left answer_def)
  qed (rule quiet; use st in simp)+
qed

lemma stop_step_inv:
  assumes "stop_step s s'" and inv: "op_inv s"
  shows "op_inv s'"
proof -
  have "op_order s" using inv by (simp add: op_inv_def)
  note quiet = quiet_inv [OF inv] and st = op_orderD(2,3) [OF this]
  show ?thesis using assms(1)
    by cases (use st in \<open>auto intro!: quiet\<close>)
qed

lemma op_inv_start: "op_inv (op_start w ops)"
  by (simp add: op_inv_def sub_ok_def op_order_def op_start_def)

lemma op_step_inv: "op_step polled released s s' \<Longrightarrow> op_inv s \<Longrightarrow> op_inv s'"
  by (cases rule: op_step.cases) (auto intro: caller_step_inv loop_step_inv stop_step_inv)

lemma op_inv_run:
  assumes "(op_step polled released)\<^sup>*\<^sup>* (op_start w ops) s"
  shows "op_inv s"
  using assms by (induction rule: rtranclp_induct) (auto intro: op_inv_start op_step_inv)

section \<open>A batch is \<open>drainOps\<close>\<close>

text \<open>Undisturbed, the steps of a batch are the function \<open>drainOps\<close> of the theory \<open>WorkerLoop\<close>: it leaves the
  worker and the queue the function says, and its results in the callers' channels.\<close>

lemma batch_step:
  assumes "os_loop s = LBatch (Suc n)" "os_queue s = i # q" "run_op (\<lambda>_. refuses s) (os_op s i) (os_worker s) = (r, w)"
  shows "\<exists>s'. loop_step polled released s s' \<and> os_loop s' = LBatch n \<and> os_queue s' = q \<and> os_worker s' = w
    \<and> os_op s' = os_op s \<and> refuses s' = refuses s \<and> os_resp s' = (os_resp s)(i \<mapsto> r)"
proof (cases "refuses s")
  case True
  with assms(3) have "r = Inl PollErrClosed" "w = os_worker s" by (simp_all add: run_op_def)
  with True op_refused [OF assms(1,2) True, of polled released] show ?thesis
    by (intro exI conjI) (assumption | simp add: answer_def refuses_def)+
next
  case False
  with assms(3) have "os_op s i (os_worker s) = (r, w)" by (simp add: run_op_def)
  from op_run [OF assms(1,2) False this, of polled released] show ?thesis
    by (intro exI conjI) (assumption | simp add: answer_def refuses_def)+
qed

lemma batch_drains:
  assumes "os_loop s = LBatch n" "distinct (os_queue s)"
    "drainOps n (\<lambda>_. refuses s) (map (os_op s) (os_queue s)) (os_worker s) = (rs, rest, full, w)"
  shows "\<exists>s'. (loop_step polled released)\<^sup>*\<^sup>* s s' \<and> os_loop s' = LPoll \<and> os_worker s' = w
    \<and> map (os_op s) (os_queue s') = rest \<and> (\<forall>j < length rs. os_resp s' (os_queue s ! j) = Some (rs ! j))
    \<and> (\<forall>i. i \<notin> set (os_queue s) \<longrightarrow> os_resp s' i = os_resp s i)"
  using assms
proof (induction n arbitrary: s rs)
  case 0
  then show ?case using batch_full [OF 0(1), of polled released]
    by (intro exI [of _ "s\<lparr>os_loop := LPoll\<rparr>"]) auto
next
  case (Suc n)
  show ?case
  proof (cases "os_queue s")
    case Nil
    then show ?thesis using Suc.prems(3) batch_empty [OF Suc.prems(1) Nil, of polled released]
      by (intro exI [of _ "s\<lparr>os_loop := LPoll\<rparr>"]) auto
  next
    case (Cons i q)
    obtain r w1 where r: "run_op (\<lambda>_. refuses s) (os_op s i) (os_worker s) = (r, w1)" by fastforce
    obtain s1 where s1: "loop_step polled released s s1" "os_loop s1 = LBatch n" "os_queue s1 = q" "os_worker s1 = w1"
      "os_op s1 = os_op s" "refuses s1 = refuses s" "os_resp s1 = (os_resp s)(i \<mapsto> r)"
      using batch_step [OF Suc.prems(1) Cons r] by blast
    from Suc.prems(3) Cons r obtain rs1 where rs: "rs = r # rs1"
      "drainOps n (\<lambda>_. refuses s) (map (os_op s) q) w1 = (rs1, rest, full, w)"
      by (auto split: prod.splits)
    from Suc.IH [of s1 rs1] obtain s' where s': "(loop_step polled released)\<^sup>*\<^sup>* s1 s'" "os_loop s' = LPoll" "os_worker s' = w"
      "map (os_op s) (os_queue s') = rest" "\<forall>j < length rs1. os_resp s' (q ! j) = Some (rs1 ! j)"
      "\<forall>j. j \<notin> set q \<longrightarrow> os_resp s' j = os_resp s1 j"
      using s1 rs(2) Suc.prems(2) Cons by auto
    have "os_resp s' i = Some r" using s'(6) s1(7) Suc.prems(2) Cons by simp
    then have "\<forall>j < length rs. os_resp s' (os_queue s ! j) = Some (rs ! j)"
      using s'(5) Cons rs(1) by (auto simp: nth_Cons split: nat.split)
    moreover have "\<forall>j. j \<notin> set (os_queue s) \<longrightarrow> os_resp s' j = os_resp s j" using s'(6) s1(7) Cons by simp
    moreover have "(loop_step polled released)\<^sup>*\<^sup>* s s'" using s1(1) s'(1) by (rule converse_rtranclp_into_rtranclp)
    ultimately show ?thesis using s'(2-4) by blast
  qed
qed

section \<open>An answer in bounded time\<close>

text \<open>How many of its steps the worker needs at most before it answers the operation at a place of the queue;
  every operation ahead costs one step, and an operation that ends a batch four more.\<close>

primrec place :: "nat \<Rightarrow> nat list \<Rightarrow> nat" where
  "place i [] = 0"
| "place i (j # q) = (if j = i then 1 else Suc (place i q))"

fun loop_rank :: "loop_pc \<Rightarrow> nat" where
  "loop_rank (LBatch (Suc n)) = 0"
| "loop_rank (LBatch 0) = 4"
| "loop_rank LPoll = 3"
| "loop_rank LTop = 2"
| "loop_rank LQuiesce = 1"
| "loop_rank LAnswer = 0"
| "loop_rank LDone = 0"

definition steps_left :: "nat \<Rightarrow> 'a opsys \<Rightarrow> nat" where
  "steps_left i s = 5 * place i (os_queue s) + loop_rank (os_loop s)"

text \<open>Everybody's steps, with the number of the worker's among them.\<close>

inductive op_run_steps :: "(worker \<Rightarrow> worker) \<Rightarrow> (worker \<Rightarrow> worker) \<Rightarrow> 'a opsys \<Rightarrow> nat \<Rightarrow> 'a opsys \<Rightarrow> bool"
  for polled released s where
  none_yet: "op_run_steps polled released s 0 s"
| by_worker: "op_run_steps polled released s n t \<Longrightarrow> loop_step polled released t t' \<Longrightarrow> op_run_steps polled released s (Suc n) t'"
| by_caller: "op_run_steps polled released s n t \<Longrightarrow> caller_step i t t' \<Longrightarrow> op_run_steps polled released s n t'"
| by_stop: "op_run_steps polled released s n t \<Longrightarrow> stop_step t t' \<Longrightarrow> op_run_steps polled released s n t'"

text \<open>It has its answer, or has returned.\<close>

definition served :: "nat \<Rightarrow> 'a opsys \<Rightarrow> bool" where
  "served i s \<longleftrightarrow> os_resp s i \<noteq> None \<or> (\<exists>r. os_pcs s i = SubReturned r)"

lemma loop_rank_le: "loop_rank l \<le> 4"
  by (cases l rule: loop_rank.cases) auto

lemma place_append: "i \<in> set q \<Longrightarrow> place i (q @ r) = place i q"
  by (induction q) auto

lemma place_bounds: "place i q \<le> length q" "i \<in> set q \<Longrightarrow> 0 < place i q"
  by (induction q) auto

lemma waiting_in_queue:
  assumes "op_inv s" "os_pcs s i = SubWait" "os_resp s i = None"
  shows "i \<in> set (os_queue s)"
  using assms by (auto simp: op_inv_def sub_ok_def split: if_splits dest: spec [of _ i])

lemma loop_rank_batch: "0 < n \<Longrightarrow> loop_rank (LBatch n) = 0"
  by (cases n) auto

lemma loop_step_rank:
  assumes "loop_step polled released s s'" "i \<in> set (os_queue s)"
  shows "os_resp s' i \<noteq> None \<or> i \<in> set (os_queue s') \<and> steps_left i s' < steps_left i s"
  using assms(1)
proof cases
  case (op_refused n j q)
  then show ?thesis using assms(2) by (cases n) (auto simp: steps_left_def)
next
  case (op_run n j q r w)
  then show ?thesis using assms(2) by (cases n) (auto simp: steps_left_def)
qed (use assms(2) in \<open>auto simp: steps_left_def loop_rank_batch\<close>)

lemma caller_step_rank:
  assumes "caller_step j s s'" "os_pcs s i = SubWait" "i \<in> set (os_queue s)"
  shows "(\<exists>r. os_pcs s' i = SubReturned r)
    \<or> os_pcs s' i = SubWait \<and> i \<in> set (os_queue s') \<and> steps_left i s' = steps_left i s"
  using assms(1)
  by cases (use assms(2,3) in \<open>auto simp: steps_left_def place_append\<close>)

lemma stop_step_rank:
  assumes "stop_step s s'"
  shows "os_pcs s' = os_pcs s" "os_resp s' = os_resp s" "os_queue s' = os_queue s" "steps_left i s' = steps_left i s"
  using assms by (cases; simp add: steps_left_def)+

lemma loop_step_keeps:
  assumes "loop_step polled released s s'"
  shows "os_pcs s' = os_pcs s" "os_resp s i \<noteq> None \<Longrightarrow> os_resp s' i \<noteq> None"
  using assms by (cases; simp)+

lemma caller_step_served:
  assumes "caller_step j s s'" "served i s" "os_pcs s i = SubWait \<or> (\<exists>r. os_pcs s i = SubReturned r)"
  shows "served i s' \<and> (os_pcs s' i = SubWait \<or> (\<exists>r. os_pcs s' i = SubReturned r))"
  using assms(1)
  by cases (use assms(2,3) in \<open>auto simp: served_def\<close>)

lemma op_run_steps_inv: "op_run_steps polled released s n t \<Longrightarrow> op_inv s \<Longrightarrow> op_inv t"
  by (induction rule: op_run_steps.induct) (auto intro: caller_step_inv loop_step_inv stop_step_inv)

lemma op_run_steps_rank:
  assumes "op_run_steps polled released s n t" "op_inv s" "os_pcs s i = SubWait" "served i s \<or> i \<in> set (os_queue s)"
  shows "(os_pcs t i = SubWait \<or> (\<exists>r. os_pcs t i = SubReturned r))
    \<and> (served i t \<or> os_pcs t i = SubWait \<and> i \<in> set (os_queue t) \<and> steps_left i t + n \<le> steps_left i s)"
  using assms(1)
proof (induction rule: op_run_steps.induct)
  case none_yet
  then show ?case using assms by simp
next
  case (by_worker n t t')
  show ?case
  proof (cases "served i t")
    case True
    then show ?thesis using by_worker.IH loop_step_keeps [OF by_worker.hyps(2)]
      by (auto simp: served_def)
  next
    case False
    with by_worker.IH have t: "os_pcs t i = SubWait" "i \<in> set (os_queue t)" "steps_left i t + n \<le> steps_left i s" by auto
    show ?thesis using loop_step_rank [OF by_worker.hyps(2) t(2)] loop_step_keeps(1) [OF by_worker.hyps(2)] t(1,3)
      by (auto simp: served_def)
  qed
next
  case (by_caller n t j t')
  show ?case
  proof (cases "served i t")
    case True
    then show ?thesis using by_caller.IH caller_step_served [OF by_caller.hyps(2)] by blast
  next
    case False
    with by_caller.IH have t: "os_pcs t i = SubWait" "i \<in> set (os_queue t)" "steps_left i t + n \<le> steps_left i s" by auto
    show ?thesis using caller_step_rank [OF by_caller.hyps(2) t(1,2)] t(3) by (auto simp: served_def)
  qed
next
  case (by_stop n t t')
  then show ?case using stop_step_rank [OF by_stop.hyps(2)] by (simp add: served_def)
qed

text \<open>The worker has a step of its own until it has closed \<open>quiesced\<close>.\<close>

lemma loop_never_blocked:
  assumes "os_loop s \<noteq> LDone"
  shows "\<exists>s'. loop_step polled released s s'"
proof (cases "os_loop s")
  case LTop
  then show ?thesis by (cases "os_stopCh s") (blast intro: loop_step.intros)+
next
  case (LBatch n)
  show ?thesis
  proof (cases n)
    case 0
    with LBatch show ?thesis by (blast intro: batch_full)
  next
    case (Suc m)
    show ?thesis
    proof (cases "os_queue s")
      case Nil
      with LBatch Suc show ?thesis by (blast intro: batch_empty)
    next
      case (Cons i q)
      show ?thesis
      proof (cases "refuses s")
        case True
        with LBatch Suc Cons show ?thesis by (blast intro: op_refused)
      next
        case False
        obtain r w where "os_op s i (os_worker s) = (r, w)" by fastforce
        with LBatch Suc Cons False show ?thesis by (blast intro: op_run)
      qed
    qed
  qed
next
  case LAnswer
  then show ?thesis by (cases "os_queue s") (blast intro: loop_step.intros)+
qed (use assms in \<open>blast intro: loop_step.intros\<close>)+

text \<open>After it, or with its answer, no caller is blocked.\<close>

lemma caller_unblocked:
  assumes "os_loop s = LDone \<or> os_pcs s i = SubWait \<and> os_resp s i \<noteq> None" "\<nexists>r. os_pcs s i = SubReturned r"
  shows "\<exists>s'. caller_step i s s'"
  using assms by (cases "os_pcs s i") (blast intro: caller_step.intros)+

section \<open>Runs\<close>

text \<open>A worker that is not stopped goes on.\<close>

lemma worker_goes_on:
  assumes "\<not> os_stopCh s" "os_loop s \<notin> {LQuiesce, LAnswer, LDone}"
  shows "\<exists>t. op_run_steps polled released s n t \<and> \<not> os_stopCh t \<and> os_loop t \<notin> {LQuiesce, LAnswer, LDone}"
proof (induction n)
  case 0
  then show ?case using assms by (blast intro: none_yet)
next
  case (Suc n)
  then obtain t where t: "op_run_steps polled released s n t" "\<not> os_stopCh t" "os_loop t \<notin> {LQuiesce, LAnswer, LDone}"
    by blast
  then obtain t' where t': "loop_step polled released t t'" using loop_never_blocked [of t] by blast
  from t' have "\<not> os_stopCh t' \<and> os_loop t' \<notin> {LQuiesce, LAnswer, LDone}"
    by cases (use t(2,3) in auto)
  with by_worker [OF t(1) t'] show ?case by blast
qed

text \<open>One goroutine, whose operation gives 7.\<close>

definition sent_one :: "int opsys" where
  "sent_one = (let s = sub_at 0 SubSend (op_start (newWorker 0 True) (\<lambda>_ w. (Inr 7, w)))
     in sub_at 0 SubWait (s\<lparr>os_queue := os_queue s @ [0], os_sent := os_sent s @ [0]\<rparr>))"

lemma sent_one_run: "(op_step id id)\<^sup>*\<^sup>* (op_start (newWorker 0 True) (\<lambda>_ w. (Inr 7, w))) sent_one"
proof -
  let ?s = "op_start (newWorker 0 True) (\<lambda>_ w. (Inr 7, w)) :: int opsys"
  have 1: "op_step id id ?s (sub_at 0 SubSend ?s)"
    by (intro of_caller [of 0] caller_step.check_ok) (simp_all add: op_start_def refuses_def)
  have 2: "op_step id id (sub_at 0 SubSend ?s) sent_one"
    unfolding sent_one_def Let_def by (intro of_caller [of 0] caller_step.send) (simp_all add: op_start_def)
  show ?thesis by (rule converse_rtranclp_into_rtranclp [OF 1 r_into_rtranclp [of "op_step id id", OF 2]])
qed

definition run_one :: "int opsys" where
  "run_one = answer 0 (Inr 7) (sent_one\<lparr>os_queue := [], os_loop := LBatch 63, os_ran := [(0, Inr 7)]\<rparr>)"

definition returned_one :: "int opsys" where
  "returned_one = sub_at 0 (SubReturned (Inr 7)) (run_one\<lparr>os_resp := (os_resp run_one)(0 := None)\<rparr>)"

lemmas one_simps = sent_one_def Let_def op_start_def sub_at_def answer_def refuses_def

lemma returned_one_run: "(op_step id id)\<^sup>*\<^sup>* sent_one returned_one"
proof -
  have 1: "op_step id id sent_one (sent_one\<lparr>os_loop := LBatch 64\<rparr>)"
    by (intro of_loop loop_step.loop_go) (simp_all add: one_simps)
  have 2: "op_step id id (sent_one\<lparr>os_loop := LBatch 64\<rparr>) run_one"
    using loop_step.op_run [of "sent_one\<lparr>os_loop := LBatch 64\<rparr>" 63 0 "[]" "Inr 7" "newWorker 0 True" id id]
    by (intro of_loop) (simp add: one_simps run_one_def)
  have 3: "op_step id id run_one returned_one"
    unfolding returned_one_def by (intro of_caller [of 0] caller_step.recv) (simp_all add: one_simps run_one_def)
  show ?thesis
    by (rule converse_rtranclp_into_rtranclp [OF 1 converse_rtranclp_into_rtranclp [OF 2 r_into_rtranclp [of "op_step id id", OF 3]]])
qed

section \<open>Properties\<close>

text \<open>C12. A request to a mode 2 worker has one of three fates, whatever the interleaving of its callers, the
  worker, \<open>stop\<close> and \<open>beginShutdown\<close>: \<open>submit\<close> returns the result the operation ran with; or \<open>ErrClosed\<close>, and the
  operation never ran; or \<open>ErrClosed\<close> of an operation that did run, only after the worker has closed
  \<open>quiesced\<close>. No operation runs twice, and operations run in the order in which they were sent.\<close>

theorem submit_has_three_fates:
  assumes "(op_step polled released)\<^sup>*\<^sup>* (op_start w ops) s" "os_pcs s i = SubReturned r"
  shows "(map_of (os_ran s) i = Some r
      \<or> r = Inl PollErrClosed \<and> map_of (os_ran s) i = None
      \<or> r = Inl PollErrClosed \<and> os_loop s = LDone)
    \<and> distinct (map fst (os_ran s)) \<and> subseq (map fst (os_ran s)) (os_sent s)"
proof -
  from assms(1) have inv: "op_inv s" by (rule op_inv_run)
  then have "sub_ok s i" and ord: "op_order s" by (simp_all add: op_inv_def)
  moreover from ord have sub: "subseq (map fst (os_ran s)) (os_sent s)" by (rule op_orderD)
  moreover from op_orderD(1) [OF ord] have "distinct (map fst (os_ran s))" by (rule distinct_subseq [OF sub])
  ultimately show ?thesis using assms(2) by (auto simp: sub_ok_def)
qed

lemma submit_has_three_fates_witness:
  "os_pcs returned_one 0 = SubReturned (Inr 7) \<and> map_of (os_ran returned_one) 0 = Some (Inr 7)
     \<and> distinct (map fst (os_ran returned_one))"
proof -
  have r: "os_pcs returned_one 0 = SubReturned (Inr 7)" by (simp add: returned_one_def)
  show ?thesis using submit_has_three_fates [OF rtranclp_trans [OF sent_one_run returned_one_run] r] r by simp
qed

text \<open>C13. A goroutine in \<open>submit\<close> is not kept waiting. Once its operation has been sent, it has its answer or has
  returned after at most 1280 steps of the worker (256 operations can be queued, and are run in batches of 64),
  whatever the others do meanwhile; and until it has returned, it has a step or the worker has one.\<close>

theorem submit_answered_in_bounded_steps:
  assumes "(op_step polled released)\<^sup>*\<^sup>* (op_start w ops) s" "os_pcs s i = SubWait"
    "op_run_steps polled released s n t"
  shows "(1280 \<le> n \<longrightarrow> served i t)
    \<and> ((\<exists>r. os_pcs t i = SubReturned r) \<or> (\<exists>t'. caller_step i t t') \<or> (\<exists>t'. loop_step polled released t t'))"
proof
  from assms(1) have inv: "op_inv s" by (rule op_inv_run)
  then have "served i s \<or> i \<in> set (os_queue s)" using waiting_in_queue [OF _ assms(2)] by (auto simp: served_def)
  note rank = op_run_steps_rank [OF assms(3) inv assms(2) this]
  have "length (os_queue s) \<le> opCh_cap" by (rule op_orderD) (use inv in \<open>simp add: op_inv_def\<close>)
  then have "place i (os_queue s) \<le> 256" using place_bounds(1) [of i "os_queue s"] by linarith
  then have "steps_left i s \<le> 1284" using loop_rank_le [of "os_loop s"] by (simp add: steps_left_def)
  moreover have "5 \<le> steps_left i t" if "i \<in> set (os_queue t)"
    using place_bounds(2) [OF that] by (simp add: steps_left_def)
  ultimately show "1280 \<le> n \<longrightarrow> served i t" using rank by force
  show "(\<exists>r. os_pcs t i = SubReturned r) \<or> (\<exists>t'. caller_step i t t') \<or> (\<exists>t'. loop_step polled released t t')"
    using caller_unblocked [of t i] loop_never_blocked [of t] by blast
qed

lemma submit_answered_in_bounded_steps_witness:
  "\<exists>t. op_run_steps id id sent_one 1280 t \<and> served 0 t"
proof -
  have w: "os_pcs sent_one 0 = SubWait" "\<not> os_stopCh sent_one" "os_loop sent_one \<notin> {LQuiesce, LAnswer, LDone}"
    by (simp_all add: one_simps)
  obtain t where t: "op_run_steps id id sent_one 1280 t" using worker_goes_on [OF w(2,3)] by blast
  with submit_answered_in_bounded_steps [OF sent_one_run w(1) t] show ?thesis by auto
qed

end
