(* ===== verification/Mode2Data.thy ===== *)
theory Mode2Data
  imports Mode2Wait
begin

text \<open>
  The data of Mode 2: what a blocking read, write or datagram call returns is what VLS answered to one call on
  the thread of the worker that owns the session, made right after the worker had checked that it does.
\<close>

text \<open>The last two calls in the history of \<open>h\<close>'s owner: VLS says who owns the raw session, the worker itself, and
  the call \<open>c\<close> on it is answered \<open>r\<close>.\<close>

definition owner_call :: "handle \<Rightarrow> mode2 \<Rightarrow> (handle \<Rightarrow> vls_call) \<Rightarrow> vls_reply \<Rightarrow> bool" where
  "owner_call h s c r \<longleftrightarrow> (\<exists>i raw q w. map_of (owners s) h = Some (SessionRef i raw)
     \<and> hist (workers s ! i) = (c raw, r) # (VlsSessionWorker raw, q) # w \<and> snd (r_idx q) = vclIndex (workers s ! i))"

text \<open>A retry loop that succeeds returns what its last attempt returned.\<close>

lemma m2_retry_success:
  assumes "m2_retry V E attempt h ev fuel s = (Some (Inr x), s')"
  shows "\<exists>s1. attempt s1 = (Inr x, s')"
  using assms
proof (induction fuel arbitrary: s)
  case (Suc fuel)
  obtain q p where a: "attempt s = (q, p)" by (rule prod.exhaust)
  show ?case
  proof (cases q)
    case (Inr y)
    with Suc.prems a show ?thesis by (intro exI [of _ s]) simp
  next
    case (Inl e)
    obtain ok t where "mode2_pollWaitContext V E h ev p = (ok, t)" by (rule prod.exhaust)
    with Suc a Inl show ?thesis by (cases ok; cases "waitInterruptedError E h t") (auto split: if_splits)
  qed
qed simp

lemma submit_success: "submit F f s = (Inr x, s') \<Longrightarrow> f s = (Inr x, s')"
  by (auto simp: submit_def split: if_splits submit_fate.splits)

lemma ownedRaw_success:
  assumes "ownedRaw V h expected w = (Inr raw, w')"
  shows "raw = expected \<and> (\<exists>q. hist w' = (VlsSessionWorker raw, q) # hist w \<and> snd (r_idx q) = vclIndex w') \<and> vclIndex w' = vclIndex w"
  using assms
  by (auto simp: ownedRaw_def checkOwnership_def on_worker_def rawSessionWorker_def vclpoll_session_worker_def Let_def
      split: if_splits sum.splits)

text \<open>A session call that succeeds made one call of VLS, if its operation makes one.\<close>

lemma sessionCall_success:
  assumes ok: "mode2_ok s'" and run: "sessionCall V F h (\<lambda>C raw. on_worker (op C raw)) s = (Inr x, s')"
    and op: "\<And>C raw w. run_state (op C raw) w = (f (vls C w (c raw)), (c raw, vls C w (c raw)) # w)"
  shows "\<exists>r. owner_call h s' c r \<and> f r = Inr x"
proof -
  from run obtain i raw where look: "map_of (owners s) h = Some (SessionRef i raw)"
    by (auto simp: sessionCall_def with_lookup_def lookup_def split: option.splits owner.splits)
  with run have "submit F (at_worker i (\<lambda>w. case ownedRaw (V i) h raw w of
      (Inl e, w) \<Rightarrow> (Inl e, w) | (Inr raw, w) \<Rightarrow> on_worker (op (V i) raw) w)) s = (Inr x, s')"
    by (simp add: sessionCall_def with_lookup_def lookup_def)
  note at = submit_success [OF this]
  obtain q w where own: "ownedRaw (V i) h raw (workers s ! i) = (q, w)" by (rule prod.exhaust)
  with at obtain raw' where q: "q = Inr raw'" by (cases q) (auto simp: at_worker_def)
  from ownedRaw_success [OF own [unfolded q]] obtain a where a: "raw' = raw" "hist w = (VlsSessionWorker raw, a) # hist (workers s ! i)"
    "snd (r_idx a) = vclIndex w" by blast
  let ?r = "vls (V i) (hist w) (c raw)"
  from at own q a(1) have s': "s' = s\<lparr>workers := (workers s)[i := w\<lparr>hist := (c raw, ?r) # hist w\<rparr>]\<rparr>" and fr: "f ?r = Inr x"
    by (auto simp: at_worker_def on_worker_def op)
  from s' look ok have i: "i < length (workers s)" using mode2_okD(3) [OF ok, of h i raw] by simp
  have "owner_call h s' c ?r"
    unfolding owner_call_def using look i a by (intro exI [of _ i] exI [of _ raw] exI [of _ a]) (simp add: s')
  with fr show ?thesis by blast
qed

text \<open>Each raw operation makes one call, unless the buffer is empty.\<close>

lemma raw_io_runs:
  "p \<noteq> [] \<Longrightarrow> run_state (rawWrite C raw p) w
     = (let r = vls C w (VlsWrite raw p) in (rv_result ''write'' (rv r) (nat (rv r)), (VlsWrite raw p, r) # w))"
  "0 < n \<Longrightarrow> run_state (rawRead C raw n) w
     = (let r = vls C w (VlsRead raw n) in (rv_result ''read'' (rv r) (copy_into (nat (rv r)) (r_data r)), (VlsRead raw n, r) # w))"
  "p \<noteq> [] \<Longrightarrow> run_state (rawSendTo C raw p a) w
     = (let c = VlsSendTo raw p \<lparr>ep_is_ip4 = ai_IsV4 a, ep_ip = ai_IP a, ep_port = portBE (ai_Port a)\<rparr>; r = vls C w c
        in (rv_result ''sendto'' (rv r) (nat (rv r)), (c, r) # w))"
  "0 < n \<Longrightarrow> run_state (rawRecvFrom C raw n) w
     = (let r = vls C w (VlsRecvFrom raw n)
        in (if rv r < 0 then Inl (vpp_error ''recvfrom'' (rv r))
            else Inr (copy_into (nat (rv r)) (r_data r), case ep_out r of (ip, port, is4) \<Rightarrow> addrInfoFromC ip port is4),
            (VlsRecvFrom raw n, r) # w))"
  by (simp_all add: rawWrite_def vclpoll_write_def rawRead_def vclpoll_read_def rawSendTo_def vclpoll_sendto_def
      rawRecvFrom_def vclpoll_recvfrom_def case_prod_beta Let_def)

text \<open>C11. In Mode 2 a blocking read, write or datagram call that succeeds is one VLS call by the session's owner,
  each of the four by itself: its result is what VLS answered, on the owner's thread and for the raw session
  behind the handle, to the last of its attempts, which the owner made right after VLS had confirmed that the
  session is its own. The bytes offered are those of the caller; the bytes returned, as many as VLS says it read,
  are those VLS delivered. Datagrams likewise, with their addresses. (An empty buffer makes no call.) What others
  do while the call is parked is arbitrary, if it leaves the dispatcher's invariant.\<close>

theorem mode2_io_is_owner_call:
  assumes "mode2_ok s'"
  shows "(mode2_writeContext V E h p fuel s = (Some (Inr n), s') \<and> p \<noteq> [] \<longrightarrow>
       (\<exists>r. owner_call h s' (\<lambda>raw. VlsWrite raw p) r \<and> rv r = int n))
    \<and> (mode2_readContext V E h len fuel s = (Some (Inr bs), s') \<and> 0 < len \<longrightarrow>
       (\<exists>r. owner_call h s' (\<lambda>raw. VlsRead raw len) r \<and> rv r = int (length bs) \<and> bs = copy_into (length bs) (r_data r)))
    \<and> (mode2_sendToContext V E h p a fuel s = (Some (Inr n), s') \<and> p \<noteq> [] \<longrightarrow>
       (\<exists>r. owner_call h s' (\<lambda>raw. VlsSendTo raw p \<lparr>ep_is_ip4 = ai_IsV4 a, ep_ip = ai_IP a, ep_port = portBE (ai_Port a)\<rparr>) r
          \<and> rv r = int n))
    \<and> (mode2_recvFromContext V E h len fuel s = (Some (Inr (bs, src)), s') \<and> 0 < len \<longrightarrow>
       (\<exists>r. owner_call h s' (\<lambda>raw. VlsRecvFrom raw len) r \<and> rv r = int (length bs) \<and> bs = copy_into (length bs) (r_data r)
          \<and> src = (case ep_out r of (ip, port, is4) \<Rightarrow> addrInfoFromC ip port is4)))"
proof (intro conjI impI; elim conjE)
  assume wr: "mode2_writeContext V E h p fuel s = (Some (Inr n), s')" "p \<noteq> []"
  from m2_retry_success [OF wr(1) [unfolded mode2_writeContext_def]] obtain t where
    "sessionCall V (we_fate E) h (\<lambda>C raw. on_worker (rawWrite C raw p)) t = (Inr n, s')" by (auto simp: write_attempt_def)
  from sessionCall_success [OF assms this, where c = "\<lambda>raw. VlsWrite raw p" and f = "\<lambda>r. rv_result ''write'' (rv r) (nat (rv r))"] wr(2)
  show "\<exists>r. owner_call h s' (\<lambda>raw. VlsWrite raw p) r \<and> rv r = int n"
    by (auto simp: raw_io_runs Let_def rv_result_Inr)
next
  assume rd: "mode2_readContext V E h len fuel s = (Some (Inr bs), s')" "0 < len"
  from m2_retry_success [OF rd(1) [unfolded mode2_readContext_def]] obtain t where
    "sessionCall V (we_fate E) h (\<lambda>C raw. on_worker (rawRead C raw len)) t = (Inr bs, s')" by (auto simp: read_attempt_def)
  from sessionCall_success [OF assms this, where c = "\<lambda>raw. VlsRead raw len"
      and f = "\<lambda>r. rv_result ''read'' (rv r) (copy_into (nat (rv r)) (r_data r))"] rd(2)
  show "\<exists>r. owner_call h s' (\<lambda>raw. VlsRead raw len) r \<and> rv r = int (length bs) \<and> bs = copy_into (length bs) (r_data r)"
    by (auto simp: raw_io_runs Let_def rv_result_Inr)
next
  let ?c = "\<lambda>raw. VlsSendTo raw p \<lparr>ep_is_ip4 = ai_IsV4 a, ep_ip = ai_IP a, ep_port = portBE (ai_Port a)\<rparr>"
  assume sd: "mode2_sendToContext V E h p a fuel s = (Some (Inr n), s')" "p \<noteq> []"
  from m2_retry_success [OF sd(1) [unfolded mode2_sendToContext_def]] obtain t where
    "sessionCall V (we_fate E) h (\<lambda>C raw. on_worker (rawSendTo C raw p a)) t = (Inr n, s')" by (auto simp: sendTo_attempt_def)
  from sessionCall_success [OF assms this, where c = ?c and f = "\<lambda>r. rv_result ''sendto'' (rv r) (nat (rv r))"] sd(2)
  show "\<exists>r. owner_call h s' ?c r \<and> rv r = int n"
    by (auto simp: raw_io_runs Let_def rv_result_Inr)
next
  assume rc: "mode2_recvFromContext V E h len fuel s = (Some (Inr (bs, src)), s')" "0 < len"
  from m2_retry_success [OF rc(1) [unfolded mode2_recvFromContext_def]] obtain t where
    "sessionCall V (we_fate E) h (\<lambda>C raw. on_worker (rawRecvFrom C raw len)) t = (Inr (bs, src), s')" by (auto simp: recvFrom_attempt_def)
  from sessionCall_success [OF assms this, where c = "\<lambda>raw. VlsRecvFrom raw len"
      and f = "\<lambda>r. if rv r < 0 then Inl (vpp_error ''recvfrom'' (rv r))
        else Inr (copy_into (nat (rv r)) (r_data r), case ep_out r of (ip, port, is4) \<Rightarrow> addrInfoFromC ip port is4)"] rc(2)
  show "\<exists>r. owner_call h s' (\<lambda>raw. VlsRecvFrom raw len) r \<and> rv r = int (length bs) \<and> bs = copy_into (length bs) (r_data r)
      \<and> src = (case ep_out r of (ip, port, is4) \<Rightarrow> addrInfoFromC ip port is4)"
    by (auto simp: raw_io_runs Let_def split: if_splits)
qed

text \<open>The session 1 of \<open>demo_mode2\<close>: VLS takes and delivers one byte a call.\<close>

lemma demo_session_call:
  assumes "fst (sessionCall (\<lambda>_. demo_cgo) (\<lambda>_. Answered) 1 (\<lambda>C raw. on_worker (op C raw)) demo_mode2) = Inr x"
    and "\<And>C raw ep. leaves_epoll (op C raw) ep"
  shows "\<exists>s'. m2_retry (\<lambda>_. demo_cgo) demo_env (sessionCall (\<lambda>_. demo_cgo) (\<lambda>_. Answered) 1 (\<lambda>C raw. on_worker (op C raw)))
      1 ev 1 demo_mode2 = (Some (Inr x), s') \<and> mode2_ok s'"
proof -
  let ?f = "sessionCall (\<lambda>_. demo_cgo) (\<lambda>_. Answered) 1 (\<lambda>C raw. on_worker (op C raw))"
  obtain s' where s': "?f demo_mode2 = (Inr x, s')" using assms(1) by (cases "?f demo_mode2") auto
  have "mode2_ok s'"
    using session_step [where m = op and h = 1 and V = "\<lambda>_. demo_cgo" and F = "\<lambda>_. Answered", OF demo_mode2_ok assms(2)] s' by (simp add: session_step_def)
  with s' show ?thesis by simp
qed

lemma demo_io:
  "fst (sessionCall (\<lambda>_. demo_cgo) (\<lambda>_. Answered) 1 (\<lambda>C raw. on_worker (rawWrite C raw [7])) demo_mode2) = Inr 1"
  "fst (sessionCall (\<lambda>_. demo_cgo) (\<lambda>_. Answered) 1 (\<lambda>C raw. on_worker (rawRead C raw 10)) demo_mode2) = Inr [0]"
  by (simp_all add: sessionCall_def with_lookup_def lookup_def submit_def at_worker_def ownedRaw_def demo_owned demo_parked_state
      raw_io_runs on_worker_def ok_reply_def copy_into_def case_prod_beta Let_def split: sum.split)

lemma mode2_io_is_owner_call_witness:
  "(\<exists>s' r. mode2_writeContext (\<lambda>_. demo_cgo) demo_env 1 [7] 1 demo_mode2 = (Some (Inr 1), s')
      \<and> owner_call 1 s' (\<lambda>raw. VlsWrite raw [7]) r \<and> rv r = 1)
   \<and> (\<exists>s' r. mode2_readContext (\<lambda>_. demo_cgo) demo_env 1 10 1 demo_mode2 = (Some (Inr [0]), s')
      \<and> owner_call 1 s' (\<lambda>raw. VlsRead raw 10) r \<and> rv r = 1)"
proof -
  from demo_session_call [OF demo_io(1) leaves_data_ops(2), of epollOut] obtain s1 where
    1: "mode2_writeContext (\<lambda>_. demo_cgo) demo_env 1 [7] 1 demo_mode2 = (Some (Inr 1), s1)" "mode2_ok s1"
    by (auto simp: mode2_writeContext_def write_attempt_def)
  from demo_session_call [OF demo_io(2) leaves_data_ops(1), of epollIn] obtain s2 where
    2: "mode2_readContext (\<lambda>_. demo_cgo) demo_env 1 10 1 demo_mode2 = (Some (Inr [0]), s2)" "mode2_ok s2"
    by (auto simp: mode2_readContext_def read_attempt_def)
  from mode2_io_is_owner_call [OF 1(2), THEN conjunct1, THEN mp, OF conjI [OF 1(1)]] have
    "\<exists>r. owner_call 1 s1 (\<lambda>raw. VlsWrite raw [7]) r \<and> rv r = 1" by simp
  moreover from mode2_io_is_owner_call [OF 2(2), THEN conjunct2, THEN conjunct1, THEN mp, OF conjI [OF 2(1)]] have
    "\<exists>r. owner_call 1 s2 (\<lambda>raw. VlsRead raw 10) r \<and> rv r = 1" by auto
  ultimately show ?thesis using 1(1) 2(1) by blast
qed

end
